(* ===== verification/Prelude.thy ===== *)
theory Prelude
  imports Main "HOL-Library.Word"
begin

text \<open>
  Shared vocabulary of the development: the machine types of the Rust source as words, the
  arithmetic and slice operations of the standard library that the source calls, fixed-size slot
  arrays (\<open>[Option<T>; N]\<close>), and the three interfaces that the components implement: a byte-stream
  machine, a fixed-width codec and a state machine with an invariant.

  Conventions. A \<open>usize\<close> index or length is a \<open>nat\<close>; the bytes of a slice or a \<open>Vec\<close> are a list;
  an \<open>Option\<close> or \<open>Result\<close> of the source is an \<open>option\<close> or a sum with the error on the left.
  A computation that may panic (an index out of range) has a result of type
  \<open>'a panicking\<close>, where \<open>None\<close> is the panic.
\<close>

unbundle bit_operations_syntax

type_synonym byte = "8 word"
type_synonym u8 = "8 word"
type_synonym u16 = "16 word"
type_synonym u32 = "32 word"
type_synonym u64 = "64 word"
type_synonym bytes = "8 word list"
type_synonym 'a panicking = "'a option"

named_theorems word_nat \<open>machine arithmetic read as natural numbers\<close>
named_theorems slot_simps \<open>fixed-size slot arrays\<close>

section \<open>Machine arithmetic of the standard library\<close>

definition saturating_add :: "'n::len word \<Rightarrow> 'n word \<Rightarrow> 'n word" where
  "saturating_add a b = (if unat a + unat b < 2 ^ LENGTH('n) then a + b else - 1)"

definition saturating_sub :: "'n::len word \<Rightarrow> 'n word \<Rightarrow> 'n word" where
  "saturating_sub a b = (if b \<le> a then a - b else 0)"

lemma unat_saturating_add [word_nat]:
  "unat (saturating_add a b) = min (unat a + unat b) (2 ^ LENGTH('n) - 1)"
  for a b :: "'n::len word"
proof -
  have "unat (- 1 :: 'n word) = 2 ^ LENGTH('n) - 1"
    by (simp add: unsigned_minus_1_eq_mask mask_eq_exp_minus_1)
  then show ?thesis
    by (auto simp: saturating_add_def unat_word_ariths)
qed

lemma unat_saturating_sub [word_nat]:
  "unat (saturating_sub a b) = unat a - unat b" for a b :: "'n::len word"
  by (auto simp: saturating_sub_def unat_sub word_le_nat_alt)

lemma saturating_add_ge: "a \<le> saturating_add a b" for a b :: "'n::len word"
proof -
  have "unat a < 2 ^ LENGTH('n)"
    by (rule unsigned_less)
  then have "unat a \<le> 2 ^ LENGTH('n) - 1"
    by linarith
  then show ?thesis
    by (simp only: word_le_nat_alt unat_saturating_add)
qed

lemma unat_u8_le: "unat w \<le> 255" for w :: u8
proof -
  have "unat w < 2 ^ LENGTH(8)"
    by (rule unsigned_less)
  then show ?thesis
    by simp
qed

text \<open>\<open>u16::from_be_bytes\<close>, the \<open>as u8\<close> casts that build the two bytes, and their round trip.\<close>

definition be16 :: "byte \<Rightarrow> byte \<Rightarrow> u16" where
  "be16 hi lo = push_bit 8 (ucast hi) OR ucast lo"

definition hi8 :: "u16 \<Rightarrow> byte" where
  "hi8 w = ucast (drop_bit 8 w)"

definition lo8 :: "u16 \<Rightarrow> byte" where
  "lo8 w = ucast (w AND 0xFF)"

lemma FF_mask: "(0xFF :: 'n::len word) = mask 8"
  by (simp add: mask_eq_exp_minus_1)

lemma be16_hi8_lo8 [simp]: "be16 (hi8 w) (lo8 w) = w"
  by (rule bit_word_eqI) (auto simp: be16_def hi8_def lo8_def FF_mask bit_simps)

lemma hi8_be16 [simp]: "hi8 (be16 h l) = h"
  by (rule bit_word_eqI) (auto simp: be16_def hi8_def bit_simps dest: bit_imp_le_length)

lemma lo8_be16 [simp]: "lo8 (be16 h l) = l"
  by (rule bit_word_eqI) (auto simp: be16_def lo8_def FF_mask bit_simps)

lemma word_xor_cancel [simp]:
  "a XOR c = b XOR c \<longleftrightarrow> a = b" "c XOR a = c XOR b \<longleftrightarrow> a = b" for a b c :: "'n::len word"
  by (metis xor.assoc xor.commute xor.right_neutral xor_self_eq)+

section \<open>Slices and bounded writes\<close>

text \<open>\<open>dst[i] = b\<close>: a write outside the slice panics.\<close>

definition put :: "bytes \<Rightarrow> nat \<Rightarrow> byte \<Rightarrow> bytes panicking" where
  "put dst i b = (if i < length dst then Some (dst[i := b]) else None)"

text \<open>\<open>dst[off..off + n].copy_from_slice(bs)\<close>, and a run of single writes from \<open>off\<close> on.\<close>

definition overwrite :: "'a list \<Rightarrow> nat \<Rightarrow> 'a list \<Rightarrow> 'a list" where
  "overwrite dst off bs = take off dst @ bs @ drop (off + length bs) dst"

lemma length_overwrite [simp]:
  "off + length bs \<le> length dst \<Longrightarrow> length (overwrite dst off bs) = length dst"
  by (simp add: overwrite_def)

lemma take_overwrite [simp]: "off + length bs \<le> length dst \<Longrightarrow>
    take (off + length bs) (overwrite dst off bs) = take off dst @ bs"
  by (simp add: overwrite_def)

lemma overwrite_overwrite: "off + length bs \<le> length dst \<Longrightarrow>
    overwrite (overwrite dst off bs) (off + length bs) cs = overwrite dst off (bs @ cs)"
  by (simp add: overwrite_def ac_simps)

lemma overwrite_Nil [simp]: "overwrite dst off [] = dst"
  by (simp add: overwrite_def)

lemma put_overwrite: "off < length dst \<Longrightarrow> put dst off b = Some (overwrite dst off [b])"
  by (simp add: put_def overwrite_def upd_conv_take_nth_drop)

text \<open>
  A writer over a caller's buffer: the buffer after the call and its \<open>Option\<close> result, or a panic.
  \<open>try_write\<close> is the \<open>?\<close> after such a call.
\<close>

type_synonym 'a writer = "(bytes \<times> 'a option) panicking"

definition try_write :: "'a writer \<Rightarrow> (bytes \<Rightarrow> 'a \<Rightarrow> 'b writer) \<Rightarrow> 'b writer" where
  "try_write m k =
     (case m of
        None \<Rightarrow> None
      | Some (d, None) \<Rightarrow> Some (d, None)
      | Some (d, Some a) \<Rightarrow> k d a)"

text \<open>
  \<open>f(&mut dst[off..])\<close>: taking the subslice panics past the end. A function that checks its length
  first and returns \<open>Option<()>\<close> is lifted to a writer. \<open>fills W bs r\<close> is the contract of the
  encoders: refuse a buffer shorter than the encoding, else write it in front and return \<open>r\<close>.
\<close>

definition sub_write :: "nat \<Rightarrow> (bytes \<Rightarrow> 'a writer) \<Rightarrow> bytes \<Rightarrow> 'a writer" where
  "sub_write off W dst =
     (if length dst < off then None
      else case W (drop off dst) of None \<Rightarrow> None | Some (d, r) \<Rightarrow> Some (take off dst @ d, r))"

definition lift_write :: "(bytes \<Rightarrow> bytes option) \<Rightarrow> bytes \<Rightarrow> unit writer" where
  "lift_write w dst = (case w dst of None \<Rightarrow> Some (dst, None) | Some d \<Rightarrow> Some (d, Some ()))"

definition write_byte :: "nat \<Rightarrow> byte \<Rightarrow> bytes \<Rightarrow> unit writer" where
  "write_byte i b dst = map_option (\<lambda>d. (d, Some ())) (put dst i b)"

definition fills :: "(bytes \<Rightarrow> 'a writer) \<Rightarrow> bytes \<Rightarrow> 'a \<Rightarrow> bool" where
  "fills W bs r \<longleftrightarrow>
     (\<forall>dst. W dst = (if length dst < length bs then Some (dst, None)
                     else Some (overwrite dst 0 bs, Some r)))"

lemma fillsD:
  assumes "fills W bs r"
  shows "length bs \<le> length dst \<Longrightarrow> W dst = Some (overwrite dst 0 bs, Some r)"
    and "length dst < length bs \<Longrightarrow> W dst = Some (dst, None)"
  using assms by (auto simp: fills_def)

lemma fills_lift:
  assumes "\<And>dst. w dst = (if length dst < length bs then None else Some (overwrite dst 0 bs))"
  shows "fills (lift_write w) bs ()"
  by (simp add: fills_def lift_write_def assms)

lemma sub_write_fills:
  assumes "fills W bs r" "off + length bs \<le> length dst"
  shows "sub_write off W dst = Some (overwrite dst off bs, Some r)"
  using assms by (simp add: sub_write_def fillsD(1) overwrite_def add.commute)

lemma write_byte_eq: "i < length dst \<Longrightarrow> write_byte i b dst = Some (overwrite dst i [b], Some ())"
  by (simp add: write_byte_def put_overwrite)

text \<open>Consecutive writes into one buffer are the write of the concatenation.\<close>

lemma sub_write_next:
  assumes "fills W cs r" "off = length bs" "length bs + length cs \<le> length dst"
  shows "try_write (sub_write off W (overwrite dst 0 bs)) k = k (overwrite dst 0 (bs @ cs)) r"
  using assms overwrite_overwrite [of 0 bs dst cs] by (simp add: sub_write_fills try_write_def)

lemma write_byte_next:
  assumes "off = length bs" "length bs < length dst"
  shows "try_write (write_byte off b (overwrite dst 0 bs)) k = k (overwrite dst 0 (bs @ [b])) ()"
  using assms overwrite_overwrite [of 0 bs dst "[b]"] by (simp add: write_byte_eq try_write_def)

lemma sub_write_first:
  assumes "fills W cs r" "length cs \<le> length dst"
  shows "try_write (sub_write 0 W dst) k = k (overwrite dst 0 cs) r"
  using assms by (simp add: sub_write_fills try_write_def)

section \<open>Fixed-size slot arrays\<close>

text \<open>
  \<open>[Option<T>; N]\<close> is a list of options whose length never changes. \<open>slot_position p\<close> is
  \<open>iter().position(|s| s.is_some_and(p))\<close>, \<open>slot_free\<close> is \<open>position(Option::is_none)\<close>, and
  \<open>slot_items\<close> is \<open>iter().flatten()\<close>.
\<close>

fun slot_position :: "('a \<Rightarrow> bool) \<Rightarrow> 'a option list \<Rightarrow> nat option" where
  "slot_position p [] = None"
| "slot_position p (s # ss) =
     (case s of
        Some x \<Rightarrow> (if p x then Some 0 else map_option Suc (slot_position p ss))
      | None \<Rightarrow> map_option Suc (slot_position p ss))"

fun slot_free :: "'a option list \<Rightarrow> nat option" where
  "slot_free [] = None"
| "slot_free (s # ss) = (if s = None then Some 0 else map_option Suc (slot_free ss))"

definition slot_items :: "'a option list \<Rightarrow> 'a list" where
  "slot_items ss = List.map_filter id ss"

lemma slot_items_simps [simp]:
  "slot_items [] = []"
  "slot_items (None # ss) = slot_items ss"
  "slot_items (Some x # ss) = x # slot_items ss"
  by (simp_all add: slot_items_def List.map_filter_def)

lemma slot_items_append [simp]: "slot_items (xs @ ys) = slot_items xs @ slot_items ys"
  by (simp add: slot_items_def List.map_filter_def)

lemma set_map_filter: "set (List.map_filter f xs) = {y. \<exists>x \<in> set xs. f x = Some y}"
  by (induction xs) (auto simp: List.map_filter_def)

lemma set_slot_items [slot_simps]: "x \<in> set (slot_items ss) \<longleftrightarrow> Some x \<in> set ss"
  by (induction ss) (auto split: option.splits simp: slot_items_def List.map_filter_def)

lemma slot_items_empty [slot_simps]: "slot_items (replicate n None) = []"
  by (induction n) simp_all

lemma length_slot_items: "length (slot_items ss) \<le> length ss"
  by (simp add: slot_items_def List.map_filter_def le_trans [OF length_filter_le])

lemma slot_position_Some:
  "slot_position p ss = Some i \<Longrightarrow> i < length ss \<and> (\<exists>x. ss ! i = Some x \<and> p x)"
  by (induction ss arbitrary: i) (auto split: option.splits if_splits)

lemma slot_position_None: "slot_position p ss = None \<longleftrightarrow> (\<forall>x \<in> set (slot_items ss). \<not> p x)"
  by (induction ss) (auto split: option.splits)

lemma slot_free_Some: "slot_free ss = Some i \<Longrightarrow> i < length ss \<and> ss ! i = None"
  by (induction ss arbitrary: i) (auto split: if_splits)

lemma slot_free_None: "slot_free ss = None \<longleftrightarrow> length (slot_items ss) = length ss"
proof (induction ss)
  case (Cons s ss)
  show ?case
    using Cons.IH length_slot_items [of ss] by (cases s) auto
qed simp

lemma slot_items_split:
  assumes "i < length ss"
  shows "slot_items ss = slot_items (take i ss) @ slot_items [ss ! i] @ slot_items (drop (Suc i) ss)"
  using assms by (metis append_Cons append_Nil id_take_nth_drop slot_items_append)

lemma slot_items_update:
  assumes "i < length ss"
  shows "slot_items (ss[i := s]) =
    slot_items (take i ss) @ slot_items [s] @ slot_items (drop (Suc i) ss)"
  using assms by (metis append_Cons append_Nil slot_items_append upd_conv_take_nth_drop)

section \<open>Interfaces\<close>

text \<open>
  A machine that consumes a stream in chunks and emits what each chunk completed. Its law is that
  the chunked operation is the item-by-item one, so how a transport cuts the stream is
  unobservable.
\<close>

locale stream_machine =
  fixes step :: "'s \<Rightarrow> 'i \<Rightarrow> 's \<times> 'o list"
    and push :: "'s \<Rightarrow> 'i list \<Rightarrow> 's \<times> 'o list"
  assumes push_Nil: "push s [] = (s, [])"
    and push_Cons: "push s (i # is) =
      (fst (push (fst (step s i)) is), snd (step s i) @ snd (push (fst (step s i)) is))"
begin

lemma push_append:
  "push s (is @ js) =
    (fst (push (fst (push s is)) js), snd (push s is) @ snd (push (fst (push s is)) js))"
  by (induction "is" arbitrary: s) (simp_all add: push_Nil push_Cons)

lemma push_chunks:
  "fold (\<lambda>c (s, out). (fst (push s c), out @ snd (push s c))) cs (s, out) =
    (fst (push s (concat cs)), out @ snd (push s (concat cs)))"
  by (induction cs arbitrary: s out) (simp_all add: push_Nil push_append)

lemma push_invariant:
  assumes "\<And>s i. I s \<Longrightarrow> I (fst (step s i))" and "I s"
  shows "I (fst (push s is))"
  using assms(2)
proof (induction "is" arbitrary: s)
  case (Cons i "is")
  have "I (fst (step s i))"
    using Cons.prems by (rule assms(1))
  then show ?case
    using Cons.IH by (simp add: push_Cons)
qed (simp add: push_Nil)

lemma push_outputs:
  assumes "\<And>s i. I s \<Longrightarrow> I (fst (step s i))"
    and "\<And>s i x. I s \<Longrightarrow> x \<in> set (snd (step s i)) \<Longrightarrow> Q x"
    and "I s" and "x \<in> set (snd (push s is))"
  shows "Q x"
  using assms(3,4)
proof (induction "is" arbitrary: s)
  case (Cons i "is")
  then show ?case
    using assms(1,2) by (auto simp: push_Cons)
qed (simp add: push_Nil)

end

text \<open>
  A record type with a fixed-width encoding: \<open>enc\<close> writes exactly \<open>width\<close> bytes, \<open>dec\<close> reads
  them from the front of a slice whatever follows, and refuses a slice that is too short.
\<close>

locale fixed_codec =
  fixes enc :: "'a \<Rightarrow> 'b list"
    and dec :: "'b list \<Rightarrow> 'a option"
    and wf :: "'a \<Rightarrow> bool"
    and width :: nat
  assumes enc_width: "wf a \<Longrightarrow> length (enc a) = width"
    and dec_enc: "wf a \<Longrightarrow> dec (enc a @ rest) = Some a"
    and dec_short: "length bs < width \<Longrightarrow> dec bs = None"
begin

lemma dec_enc_exact: "wf a \<Longrightarrow> dec (enc a) = Some a"
  using dec_enc [of a "[]"] by simp

lemma enc_inj: "wf a \<Longrightarrow> wf b \<Longrightarrow> enc a = enc b \<Longrightarrow> a = b"
  by (metis dec_enc_exact option.inject)

lemma dec_Some_width: "dec bs = Some a \<Longrightarrow> width \<le> length bs"
  using dec_short [of bs] by (metis leI option.distinct(1))

lemma length_enc_concat:
  "(\<And>a. a \<in> set as \<Longrightarrow> wf a) \<Longrightarrow> length (concat (map enc as)) = length as * width"
  by (induction as) (simp_all add: enc_width)

lemma drop_enc_concat:
  assumes "\<And>a. a \<in> set as \<Longrightarrow> wf a" and "k \<le> length as"
  shows "drop (k * width) (concat (map enc as) @ rest) = concat (map enc (drop k as)) @ rest"
  using assms
proof (induction k arbitrary: as)
  case (Suc k)
  then obtain a as' where as: "as = a # as'"
    by (cases as) auto
  have drop_Suc: "drop (Suc k * width) xs = drop (k * width) (drop width xs)" for xs :: "'b list"
    by (simp add: add.commute)
  have "drop (Suc k * width) (concat (map enc as) @ rest)
      = drop (k * width) (drop width (enc a @ concat (map enc as') @ rest))"
    unfolding drop_Suc by (simp add: as)
  also have "\<dots> = drop (k * width) (concat (map enc as') @ rest)"
    using Suc.prems(1) enc_width [of a] by (simp add: as)
  also have "\<dots> = concat (map enc (drop k as')) @ rest"
    using Suc by (simp add: as)
  finally show ?case
    by (simp add: as)
qed simp

lemma dec_enc_nth:
  assumes "\<And>a. a \<in> set as \<Longrightarrow> wf a" and "k < length as"
  shows "dec (drop (k * width) (concat (map enc as) @ rest)) = Some (as ! k)"
proof -
  have "drop k as = as ! k # drop (Suc k) as"
    using assms(2) by (simp add: Cons_nth_drop_Suc)
  then have "drop (k * width) (concat (map enc as) @ rest)
      = enc (as ! k) @ concat (map enc (drop (Suc k) as)) @ rest"
    using drop_enc_concat [of as k] assms by simp
  then show ?thesis
    using dec_enc [of "as ! k"] assms nth_mem by metis
qed

end

text \<open>A codec that loses nothing: every decodable slice starts with the encoding it decodes to.\<close>

locale exact_codec = fixed_codec +
  assumes enc_dec: "dec bs = Some a \<Longrightarrow> wf a \<and> take width bs = enc a"
begin

lemma dec_iff: "dec bs = Some a \<longleftrightarrow> wf a \<and> (\<exists>rest. bs = enc a @ rest)"
  using enc_dec dec_enc append_take_drop_id by metis

end

text \<open>A deterministic state machine and an invariant that each of its operations preserves.\<close>

locale state_machine =
  fixes step :: "'e \<Rightarrow> 's \<Rightarrow> 's"
    and inv :: "'s \<Rightarrow> bool"
  assumes step_inv: "inv s \<Longrightarrow> inv (step e s)"
begin

lemma run_inv: "inv s \<Longrightarrow> inv (fold step es s)"
  by (induction es arbitrary: s) (simp_all add: step_inv)

lemma run_each: "inv s \<Longrightarrow> inv (fold step (take n es) s)"
  by (rule run_inv)

end

end
