(* ===== verification/Crc16.thy ===== *)
theory Crc16
  imports Prelude
begin

text \<open>
  CRC-16/X.25, the frame check sequence (\<open>crc.rs\<close>): the running register, its update by a byte
  and by a slice, and the check value. The lemmas show that the register update is linear and
  injective, from which the detection properties follow.
\<close>

section \<open>The register (\<open>Crc16\<close>)\<close>

definition REFLECTED_POLYNOMIAL :: u16 where
  "REFLECTED_POLYNOMIAL = 0x8408"

text \<open>One turn of the inner loop, then the loop body for one byte.\<close>

definition crc_bit :: "u16 \<Rightarrow> u16" where
  "crc_bit crc =
     (if crc AND 1 \<noteq> 0 then drop_bit 1 crc XOR REFLECTED_POLYNOMIAL else drop_bit 1 crc)"

definition crc_byte :: "u16 \<Rightarrow> byte \<Rightarrow> u16" where
  "crc_byte crc b = (crc_bit ^^ 8) (crc XOR ucast b)"

definition crc_new :: u16 where
  "crc_new = 0xFFFF"

fun crc_update :: "u16 \<Rightarrow> bytes \<Rightarrow> u16" where
  "crc_update crc [] = crc"
| "crc_update crc (b # bs) = crc_update (crc_byte crc b) bs"

definition crc_finish :: "u16 \<Rightarrow> u16" where
  "crc_finish crc = crc XOR 0xFFFF"

definition crc_compute :: "bytes \<Rightarrow> u16" where
  "crc_compute data = crc_finish (crc_update crc_new data)"

section \<open>Linearity and injectivity of the register update\<close>

lemma and_1_iff: "w AND 1 \<noteq> 0 \<longleftrightarrow> bit w 0" for w :: u16
  by (simp add: and_one_eq odd_iff_mod_2_eq_one bit_0)

lemma crc_bit_alt: "crc_bit c = drop_bit 1 c XOR (if bit c 0 then REFLECTED_POLYNOMIAL else 0)"
  by (simp add: crc_bit_def and_1_iff)

lemma drop_bit_xor: "drop_bit n (a XOR b) = drop_bit n a XOR drop_bit n b" for a b :: u16
  by (rule bit_word_eqI) (simp add: bit_simps)

lemma crc_bit_xor: "crc_bit (a XOR b) = crc_bit a XOR crc_bit b"
  unfolding crc_bit_alt drop_bit_xor by (rule bit_word_eqI) (auto simp: bit_simps)

lemma crc_bits_xor: "(crc_bit ^^ n) (a XOR b) = (crc_bit ^^ n) a XOR (crc_bit ^^ n) b"
  by (induction n) (simp_all add: crc_bit_xor)

text \<open>Evaluation: the bits are turned one at a time, each on a register already computed.\<close>

lemma crc_bits_numeral: "(crc_bit ^^ numeral k) c = (crc_bit ^^ pred_numeral k) (crc_bit c)"
  by (simp only: numeral_eq_Suc funpow.simps funpow_swap1 o_apply)

lemmas crc_eval = crc_bits_numeral crc_bit_def REFLECTED_POLYNOMIAL_def

lemma bit_poly: "bit REFLECTED_POLYNOMIAL 15"
  by (simp add: REFLECTED_POLYNOMIAL_def)

lemma crc_bit_zero: "crc_bit c = 0 \<Longrightarrow> c = 0"
proof -
  assume z: "crc_bit c = 0"
  have top: "bit (crc_bit c) 15 = bit c 0"
    using bit_poly by (auto simp: crc_bit_alt bit_simps dest: bit_imp_le_length)
  then have b0: "\<not> bit c 0"
    using z by simp
  then have d: "drop_bit 1 c = 0"
    using z by (simp add: crc_bit_alt)
  show "c = 0"
  proof (rule bit_word_eqI)
    fix n assume "n < LENGTH(16)"
    show "bit c n = bit (0 :: u16) n"
    proof (cases n)
      case (Suc m)
      have "bit (drop_bit 1 c) m = bit (0 :: u16) m"
        using d by simp
      then show ?thesis
        by (simp add: Suc bit_simps)
    qed (use b0 in simp)
  qed
qed

lemma crc_bits_zero: "(crc_bit ^^ n) c = 0 \<Longrightarrow> c = 0"
  by (induction n) (auto dest: crc_bit_zero)

lemma crc_bits_inj: "(crc_bit ^^ n) a = (crc_bit ^^ n) b \<longleftrightarrow> a = b"
proof
  assume "(crc_bit ^^ n) a = (crc_bit ^^ n) b"
  then have "(crc_bit ^^ n) (a XOR b) = 0"
    by (simp add: crc_bits_xor)
  then have "a XOR b = b XOR b"
    using crc_bits_zero [of n "a XOR b"] by simp
  then show "a = b"
    by (simp only: word_xor_cancel)
qed simp

lemma crc_byte_inj: "crc_byte a b = crc_byte a' b \<longleftrightarrow> a = a'"
  by (simp add: crc_byte_def crc_bits_inj)

lemma crc_update_inj: "crc_update a bs = crc_update a' bs \<longleftrightarrow> a = a'"
  by (induction bs arbitrary: a a') (simp_all add: crc_byte_inj)

lemma crc_update_append: "crc_update c (xs @ ys) = crc_update (crc_update c xs) ys"
  by (induction xs arbitrary: c) simp_all

lemma crc_finish_inj: "crc_finish a = crc_finish b \<longleftrightarrow> a = b"
  by (simp add: crc_finish_def)

text \<open>Shifting zero bits out of the register leaves the upper part where the next byte meets it.\<close>

lemma crc_bits_low_zero:
  "n \<le> 8 \<Longrightarrow> \<forall>k < n. \<not> bit c k \<Longrightarrow> (crc_bit ^^ n) c = drop_bit n c"
proof (induction n)
  case (Suc n)
  then have IH: "(crc_bit ^^ n) c = drop_bit n c"
    by simp
  have "\<not> bit (drop_bit n c) 0"
    using Suc.prems(2) by (simp add: bit_simps)
  then have "crc_bit (drop_bit n c) = drop_bit (Suc n) c"
    by (simp add: crc_bit_alt drop_bit_drop_bit)
  then show ?case
    by (simp add: IH)
qed simp

text \<open>Two bytes enter the register as one little-endian half word.\<close>

lemma crc_two_bytes:
  "crc_byte (crc_byte c a) b = (crc_bit ^^ 16) (c XOR be16 b a)"
proof -
  define h :: u16 where "h = push_bit 8 (ucast b)"
  have low: "\<forall>k < 8. \<not> bit h k"
    by (simp add: h_def bit_simps)
  have "drop_bit 8 h = ucast b"
    by (rule bit_word_eqI) (auto simp: h_def bit_simps dest: bit_imp_le_length)
  then have h: "(crc_bit ^^ 8) h = ucast b"
    using crc_bits_low_zero [OF order_refl low] by simp
  have split: "be16 b a = ucast a XOR h"
    by (rule bit_word_eqI) (auto simp: be16_def h_def bit_simps dest: bit_imp_le_length)
  have "(crc_bit ^^ 16) (c XOR be16 b a) = (crc_bit ^^ 8) ((crc_bit ^^ 8) ((c XOR ucast a) XOR h))"
    using funpow_add [of 8 8 crc_bit] by (simp add: split xor.assoc o_def)
  also have "\<dots> = (crc_bit ^^ 8) ((crc_bit ^^ 8) (c XOR ucast a) XOR ucast b)"
    by (simp only: crc_bits_xor [of 8 "c XOR ucast a" h] h)
  finally show ?thesis
    by (simp only: crc_byte_def)
qed

lemma be16_inj: "be16 a b = be16 c d \<longleftrightarrow> a = c \<and> b = d"
  by (metis hi8_be16 lo8_be16)

section \<open>Properties\<close>

text \<open>
  Feeding the data in any pieces, the running CRC ends at the CRC of the whole, and appending
  the transmitted check value (low byte first) leaves the register at the constant X.25 residue.
\<close>

theorem crc_pieces_and_residue:
  "crc_finish (fold (\<lambda>piece c. crc_update c piece) pieces crc_new) = crc_compute (concat pieces) \<and>
   crc_update crc_new (data @ [lo8 (crc_compute data), hi8 (crc_compute data)]) = 0xF0B8"
proof
  have "fold (\<lambda>piece c. crc_update c piece) pieces c = crc_update c (concat pieces)" for c
    by (induction pieces arbitrary: c) (simp_all add: crc_update_append)
  then show "crc_finish (fold (\<lambda>piece c. crc_update c piece) pieces crc_new) =
      crc_compute (concat pieces)"
    by (simp add: crc_compute_def)
next
  define c where "c = crc_update crc_new data"
  have "(crc_bit ^^ 16) 0xFFFF = 0xF0B8"
    by (simp add: crc_eval)
  moreover have "c XOR (c XOR 0xFFFF) = 0xFFFF"
    by (simp flip: xor.assoc)
  ultimately show "crc_update crc_new (data @ [lo8 (crc_compute data), hi8 (crc_compute data)])
      = 0xF0B8"
    by (simp add: crc_update_append crc_two_bytes crc_compute_def crc_finish_def flip: c_def)
qed

text \<open>
  Two messages that differ only within two adjacent bytes (any error burst of that extent)
  have different check values.
\<close>

theorem crc_detects_adjacent_errors:
  "crc_compute (xs @ [a, b] @ ys) = crc_compute (xs @ [a', b'] @ ys) \<longleftrightarrow> a = a' \<and> b = b'"
proof -
  have "crc_compute (xs @ [a, b] @ ys) = crc_compute (xs @ [a', b'] @ ys) \<longleftrightarrow>
      crc_update (crc_update crc_new xs) [a, b] = crc_update (crc_update crc_new xs) [a', b']"
    by (simp only: crc_compute_def crc_finish_inj crc_update_append crc_update_inj)
  also have "\<dots> \<longleftrightarrow> be16 b a = be16 b' a'"
    by (simp add: crc_two_bytes crc_bits_inj)
  finally show ?thesis
    by (auto simp: be16_inj)
qed

lemma crc_check_value: "crc_compute [0x31,0x32,0x33,0x34,0x35,0x36,0x37,0x38,0x39] = 0x906E"
  by (simp add: crc_compute_def crc_finish_def crc_new_def crc_byte_def crc_eval)

end
