(* ===== verification/Kiss_Frame.thy ===== *)
theory Kiss_Frame
  imports Prelude
begin

text \<open>
  KISS constants, command codes and the decoded frame (\<open>kiss/frame.rs\<close>).
\<close>

definition FEND :: byte where "FEND = 0xC0"
definition FESC :: byte where "FESC = 0xDB"
definition TFEND :: byte where "TFEND = 0xDC"
definition TFESC :: byte where "TFESC = 0xDD"

lemmas kiss_consts = FEND_def FESC_def TFEND_def TFESC_def

datatype command =
    Data
  | TxDelay
  | Persistence
  | SlotTime
  | TxTail
  | FullDuplex
  | SetHardware
  | AckMode
  | Poll
  | Other byte

definition from_nibble :: "byte \<Rightarrow> command" where
  "from_nibble nibble =
     (let n = nibble AND 0x0F in
      if n = 0x0 then Data
      else if n = 0x1 then TxDelay
      else if n = 0x2 then Persistence
      else if n = 0x3 then SlotTime
      else if n = 0x4 then TxTail
      else if n = 0x5 then FullDuplex
      else if n = 0x6 then SetHardware
      else if n = 0xC then AckMode
      else if n = 0xE then Poll
      else Other n)"

fun to_nibble :: "command \<Rightarrow> byte" where
  "to_nibble Data = 0x0"
| "to_nibble TxDelay = 0x1"
| "to_nibble Persistence = 0x2"
| "to_nibble SlotTime = 0x3"
| "to_nibble TxTail = 0x4"
| "to_nibble FullDuplex = 0x5"
| "to_nibble SetHardware = 0x6"
| "to_nibble AckMode = 0xC"
| "to_nibble Poll = 0xE"
| "to_nibble (Other n) = n AND 0x0F"

record kiss_frame =
  kf_port :: u8
  kf_command :: command
  kf_payload :: bytes

definition frame_new :: "u8 \<Rightarrow> command \<Rightarrow> bytes \<Rightarrow> kiss_frame" where
  "frame_new port cmd payload =
     \<lparr>kf_port = port AND 0x0F, kf_command = cmd, kf_payload = payload\<rparr>"

definition command_byte :: "kiss_frame \<Rightarrow> byte" where
  "command_byte f = push_bit 4 (kf_port f AND 0x0F) OR to_nibble (kf_command f)"

section \<open>Nibbles\<close>

lemma nibble_mask: "(0x0F :: byte) = mask 4"
  by (simp add: mask_eq_exp_minus_1)

lemma nibble_idem [simp]: "(n AND 0x0F) AND 0x0F = n AND (0x0F :: byte)"
  by (simp add: ac_simps)

lemma to_nibble_low [simp]: "to_nibble c AND 0x0F = to_nibble c"
  by (cases c) simp_all

lemma to_nibble_from_nibble [simp]: "to_nibble (from_nibble n) = n AND 0x0F"
  by (simp add: from_nibble_def Let_def)

lemma from_nibble_low [simp]: "from_nibble (n AND 0x0F) = from_nibble n"
  by (simp add: from_nibble_def)

lemma le_15_nibble: "port \<le> 15 \<longleftrightarrow> port AND 0x0F = port" for port :: byte
proof -
  have "port \<le> 15 \<longleftrightarrow> uint port < 2 ^ 4"
    by (simp add: word_le_def) linarith
  then show ?thesis
    unfolding nibble_mask mask_eq_iff .
qed

text \<open>The two halves of a command byte are recovered by the shifts and masks of the decoder.\<close>

lemma command_byte_parts:
  fixes p n :: byte
  shows "drop_bit 4 (push_bit 4 (p AND 0x0F) OR (n AND 0x0F)) AND 0x0F = p AND 0x0F"
    and "(push_bit 4 (p AND 0x0F) OR (n AND 0x0F)) AND 0x0F = n AND 0x0F"
  unfolding nibble_mask by (rule bit_word_eqI; auto simp: bit_simps)+

text \<open>
  A command survives the wire up to the codes that have a name: \<open>Other 0\<close> and \<open>Data\<close> are the
  same nibble.
\<close>

definition canonical :: "command \<Rightarrow> bool" where
  "canonical c \<longleftrightarrow> from_nibble (to_nibble c) = c"

lemma canonical_named [simp]:
  "canonical Data" "canonical TxDelay" "canonical Persistence" "canonical SlotTime"
  "canonical TxTail" "canonical FullDuplex" "canonical SetHardware" "canonical AckMode"
  "canonical Poll"
  by (simp_all add: canonical_def from_nibble_def)

lemma canonical_from_nibble [simp]: "canonical (from_nibble n)"
  by (simp add: canonical_def)

end
