(* ===== verification/Kiss_Encoder.thy ===== *)
theory Kiss_Encoder
  imports Kiss_Frame "HOL-Library.Monad_Syntax"
begin

text \<open>
  The KISS encoder (\<open>kiss/encoder.rs\<close>) and the parameter commands built on it
  (\<open>kiss/params.rs\<close>). The encoder writes byte by byte into a caller's buffer; every write is a
  checked one, so that an index outside the buffer is a panic of the model as of the code. The
  abstract specification is \<open>wire\<close>, the frame's bytes on the line.
\<close>

definition max_encoded_len :: "nat \<Rightarrow> nat" where
  "max_encoded_len payload_len = 4 + payload_len * 2"

text \<open>\<open>write_escaped(&mut dst[i..], b)\<close>: the new buffer and the number of bytes written.\<close>

definition write_escaped :: "bytes \<Rightarrow> nat \<Rightarrow> byte \<Rightarrow> (bytes \<times> nat) panicking" where
  "write_escaped dst i b =
     (if b = FEND then do { d1 \<leftarrow> put dst i FESC; d2 \<leftarrow> put d1 (i + 1) TFEND; Some (d2, 2) }
      else if b = FESC then do { d1 \<leftarrow> put dst i FESC; d2 \<leftarrow> put d1 (i + 1) TFESC; Some (d2, 2) }
      else do { d1 \<leftarrow> put dst i b; Some (d1, 1) })"

fun write_payload :: "bytes \<Rightarrow> nat \<Rightarrow> bytes \<Rightarrow> (bytes \<times> nat) panicking" where
  "write_payload dst i [] = Some (dst, i)"
| "write_payload dst i (b # bs) =
     do { (d, n) \<leftarrow> write_escaped dst i b; write_payload d (i + n) bs }"

text \<open>
  \<open>encode_into\<close>: the buffer after the call, and the returned \<open>Option<usize>\<close>.
\<close>

definition encode_into ::
  "bytes \<Rightarrow> u8 \<Rightarrow> command \<Rightarrow> bytes \<Rightarrow> (bytes \<times> nat option) panicking" where
  "encode_into dst port cmd payload =
     (if port > 15 then Some (dst, None)
      else if length dst < max_encoded_len (length payload) then Some (dst, None)
      else do {
        d1 \<leftarrow> put dst 0 FEND;
        (d2, n) \<leftarrow> write_escaped d1 1 (push_bit 4 (port AND 0x0F) OR to_nibble cmd);
        (d3, i) \<leftarrow> write_payload d2 (1 + n) payload;
        d4 \<leftarrow> put d3 i FEND;
        Some (d4, Some (i + 1))
      })"

definition encode :: "u8 \<Rightarrow> command \<Rightarrow> bytes \<Rightarrow> bytes option panicking" where
  "encode port cmd payload =
     do {
       (buf, r) \<leftarrow> encode_into (replicate (max_encoded_len (length payload)) 0) port cmd payload;
       Some (map_option (\<lambda>n. take n buf) r)
     }"

section \<open>Parameter commands (\<open>kiss/params.rs\<close>)\<close>

definition encode_param_into ::
  "bytes \<Rightarrow> u8 \<Rightarrow> command \<Rightarrow> u8 \<Rightarrow> (bytes \<times> nat option) panicking" where
  "encode_param_into dst port cmd v = encode_into dst port cmd [v]"

definition ms_to_ten_ms_units :: "u32 \<Rightarrow> u8 option" where
  "ms_to_ten_ms_units ms =
     (let units = saturating_add ms 5 div 10 in
      if unat units < 256 then Some (ucast units) else None)"

definition tx_delay :: "u8 \<Rightarrow> u8 \<Rightarrow> bytes option panicking" where
  "tx_delay port ten_ms_units = encode port TxDelay [ten_ms_units]"

definition persistence :: "u8 \<Rightarrow> u8 \<Rightarrow> bytes option panicking" where
  "persistence port v = encode port Persistence [v]"

definition slot_time :: "u8 \<Rightarrow> u8 \<Rightarrow> bytes option panicking" where
  "slot_time port ten_ms_units = encode port SlotTime [ten_ms_units]"

definition tx_tail :: "u8 \<Rightarrow> u8 \<Rightarrow> bytes option panicking" where
  "tx_tail port ten_ms_units = encode port TxTail [ten_ms_units]"

definition full_duplex :: "u8 \<Rightarrow> bool \<Rightarrow> bytes option panicking" where
  "full_duplex port full = encode port FullDuplex [if full then 1 else 0]"

section \<open>Specification: the bytes on the line\<close>

definition escape :: "byte \<Rightarrow> bytes" where
  "escape b = (if b = FEND then [FESC, TFEND] else if b = FESC then [FESC, TFESC] else [b])"

definition escaped :: "bytes \<Rightarrow> bytes" where
  "escaped bs = concat (map escape bs)"

lemma escaped_simps [simp]:
  "escaped [] = []" "escaped (b # bs) = escape b @ escaped bs" "escaped (xs @ ys) = escaped xs @ escaped ys"
  by (simp_all add: escaped_def)

definition wire :: "kiss_frame \<Rightarrow> bytes" where
  "wire f = FEND # escaped (command_byte f # kf_payload f) @ [FEND]"

lemma length_escape: "1 \<le> length (escape b)" "length (escape b) \<le> 2"
  by (simp_all add: escape_def)

lemma length_escaped: "length bs \<le> length (escaped bs)" "length (escaped bs) \<le> 2 * length bs"
  by (induction bs) (simp_all add: escape_def)

lemma escape_no_FEND: "FEND \<notin> set (escape b)"
  by (simp add: escape_def kiss_consts)

lemma escaped_no_FEND: "FEND \<notin> set (escaped bs)"
  by (induction bs) (simp_all add: escape_no_FEND)

section \<open>The writes stay inside the buffer and produce the line's bytes\<close>

lemma write_escaped_eq:
  assumes "i + 2 \<le> length dst"
  shows "write_escaped dst i b = Some (overwrite dst i (escape b), length (escape b))"
proof -
  have two: "put (overwrite dst i [x]) (i + 1) y = Some (overwrite dst i [x, y])" for x y
    using assms overwrite_overwrite [of i "[x]" dst "[y]"] by (simp add: put_overwrite)
  show ?thesis
    using assms two by (simp add: write_escaped_def escape_def put_overwrite)
qed

lemma write_payload_eq:
  "i + 2 * length bs \<le> length dst \<Longrightarrow>
    write_payload dst i bs = Some (overwrite dst i (escaped bs), i + length (escaped bs))"
proof (induction bs arbitrary: dst i)
  case (Cons b bs)
  have "i + 2 \<le> length dst" and "i + length (escape b) \<le> length dst"
    using Cons.prems length_escape [of b] by auto
  moreover have "i + length (escape b) + 2 * length bs \<le> length dst"
    using Cons.prems length_escape [of b] by auto
  ultimately show ?case
    using Cons.IH [of "i + length (escape b)" "overwrite dst i (escape b)"]
    by (simp add: write_escaped_eq overwrite_overwrite add.assoc)
qed simp

lemma encode_into_eq:
  assumes "port \<le> 15" and "max_encoded_len (length payload) \<le> length dst"
    and w_def: "w = wire (frame_new port cmd payload)"
  shows "encode_into dst port cmd payload = Some (overwrite dst 0 w, Some (length w))"
proof -
  define c where "c = push_bit 4 (port AND 0x0F) OR to_nibble cmd"
  have len: "4 + 2 * length payload \<le> length dst"
    using assms(2) by (simp add: max_encoded_len_def)
  have w: "w = [FEND] @ escape c @ escaped payload @ [FEND]"
    by (simp add: w_def wire_def frame_new_def command_byte_def c_def)
  have e: "1 + length (escape c) + 2 * length payload + 1 \<le> length dst"
    using len length_escape(2) [of c] by linarith
  then have e': "1 + length (escape c) + length (escaped payload) < length dst"
    using length_escaped(2) [of payload] by linarith
  have d1: "put dst 0 FEND = Some (overwrite dst 0 [FEND])"
    using len by (intro put_overwrite) linarith
  have d2: "write_escaped (overwrite dst 0 [FEND]) 1 c =
      Some (overwrite dst 0 ([FEND] @ escape c), length (escape c))"
    using e len overwrite_overwrite [of 0 "[FEND]" dst "escape c"] by (simp add: write_escaped_eq)
  have d3: "write_payload (overwrite dst 0 ([FEND] @ escape c)) (1 + length (escape c)) payload =
      Some (overwrite dst 0 ([FEND] @ escape c @ escaped payload),
        1 + length (escape c) + length (escaped payload))"
    using e overwrite_overwrite [of 0 "[FEND] @ escape c" dst "escaped payload"]
    by (simp add: write_payload_eq)
  have d4: "put (overwrite dst 0 ([FEND] @ escape c @ escaped payload))
      (1 + length (escape c) + length (escaped payload)) FEND = Some (overwrite dst 0 w)"
    using e' overwrite_overwrite [of 0 "[FEND] @ escape c @ escaped payload" dst "[FEND]"]
    by (simp add: put_overwrite w)
  show ?thesis
    using assms(1,2) d1 d2 d3 d4
    unfolding encode_into_def c_def [symmetric] by (simp add: w not_less)
qed

lemma length_wire: "length (wire (frame_new port cmd payload)) \<le> max_encoded_len (length payload)"
  using length_escape(2) [of "command_byte (frame_new port cmd payload)"]
    length_escaped(2) [of payload]
  by (simp add: wire_def max_encoded_len_def frame_new_def)

lemma encode_eq:
  "port \<le> 15 \<Longrightarrow> encode port cmd payload = Some (Some (wire (frame_new port cmd payload)))"
proof -
  assume p: "port \<le> 15"
  define w where "w = wire (frame_new port cmd payload)"
  have "length w \<le> max_encoded_len (length payload)"
    unfolding w_def by (rule length_wire)
  then show ?thesis
    using encode_into_eq [OF p _ w_def, of "replicate (max_encoded_len (length payload)) 0"]
    by (simp add: encode_def overwrite_def flip: w_def)
qed

section \<open>Properties\<close>

text \<open>
  For every buffer, port, command and payload the encoder does not panic; it refuses exactly a
  port above 15 or a buffer shorter than \<open>max_encoded_len\<close>, leaving the buffer as it was, and
  otherwise it writes the frame's bytes at the front, leaves the rest of the buffer alone, and
  returns their number, which is at most \<open>max_encoded_len\<close>.
\<close>

theorem encode_into_total:
  "encode_into dst port cmd payload =
     (if port > 15 \<or> length dst < max_encoded_len (length payload) then Some (dst, None)
      else let w = wire (frame_new port cmd payload)
           in Some (w @ drop (length w) dst, Some (length w))) \<and>
   length (wire (frame_new port cmd payload)) \<le> max_encoded_len (length payload)"
  using encode_into_eq [OF _ _ refl, of port payload dst cmd] length_wire [of port cmd payload]
  by (auto simp: encode_into_def [where port = port] overwrite_def Let_def not_less)

lemma ms_to_ten_ms_units_rounds:
  "ms_to_ten_ms_units ms = Some u \<Longrightarrow> unat u = (unat ms + 5) div 10"
  "ms_to_ten_ms_units ms = None \<longleftrightarrow> unat ms \<ge> 2555"
proof -
  have u: "unat (saturating_add ms 5 div 10) = min (unat ms + 5) (2 ^ 32 - 1) div 10"
    by (simp add: unat_div unat_saturating_add)
  show "ms_to_ten_ms_units ms = None \<longleftrightarrow> unat ms \<ge> 2555"
    by (auto simp: ms_to_ten_ms_units_def Let_def u)
  show "unat u = (unat ms + 5) div 10" if "ms_to_ten_ms_units ms = Some u"
    using that by (auto simp: ms_to_ten_ms_units_def Let_def u unsigned_ucast_eq take_bit_eq_mod split: if_splits)
qed

end
