(* ===== verification/Kiss_Decoder.thy ===== *)
theory Kiss_Decoder
  imports Kiss_Encoder
begin

text \<open>
  The streaming KISS decoder (\<open>kiss/decoder.rs\<close>): its state, one byte of the \<open>push\<close> loop, the
  loop, \<open>reset\<close> and \<open>resynchronise\<close>. The capacity of the frame buffer is not observable through
  the interface and is left out (\<open>release_buffer\<close>); its contents and their bound are modelled.
\<close>

section \<open>State and operations\<close>

definition DEFAULT_MAX_FRAME_LEN :: nat where
  "DEFAULT_MAX_FRAME_LEN = 4096"

record decoder =
  current :: bytes
  in_escape :: bool
  max_frame_len :: nat
  resynchronising :: bool
  oversize_frames_dropped :: u64

definition with_max_frame_len :: "nat \<Rightarrow> decoder" where
  "with_max_frame_len n =
     \<lparr>current = [], in_escape = False,
      max_frame_len = (if n > 0 then n else DEFAULT_MAX_FRAME_LEN),
      resynchronising = False, oversize_frames_dropped = 0\<rparr>"

definition decoder_new :: decoder where
  "decoder_new = with_max_frame_len DEFAULT_MAX_FRAME_LEN"

definition drop_if_oversize :: "decoder \<Rightarrow> decoder" where
  "drop_if_oversize d =
     (if length (current d) \<le> max_frame_len d then d
      else d\<lparr>oversize_frames_dropped := oversize_frames_dropped d + 1, current := [],
             in_escape := False, resynchronising := True\<rparr>)"

definition finish :: "decoder \<Rightarrow> kiss_frame option" where
  "finish d =
     (case current d of
        [] \<Rightarrow> None
      | c # payload \<Rightarrow>
          Some (frame_new (drop_bit 4 c AND 0x0F) (from_nibble (c AND 0x0F)) payload))"

text \<open>One turn of the loop of \<open>push\<close>: the new state and the frames it completed.\<close>

definition push_byte :: "decoder \<Rightarrow> byte \<Rightarrow> decoder \<times> kiss_frame list" where
  "push_byte d b =
     (if resynchronising d then
        (if b = FEND then d\<lparr>resynchronising := False, in_escape := False\<rparr> else d, [])
      else if in_escape d then
        (let d1 = d\<lparr>in_escape := False\<rparr>;
             d2 = (if b = TFEND then d1\<lparr>current := current d1 @ [FEND]\<rparr>
                   else if b = TFESC then d1\<lparr>current := current d1 @ [FESC]\<rparr>
                   else d1)
         in (drop_if_oversize d2, []))
      else if b = FEND then
        (if current d \<noteq> [] then
           (d\<lparr>current := []\<rparr>, case finish d of Some f \<Rightarrow> [f] | None \<Rightarrow> [])
         else (d, []))
      else if b = FESC then (d\<lparr>in_escape := True\<rparr>, [])
      else (drop_if_oversize (d\<lparr>current := current d @ [b]\<rparr>), []))"

fun push :: "decoder \<Rightarrow> bytes \<Rightarrow> decoder \<times> kiss_frame list" where
  "push d [] = (d, [])"
| "push d (b # bs) =
     (let (d1, out) = push_byte d b; (d2, outs) = push d1 bs in (d2, out @ outs))"

definition reset :: "decoder \<Rightarrow> decoder" where
  "reset d = d\<lparr>current := [], in_escape := False, resynchronising := False\<rparr>"

definition resynchronise :: "decoder \<Rightarrow> decoder" where
  "resynchronise d = d\<lparr>current := [], in_escape := False, resynchronising := True\<rparr>"

section \<open>The decoder as a stream machine\<close>

interpretation kiss: stream_machine push_byte push
  by unfold_locales (simp_all add: split_beta Let_def)

declare push.simps [simp del] kiss.push_Nil [simp] kiss.push_Cons [simp]

text \<open>
  The invariant: the buffer is within its bound, and while the decoder skips to the next
  delimiter it holds nothing.
\<close>

definition decoder_inv :: "decoder \<Rightarrow> bool" where
  "decoder_inv d \<longleftrightarrow> length (current d) \<le> max_frame_len d \<and>
     (resynchronising d \<longrightarrow> current d = [] \<and> \<not> in_escape d)"

lemma decoder_inv_init [simp]: "decoder_inv (with_max_frame_len n)"
  by (simp add: decoder_inv_def with_max_frame_len_def)

lemma decoder_inv_reset [simp]: "decoder_inv (reset d)" "decoder_inv (resynchronise d)"
  by (simp_all add: decoder_inv_def reset_def resynchronise_def)

lemma drop_if_oversize_inv [simp]: "\<not> resynchronising d \<Longrightarrow> decoder_inv (drop_if_oversize d)"
  by (simp add: decoder_inv_def drop_if_oversize_def)

lemma drop_if_oversize_fields [simp]:
  "max_frame_len (drop_if_oversize d) = max_frame_len d"
  "\<not> in_escape d \<Longrightarrow> \<not> in_escape (drop_if_oversize d)"
  by (simp_all add: drop_if_oversize_def)

lemma push_byte_max [simp]: "max_frame_len (fst (push_byte d b)) = max_frame_len d"
  by (simp add: push_byte_def Let_def)

lemma push_byte_inv: "decoder_inv d \<Longrightarrow> decoder_inv (fst (push_byte d b))"
  by (auto simp: push_byte_def Let_def) (simp_all add: decoder_inv_def)

lemma push_max [simp]: "max_frame_len (fst (push d bs)) = max_frame_len d"
  by (induction bs arbitrary: d) simp_all

lemma push_inv: "decoder_inv d \<Longrightarrow> decoder_inv (fst (push d bs))"
  by (rule kiss.push_invariant) (rule push_byte_inv)

definition frame_ok :: "nat \<Rightarrow> kiss_frame \<Rightarrow> bool" where
  "frame_ok n f \<longleftrightarrow> length (kf_payload f) < n \<and> kf_port f \<le> 15 \<and> canonical (kf_command f)"

lemma nibble_le_15: "n AND 0x0F \<le> (15 :: byte)"
  by (simp add: word_and_le1)

lemma finish_ok: "decoder_inv d \<Longrightarrow> finish d = Some f \<Longrightarrow> frame_ok (max_frame_len d) f"
  by (auto simp: finish_def decoder_inv_def frame_ok_def frame_new_def nibble_le_15
      split: list.splits)

lemma push_byte_frames_ok:
  "decoder_inv d \<Longrightarrow> f \<in> set (snd (push_byte d b)) \<Longrightarrow> frame_ok (max_frame_len d) f"
  by (auto simp: push_byte_def Let_def finish_ok split: if_splits option.splits)

section \<open>Decoding what the encoder wrote\<close>

text \<open>A decoder at a frame boundary, in sync.\<close>

definition clean :: "decoder \<Rightarrow> bool" where
  "clean d \<longleftrightarrow> current d = [] \<and> \<not> in_escape d \<and> \<not> resynchronising d"

lemma clean_decoder_new [simp]: "clean (with_max_frame_len n)" "clean (reset d)"
  by (simp_all add: clean_def with_max_frame_len_def reset_def)

text \<open>In sync and out of an escape, the escape sequence of one byte appends that byte.\<close>

lemma push_escape:
  assumes "\<not> in_escape d" "\<not> resynchronising d"
  shows "push d (escape b) = (drop_if_oversize (d\<lparr>current := current d @ [b]\<rparr>), [])"
  using assms by (cases d) (auto simp: escape_def push_byte_def Let_def kiss_consts)

lemma push_escaped:
  assumes "\<not> in_escape d" "\<not> resynchronising d"
    and "length (current d) + length bs \<le> max_frame_len d"
  shows "push d (escaped bs) = (d\<lparr>current := current d @ bs\<rparr>, [])"
  using assms
proof (induction bs arbitrary: d)
  case (Cons b bs)
  let ?d = "d\<lparr>current := current d @ [b]\<rparr>"
  have "drop_if_oversize ?d = ?d"
    using Cons.prems(3) by (simp add: drop_if_oversize_def)
  then show ?case
    using Cons.prems Cons.IH [of ?d]
    by (simp add: kiss.push_append push_escape)
qed simp

text \<open>
  Escaped bytes hold no delimiter: out of an escape, reading them emits nothing and ends out of an
  escape, whatever else the state is.
\<close>

lemma push_escape_any:
  "decoder_inv d \<Longrightarrow> \<not> in_escape d \<Longrightarrow>
    snd (push d (escape b)) = [] \<and> \<not> in_escape (fst (push d (escape b)))"
  by (auto simp: escape_def push_byte_def Let_def kiss_consts decoder_inv_def)

lemma push_escaped_any:
  "decoder_inv d \<Longrightarrow> \<not> in_escape d \<Longrightarrow>
    snd (push d (escaped bs)) = [] \<and> \<not> in_escape (fst (push d (escaped bs)))"
proof (induction bs arbitrary: d)
  case (Cons b bs)
  show ?case
    using Cons.IH [OF push_inv [OF Cons.prems(1)], of "escape b"] push_escape_any [OF Cons.prems]
    by (simp add: kiss.push_append)
qed simp

lemma push_FEND:
  "clean d \<Longrightarrow> push_byte d FEND = (d, [])"
  "decoder_inv d \<Longrightarrow> \<not> in_escape (fst (push_byte d FEND))"
  "decoder_inv d \<Longrightarrow> \<not> in_escape d \<Longrightarrow> clean (fst (push_byte d FEND))"
  by (auto simp: push_byte_def clean_def decoder_inv_def kiss_consts Let_def)

lemma push_wire_any: "decoder_inv d \<Longrightarrow> clean (fst (push d (wire f)))"
proof -
  assume inv: "decoder_inv d"
  let ?d1 = "fst (push_byte d FEND)"
  let ?d2 = "fst (push ?d1 (escaped (command_byte f # kf_payload f)))"
  have "fst (push d (wire f)) = fst (push_byte ?d2 FEND)"
    by (simp add: wire_def kiss.push_append)
  moreover have "\<not> in_escape ?d2"
    using push_escaped_any push_byte_inv push_FEND(2) inv by blast
  moreover have "decoder_inv ?d2"
    by (intro push_inv push_byte_inv inv)
  ultimately show ?thesis
    using push_FEND(3) by metis
qed

lemma finish_wire:
  assumes "kf_port f \<le> 15" "canonical (kf_command f)"
    and "current d = command_byte f # kf_payload f"
  shows "finish d = Some f"
proof -
  have "kf_port f AND 0x0F = kf_port f"
    using assms(1) le_15_nibble by blast
  moreover have "drop_bit 4 (command_byte f) AND 0x0F = kf_port f AND 0x0F"
    and "command_byte f AND 0x0F = to_nibble (kf_command f)"
    unfolding command_byte_def
    using command_byte_parts [of "kf_port f" "to_nibble (kf_command f)"] by simp_all
  ultimately show ?thesis
    using assms(2,3) by (cases f) (simp add: finish_def frame_new_def canonical_def)
qed

lemma push_wire:
  assumes d: "clean d" and f: "frame_ok (max_frame_len d) f"
  shows "push d (wire f) = (d, [f])"
proof -
  let ?c = "command_byte f # kf_payload f"
  let ?d = "d\<lparr>current := ?c\<rparr>"
  have body: "push d (escaped ?c) = (?d, [])"
    using d f push_escaped [of d ?c] by (simp add: clean_def frame_ok_def)
  have "finish ?d = Some f"
    using f by (intro finish_wire) (simp_all add: frame_ok_def)
  then have "push_byte ?d FEND = (?d\<lparr>current := []\<rparr>, [f])"
    using d by (simp add: push_byte_def clean_def)
  moreover have "?d\<lparr>current := []\<rparr> = d"
    using d by (simp add: clean_def)
  ultimately show ?thesis
    using push_FEND(1) [OF d] body by (simp add: wire_def kiss.push_append del: escaped_simps)
qed

lemma push_wires:
  "clean d \<Longrightarrow> \<forall>f \<in> set fs. frame_ok (max_frame_len d) f \<Longrightarrow> push d (concat (map wire fs)) = (d, fs)"
  by (induction fs) (simp_all add: kiss.push_append push_wire)

section \<open>Properties\<close>

text \<open>
  C40: whatever bytes arrive and however they are cut, the buffer of the decoder never exceeds its
  configured bound, and every frame it delivers has a payload shorter than the bound, a port of at
  most 15 and a command in canonical form.
\<close>

theorem kiss_decoder_bounded:
  assumes "decoder_inv d"
  shows "decoder_inv (fst (push d bs)) \<and>
    length (current (fst (push d bs))) \<le> max_frame_len d \<and>
    (\<forall>f \<in> set (snd (push d bs)). frame_ok (max_frame_len d) f)"
proof (intro conjI ballI)
  show "decoder_inv (fst (push d bs))"
    using assms by (rule push_inv)
  then show "length (current (fst (push d bs))) \<le> max_frame_len d"
    by (simp add: decoder_inv_def)
  fix f assume "f \<in> set (snd (push d bs))"
  then show "frame_ok (max_frame_len d) f"
    using assms kiss.push_outputs
      [of "\<lambda>s. decoder_inv s \<and> max_frame_len s = max_frame_len d" "frame_ok (max_frame_len d)" d f bs]
    by (metis push_byte_inv push_byte_max push_byte_frames_ok)
qed

theorem kiss_decoder_bounded_witness:
  "length (current (fst (push (with_max_frame_len 2) [1, 2, 3, 4]))) \<le> 2"
  using kiss_decoder_bounded [of "with_max_frame_len 2" "[1, 2, 3, 4]"]
  by (simp add: with_max_frame_len_def decoder_inv_def)

text \<open>
  C38: a decoder at a frame boundary that is fed, in chunks of any sizes, the encodings of a list of
  frames (canonical commands, ports 0 to 15, payloads within the bound) delivers exactly these
  frames, in order, and is back at a frame boundary.
\<close>

theorem kiss_roundtrip:
  assumes "clean d" and "\<forall>f \<in> set fs. frame_ok (max_frame_len d) f"
    and "\<forall>f \<in> set fs. encode (kf_port f) (kf_command f) (kf_payload f) = Some (Some (enc f))"
    and "concat chunks = concat (map enc fs)"
  shows "fold (\<lambda>c (s, out). (fst (push s c), out @ snd (push s c))) chunks (d, []) = (d, fs)"
proof -
  have "enc f = wire f" if f: "f \<in> set fs" for f
  proof -
    have p: "kf_port f \<le> 15"
      using assms(2) f by (simp add: frame_ok_def)
    then have "frame_new (kf_port f) (kf_command f) (kf_payload f) = f"
      by (simp add: frame_new_def le_15_nibble)
    then show ?thesis
      using assms(3) f encode_eq [OF p, of "kf_command f" "kf_payload f"] by simp
  qed
  then have "concat chunks = concat (map wire fs)"
    using assms(4) by (metis map_cong)
  then show ?thesis
    using push_wires [OF assms(1,2)] by (simp add: kiss.push_chunks)
qed

theorem kiss_roundtrip_witness:
  "fold (\<lambda>c (s, out). (fst (push s c), out @ snd (push s c)))
     [[FEND, FESC], [TFEND, 7, FEND]] (decoder_new, []) =
   (decoder_new, [\<lparr>kf_port = 12, kf_command = Data, kf_payload = [7]\<rparr>])"
proof -
  let ?f = "\<lparr>kf_port = 12, kf_command = Data, kf_payload = [7]\<rparr> :: kiss_frame"
  have ok: "frame_ok (max_frame_len decoder_new) ?f"
    by (simp add: frame_ok_def decoder_new_def with_max_frame_len_def DEFAULT_MAX_FRAME_LEN_def)
  have e: "encode 12 Data [7] = Some (Some [FEND, FESC, TFEND, 7, FEND])"
    by (simp add: encode_eq wire_def frame_new_def command_byte_def escape_def kiss_consts)
  show ?thesis
    using ok e kiss_roundtrip [of decoder_new "[?f]" "\<lambda>_. [FEND, FESC, TFEND, 7, FEND]"
        "[[FEND, FESC], [TFEND, 7, FEND]]"]
    by (simp add: decoder_new_def)
qed

text \<open>
  C39: line noise costs at most the frame it hits. From any state the decoder can be in (mid-frame,
  in an escape, or skipping after an oversize frame), one encoded frame brings it back to a frame
  boundary, and every later frame is delivered intact.
\<close>

theorem kiss_recovers_after_one_frame:
  assumes "decoder_inv d" and "\<forall>f \<in> set fs. frame_ok (max_frame_len d) f"
  shows "clean (fst (push d (wire g))) \<and>
    snd (push d (wire g @ concat (map wire fs))) = snd (push d (wire g)) @ fs"
  using push_wire_any [OF assms(1), of g] assms(2)
    push_wires [of "fst (push d (wire g))" fs]
  by (simp add: kiss.push_append)

theorem kiss_recovers_after_one_frame_witness:
  "snd (push (fst (push decoder_new [1, FESC]))
     (wire \<lparr>kf_port = 0, kf_command = Data, kf_payload = [9]\<rparr> @
      concat (map wire [\<lparr>kf_port = 1, kf_command = Poll, kf_payload = [FEND]\<rparr>]))) =
   snd (push (fst (push decoder_new [1, FESC]))
     (wire \<lparr>kf_port = 0, kf_command = Data, kf_payload = [9]\<rparr>)) @
   [\<lparr>kf_port = 1, kf_command = Poll, kf_payload = [FEND]\<rparr>]"
proof -
  let ?d = "fst (push decoder_new [1, FESC])"
  have "decoder_inv ?d"
    by (rule push_inv) (simp add: decoder_new_def)
  moreover have "frame_ok (max_frame_len ?d) \<lparr>kf_port = 1, kf_command = Poll, kf_payload = [FEND]\<rparr>"
    by (simp add: frame_ok_def decoder_new_def with_max_frame_len_def DEFAULT_MAX_FRAME_LEN_def)
  ultimately show ?thesis
    using kiss_recovers_after_one_frame [of ?d "[\<lparr>kf_port = 1, kf_command = Poll, kf_payload = [FEND]\<rparr>]"]
    by simp
qed

end
