(* ===== verification/Kiss_Reconnect.thy ===== *)
theory Kiss_Reconnect
  imports Prelude
begin

text \<open>
  The capped exponential backoff that decides when to re-dial a dropped KISS link
  (\<open>kiss/reconnect.rs\<close>): the policy, the phases, and one definition per operation.
\<close>

section \<open>Policy and state\<close>

definition DEFAULT_MIN_BACKOFF_MS :: u32 where "DEFAULT_MIN_BACKOFF_MS = 1000"
definition DEFAULT_MAX_BACKOFF_MS :: u32 where "DEFAULT_MAX_BACKOFF_MS = 30000"

record reconnect_policy =
  min_backoff_ms :: u32
  max_backoff_ms :: u32

definition policy_new :: "u32 \<Rightarrow> u32 \<Rightarrow> reconnect_policy" where
  "policy_new lo hi =
     \<lparr>min_backoff_ms = lo, max_backoff_ms = (if hi < lo then lo else hi)\<rparr>"

text \<open>\<open>doubled\<close>: the product is formed in 64 bits and clamped, so it cannot wrap.\<close>

definition doubled :: "reconnect_policy \<Rightarrow> u32 \<Rightarrow> u32" where
  "doubled p current_ms =
     (let d = (ucast current_ms :: u64) * 2;
          lo = ucast (min_backoff_ms p); hi = ucast (max_backoff_ms p)
      in ucast (if d < lo then lo else if d > hi then hi else d))"

datatype action = Idle | Attempt | Wait u64

datatype phase =
    Up
  | Attempting u32
  | BackingOff u64 u32

record link =
  policy :: reconnect_policy
  phase :: phase

definition link_new :: "reconnect_policy \<Rightarrow> link" where
  "link_new p = \<lparr>policy = p, phase = Up\<rparr>"

section \<open>Operations\<close>

definition is_reconnecting :: "link \<Rightarrow> bool" where
  "is_reconnecting l \<longleftrightarrow> phase l \<noteq> Up"

definition on_fault :: "link \<Rightarrow> link" where
  "on_fault l =
     (case phase l of
        Up \<Rightarrow> l\<lparr>phase := Attempting (min_backoff_ms (policy l))\<rparr>
      | _ \<Rightarrow> l)"

definition on_attempt_failed :: "u64 \<Rightarrow> link \<Rightarrow> link" where
  "on_attempt_failed now_ms l =
     (case phase l of
        Attempting backoff_ms \<Rightarrow>
          l\<lparr>phase := BackingOff (saturating_add now_ms (ucast backoff_ms))
                       (doubled (policy l) backoff_ms)\<rparr>
      | _ \<Rightarrow> l)"

definition on_connected :: "link \<Rightarrow> link" where
  "on_connected l = l\<lparr>phase := Up\<rparr>"

definition current_backoff_ms :: "link \<Rightarrow> u32" where
  "current_backoff_ms l =
     (case phase l of
        Up \<Rightarrow> min_backoff_ms (policy l)
      | Attempting backoff_ms \<Rightarrow> backoff_ms
      | BackingOff _ backoff_ms \<Rightarrow> backoff_ms)"

definition poll :: "u64 \<Rightarrow> link \<Rightarrow> action \<times> link" where
  "poll now_ms l =
     (case phase l of
        Up \<Rightarrow> (Idle, l)
      | Attempting _ \<Rightarrow> (Attempt, l)
      | BackingOff resume_at_ms backoff_ms \<Rightarrow>
          if now_ms \<ge> resume_at_ms then (Attempt, l\<lparr>phase := Attempting backoff_ms\<rparr>)
          else (Wait resume_at_ms, l))"

section \<open>The link as a state machine\<close>

datatype link_event = Fault | Failed u64 | Connected | Poll u64

fun link_step :: "link_event \<Rightarrow> link \<Rightarrow> link" where
  "link_step Fault l = on_fault l"
| "link_step (Failed now_ms) l = on_attempt_failed now_ms l"
| "link_step Connected l = on_connected l"
| "link_step (Poll now_ms) l = snd (poll now_ms l)"

definition policy_ok :: "reconnect_policy \<Rightarrow> bool" where
  "policy_ok p \<longleftrightarrow> min_backoff_ms p \<le> max_backoff_ms p"

lemma policy_new_ok [simp]: "policy_ok (policy_new lo hi)"
  by (simp add: policy_ok_def policy_new_def not_less)

text \<open>The backoff in force always lies between the policy's bounds.\<close>

definition link_inv :: "link \<Rightarrow> bool" where
  "link_inv l \<longleftrightarrow> policy_ok (policy l) \<and>
     min_backoff_ms (policy l) \<le> current_backoff_ms l \<and>
     current_backoff_ms l \<le> max_backoff_ms (policy l)"

lemma unat_doubled:
  assumes "policy_ok p"
  shows "unat (doubled p c) =
    max (unat (min_backoff_ms p)) (min (unat (max_backoff_ms p)) (2 * unat c))"
proof -
  have b: "unat x < 2 ^ 32" for x :: u32
    using unsigned_less [of x] by simp
  have u: "unat (ucast x :: u64) = unat x" for x :: u32
    using b [of x] by (simp add: unsigned_ucast_eq take_bit_eq_mod)
  have d: "unat ((ucast c :: u64) * 2) = 2 * unat c"
    using b [of c] by (simp add: unat_word_ariths u)
  have narrow: "unat (ucast y :: u32) = unat y" if "unat y < 2 ^ 32" for y :: u64
    using that by (simp add: unsigned_ucast_eq take_bit_eq_mod)
  have "unat (min_backoff_ms p) \<le> unat (max_backoff_ms p)"
    using assms by (simp add: policy_ok_def word_le_nat_alt)
  then show ?thesis
    using b [of "min_backoff_ms p"] b [of "max_backoff_ms p"]
    by (auto simp: doubled_def Let_def word_less_nat_alt u d narrow)
qed

lemma doubled_bounds:
  assumes "policy_ok p"
  shows "min_backoff_ms p \<le> doubled p c \<and> doubled p c \<le> max_backoff_ms p"
  using unat_doubled [OF assms, of c] assms
  by (auto simp: policy_ok_def word_le_nat_alt)

interpretation reconnect: state_machine link_step link_inv
proof
  fix l e assume "link_inv l"
  then show "link_inv (link_step e l)"
    by (cases e; cases "phase l")
      (auto simp: link_inv_def on_fault_def on_attempt_failed_def on_connected_def poll_def
        current_backoff_ms_def doubled_bounds policy_ok_def)
qed

text \<open>
  \<open>k\<close> failures in a row, each after the wait the previous one imposed: the fold of an expired
  poll and a failed attempt. The clock readings are arbitrary as long as each poll comes late
  enough to find the backoff over.
\<close>

fun failures :: "(u64 \<times> u64) list \<Rightarrow> link \<Rightarrow> link" where
  "failures [] l = l"
| "failures ((polled, failed) # ts) l =
     failures ts (on_attempt_failed failed (snd (poll polled l)))"

fun matured :: "(u64 \<times> u64) list \<Rightarrow> link \<Rightarrow> bool" where
  "matured [] l = True"
| "matured ((polled, failed) # ts) l =
     (fst (poll polled l) = Attempt \<and>
      matured ts (on_attempt_failed failed (snd (poll polled l))))"

lemma poll_attempt_fail:
  assumes "fst (poll t l) = Attempt"
  shows "current_backoff_ms (on_attempt_failed u (snd (poll t l))) =
      doubled (policy l) (current_backoff_ms l)"
    and "policy (on_attempt_failed u (snd (poll t l))) = policy l"
  using assms
  by (auto simp: poll_def on_attempt_failed_def current_backoff_ms_def
      split: phase.splits if_splits)

lemma failures_policy: "matured ts l \<Longrightarrow> policy (failures ts l) = policy l"
  by (induction ts l rule: failures.induct) (simp_all add: poll_attempt_fail)

lemma failures_backoff:
  assumes "policy_ok (policy l)" "matured ts l" "link_inv l" "ts \<noteq> []"
  shows "unat (current_backoff_ms (failures ts l)) =
    max (unat (min_backoff_ms (policy l)))
      (min (unat (max_backoff_ms (policy l))) (2 ^ length ts * unat (current_backoff_ms l)))"
  using assms
proof (induction ts l rule: failures.induct)
  case (2 t u ts l)
  let ?l = "on_attempt_failed u (snd (poll t l))"
  let ?lo = "unat (min_backoff_ms (policy l))" and ?hi = "unat (max_backoff_ms (policy l))"
  have att: "fst (poll t l) = Attempt"
    using "2.prems" by simp
  note one = poll_attempt_fail [OF att, of u]
  have inv: "link_inv ?l"
    using "2.prems" reconnect.step_inv [of "snd (poll t l)" "Failed u"]
      reconnect.step_inv [of l "Poll t"] by simp
  have le: "?lo \<le> ?hi"
    using "2.prems" by (simp add: policy_ok_def word_le_nat_alt)
  have c: "unat (current_backoff_ms ?l) = max ?lo (min ?hi (2 * unat (current_backoff_ms l)))"
    using one unat_doubled "2.prems" by simp
  have lo: "?lo \<le> unat (current_backoff_ms l)"
    using "2.prems" by (simp add: link_inv_def word_le_nat_alt)
  show ?case
  proof (cases "ts = []")
    case True
    then show ?thesis
      using c by simp
  next
    case False
    define k where "k = (2 :: nat) ^ length ts"
    have k: "1 \<le> k"
      by (simp add: k_def)
    have IH: "unat (current_backoff_ms (failures ts ?l)) =
        max ?lo (min ?hi (k * unat (current_backoff_ms ?l)))"
      using "2.IH" "2.prems" False inv one by (simp add: k_def)
    have "min ?hi (k * unat (current_backoff_ms ?l)) =
        min ?hi (k * (2 * unat (current_backoff_ms l)))"
    proof (cases "2 * unat (current_backoff_ms l) \<le> ?hi")
      case True
      then show ?thesis
        using c lo by simp
    next
      case False
      then have "?hi \<le> k * unat (current_backoff_ms ?l)"
          and "?hi \<le> k * (2 * unat (current_backoff_ms l))"
        using c le k mult_le_mono [of 1 k] by (fastforce simp: max_def)+
      then show ?thesis
        by simp
    qed
    then show ?thesis
      using IH by (simp add: k_def ac_simps)
  qed
qed simp

section \<open>Properties\<close>

text \<open>
  After \<open>n\<close> consecutive failed attempts of one reconnect cycle, whatever the clock readings,
  the next delay is the minimum doubled \<open>n\<close> times, capped at the maximum; a new drop after a
  successful reconnect starts again at the minimum.
\<close>

theorem reconnect_backoff_schedule:
  assumes "policy_ok p" and "matured ts (on_fault (link_new p))"
  shows "unat (current_backoff_ms (failures ts (on_fault (link_new p)))) =
      min (unat (max_backoff_ms p)) (2 ^ length ts * unat (min_backoff_ms p)) \<and>
    on_fault (on_connected (failures ts (on_fault (link_new p)))) = on_fault (link_new p)"
proof -
  let ?l = "on_fault (link_new p)"
  have l: "policy ?l = p" "current_backoff_ms ?l = min_backoff_ms p" "link_inv ?l"
    using assms(1)
    by (simp_all add: on_fault_def link_new_def current_backoff_ms_def link_inv_def policy_ok_def)
  have le: "unat (min_backoff_ms p) \<le> unat (max_backoff_ms p)"
    using assms(1) by (simp add: policy_ok_def word_le_nat_alt)
  have "unat (current_backoff_ms (failures ts ?l)) =
      min (unat (max_backoff_ms p)) (2 ^ length ts * unat (min_backoff_ms p))"
  proof (cases "ts = []")
    case False
    have "unat (min_backoff_ms p) \<le> 2 ^ length ts * unat (min_backoff_ms p)"
      by simp
    then show ?thesis
      using failures_backoff [of ?l ts] assms l le False by (simp add: max_def)
  qed (use l le in simp)
  moreover have "policy (failures ts ?l) = p"
    using failures_policy assms(2) l by simp
  ultimately show ?thesis
    by (simp add: on_connected_def on_fault_def link_new_def)
qed

theorem reconnect_backoff_schedule_witness:
  "unat (current_backoff_ms (failures [(0, 5), (1005, 1010)]
     (on_fault (link_new (policy_new 1000 30000))))) = 4000"
proof -
  have m: "matured [(0, 5), (1005, 1010)] (on_fault (link_new (policy_new 1000 30000)))"
    by (simp add: on_fault_def link_new_def policy_new_def poll_def on_attempt_failed_def
        saturating_add_def word_le_nat_alt)
  show ?thesis
    using reconnect_backoff_schedule [OF policy_new_ok m] by (simp add: policy_new_def)
qed

end
