(* ===== verification/Slots.thy ===== *)
theory Slots
  imports Prelude
begin

text \<open>
  Fixed-capacity tables keyed by a field of their entries: an array of slots in which a key occurs
  at most once. The abstraction is the map from keys to entries; the lemmas say what storing into a
  free slot, replacing an entry and freeing a slot do to that map. The locale \<open>bounded_map\<close> is the
  contract that the tables of the program offer to their users.
\<close>

section \<open>Keyed slot arrays\<close>

definition slots_distinct :: "('a \<Rightarrow> 'k) \<Rightarrow> 'a option list \<Rightarrow> bool" where
  "slots_distinct key ss \<longleftrightarrow> distinct (map key (slot_items ss))"

definition slot_lookup :: "('a \<Rightarrow> 'k) \<Rightarrow> 'a option list \<Rightarrow> 'k \<Rightarrow> 'a option" where
  "slot_lookup key ss = map_of (map (\<lambda>x. (key x, x)) (slot_items ss))"

lemma slots_distinct_empty [simp]: "slots_distinct key (replicate n None)"
  by (simp add: slots_distinct_def slot_simps)

lemma slot_lookup_empty [simp]: "slot_lookup key (replicate n None) = Map.empty"
  by (simp add: slot_lookup_def slot_simps)

lemma slot_lookup_Some:
  assumes "slots_distinct key ss"
  shows "slot_lookup key ss k = Some x \<longleftrightarrow> Some x \<in> set ss \<and> key x = k"
proof -
  have "distinct (map fst (map (\<lambda>x. (key x, x)) (slot_items ss)))"
    using assms by (simp add: slots_distinct_def o_def)
  then have "slot_lookup key ss k = Some x \<longleftrightarrow> (k, x) \<in> set (map (\<lambda>x. (key x, x)) (slot_items ss))"
    unfolding slot_lookup_def by (rule map_of_eq_Some_iff)
  then show ?thesis
    by (auto simp: slot_simps)
qed

lemma slot_lookup_key: "slots_distinct key ss \<Longrightarrow> slot_lookup key ss k = Some x \<Longrightarrow> key x = k"
  by (simp add: slot_lookup_Some)

lemma slot_lookup_None: "slot_lookup key ss k = None \<longleftrightarrow> (\<forall>x. Some x \<in> set ss \<longrightarrow> key x \<noteq> k)"
  by (auto simp: slot_lookup_def map_of_eq_None_iff slot_simps image_iff)

lemma dom_slot_lookup: "dom (slot_lookup key ss) = key ` set (slot_items ss)"
  by (auto simp: slot_lookup_def dom_map_of_conv_image_fst image_image)

lemma card_dom_slot_lookup:
  "slots_distinct key ss \<Longrightarrow> card (dom (slot_lookup key ss)) = length (slot_items ss)"
  by (metis dom_slot_lookup distinct_card length_map set_map slots_distinct_def)

text \<open>The lookup of an array without duplicates is determined by the entries under each key.\<close>

lemma slot_lookup_eqI:
  assumes "slots_distinct key ss" "\<And>k x. m k = Some x \<longleftrightarrow> Some x \<in> set ss \<and> key x = k"
  shows "slot_lookup key ss = m"
proof
  fix k
  have "slot_lookup key ss k = Some x \<longleftrightarrow> m k = Some x" for x
    using assms(2) slot_lookup_Some [OF assms(1)] by simp
  then show "slot_lookup key ss k = m k"
    by (metis not_None_eq)
qed

text \<open>Storing into a free slot.\<close>

lemma slot_store:
  assumes "slots_distinct key ss" "i < length ss" "ss ! i = None" "slot_lookup key ss (key x) = None"
  shows "slots_distinct key (ss[i := Some x])"
    and "slot_lookup key (ss[i := Some x]) = (slot_lookup key ss)(key x \<mapsto> x)"
    and "length (slot_items (ss[i := Some x])) = Suc (length (slot_items ss))"
proof -
  note old = slot_items_split [OF assms(2)] and new = slot_items_update [OF assms(2), of "Some x"]
  have fresh: "key x \<notin> key ` set (slot_items ss)"
    using assms(4) by (auto simp: slot_lookup_None slot_simps)
  show d: "slots_distinct key (ss[i := Some x])"
    using assms(1,3) fresh unfolding slots_distinct_def old new by auto
  show "slot_lookup key (ss[i := Some x]) = (slot_lookup key ss)(key x \<mapsto> x)"
  proof (rule slot_lookup_eqI [OF d])
    fix k y
    have "Some y \<in> set (ss[i := Some x]) \<longleftrightarrow> y = x \<or> Some y \<in> set ss"
      using assms(3) unfolding set_slot_items [symmetric] old new by auto
    then show "((slot_lookup key ss)(key x \<mapsto> x)) k = Some y \<longleftrightarrow>
        Some y \<in> set (ss[i := Some x]) \<and> key y = k"
      using slot_lookup_Some [OF assms(1)] assms(4) by (auto simp: slot_lookup_None)
  qed
  show "length (slot_items (ss[i := Some x])) = Suc (length (slot_items ss))"
    using assms(3) unfolding old new by simp
qed

text \<open>Replacing the entry of a slot by one with the same key.\<close>

lemma slot_replace:
  assumes "slots_distinct key ss" "i < length ss" "ss ! i = Some x" "key y = key x"
  shows "slots_distinct key (ss[i := Some y])"
    and "slot_lookup key (ss[i := Some y]) = (slot_lookup key ss)(key x \<mapsto> y)"
    and "length (slot_items (ss[i := Some y])) = length (slot_items ss)"
proof -
  note old = slot_items_split [OF assms(2)] and new = slot_items_update [OF assms(2), of "Some y"]
  show d: "slots_distinct key (ss[i := Some y])"
    using assms(1,3,4) unfolding slots_distinct_def old new by auto
  have others: "key z \<noteq> key x" if "z \<in> set (slot_items (take i ss)) \<union> set (slot_items (drop (Suc i) ss))" for z
    using assms(1,3) that unfolding slots_distinct_def old by (auto simp: image_iff)
  have mem: "Some z \<in> set (ss[i := Some y]) \<longleftrightarrow> z = y \<or> (Some z \<in> set ss \<and> z \<noteq> x)" for z
    using assms(3) others unfolding set_slot_items [symmetric] old new by auto
  show "slot_lookup key (ss[i := Some y]) = (slot_lookup key ss)(key x \<mapsto> y)"
  proof (rule slot_lookup_eqI [OF d])
    fix k z
    have "Some x \<in> set ss"
      using assms(2,3) nth_mem by metis
    then have "slot_lookup key ss (key x) = Some x"
      using slot_lookup_Some [OF assms(1)] by simp
    then have "w = x" if "Some w \<in> set ss" "key w = key x" for w
      using slot_lookup_Some [OF assms(1), THEN iffD2, OF conjI, OF that] by simp
    then have uniq: "\<not> (Some z \<in> set ss \<and> z \<noteq> x \<and> key z = key x)"
      by blast
    show "((slot_lookup key ss)(key x \<mapsto> y)) k = Some z \<longleftrightarrow>
        Some z \<in> set (ss[i := Some y]) \<and> key z = k"
    proof (cases "k = key x")
      case True
      then show ?thesis
        unfolding mem [of z] using uniq assms(4) by (metis fun_upd_same option.inject)
    next
      case False
      then have "((slot_lookup key ss)(key x \<mapsto> y)) k = slot_lookup key ss k"
        by simp
      then show ?thesis
        unfolding mem [of z] slot_lookup_Some [OF assms(1)] using False assms(4)
        by (metis slot_lookup_Some [OF assms(1)])
    qed
  qed
  show "length (slot_items (ss[i := Some y])) = length (slot_items ss)"
    using assms(3) unfolding old new by simp
qed

text \<open>Freeing a slot.\<close>

lemma slot_clear:
  assumes "slots_distinct key ss" "i < length ss" "ss ! i = Some x"
  shows "slots_distinct key (ss[i := None])"
    and "slot_lookup key (ss[i := None]) = (slot_lookup key ss)(key x := None)"
    and "Suc (length (slot_items (ss[i := None]))) = length (slot_items ss)"
proof -
  note old = slot_items_split [OF assms(2)] and new = slot_items_update [OF assms(2), of None]
  show d: "slots_distinct key (ss[i := None])"
    using assms(1,3) unfolding slots_distinct_def old new by auto
  have others: "key z \<noteq> key x" if "z \<in> set (slot_items (take i ss)) \<union> set (slot_items (drop (Suc i) ss))" for z
    using assms(1,3) that unfolding slots_distinct_def old by (auto simp: image_iff)
  have mem: "Some z \<in> set (ss[i := None]) \<longleftrightarrow> Some z \<in> set ss \<and> key z \<noteq> key x" for z
    using assms(3) others unfolding set_slot_items [symmetric] old new by auto
  show "slot_lookup key (ss[i := None]) = (slot_lookup key ss)(key x := None)"
  proof (rule slot_lookup_eqI [OF d])
    fix k z
    show "((slot_lookup key ss)(key x := None)) k = Some z \<longleftrightarrow>
        Some z \<in> set (ss[i := None]) \<and> key z = k"
      using slot_lookup_Some [OF assms(1)] mem [of z] by auto
  qed
  show "Suc (length (slot_items (ss[i := None]))) = length (slot_items ss)"
    using assms(3) unfolding old new by simp
qed

text \<open>Searching by key.\<close>

lemma slot_position_key:
  assumes "slot_position (\<lambda>x. key x = k) ss = Some i" and "slots_distinct key ss"
  shows "i < length ss" and "\<exists>x. ss ! i = Some x \<and> key x = k \<and> slot_lookup key ss k = Some x"
proof -
  obtain x where i: "i < length ss" and x: "ss ! i = Some x" "key x = k"
    using slot_position_Some [OF assms(1)] by blast
  then have "slot_lookup key ss k = Some x"
    using assms(2) nth_mem [OF i] by (simp add: slot_lookup_Some)
  with x show "\<exists>x. ss ! i = Some x \<and> key x = k \<and> slot_lookup key ss k = Some x"
    by blast
qed (use slot_position_Some [OF assms(1)] in blast)

lemma slot_position_key_None:
  "slot_position (\<lambda>x. key x = k) ss = None \<longleftrightarrow> slot_lookup key ss k = None"
  by (auto simp: slot_position_None slot_lookup_None slot_simps)

text \<open>Mapping every slot through a partial function that keeps the key.\<close>

lemma slot_items_bind: "slot_items (map (\<lambda>s. Option.bind s h) ss) = List.map_filter h (slot_items ss)"
  by (induction ss) (auto simp: List.map_filter_simps slot_items_def [of "[]"] split: option.splits
      bind_splits)

lemma slot_bind:
  assumes "slots_distinct key ss" and "\<And>x y. h x = Some y \<Longrightarrow> key y = key x"
  shows "slots_distinct key (map (\<lambda>s. Option.bind s h) ss)"
    and "slot_lookup key (map (\<lambda>s. Option.bind s h) ss) = (\<lambda>k. Option.bind (slot_lookup key ss k) h)"
proof -
  have sub: "key ` set (List.map_filter h xs) \<subseteq> key ` set xs" for xs
    using assms(2) by (force simp: List.map_filter_def)
  have "distinct (map key xs) \<Longrightarrow> distinct (map key (List.map_filter h xs))" for xs
  proof (induction xs)
    case (Cons x xs)
    then show ?case
      using sub [of xs] assms(2) [of x] by (auto simp: List.map_filter_simps split: option.splits)
  qed (simp add: List.map_filter_simps)
  then show d: "slots_distinct key (map (\<lambda>s. Option.bind s h) ss)"
    using assms(1) by (simp add: slots_distinct_def slot_items_bind)
  show "slot_lookup key (map (\<lambda>s. Option.bind s h) ss) = (\<lambda>k. Option.bind (slot_lookup key ss k) h)"
  proof (rule slot_lookup_eqI [OF d])
    fix k y
    have "Some y \<in> set (map (\<lambda>s. Option.bind s h) ss) \<longleftrightarrow> (\<exists>x. Some x \<in> set ss \<and> h x = Some y)"
      unfolding set_map image_iff by (metis bind_eq_Some_conv)
    then show "Option.bind (slot_lookup key ss k) h = Some y \<longleftrightarrow>
        Some y \<in> set (map (\<lambda>s. Option.bind s h) ss) \<and> key y = k"
      using slot_lookup_Some [OF assms(1)] assms(2) by (auto simp: bind_eq_Some_conv)
  qed
qed

section \<open>Chunks of a slice\<close>

text \<open>\<open>xs.chunks(n)\<close>; the source never asks for chunks of length zero.\<close>

fun chunks :: "nat \<Rightarrow> 'a list \<Rightarrow> 'a list list" where
  "chunks n xs = (if xs = [] \<or> n = 0 then [] else take n xs # chunks n (drop n xs))"

declare chunks.simps [simp del]

lemma concat_chunks: "0 < n \<Longrightarrow> concat (chunks n xs) = xs"
  by (induction n xs rule: chunks.induct) (subst chunks.simps, auto)

lemma chunks_bounds: "c \<in> set (chunks n xs) \<Longrightarrow> c \<noteq> [] \<and> length c \<le> n \<and> set c \<subseteq> set xs"
proof (induction n xs rule: chunks.induct)
  case (1 n xs)
  then show ?case
    by (subst (asm) (2) chunks.simps) (auto split: if_splits dest: in_set_takeD in_set_dropD)
qed

section \<open>The contract of a fixed-capacity table\<close>

locale bounded_map =
  fixes inv :: "'t \<Rightarrow> bool"
    and lookup :: "'t \<Rightarrow> 'k \<Rightarrow> 'v option"
    and insert :: "'k \<Rightarrow> 'v \<Rightarrow> 't \<Rightarrow> 't option"
    and remove :: "'k \<Rightarrow> 't \<Rightarrow> 't"
    and capacity :: "'t \<Rightarrow> nat"
  assumes lookup_finite: "inv t \<Longrightarrow> finite (dom (lookup t))"
    and lookup_card: "inv t \<Longrightarrow> card (dom (lookup t)) \<le> capacity t"
    and insert_inv: "inv t \<Longrightarrow> insert k v t = Some u \<Longrightarrow> inv u"
    and insert_capacity: "insert k v t = Some u \<Longrightarrow> capacity u = capacity t"
    and insert_lookup: "inv t \<Longrightarrow> insert k v t = Some u \<Longrightarrow> lookup u = (lookup t)(k \<mapsto> v)"
    and insert_refused: "inv t \<Longrightarrow>
      insert k v t = None \<longleftrightarrow> k \<in> dom (lookup t) \<or> card (dom (lookup t)) = capacity t"
    and remove_inv: "inv t \<Longrightarrow> inv (remove k t)"
    and remove_capacity: "capacity (remove k t) = capacity t"
    and remove_lookup: "inv t \<Longrightarrow> lookup (remove k t) = (lookup t)(k := None)"
begin

lemma insert_remove:
  "inv t \<Longrightarrow> insert k v t = Some u \<Longrightarrow> lookup (remove k u) = lookup t"
proof -
  assume t: "inv t" and u: "insert k v t = Some u"
  then have "lookup t k = None"
    using insert_refused [OF t, of k v] by (auto simp: domIff)
  then show ?thesis
    using t u insert_inv insert_lookup remove_lookup by fastforce
qed

text \<open>A refused key finds room once any other key has been removed.\<close>

lemma remove_makes_room:
  assumes "inv t" "k \<notin> dom (lookup t)" "j \<in> dom (lookup t)"
  shows "insert k v (remove j t) \<noteq> None"
proof -
  have "card (dom (lookup (remove j t))) < card (dom (lookup t))"
    using assms card_Diff1_less [OF lookup_finite [OF assms(1)] assms(3)] by (simp add: remove_lookup)
  then have "card (dom (lookup (remove j t))) < capacity (remove j t)"
    using lookup_card [OF assms(1)] by (simp add: remove_capacity)
  then show ?thesis
    using assms insert_refused [OF remove_inv [OF assms(1)], of k v] by (auto simp: remove_lookup)
qed

end

end
