(* ===== verification/Kiss_Ackmode.thy ===== *)
theory Kiss_Ackmode
  imports Kiss_Decoder Slots
begin

text \<open>
  The ACKMODE extension (\<open>kiss/ackmode.rs\<close>): building and recognising ACKMODE frames, and the
  correlator that matches a TNC's transmit-completion echo to the outstanding send. The correlator
  is a slot array with a tag cursor; its abstraction is the map from outstanding tags to their
  queue time and deadline.
\<close>

section \<open>Frames\<close>

definition build_send_frame :: "u8 \<Rightarrow> u16 \<Rightarrow> bytes \<Rightarrow> bytes option panicking" where
  "build_send_frame port sequence_tag ax25_payload =
     encode port AckMode (hi8 sequence_tag # lo8 sequence_tag # ax25_payload)"

definition build_payload_into :: "bytes \<Rightarrow> u16 \<Rightarrow> bytes \<Rightarrow> (bytes \<times> nat) option" where
  "build_payload_into dst sequence_tag ax25_payload =
     (let needed = length ax25_payload + 2 in
      if length dst < needed then None
      else Some (overwrite dst 0 (hi8 sequence_tag # lo8 sequence_tag # ax25_payload), needed))"

definition try_parse_acknowledgement :: "kiss_frame \<Rightarrow> u16 option" where
  "try_parse_acknowledgement f =
     (if kf_command f \<noteq> AckMode \<or> length (kf_payload f) \<noteq> 2 then None
      else Some (be16 (kf_payload f ! 0) (kf_payload f ! 1)))"

definition try_parse_data_frame :: "kiss_frame \<Rightarrow> (u16 \<times> bytes) option" where
  "try_parse_data_frame f =
     (if kf_command f \<noteq> AckMode \<or> length (kf_payload f) \<le> 2 then None
      else Some (be16 (kf_payload f ! 0) (kf_payload f ! 1), drop 2 (kf_payload f)))"

section \<open>The correlator\<close>

record tx_completion =
  tc_sequence_tag :: u16
  tc_queued_at_ms :: u64
  tc_completed_at_ms :: u64

definition elapsed_ms :: "tx_completion \<Rightarrow> u64" where
  "elapsed_ms c = saturating_sub (tc_completed_at_ms c) (tc_queued_at_ms c)"

datatype ack_register_error = DuplicateTag | Full

record pending_ack =
  tag :: u16
  queued_at_ms :: u64
  deadline_ms :: u64

record ack_correlator =
  pending :: "pending_ack option list"
  cursor :: u16

definition correlator_new :: "nat \<Rightarrow> ack_correlator" where
  "correlator_new n = \<lparr>pending = replicate n None, cursor = 0\<rparr>"

definition ack_contains :: "ack_correlator \<Rightarrow> u16 \<Rightarrow> bool" where
  "ack_contains c t \<longleftrightarrow> (\<exists>p \<in> set (slot_items (pending c)). tag p = t)"

definition ack_len :: "ack_correlator \<Rightarrow> nat" where
  "ack_len c = length (slot_items (pending c))"

definition ack_is_full :: "ack_correlator \<Rightarrow> bool" where
  "ack_is_full c \<longleftrightarrow> list_all (\<lambda>s. s \<noteq> None) (pending c)"

text \<open>The loop of \<open>next_tag\<close>: it turns a second time exactly when the counter wraps to 0.\<close>

function next_tag_loop :: "u16 \<Rightarrow> u16" where
  "next_tag_loop c = (let c' = c + 1 in if c' \<noteq> 0 then c' else next_tag_loop c')"
  by pat_completeness auto
termination
  by (relation "measure (\<lambda>c :: u16. if c = 0 then 0 else 1)") auto

declare next_tag_loop.simps [simp del]

definition next_tag :: "ack_correlator \<Rightarrow> u16 \<times> ack_correlator" where
  "next_tag c = (let t = next_tag_loop (cursor c) in (t, c\<lparr>cursor := t\<rparr>))"

definition register ::
  "u16 \<Rightarrow> u64 \<Rightarrow> u64 \<Rightarrow> ack_correlator \<Rightarrow> ack_register_error + ack_correlator" where
  "register t now_ms timeout_ms c =
     (if ack_contains c t then Inl DuplicateTag
      else case slot_free (pending c) of
             None \<Rightarrow> Inl Full
           | Some i \<Rightarrow>
               Inr (c\<lparr>pending := (pending c)[i := Some \<lparr>tag = t, queued_at_ms = now_ms,
                      deadline_ms = saturating_add now_ms timeout_ms\<rparr>]\<rparr>))"

text \<open>\<open>begin\<close>: the cursor moves even when the registration is refused.\<close>

definition ack_begin ::
  "u64 \<Rightarrow> u64 \<Rightarrow> ack_correlator \<Rightarrow> (ack_register_error + u16) \<times> ack_correlator" where
  "ack_begin now_ms timeout_ms c =
     (let (t, c1) = next_tag c in
      case register t now_ms timeout_ms c1 of
        Inl e \<Rightarrow> (Inl e, c1)
      | Inr c2 \<Rightarrow> (Inr t, c2))"

definition on_echo_tag ::
  "u16 \<Rightarrow> u64 \<Rightarrow> ack_correlator \<Rightarrow> tx_completion option \<times> ack_correlator" where
  "on_echo_tag t now_ms c =
     (case slot_position (\<lambda>p. tag p = t) (pending c) of
        None \<Rightarrow> (None, c)
      | Some i \<Rightarrow>
          (case pending c ! i of
             None \<Rightarrow> (None, c)
           | Some p \<Rightarrow>
               (Some \<lparr>tc_sequence_tag = t, tc_queued_at_ms = queued_at_ms p,
                      tc_completed_at_ms = now_ms\<rparr>,
                c\<lparr>pending := (pending c)[i := None]\<rparr>)))"

definition on_echo ::
  "kiss_frame \<Rightarrow> u64 \<Rightarrow> ack_correlator \<Rightarrow> tx_completion option \<times> ack_correlator" where
  "on_echo f now_ms c =
     (case try_parse_acknowledgement f of
        None \<Rightarrow> (None, c)
      | Some t \<Rightarrow> on_echo_tag t now_ms c)"

definition poll_timeout :: "u64 \<Rightarrow> ack_correlator \<Rightarrow> u16 option \<times> ack_correlator" where
  "poll_timeout now_ms c =
     (case slot_position (\<lambda>p. deadline_ms p \<le> now_ms) (pending c) of
        None \<Rightarrow> (None, c)
      | Some i \<Rightarrow>
          (map_option tag (pending c ! i), c\<lparr>pending := (pending c)[i := None]\<rparr>))"

definition ack_cancel :: "u16 \<Rightarrow> ack_correlator \<Rightarrow> bool \<times> ack_correlator" where
  "ack_cancel t c =
     (case slot_position (\<lambda>p. tag p = t) (pending c) of
        None \<Rightarrow> (False, c)
      | Some i \<Rightarrow> (True, c\<lparr>pending := (pending c)[i := None]\<rparr>))"

definition ack_reset :: "ack_correlator \<Rightarrow> nat \<times> ack_correlator" where
  "ack_reset c = (ack_len c, c\<lparr>pending := map (\<lambda>_. None) (pending c)\<rparr>)"

section \<open>Abstraction and invariant\<close>

definition ack_inv :: "ack_correlator \<Rightarrow> bool" where
  "ack_inv c \<longleftrightarrow> slots_distinct tag (pending c)"

definition outstanding :: "ack_correlator \<Rightarrow> u16 \<Rightarrow> (u64 \<times> u64) option" where
  "outstanding c t =
     map_option (\<lambda>p. (queued_at_ms p, deadline_ms p)) (slot_lookup tag (pending c) t)"

lemma dom_outstanding: "dom (outstanding c) = dom (slot_lookup tag (pending c))"
  by (auto simp: outstanding_def)

lemma ack_contains_iff: "ack_contains c t \<longleftrightarrow> slot_lookup tag (pending c) t \<noteq> None"
  by (auto simp: ack_contains_def slot_lookup_None slot_simps)

lemma register_ok:
  assumes "ack_inv c" "register t n d c = Inr c'"
  shows "ack_inv c'" and "outstanding c' = (outstanding c)(t \<mapsto> (n, saturating_add n d))"
    and "cursor c' = cursor c" and "length (pending c') = length (pending c)"
proof -
  obtain i where i: "slot_free (pending c) = Some i" and t: "slot_lookup tag (pending c) t = None"
    and c': "c' = c\<lparr>pending := (pending c)[i := Some \<lparr>tag = t, queued_at_ms = n,
                      deadline_ms = saturating_add n d\<rparr>]\<rparr>"
    using assms(2) by (auto simp: register_def ack_contains_iff split: if_splits option.splits)
  have "i < length (pending c)" "pending c ! i = None"
    using slot_free_Some [OF i] by auto
  note store = slot_store [OF assms(1) [unfolded ack_inv_def] this,
      of "\<lparr>tag = t, queued_at_ms = n, deadline_ms = saturating_add n d\<rparr>"]
  show "ack_inv c'" and "outstanding c' = (outstanding c)(t \<mapsto> (n, saturating_add n d))"
    using store t by (auto simp: c' ack_inv_def outstanding_def fun_eq_iff)
qed (use assms(2) in \<open>auto simp: register_def split: if_splits option.splits\<close>)

lemma register_error:
  assumes "ack_inv c"
  shows "register t n d c = Inl DuplicateTag \<longleftrightarrow> t \<in> dom (outstanding c)"
    and "register t n d c = Inl Full \<longleftrightarrow>
      t \<notin> dom (outstanding c) \<and> card (dom (outstanding c)) = length (pending c)"
  using assms slot_free_None [of "pending c"]
  by (auto simp: register_def ack_contains_iff dom_outstanding ack_inv_def card_dom_slot_lookup
      split: option.splits)

lemma free_slot:
  assumes "ack_inv c" "slot_position P (pending c) = Some i"
  obtains p where "pending c ! i = Some p" "P p" "outstanding c (tag p) = Some (queued_at_ms p, deadline_ms p)"
    "ack_inv (c\<lparr>pending := (pending c)[i := None]\<rparr>)"
    "outstanding (c\<lparr>pending := (pending c)[i := None]\<rparr>) = (outstanding c)(tag p := None)"
proof -
  obtain p where i: "i < length (pending c)" and p: "pending c ! i = Some p" "P p"
    using slot_position_Some [OF assms(2)] by blast
  note d = assms(1) [unfolded ack_inv_def]
  have "slot_lookup tag (pending c) (tag p) = Some p"
    using slot_lookup_Some [OF d] p i nth_mem by metis
  then show thesis
    using slot_clear [OF d i p(1)] by (intro that [OF p]) (auto simp: ack_inv_def outstanding_def)
qed

lemma on_echo_tag_spec:
  assumes "ack_inv c"
  shows "ack_inv (snd (on_echo_tag t now c))"
    and "outstanding (snd (on_echo_tag t now c)) = (outstanding c)(t := None)"
    and "fst (on_echo_tag t now c) =
      map_option (\<lambda>(q, _). \<lparr>tc_sequence_tag = t, tc_queued_at_ms = q, tc_completed_at_ms = now\<rparr>)
        (outstanding c t)"
proof -
  have "ack_inv (snd (on_echo_tag t now c)) \<and>
    outstanding (snd (on_echo_tag t now c)) = (outstanding c)(t := None) \<and>
    fst (on_echo_tag t now c) =
      map_option (\<lambda>(q, _). \<lparr>tc_sequence_tag = t, tc_queued_at_ms = q, tc_completed_at_ms = now\<rparr>)
        (outstanding c t)"
  proof (cases "slot_position (\<lambda>p. tag p = t) (pending c)")
    case None
    then have "outstanding c t = None"
      by (simp add: outstanding_def slot_position_key_None)
    then show ?thesis
      using None assms by (simp add: on_echo_tag_def fun_upd_idem)
  next
    case (Some i)
    then show ?thesis
      using assms by (rule_tac free_slot [OF assms Some]) (auto simp: on_echo_tag_def)
  qed
  then show "ack_inv (snd (on_echo_tag t now c))"
    and "outstanding (snd (on_echo_tag t now c)) = (outstanding c)(t := None)"
    and "fst (on_echo_tag t now c) =
      map_option (\<lambda>(q, _). \<lparr>tc_sequence_tag = t, tc_queued_at_ms = q, tc_completed_at_ms = now\<rparr>)
        (outstanding c t)"
    by simp_all
qed

lemma ack_cancel_eq_echo: "snd (ack_cancel t c) = snd (on_echo_tag t 0 c)"
  using slot_position_Some by (fastforce simp: ack_cancel_def on_echo_tag_def split: option.splits)

section \<open>The correlator as a bounded map and as a state machine\<close>

definition queued_at :: "ack_correlator \<Rightarrow> u16 \<Rightarrow> u64 option" where
  "queued_at c t = map_option fst (outstanding c t)"

definition ack_insert :: "u64 \<Rightarrow> u16 \<Rightarrow> u64 \<Rightarrow> ack_correlator \<Rightarrow> ack_correlator option" where
  "ack_insert timeout_ms t now_ms c =
     (case register t now_ms timeout_ms c of Inl _ \<Rightarrow> None | Inr c' \<Rightarrow> Some c')"

definition ack_remove :: "u16 \<Rightarrow> ack_correlator \<Rightarrow> ack_correlator" where
  "ack_remove t c = snd (ack_cancel t c)"

lemma dom_queued_at: "dom (queued_at c) = dom (outstanding c)"
  by (auto simp: queued_at_def)

lemma length_pending_echo [simp]: "length (pending (snd (on_echo_tag t n c))) = length (pending c)"
  by (auto simp: on_echo_tag_def split: option.splits)

interpretation ack: bounded_map ack_inv queued_at "ack_insert timeout_ms" ack_remove "\<lambda>c. length (pending c)"
  for timeout_ms
proof
  fix c t n and u assume c: "ack_inv c"
  have card: "card (dom (queued_at c)) = length (slot_items (pending c))"
    using c by (simp add: dom_queued_at dom_outstanding ack_inv_def card_dom_slot_lookup)
  show "finite (dom (queued_at c))"
    by (simp add: dom_queued_at dom_outstanding dom_slot_lookup)
  show "card (dom (queued_at c)) \<le> length (pending c)"
    using card length_slot_items by simp
  show "ack_insert timeout_ms t n c = None \<longleftrightarrow>
      t \<in> dom (queued_at c) \<or> card (dom (queued_at c)) = length (pending c)"
    using register_error [OF c, of t n timeout_ms]
    by (cases "register t n timeout_ms c") (auto simp: ack_insert_def dom_queued_at
        intro: ack_register_error.exhaust)
  show "ack_inv (ack_remove t c)"
    using on_echo_tag_spec(1) [OF c] by (simp add: ack_remove_def ack_cancel_eq_echo)
  show "queued_at (ack_remove t c) = (queued_at c)(t := None)"
    using on_echo_tag_spec(2) [OF c]
    by (auto simp: ack_remove_def ack_cancel_eq_echo queued_at_def)
  assume "ack_insert timeout_ms t n c = Some u"
  then have "register t n timeout_ms c = Inr u"
    by (simp add: ack_insert_def split: sum.splits)
  note r = register_ok [OF c this]
  show "ack_inv u" and "queued_at u = (queued_at c)(t \<mapsto> n)"
    using r by (auto simp: queued_at_def)
next
  fix c t n u assume "ack_insert timeout_ms t n c = Some u"
  then show "length (pending u) = length (pending c)"
    by (auto simp: ack_insert_def register_def split: sum.splits if_splits option.splits)
qed (simp add: ack_remove_def ack_cancel_eq_echo)

datatype ack_event =
    Begin u64 u64
  | Register u16 u64 u64
  | Echo kiss_frame u64
  | PollTimeout u64
  | Cancel u16
  | ResetAll

fun ack_step :: "ack_event \<Rightarrow> ack_correlator \<Rightarrow> ack_correlator" where
  "ack_step (Begin n d) c = snd (ack_begin n d c)"
| "ack_step (Register t n d) c = (case register t n d c of Inl _ \<Rightarrow> c | Inr c' \<Rightarrow> c')"
| "ack_step (Echo f n) c = snd (on_echo f n c)"
| "ack_step (PollTimeout n) c = snd (poll_timeout n c)"
| "ack_step (Cancel t) c = snd (ack_cancel t c)"
| "ack_step ResetAll c = snd (ack_reset c)"

lemma cursor_irrelevant [simp]:
  "ack_inv (c\<lparr>cursor := k\<rparr>) = ack_inv c" "outstanding (c\<lparr>cursor := k\<rparr>) = outstanding c"
  by (simp_all add: ack_inv_def outstanding_def fun_eq_iff)

lemma ack_begin_inv: "ack_inv c \<Longrightarrow> ack_inv (snd (ack_begin n d c))"
  using register_ok(1) [of "c\<lparr>cursor := next_tag_loop (cursor c)\<rparr>"]
  by (auto simp: ack_begin_def next_tag_def Let_def split: sum.splits)

lemma ack_reset_empty: "pending (snd (ack_reset c)) = replicate (length (pending c)) None"
  by (simp add: ack_reset_def map_replicate_const)

lemma poll_timeout_spec:
  assumes "ack_inv c"
  shows "case poll_timeout n c of
      (None, c') \<Rightarrow> c' = c \<and> (\<forall>t q d. outstanding c t = Some (q, d) \<longrightarrow> n < d)
    | (Some t, c') \<Rightarrow> ack_inv c' \<and> (\<exists>q d. outstanding c t = Some (q, d) \<and> d \<le> n) \<and>
        outstanding c' = (outstanding c)(t := None)"
proof (cases "slot_position (\<lambda>p. deadline_ms p \<le> n) (pending c)")
  case None
  have "n < d" if "outstanding c t = Some (q, d)" for t q d
    using that assms None [unfolded slot_position_None]
    by (auto simp: outstanding_def ack_inv_def slot_lookup_Some slot_simps not_le)
  with None show ?thesis
    by (simp add: poll_timeout_def)
next
  case (Some i)
  show ?thesis
    using Some by (rule_tac free_slot [OF assms Some]) (auto simp: poll_timeout_def)
qed

lemma poll_timeout_inv: "ack_inv c \<Longrightarrow> ack_inv (snd (poll_timeout n c))"
  using poll_timeout_spec [of c n] by (auto split: prod.splits option.splits)

interpretation ack_machine: state_machine ack_step ack_inv
proof
  fix c e assume c: "ack_inv c"
  have r: "ack_inv (snd (ack_reset c))"
    by (simp add: ack_inv_def ack_reset_empty)
  show "ack_inv (ack_step e c)"
    using c r on_echo_tag_spec(1) [OF c] register_ok(1) [OF c] ack_begin_inv [OF c]
      poll_timeout_inv [OF c]
    by (cases e) (auto simp: on_echo_def ack_cancel_eq_echo split: option.splits sum.splits)
qed

section \<open>Draining every expiry of a tick\<close>

lemma poll_timeout_shrinks:
  assumes "poll_timeout n c = (Some t, c')"
  shows "ack_len c' < ack_len c"
proof -
  obtain i where pos: "slot_position (\<lambda>p. deadline_ms p \<le> n) (pending c) = Some i"
    and c': "c' = c\<lparr>pending := (pending c)[i := None]\<rparr>"
    using assms by (auto simp: poll_timeout_def split: option.splits)
  obtain p where i: "i < length (pending c)" and p: "pending c ! i = Some p"
    using slot_position_Some [OF pos] by blast
  show ?thesis
    using slot_items_split [OF i] slot_items_update [OF i, of None] p by (simp add: c' ack_len_def)
qed

text \<open>The caller's loop over \<open>poll_timeout\<close>: it ends because every turn frees a slot.\<close>

function drain_timeouts :: "u64 \<Rightarrow> ack_correlator \<Rightarrow> u16 list \<times> ack_correlator" where
  "drain_timeouts n c =
     (case poll_timeout n c of
        (None, c') \<Rightarrow> ([], c')
      | (Some t, c') \<Rightarrow> (let (ts, c'') = drain_timeouts n c' in (t # ts, c'')))"
  by pat_completeness auto
termination
  by (relation "measure (\<lambda>(n, c). ack_len c)") (auto dest: poll_timeout_shrinks [OF sym])

declare drain_timeouts.simps [simp del]

definition expired :: "u64 \<Rightarrow> ack_correlator \<Rightarrow> u16 set" where
  "expired n c = {t. \<exists>q d. outstanding c t = Some (q, d) \<and> d \<le> n}"

section \<open>Properties\<close>

text \<open>
  Draining the timeouts of a tick returns each expired tag once and no other, and leaves
  outstanding exactly the sends whose deadline lies ahead.
\<close>

theorem ack_drain_exact:
  assumes "ack_inv c"
  shows "set (fst (drain_timeouts n c)) = expired n c \<and> distinct (fst (drain_timeouts n c)) \<and>
    ack_inv (snd (drain_timeouts n c)) \<and>
    outstanding (snd (drain_timeouts n c)) = outstanding c |` (- expired n c)"
  using assms
proof (induction n c rule: drain_timeouts.induct)
  case (1 n c)
  show ?case
  proof (cases "poll_timeout n c")
    case (Pair r c')
    show ?thesis
    proof (cases r)
      case None
      then have c': "c' = c" and none: "expired n c = {}"
        using Pair poll_timeout_spec [OF "1.prems", of n] by (fastforce simp: expired_def)+
      then show ?thesis
        using Pair None "1.prems" by (simp add: drain_timeouts.simps [of n c])
    next
      case (Some t)
      then have c': "ack_inv c'" "outstanding c' = (outstanding c)(t := None)"
        and t: "t \<in> expired n c"
        using Pair poll_timeout_spec [OF "1.prems", of n] by (auto simp: expired_def)
      have e: "expired n c' = expired n c - {t}"
        using c'(2) by (auto simp: expired_def)
      note IH = "1.IH" [OF Pair [symmetric] Some c'(1)]
      have o: "outstanding c' |` (- expired n c') = outstanding c |` (- expired n c)"
        using t by (auto simp: e c'(2) restrict_map_def fun_eq_iff)
      show ?thesis
        using IH Pair Some t e o
        by (auto simp: drain_timeouts.simps [of n c] split_beta Let_def)
    qed
  qed
qed

theorem ack_drain_exact_witness:
  "set (fst (drain_timeouts 50 (snd (ack_begin 0 100 (snd (ack_begin 0 10 (correlator_new 2))))))) =
   expired 50 (snd (ack_begin 0 100 (snd (ack_begin 0 10 (correlator_new 2)))))"
proof -
  have "ack_inv (snd (ack_begin 0 100 (snd (ack_begin 0 10 (correlator_new 2)))))"
    by (intro ack_begin_inv) (simp add: ack_inv_def correlator_new_def)
  then show ?thesis
    using ack_drain_exact by blast
qed

text \<open>
  The events that may end the send registered under a tag: its own echo, its cancellation, a
  reset, or a timeout poll at or after its deadline.
\<close>

fun ends_send :: "u16 \<Rightarrow> u64 \<Rightarrow> ack_event \<Rightarrow> bool" where
  "ends_send t d (Echo f n) = (try_parse_acknowledgement f = Some t)"
| "ends_send t d (PollTimeout n) = (d \<le> n)"
| "ends_send t d (Cancel u) = (u = t)"
| "ends_send t d ResetAll = True"
| "ends_send t d _ = False"

lemma ack_step_keeps:
  assumes c: "ack_inv c" and t: "outstanding c t = Some (q, d)" and e: "\<not> ends_send t d e"
  shows "outstanding (ack_step e c) t = Some (q, d)"
proof -
  have reg: "outstanding c' t = Some (q, d)"
    if "ack_inv b" "outstanding b = outstanding c" "register u n dl b = Inr c'" for b u n dl c'
  proof -
    have "register u n dl b \<noteq> Inl DuplicateTag"
      using that(3) by simp
    then have "u \<noteq> t"
      using register_error(1) [OF that(1), of u n dl] that(2) t by auto
    then show ?thesis
      using register_ok(2) [OF that(1,3)] that(2) t by simp
  qed
  show ?thesis
  proof (cases e)
    case (Begin n dl)
    then show ?thesis
      using c t reg [of "c\<lparr>cursor := next_tag_loop (cursor c)\<rparr>"]
      by (auto simp: ack_begin_def next_tag_def Let_def split: sum.splits)
  next
    case (Register u n dl)
    then show ?thesis
      using c t reg [of c] by (auto split: sum.splits)
  next
    case (Echo f n)
    then show ?thesis
      using e t on_echo_tag_spec(2) [OF c] by (auto simp: on_echo_def split: option.splits)
  next
    case (PollTimeout n)
    then show ?thesis
      using e t poll_timeout_spec [OF c, of n] by (fastforce split: prod.splits option.splits)
  next
    case (Cancel u)
    then show ?thesis
      using e t on_echo_tag_spec(2) [OF c] by (simp add: ack_cancel_eq_echo)
  qed (use e in simp)
qed

text \<open>
  An accepted send is resolved by its own echo and by nothing else. However many other sends,
  echoes, cancellations and timeout polls happen in between (none that ends this send), the echo
  carrying its tag yields the completion with the time it was queued, and a second echo of the
  same tag is dropped.
\<close>

theorem ack_echo_resolves_its_send:
  assumes "ack_inv c" and "register t q timeout_ms c = Inr c1"
    and "\<forall>e \<in> set es. \<not> ends_send t (saturating_add q timeout_ms) e"
    and "try_parse_acknowledgement f = Some t"
  shows "let c2 = fold ack_step es c1; (r, c3) = on_echo f now c2 in
    r = Some \<lparr>tc_sequence_tag = t, tc_queued_at_ms = q, tc_completed_at_ms = now\<rparr> \<and>
    fst (on_echo f now c3) = None"
proof -
  have keep: "ack_inv b \<Longrightarrow> outstanding b t = Some (q, saturating_add q timeout_ms) \<Longrightarrow>
      outstanding (fold ack_step es b) t = Some (q, saturating_add q timeout_ms)" for b
    using assms(3)
  proof (induction es arbitrary: b)
    case (Cons e es)
    then show ?case
      using ack_step_keeps ack_machine.step_inv by simp
  qed simp
  define c2 where "c2 = fold ack_step es c1"
  have c1: "ack_inv c1" "outstanding c1 t = Some (q, saturating_add q timeout_ms)"
    using register_ok [OF assms(1,2)] by simp_all
  have c2: "ack_inv c2" "outstanding c2 t = Some (q, saturating_add q timeout_ms)"
    using keep [OF c1] ack_machine.run_inv [OF c1(1)] by (simp_all add: c2_def)
  have c3: "ack_inv (snd (on_echo_tag t now c2))"
    "outstanding (snd (on_echo_tag t now c2)) t = None"
    using on_echo_tag_spec [OF c2(1), of t now] by simp_all
  show ?thesis
    using on_echo_tag_spec(3) [OF c2(1), of t now] on_echo_tag_spec(3) [OF c3(1), of t now] c2(2) c3(2)
    by (simp add: on_echo_def assms(4) split_beta flip: c2_def)
qed

theorem ack_echo_resolves_its_send_witness:
  "let c1 = projr (register 7 100 50 (correlator_new 2));
       c2 = fold ack_step [Begin 120 50, PollTimeout 149] c1;
       (r, c3) = on_echo \<lparr>kf_port = 0, kf_command = AckMode, kf_payload = [0, 7]\<rparr> 130 c2 in
    r = Some \<lparr>tc_sequence_tag = 7, tc_queued_at_ms = 100, tc_completed_at_ms = 130\<rparr> \<and>
    fst (on_echo \<lparr>kf_port = 0, kf_command = AckMode, kf_payload = [0, 7]\<rparr> 130 c3) = None"
proof -
  define c1 where "c1 = projr (register 7 100 50 (correlator_new 2))"
  have r: "register 7 100 50 (correlator_new 2) = Inr c1"
    by (simp add: c1_def register_def correlator_new_def ack_contains_def numeral_2_eq_2)
  have i: "ack_inv (correlator_new 2)"
    by (simp add: ack_inv_def correlator_new_def)
  have d: "\<forall>e \<in> set [Begin 120 50, PollTimeout 149]. \<not> ends_send 7 (saturating_add 100 50) e"
    by (simp add: saturating_add_def)
  have f: "try_parse_acknowledgement \<lparr>kf_port = 0, kf_command = AckMode, kf_payload = [0, 7]\<rparr> = Some 7"
    by (simp add: try_parse_acknowledgement_def be16_def)
  show ?thesis
    using ack_echo_resolves_its_send [OF i r d f, of 130] by (simp only: Let_def flip: c1_def)
qed

section \<open>The tag counter\<close>

text \<open>The automatic tag steps through the 65535 non-zero values in order.\<close>

lemma next_tag_loop_eq: "next_tag_loop c = (if c + 1 = 0 then 1 else c + 1)"
  by (simp add: next_tag_loop.simps [of c] next_tag_loop.simps [of 0] Let_def)

lemma next_tag_nonzero: "fst (next_tag c) \<noteq> 0"
  by (simp add: next_tag_def next_tag_loop_eq Let_def)

end
