(* ===== verification/Text.thy ===== *)
theory Text
  imports Prelude
begin

text \<open>
  Text as the source handles it. A \<open>str\<close> is the list of its Unicode scalar values; ASCII bytes
  embed by \<open>unat\<close>. Modelled from the standard library: \<open>char::is_whitespace\<close>, \<open>trim\<close>,
  \<open>split_once\<close>, the ASCII classes and case maps, parsing of unsigned decimal numbers
  (\<open>from_str\<close>: an optional plus sign, at least one digit, an error on overflow) and their printing.
\<close>

type_synonym str = "nat list"

abbreviation ascii :: "bytes \<Rightarrow> str" where
  "ascii bs \<equiv> map unat bs"

section \<open>White space\<close>

definition is_whitespace :: "nat \<Rightarrow> bool" where
  "is_whitespace c \<longleftrightarrow>
     9 \<le> c \<and> c \<le> 13 \<or> c = 32 \<or> c = 0x85 \<or> c = 0xA0 \<or> c = 0x1680 \<or>
     0x2000 \<le> c \<and> c \<le> 0x200A \<or> c = 0x2028 \<or> c = 0x2029 \<or> c = 0x202F \<or>
     c = 0x205F \<or> c = 0x3000"

definition trim :: "str \<Rightarrow> str" where
  "trim s = rev (dropWhile is_whitespace (rev (dropWhile is_whitespace s)))"

lemma trim_id:
  assumes "\<forall>c \<in> set s. \<not> is_whitespace c"
  shows "trim s = s"
proof -
  have keep: "\<forall>c \<in> set t. \<not> is_whitespace c \<Longrightarrow> dropWhile is_whitespace t = t" for t
    by (cases t) simp_all
  show ?thesis
    using assms keep [of s] keep [of "rev s"] by (simp add: trim_def)
qed

section \<open>Splitting\<close>

fun split_once :: "nat \<Rightarrow> str \<Rightarrow> (str \<times> str) option" where
  "split_once d [] = None"
| "split_once d (c # cs) =
     (if c = d then Some ([], cs)
      else map_option (\<lambda>(a, b). (c # a, b)) (split_once d cs))"

lemma split_once_append: "d \<notin> set a \<Longrightarrow> split_once d (a @ d # b) = Some (a, b)"
  by (induction a) auto

lemma split_once_absent: "d \<notin> set s \<Longrightarrow> split_once d s = None"
  by (induction s) auto

lemma split_once_Some: "split_once d s = Some (a, b) \<Longrightarrow> s = a @ d # b \<and> d \<notin> set a"
  by (induction s arbitrary: a) (auto split: if_splits)

section \<open>ASCII classes\<close>

definition is_ascii_digit :: "byte \<Rightarrow> bool" where
  "is_ascii_digit b \<longleftrightarrow> 48 \<le> b \<and> b \<le> 57"

definition is_ascii_uppercase :: "byte \<Rightarrow> bool" where
  "is_ascii_uppercase b \<longleftrightarrow> 65 \<le> b \<and> b \<le> 90"

definition is_ascii_lowercase :: "byte \<Rightarrow> bool" where
  "is_ascii_lowercase b \<longleftrightarrow> 97 \<le> b \<and> b \<le> 122"

definition to_ascii_uppercase :: "byte \<Rightarrow> byte" where
  "to_ascii_uppercase b = (if is_ascii_lowercase b then b - 32 else b)"

lemmas ascii_defs = is_ascii_digit_def is_ascii_uppercase_def is_ascii_lowercase_def
  to_ascii_uppercase_def

section \<open>UTF-8\<close>

fun utf8_char :: "nat \<Rightarrow> bytes" where
  "utf8_char c =
     (if c < 0x80 then [of_nat c]
      else if c < 0x800 then [0xC0 + of_nat (c div 64), 0x80 + of_nat (c mod 64)]
      else if c < 0x10000 then
        [0xE0 + of_nat (c div 4096), 0x80 + of_nat (c div 64 mod 64), 0x80 + of_nat (c mod 64)]
      else [0xF0 + of_nat (c div 262144), 0x80 + of_nat (c div 4096 mod 64),
            0x80 + of_nat (c div 64 mod 64), 0x80 + of_nat (c mod 64)])"

definition utf8 :: "str \<Rightarrow> bytes" where
  "utf8 s = concat (map utf8_char s)"

lemma utf8_ascii: "list_all (\<lambda>b. b < 128) bs \<Longrightarrow> utf8 (ascii bs) = bs"
  by (induction bs) (simp_all add: utf8_def word_less_nat_alt)

section \<open>Unsigned decimal numbers\<close>

definition is_digit :: "nat \<Rightarrow> bool" where
  "is_digit c \<longleftrightarrow> 48 \<le> c \<and> c \<le> 57"

definition digits_value :: "str \<Rightarrow> nat" where
  "digits_value ds = foldl (\<lambda>a d. 10 * a + (d - 48)) 0 ds"

definition strip_plus :: "str \<Rightarrow> str" where
  "strip_plus s = (case s of c # d # r \<Rightarrow> (if c = 43 then d # r else s) | _ \<Rightarrow> s)"

definition parse_unsigned :: "nat \<Rightarrow> str \<Rightarrow> nat option" where
  "parse_unsigned maximum s =
     (let ds = strip_plus s in
      if ds = [] \<or> \<not> list_all is_digit ds then None
      else if digits_value ds \<le> maximum then Some (digits_value ds)
      else None)"

fun decimal :: "nat \<Rightarrow> str" where
  "decimal n = (if n < 10 then [48 + n] else decimal (n div 10) @ [48 + n mod 10])"

declare decimal.simps [simp del]

lemma decimal_digits: "list_all is_digit (decimal n)"
proof (induction n rule: decimal.induct)
  case (1 n)
  have "is_digit (48 + k mod 10)" for k
    using mod_less_divisor [of 10 k] by (simp add: is_digit_def)
  moreover have "is_digit (48 + n)" if "n < 10"
    using that by (simp add: is_digit_def)
  ultimately show ?case
    using 1 by (simp add: decimal.simps [of n])
qed

lemma decimal_nonempty [simp]: "decimal n \<noteq> []"
  by (simp add: decimal.simps [of n])

lemma digits_value_decimal [simp]: "digits_value (decimal n) = n"
proof (induction n rule: decimal.induct)
  case (1 n)
  show ?case
    using 1 by (cases "n < 10") (simp_all add: decimal.simps [of n] digits_value_def)
qed

lemma strip_plus_digits: "list_all is_digit ds \<Longrightarrow> strip_plus ds = ds"
  by (auto simp: strip_plus_def is_digit_def split: list.splits)

lemma parse_unsigned_decimal: "n \<le> maximum \<Longrightarrow> parse_unsigned maximum (decimal n) = Some n"
  by (simp add: parse_unsigned_def strip_plus_digits decimal_digits)

lemma parse_unsigned_le: "parse_unsigned maximum s = Some n \<Longrightarrow> n \<le> maximum"
  by (auto simp: parse_unsigned_def Let_def split: if_splits)

end
