(* ===== verification/Ax25_Callsign.thy ===== *)
theory Ax25_Callsign
  imports Text
begin

text \<open>
  Callsigns (\<open>ax25/callsign.rs\<close>): the fixed six-byte buffer with a length and an SSID, its
  constructor, the strict text parser and the display form.
\<close>

section \<open>Data and operations\<close>

definition MAX_BASE_LEN :: nat where
  "MAX_BASE_LEN = 6"

record callsign =
  cs_base :: bytes
  cs_len :: u8
  cs_ssid :: u8

definition is_base_byte :: "byte \<Rightarrow> bool" where
  "is_base_byte b \<longleftrightarrow> is_ascii_uppercase b \<or> is_ascii_digit b"

text \<open>The padded buffer that both constructors fill from the left.\<close>

definition padded :: "bytes \<Rightarrow> bytes" where
  "padded base = base @ replicate (MAX_BASE_LEN - length base) 32"

text \<open>Callsigns for the concrete instances.\<close>

definition sample :: "bytes \<Rightarrow> callsign" where
  "sample b = \<lparr>cs_base = padded b, cs_len = of_nat (length b), cs_ssid = 0\<rparr>"

definition callsign_new :: "bytes \<Rightarrow> u8 \<Rightarrow> callsign option" where
  "callsign_new base ssid =
     (if length base > MAX_BASE_LEN \<or> ssid > 15 then None
      else if \<not> list_all is_base_byte base then None
      else Some \<lparr>cs_base = padded base, cs_len = of_nat (length base), cs_ssid = ssid\<rparr>)"

text \<open>
  \<open>parse\<close>. A scalar value above 127 is more than one byte of UTF-8, none of which is
  alphanumeric, so a base holding one is refused whatever its length.
\<close>

definition base_from_text :: "str \<Rightarrow> bytes option" where
  "base_from_text s =
     (if list_all (\<lambda>c. c < 128 \<and> is_base_byte (to_ascii_uppercase (of_nat c))) s
      then Some (map (\<lambda>c. to_ascii_uppercase (of_nat c)) s) else None)"

definition callsign_parse :: "str \<Rightarrow> callsign option" where
  "callsign_parse input =
     (let text = trim input in
      if text = [] then None
      else
        case (case split_once 45 text of
                Some (b, s) \<Rightarrow>
                  (case parse_unsigned 255 s of
                     None \<Rightarrow> None
                   | Some n \<Rightarrow> if n > 15 then None else Some (b, n))
              | None \<Rightarrow> Some (text, 0)) of
          None \<Rightarrow> None
        | Some (base_str, ssid) \<Rightarrow>
            if base_str = [] \<or> length base_str > MAX_BASE_LEN then None
            else case base_from_text base_str of
                   None \<Rightarrow> None
                 | Some base \<Rightarrow>
                     Some \<lparr>cs_base = padded base, cs_len = of_nat (length base),
                           cs_ssid = of_nat ssid\<rparr>)"

definition base :: "callsign \<Rightarrow> bytes" where
  "base c = take (unat (cs_len c)) (cs_base c)"

definition ssid :: "callsign \<Rightarrow> u8" where
  "ssid c = cs_ssid c"

definition ssid_suffix :: "u8 \<Rightarrow> bytes" where
  "ssid_suffix s = (if s \<ge> 10 then [45, 48 + s div 10, 48 + s mod 10] else [45, 48 + s])"

text \<open>\<open>write_display\<close>: the buffer after the call, and the returned \<open>Option<usize>\<close>.\<close>

definition write_display :: "callsign \<Rightarrow> bytes \<Rightarrow> bytes \<times> nat option" where
  "write_display c dst =
     (let b = base c in
      if length dst < length b then (dst, None)
      else
        let d1 = overwrite dst 0 b in
        if cs_ssid c \<noteq> 0 then
          (let tmp = ssid_suffix (cs_ssid c) in
           if length dst < length b + length tmp then (d1, None)
           else (overwrite d1 (length b) tmp, Some (length b + length tmp)))
        else (d1, Some (length b)))"

section \<open>Well-formedness\<close>

definition callsign_wf :: "callsign \<Rightarrow> bool" where
  "callsign_wf c \<longleftrightarrow>
     (\<exists>b. length b \<le> MAX_BASE_LEN \<and> list_all is_base_byte b \<and> cs_base c = padded b \<and>
        cs_len c = of_nat (length b)) \<and> cs_ssid c \<le> 15"

lemma sample_wf: "length bs \<le> MAX_BASE_LEN \<Longrightarrow> list_all is_base_byte bs \<Longrightarrow> callsign_wf (sample bs)"
  by (auto simp: callsign_wf_def sample_def)

lemma unat_len: "n \<le> MAX_BASE_LEN \<Longrightarrow> unat (of_nat n :: u8) = n"
  by (simp add: MAX_BASE_LEN_def unat_of_nat)

lemma length_padded [simp]: "length b \<le> MAX_BASE_LEN \<Longrightarrow> length (padded b) = MAX_BASE_LEN"
  by (simp add: padded_def)

lemma callsign_wfE:
  assumes "callsign_wf c"
  obtains b where "base c = b" "length b \<le> MAX_BASE_LEN" "list_all is_base_byte b"
    "c = \<lparr>cs_base = padded b, cs_len = of_nat (length b), cs_ssid = cs_ssid c\<rparr>" "cs_ssid c \<le> 15"
proof -
  obtain b where b: "length b \<le> MAX_BASE_LEN" "list_all is_base_byte b" "cs_base c = padded b"
    "cs_len c = of_nat (length b)" and s: "cs_ssid c \<le> 15"
    using assms by (auto simp: callsign_wf_def)
  show thesis
  proof (rule that)
    show "base c = b"
      using b by (simp add: base_def unat_len) (simp add: padded_def)
  qed (use b s in simp_all)
qed

lemma callsign_new_base: "callsign_wf c \<Longrightarrow> callsign_new (base c) (cs_ssid c) = Some c"
  by (erule callsign_wfE) (auto simp: callsign_new_def not_less)

lemma callsign_new_Some:
  assumes "callsign_new b s = Some c"
  shows "callsign_wf c" "base c = b" "cs_ssid c = s"
proof -
  have "length b \<le> MAX_BASE_LEN" "list_all is_base_byte b" "s \<le> 15"
    and c: "c = \<lparr>cs_base = padded b, cs_len = of_nat (length b), cs_ssid = s\<rparr>"
    using assms by (auto simp: callsign_new_def not_less split: if_splits)
  then show "callsign_wf c" "base c = b" "cs_ssid c = s"
    by (auto simp: callsign_wf_def base_def unat_len) (simp add: padded_def)
qed

lemma base_wf: "callsign_wf c \<Longrightarrow> length (base c) \<le> MAX_BASE_LEN \<and> list_all is_base_byte (base c)"
  by (erule callsign_wfE) simp

lemma callsign_eqI:
  "callsign_wf c \<Longrightarrow> callsign_wf d \<Longrightarrow> base c = base d \<Longrightarrow> cs_ssid c = cs_ssid d \<Longrightarrow> c = d"
  by (metis callsign_new_base option.inject)

section \<open>The display form\<close>

definition display :: "callsign \<Rightarrow> bytes" where
  "display c = base c @ (if cs_ssid c = 0 then [] else ssid_suffix (cs_ssid c))"

lemma write_display_eq:
  "length (display c) \<le> length dst \<Longrightarrow>
    write_display c dst = (overwrite dst 0 (display c), Some (length (display c)))"
  using overwrite_overwrite [of 0 "base c" dst "ssid_suffix (cs_ssid c)"]
  by (cases "cs_ssid c = 0") (auto simp: write_display_def display_def Let_def)

lemma write_display_None: "length dst < length (display c) \<Longrightarrow> snd (write_display c dst) = None"
  by (cases "cs_ssid c = 0") (auto simp: write_display_def display_def Let_def)

lemma u8_le_15_cases:
  fixes s :: u8
  assumes "s \<le> 15"
  shows "s \<in> {0, 1, 2, 3, 4, 5, 6, 7, 8, 9, 10, 11, 12, 13, 14, 15}"
proof -
  have "unat s \<le> 15"
    using assms by (simp add: word_le_nat_alt)
  then have "unat s = 0 \<or> unat s = 1 \<or> unat s = 2 \<or> unat s = 3 \<or> unat s = 4 \<or> unat s = 5 \<or>
      unat s = 6 \<or> unat s = 7 \<or> unat s = 8 \<or> unat s = 9 \<or> unat s = 10 \<or> unat s = 11 \<or>
      unat s = 12 \<or> unat s = 13 \<or> unat s = 14 \<or> unat s = 15"
    by presburger
  then show ?thesis
    by (auto simp: word_unat_eq_iff)
qed

lemma ascii_suffix:
  assumes "s \<le> 15" "s \<noteq> 0"
  shows "ascii (ssid_suffix s) = 45 # decimal (unat s)"
  using u8_le_15_cases [OF assms(1)] assms(2)
  by (auto simp: ssid_suffix_def decimal.simps word_le_nat_alt)

lemma base_byte_text:
  assumes "is_base_byte b"
  shows "unat b < 128" "unat b \<noteq> 45" "\<not> is_whitespace (unat b)" "to_ascii_uppercase b = b"
  using assms
  by (auto simp: is_base_byte_def ascii_defs is_whitespace_def word_le_nat_alt word_less_nat_alt)

lemma base_from_text_ascii: "list_all is_base_byte b \<Longrightarrow> base_from_text (ascii b) = Some b"
proof -
  assume b: "list_all is_base_byte b"
  have "map (\<lambda>c. to_ascii_uppercase (word_of_nat (unat c))) b = map id b"
    using b by (intro map_cong refl) (auto simp: list_all_iff base_byte_text)
  then show ?thesis
    using b by (auto simp: base_from_text_def list_all_iff base_byte_text o_def)
qed

lemma digit_not_space: "is_digit c \<Longrightarrow> \<not> is_whitespace c \<and> c \<noteq> 45"
  by (auto simp: is_digit_def is_whitespace_def)

lemma trim_display:
  assumes "callsign_wf c"
  shows "trim (ascii (display c)) = ascii (display c)"
proof (rule trim_id)
  have "\<forall>x \<in> set (ascii (base c)). \<not> is_whitespace x"
    using base_wf [OF assms] by (auto simp: list_all_iff base_byte_text)
  moreover have "\<forall>x \<in> set (ascii (ssid_suffix (cs_ssid c))). \<not> is_whitespace x" if "cs_ssid c \<noteq> 0"
    using that assms decimal_digits [of "unat (cs_ssid c)"] digit_not_space
    by (auto simp: ascii_suffix callsign_wf_def list_all_iff is_whitespace_def)
  ultimately show "\<forall>x \<in> set (ascii (display c)). \<not> is_whitespace x"
    by (auto simp: display_def)
qed

lemma callsign_parseE:
  assumes "callsign_parse t = Some d"
  obtains s n bs where "s \<noteq> []" "length s \<le> MAX_BASE_LEN" "n \<le> 15"
    "base_from_text s = Some bs"
    "d = \<lparr>cs_base = padded bs, cs_len = of_nat (length bs), cs_ssid = of_nat n\<rparr>"
proof (cases "split_once 45 (trim t)")
  case None
  then show ?thesis
    using assms that [of "trim t" 0]
    by (auto simp: callsign_parse_def Let_def not_less split: option.splits if_splits)
next
  case (Some q)
  then show ?thesis
    using assms that [of "fst q"]
    by (auto simp: callsign_parse_def Let_def not_less split: option.splits if_splits prod.splits)
qed

section \<open>Properties\<close>

lemma callsign_parse_display:
  assumes c: "callsign_wf c" "base c \<noteq> []"
  shows "callsign_parse (ascii (display c)) = Some c"
proof -
  obtain b where b: "base c = b" "length b \<le> MAX_BASE_LEN" "list_all is_base_byte b"
    and eq: "c = \<lparr>cs_base = padded b, cs_len = of_nat (length b), cs_ssid = cs_ssid c\<rparr>"
    and s: "cs_ssid c \<le> 15"
    using c callsign_wfE by blast
  have no: "45 \<notin> set (ascii b)"
    using b(3) by (auto simp: list_all_iff base_byte_text)
  have n15: "unat (cs_ssid c) \<le> 15"
    using s by (simp add: word_le_nat_alt)
  have split: "split_once 45 (ascii (display c)) =
      (if cs_ssid c = 0 then None else Some (ascii b, decimal (unat (cs_ssid c))))"
    using split_once_append [OF no] split_once_absent [OF no] ascii_suffix [OF s]
    by (simp add: display_def b(1))
  define t where "t = ascii (display c)"
  have "b \<noteq> []"
    using c b(1) by simp
  moreover have "trim t = t"
    unfolding t_def using c by (intro trim_display) simp
  moreover have "t \<noteq> []" "cs_ssid c = 0 \<Longrightarrow> t = ascii b"
    using c by (auto simp: t_def display_def b(1))
  ultimately have "callsign_parse t =
      Some \<lparr>cs_base = padded b, cs_len = of_nat (length b), cs_ssid = cs_ssid c\<rparr>"
    using b(2) n15 parse_unsigned_decimal [of "unat (cs_ssid c)" 255]
      base_from_text_ascii [OF b(3)] split [folded t_def]
    by (cases "cs_ssid c = 0") (simp_all add: callsign_parse_def)
  then show ?thesis
    using eq by (simp add: t_def)
qed

lemma callsign_parse_wf:
  assumes "callsign_parse t = Some d"
  shows "callsign_wf d \<and> base d \<noteq> []"
proof -
  from callsign_parseE [OF assms]
  obtain s n bs where s: "s \<noteq> []" "length s \<le> MAX_BASE_LEN" "n \<le> 15"
    and bs: "base_from_text s = Some bs"
    and d: "d = \<lparr>cs_base = padded bs, cs_len = of_nat (length bs), cs_ssid = of_nat n\<rparr>"
    by blast
  have bs': "list_all is_base_byte bs" "length bs = length s"
    using bs by (auto simp: base_from_text_def list_all_iff split: if_splits)
  have "of_nat n \<le> (15 :: u8)"
    using s(3) by (simp add: word_le_nat_alt unat_of_nat)
  then have wf: "callsign_wf d"
    using bs' s(2) by (auto simp: d callsign_wf_def intro!: exI [of _ bs])
  have "base d = bs"
    using bs' s(2) by (simp add: d base_def unat_len) (simp add: padded_def)
  then show ?thesis
    using wf bs' s(1) by auto
qed

text \<open>
  The text form of every callsign with a non-empty base parses back to that callsign, and
  everything the parser accepts is a well-formed callsign with a non-empty base.
\<close>

theorem callsign_text_roundtrip:
  "(callsign_wf c \<and> base c \<noteq> [] \<longrightarrow> callsign_parse (ascii (display c)) = Some c) \<and>
   (callsign_parse t = Some d \<longrightarrow> callsign_wf d \<and> base d \<noteq> [])"
  using callsign_parse_display callsign_parse_wf by blast

theorem callsign_text_roundtrip_witness:
  "callsign_parse (ascii (display \<lparr>cs_base = [71, 55, 88, 89, 90, 32], cs_len = 5, cs_ssid = 12\<rparr>)) =
   Some \<lparr>cs_base = [71, 55, 88, 89, 90, 32], cs_len = 5, cs_ssid = 12\<rparr>"
proof -
  have "callsign_new [71, 55, 88, 89, 90] 12 =
      Some \<lparr>cs_base = [71, 55, 88, 89, 90, 32], cs_len = 5, cs_ssid = 12\<rparr>"
    by (simp add: callsign_new_def MAX_BASE_LEN_def is_base_byte_def ascii_defs padded_def)
  from callsign_new_Some [OF this] show ?thesis
    using callsign_text_roundtrip by simp
qed

end
