(* ===== verification/Ax25_Address.thy ===== *)
theory Ax25_Address
  imports Ax25_Callsign
begin

text \<open>
  The 7-octet address slot (\<open>ax25/address.rs\<close>): decode, encode, and the slot as a fixed-width
  codec.
\<close>

section \<open>Data and operations\<close>

definition ADDRESS_LEN :: nat where
  "ADDRESS_LEN = 7"

record address =
  ad_callsign :: callsign
  ad_crh :: bool
  ad_extension :: bool

text \<open>
  The loop of \<open>decode\<close> over the six callsign octets: un-shift each, and remember the position
  after the last one that is not a space.
\<close>

fun significant_from :: "nat \<Rightarrow> bytes \<Rightarrow> nat" where
  "significant_from i [] = 0"
| "significant_from i (c # cs) =
     (let rest = significant_from (Suc i) cs in
      if rest \<noteq> 0 then rest else if c \<noteq> 32 then Suc i else 0)"

definition address_decode :: "bytes \<Rightarrow> address option" where
  "address_decode src =
     (if length src < ADDRESS_LEN then None
      else
        let b = map (drop_bit 1) (take MAX_BASE_LEN src);
            trimmed = take (significant_from 0 b) b
        in if \<not> list_all (\<lambda>c. c = 32 \<or> is_ascii_uppercase c \<or> is_ascii_digit c) trimmed then None
           else
             let ssid_octet = src ! 6;
                 sid = drop_bit 1 ssid_octet AND 0x0F
             in case callsign_new trimmed sid of
                  None \<Rightarrow> None
                | Some cs \<Rightarrow>
                    Some \<lparr>ad_callsign = cs, ad_crh = ssid_octet AND 0x80 \<noteq> 0,
                          ad_extension = ssid_octet AND 0x01 \<noteq> 0\<rparr>)"

definition ssid_octet :: "address \<Rightarrow> byte" where
  "ssid_octet a =
     (let o1 = 0x60 OR push_bit 1 (cs_ssid (ad_callsign a) AND 0x0F);
          o2 = (if ad_crh a then o1 OR 0x80 else o1)
      in if ad_extension a then o2 OR 0x01 else o2)"

definition address_octets :: "address \<Rightarrow> bytes" where
  "address_octets a =
     (let b = base (ad_callsign a) in
      map (\<lambda>i. push_bit 1 (if i < length b then b ! i else 32)) [0..<MAX_BASE_LEN] @ [ssid_octet a])"

definition address_encode :: "address \<Rightarrow> bytes \<Rightarrow> bytes option" where
  "address_encode a dst =
     (if length dst < ADDRESS_LEN then None else Some (overwrite dst 0 (address_octets a)))"

definition address_wf :: "address \<Rightarrow> bool" where
  "address_wf a \<longleftrightarrow> callsign_wf (ad_callsign a)"

section \<open>The significant prefix\<close>

lemma significant_from_spaces [simp]: "significant_from i (replicate n 32) = 0"
  by (induction n arbitrary: i) (simp_all add: Let_def)

lemma significant_from_append:
  "32 \<notin> set b \<Longrightarrow> significant_from i (b @ replicate n 32) = (if b = [] then 0 else i + length b)"
  by (induction b arbitrary: i) (auto simp: Let_def)

lemma base_byte_no_space: "list_all is_base_byte b \<Longrightarrow> 32 \<notin> set b"
  by (auto simp: list_all_iff is_base_byte_def ascii_defs)

lemma base_byte_shift: "is_base_byte b \<Longrightarrow> drop_bit 1 (push_bit 1 b) = b"
proof -
  assume "is_base_byte b"
  then have "unat b < 2 ^ 7"
    by (auto simp: is_base_byte_def ascii_defs word_le_nat_alt)
  then have "unat (b * 2 div 2) = unat b"
    by (simp add: unat_div unat_word_ariths)
  then show ?thesis
    by (simp add: push_bit_eq_mult drop_bit_eq_div word_unat_eq_iff)
qed

lemma space_shift [simp]: "drop_bit 1 (push_bit 1 (32 :: byte)) = 32"
  by simp

lemma map_unshift:
  assumes "length b \<le> MAX_BASE_LEN" "list_all is_base_byte b"
  shows "map (drop_bit 1) (map (\<lambda>i. push_bit 1 (if i < length b then b ! i else 32)) [0..<MAX_BASE_LEN])
    = padded b"
proof (rule nth_equalityI)
  show "length (map (drop_bit 1) (map (\<lambda>i. push_bit 1 (if i < length b then b ! i else 32)) [0..<MAX_BASE_LEN]))
      = length (padded b)"
    using assms by simp
  fix i
  assume "i < length (map (drop_bit 1) (map (\<lambda>i. push_bit 1 (if i < length b then b ! i else (32 :: byte))) [0..<MAX_BASE_LEN]))"
  then have i: "i < MAX_BASE_LEN"
    by simp
  show "map (drop_bit 1) (map (\<lambda>i. push_bit 1 (if i < length b then b ! i else 32)) [0..<MAX_BASE_LEN]) ! i
      = padded b ! i"
    using i assms base_byte_shift [of "b ! i"]
    by (auto simp: padded_def nth_append list_all_length)
qed

text \<open>The flags and the SSID are read back from the seventh octet.\<close>

lemma ssid_octet_parts:
  assumes "cs_ssid (ad_callsign a) \<le> 15"
  shows "drop_bit 1 (ssid_octet a) AND 0x0F = cs_ssid (ad_callsign a)"
    and "ssid_octet a AND 0x80 \<noteq> 0 \<longleftrightarrow> ad_crh a"
    and "ssid_octet a AND 0x01 \<noteq> 0 \<longleftrightarrow> ad_extension a"
  using u8_le_15_cases [OF assms] by (auto simp: ssid_octet_def Let_def)

section \<open>The slot as a codec\<close>

lemma length_address_octets [simp]: "length (address_octets a) = ADDRESS_LEN"
  by (simp add: address_octets_def ADDRESS_LEN_def MAX_BASE_LEN_def Let_def)

lemma address_decode_octets:
  assumes "address_wf a"
  shows "address_decode (address_octets a @ rest) = Some a"
proof -
  obtain b where b: "base (ad_callsign a) = b" "length b \<le> MAX_BASE_LEN" "list_all is_base_byte b"
    and s: "cs_ssid (ad_callsign a) \<le> 15"
    using assms callsign_wfE unfolding address_wf_def by blast
  define src where "src = address_octets a @ rest"
  have len: "\<not> length src < ADDRESS_LEN"
    by (simp add: src_def)
  have "take MAX_BASE_LEN src =
      map (\<lambda>i. push_bit 1 (if i < length b then b ! i else 32)) [0..<MAX_BASE_LEN]"
    by (simp add: src_def address_octets_def b(1) Let_def)
  then have p: "map (drop_bit 1) (take MAX_BASE_LEN src) = padded b"
    using map_unshift [OF b(2,3)] by simp
  have sig: "take (significant_from 0 (padded b)) (padded b) = b"
    using significant_from_append [OF base_byte_no_space [OF b(3)]] by (simp add: padded_def)
  have six: "src ! 6 = ssid_octet a"
    by (simp add: src_def address_octets_def Let_def nth_append MAX_BASE_LEN_def)
  have "list_all (\<lambda>c. c = 32 \<or> is_ascii_uppercase c \<or> is_ascii_digit c) b"
    using b(3) by (auto simp: list_all_iff is_base_byte_def)
  then show ?thesis
    using callsign_new_base [of "ad_callsign a"] assms len
    unfolding src_def [symmetric]
    by (simp add: address_decode_def p sig six ssid_octet_parts [OF s] b(1) address_wf_def
        del: One_nat_def)
qed

interpretation address: fixed_codec address_octets address_decode address_wf ADDRESS_LEN
  by unfold_locales (simp_all add: address_decode_octets, simp add: address_decode_def)

lemma address_decode_wf: "address_decode bs = Some a \<Longrightarrow> address_wf a"
  by (auto simp: address_decode_def address_wf_def Let_def callsign_new_Some
      split: if_splits option.splits)

lemma address_decode_take:
  "address_decode (take ADDRESS_LEN bs) = address_decode bs"
proof (cases "length bs < ADDRESS_LEN")
  case False
  then have "take ADDRESS_LEN bs ! 6 = bs ! 6"
    by (simp add: ADDRESS_LEN_def)
  then show ?thesis
    using False by (simp add: address_decode_def ADDRESS_LEN_def MAX_BASE_LEN_def min_def Let_def)
qed (simp add: address_decode_def)

section \<open>Properties\<close>

text \<open>
  Encoding an address into any buffer of at least seven bytes changes its first seven bytes
  only, and decoding them gives the address back, callsign and both flags; a shorter buffer is
  refused; whatever decodes is a well-formed address.
\<close>

theorem address_roundtrip:
  "(address_wf a \<and> ADDRESS_LEN \<le> length dst \<longrightarrow>
     (\<exists>out. address_encode a dst = Some out \<and> length out = length dst \<and>
        drop ADDRESS_LEN out = drop ADDRESS_LEN dst \<and> address_decode out = Some a)) \<and>
   (length dst < ADDRESS_LEN \<longrightarrow> address_encode a dst = None \<and> address_decode dst = None) \<and>
   (address_decode bs = Some b \<longrightarrow> address_wf b)"
  by (auto simp: address_encode_def address.dec_short address_decode_wf overwrite_def
      address.dec_enc)

theorem address_roundtrip_witness:
  "\<exists>out. address_encode \<lparr>ad_callsign = \<lparr>cs_base = [71, 48, 32, 32, 32, 32], cs_len = 2, cs_ssid = 3\<rparr>,
      ad_crh = True, ad_extension = False\<rparr> (replicate 9 0) = Some out \<and>
    address_decode out = Some \<lparr>ad_callsign = \<lparr>cs_base = [71, 48, 32, 32, 32, 32], cs_len = 2, cs_ssid = 3\<rparr>,
      ad_crh = True, ad_extension = False\<rparr>"
proof -
  have four: "replicate 4 (32 :: byte) = [32, 32, 32, 32]"
    by (simp add: numeral_eq_Suc)
  have "callsign_new [71, 48] 3 = Some \<lparr>cs_base = [71, 48, 32, 32, 32, 32], cs_len = 2, cs_ssid = 3\<rparr>"
    by (simp add: callsign_new_def MAX_BASE_LEN_def is_base_byte_def ascii_defs padded_def
        replicate_app_Cons_same four)
  then have wf: "address_wf \<lparr>ad_callsign = \<lparr>cs_base = [71, 48, 32, 32, 32, 32], cs_len = 2, cs_ssid = 3\<rparr>,
      ad_crh = True, ad_extension = False\<rparr>" (is "address_wf ?a")
    using callsign_new_Some(1) by (simp add: address_wf_def)
  have "ADDRESS_LEN \<le> length (replicate 9 (0 :: byte))"
    by (simp add: ADDRESS_LEN_def)
  then show ?thesis
    using address_roundtrip [of ?a "replicate 9 0"] wf by blast
qed

end
