(* ===== verification/Ax25_Frame.thy ===== *)
theory Ax25_Frame
  imports Ax25_Address "HOL-Library.Monad_Syntax"
begin

text \<open>
  The AX.25 frame codec (\<open>ax25/frame.rs\<close>, \<open>ax25/parse_options.rs\<close>): the frame, the accessors of its
  control field in both modulos, the decoder with its strict and lenient options and every error,
  and the buffer-writing encoders. \<open>frame_octets\<close> is the specification of the wire form.
\<close>

section \<open>Data\<close>

definition CONTROL_UI :: byte where
  "CONTROL_UI = 0x03"

definition MAX_DIGIPEATERS :: nat where
  "MAX_DIGIPEATERS = 8"

datatype parse_error =
  TooShort | BadAddressField | MissingControl | BadAddress | EmptyCallsignBase
  | InfoNotPermitted | CommandFrameAsResponse | MissingPid

record frame =
  fr_destination :: address
  fr_source :: address
  fr_digipeaters :: "address list"
  fr_control :: u8
  fr_pid :: "u8 option"
  fr_info :: bytes

record parse_options =
  allow_empty_callsign_base :: bool
  allow_info_on_supervisory_frames :: bool
  allow_command_frame_as_response :: bool

definition LENIENT :: parse_options where
  "LENIENT = \<lparr>allow_empty_callsign_base = True, allow_info_on_supervisory_frames = True,
     allow_command_frame_as_response = True\<rparr>"

definition STRICT :: parse_options where
  "STRICT = \<lparr>allow_empty_callsign_base = False, allow_info_on_supervisory_frames = False,
     allow_command_frame_as_response = False\<rparr>"

section \<open>Accessors\<close>

definition is_ui :: "frame \<Rightarrow> bool" where
  "is_ui f \<longleftrightarrow> fr_control f AND 0xEF = CONTROL_UI"

definition is_information :: "frame \<Rightarrow> bool" where
  "is_information f \<longleftrightarrow> fr_control f AND 0x01 = 0"

definition is_supervisory :: "frame \<Rightarrow> bool" where
  "is_supervisory f \<longleftrightarrow> fr_control f AND 0x03 = 0x01"

definition is_unnumbered :: "frame \<Rightarrow> bool" where
  "is_unnumbered f \<longleftrightarrow> fr_control f AND 0x03 = 0x03"

definition poll_final :: "frame \<Rightarrow> bool" where
  "poll_final f \<longleftrightarrow> fr_control f AND 0x10 \<noteq> 0"

definition nr_with :: "frame \<Rightarrow> u8 option \<Rightarrow> u8" where
  "nr_with f control_extension =
     (case control_extension of
        Some ext \<Rightarrow> drop_bit 1 ext AND 0x7F
      | None \<Rightarrow> drop_bit 5 (fr_control f) AND 0x07)"

definition ns_with :: "frame \<Rightarrow> u8 option \<Rightarrow> u8" where
  "ns_with f control_extension =
     (case control_extension of
        Some _ \<Rightarrow> drop_bit 1 (fr_control f) AND 0x7F
      | None \<Rightarrow> drop_bit 1 (fr_control f) AND 0x07)"

definition poll_final_with :: "frame \<Rightarrow> u8 option \<Rightarrow> bool" where
  "poll_final_with f control_extension =
     (case control_extension of
        Some ext \<Rightarrow> ext AND 0x01 \<noteq> 0
      | None \<Rightarrow> fr_control f AND 0x10 \<noteq> 0)"

definition is_command :: "frame \<Rightarrow> bool" where
  "is_command f \<longleftrightarrow> ad_crh (fr_destination f) \<and> \<not> ad_crh (fr_source f)"

definition is_response :: "frame \<Rightarrow> bool" where
  "is_response f \<longleftrightarrow> \<not> ad_crh (fr_destination f) \<and> ad_crh (fr_source f)"

section \<open>Decoding\<close>

text \<open>\<open>bytes[offset..offset + n]\<close>, used behind a length guard everywhere.\<close>

abbreviation slice :: "'a list \<Rightarrow> nat \<Rightarrow> nat \<Rightarrow> 'a list" where
  "slice bs off n \<equiv> take n (drop off bs)"

definition empty_base :: "address \<Rightarrow> bool" where
  "empty_base a \<longleftrightarrow> base (ad_callsign a) = []"

text \<open>The \<open>while !last_ext\<close> loop over the digipeater slots.\<close>

function read_digipeaters ::
  "parse_options \<Rightarrow> bytes \<Rightarrow> nat \<Rightarrow> address list \<Rightarrow> bool \<Rightarrow> parse_error + address list \<times> nat" where
  "read_digipeaters options bs offset digis last_ext =
     (if last_ext then Inr (digis, offset)
      else if length digis \<ge> MAX_DIGIPEATERS then Inl BadAddressField
      else if length bs < offset + ADDRESS_LEN then Inl BadAddressField
      else case address_decode (slice bs offset ADDRESS_LEN) of
          None \<Rightarrow> Inl BadAddress
        | Some digi \<Rightarrow>
            if \<not> allow_empty_callsign_base options \<and> empty_base digi then Inl EmptyCallsignBase
            else read_digipeaters options bs (offset + ADDRESS_LEN) (digis @ [digi])
              (ad_extension digi))"
  by pat_completeness auto
termination
  by (relation "measure (\<lambda>(_, _, _, digis, _). MAX_DIGIPEATERS - length digis)") auto

declare read_digipeaters.simps [simp del]

definition clear_ext :: "address \<Rightarrow> address" where
  "clear_ext a = a\<lparr>ad_extension := False\<rparr>"

text \<open>The PID and information field that follow the control field.\<close>

definition read_pid_info ::
  "parse_options \<Rightarrow> bytes \<Rightarrow> u8 \<Rightarrow> nat \<Rightarrow> parse_error + u8 option \<times> bytes" where
  "read_pid_info options bs ctrl offset =
     (if ctrl AND 0x01 = 0 \<or> ctrl AND 0xEF = CONTROL_UI then
        if length bs \<le> offset then Inl MissingPid
        else Inr (Some (bs ! offset), drop (offset + 1) bs)
      else if offset < length bs then
        if ctrl AND 0xEF \<notin> {0x87, 0xAF, 0xE3} \<and> \<not> allow_info_on_supervisory_frames options
        then Inl InfoNotPermitted
        else Inr (None, drop offset bs)
      else Inr (None, []))"

definition command_as_response :: "parse_options \<Rightarrow> u8 \<Rightarrow> address \<Rightarrow> address \<Rightarrow> bool" where
  "command_as_response options ctrl dest src \<longleftrightarrow>
     \<not> allow_command_frame_as_response options \<and> ctrl AND 0x03 = 0x03 \<and>
     ctrl AND 0xEF \<in> {0x2F, 0x6F, 0x43} \<and> \<not> (ad_crh dest \<and> \<not> ad_crh src)"

definition decode_inner ::
  "bytes \<Rightarrow> bool \<Rightarrow> parse_options \<Rightarrow> parse_error + frame \<times> u8 option" where
  "decode_inner bs extended options =
     (if length bs < ADDRESS_LEN * 2 then Inl TooShort
      else case address_decode (slice bs 0 ADDRESS_LEN) of None \<Rightarrow> Inl BadAddress | Some dest \<Rightarrow>
      case address_decode (slice bs ADDRESS_LEN ADDRESS_LEN) of None \<Rightarrow> Inl BadAddress | Some src \<Rightarrow>
      if \<not> allow_empty_callsign_base options \<and> (empty_base dest \<or> empty_base src)
      then Inl EmptyCallsignBase
      else if ad_extension dest then Inl BadAddressField
      else case read_digipeaters options bs (ADDRESS_LEN * 2) [] (ad_extension src) of
        Inl e \<Rightarrow> Inl e
      | Inr (digis, offset) \<Rightarrow>
      if length bs < offset + 1 then Inl MissingControl
      else
        let ctrl = bs ! offset; wide = extended \<and> ctrl AND 0x03 \<noteq> 0x03 in
        if wide \<and> length bs < offset + 2 then Inl MissingControl
        else
          let ext = (if wide then Some (bs ! (offset + 1)) else None) in
          case read_pid_info options bs ctrl (if wide then offset + 2 else offset + 1) of
            Inl e \<Rightarrow> Inl e
          | Inr (p, body) \<Rightarrow>
              if command_as_response options ctrl dest src then Inl CommandFrameAsResponse
              else Inr (\<lparr>fr_destination = clear_ext dest, fr_source = clear_ext src,
                         fr_digipeaters = map clear_ext digis, fr_control = ctrl,
                         fr_pid = p, fr_info = body\<rparr>,
                        ext))"

definition decode_with_options :: "bytes \<Rightarrow> parse_options \<Rightarrow> parse_error + frame" where
  "decode_with_options bs options = map_sum id fst (decode_inner bs False options)"

definition decode :: "bytes \<Rightarrow> parse_error + frame" where
  "decode bs = map_sum id fst (decode_inner bs False LENIENT)"

definition decode_with_modulo :: "bytes \<Rightarrow> bool \<Rightarrow> parse_error + frame \<times> u8 option" where
  "decode_with_modulo bs extended = decode_inner bs extended LENIENT"

definition decode_with_modulo_options ::
  "bytes \<Rightarrow> bool \<Rightarrow> parse_options \<Rightarrow> parse_error + frame \<times> u8 option" where
  "decode_with_modulo_options bs extended options = decode_inner bs extended options"

section \<open>Encoding\<close>

definition encoded_len :: "frame \<Rightarrow> nat" where
  "encoded_len f = ADDRESS_LEN * (2 + length (fr_digipeaters f)) + 1
     + (case fr_pid f of None \<Rightarrow> 0 | Some _ \<Rightarrow> 1) + length (fr_info f)"

definition encoded_extended_len :: "frame \<Rightarrow> nat" where
  "encoded_extended_len f = ADDRESS_LEN * (2 + length (fr_digipeaters f)) + 2
     + (case fr_pid f of None \<Rightarrow> 0 | Some _ \<Rightarrow> 1) + length (fr_info f)"

text \<open>\<open>write_addr(&mut dst[off..], addr, more)\<close>: taking the subslice panics past the end.\<close>

definition write_addr :: "bytes \<Rightarrow> nat \<Rightarrow> address \<Rightarrow> bool \<Rightarrow> unit writer" where
  "write_addr dst off addr is_more =
     (if length dst < off then None
      else case address_encode (addr\<lparr>ad_extension := \<not> is_more\<rparr>) (drop off dst) of
          None \<Rightarrow> Some (dst, None)
        | Some tail \<Rightarrow> Some (take off dst @ tail, Some ()))"

fun write_digipeaters :: "bytes \<Rightarrow> nat \<Rightarrow> address list \<Rightarrow> nat writer" where
  "write_digipeaters dst off [] = Some (dst, Some off)"
| "write_digipeaters dst off (digi # rest) =
     try_write (write_addr dst off digi (rest \<noteq> []))
       (\<lambda>d _. write_digipeaters d (off + ADDRESS_LEN) rest)"

definition write_address_field :: "frame \<Rightarrow> bytes \<Rightarrow> nat writer" where
  "write_address_field f dst =
     try_write (write_addr dst 0 (fr_destination f) True) (\<lambda>d1 _.
     try_write (write_addr d1 ADDRESS_LEN (fr_source f) (fr_digipeaters f \<noteq> [])) (\<lambda>d2 _.
     write_digipeaters d2 (ADDRESS_LEN * 2) (fr_digipeaters f)))"

definition put_slice :: "bytes \<Rightarrow> nat \<Rightarrow> bytes \<Rightarrow> bytes panicking" where
  "put_slice dst off bs = (if off + length bs \<le> length dst then Some (overwrite dst off bs) else None)"

text \<open>The common end of both encoders: the PID, when there is one, and the information field.\<close>

definition write_pid_info :: "frame \<Rightarrow> bytes \<Rightarrow> nat \<Rightarrow> nat writer" where
  "write_pid_info f dst off =
     do {
       (d, o') \<leftarrow> (case fr_pid f of
           Some p \<Rightarrow> do { d \<leftarrow> put dst off p; Some (d, off + 1) }
         | None \<Rightarrow> Some (dst, off));
       d' \<leftarrow> put_slice d o' (fr_info f);
       Some (d', Some (o' + length (fr_info f)))
     }"

definition encode_into :: "frame \<Rightarrow> bytes \<Rightarrow> nat writer" where
  "encode_into f dst =
     (if length dst < encoded_len f then Some (dst, None)
      else try_write (write_address_field f dst) (\<lambda>d off.
        do { d1 \<leftarrow> put d off (fr_control f); write_pid_info f d1 (off + 1) }))"

definition encode_extended_into :: "frame \<Rightarrow> u8 \<Rightarrow> bytes \<Rightarrow> nat writer" where
  "encode_extended_into f control_extension dst =
     (if length dst < encoded_extended_len f then Some (dst, None)
      else try_write (write_address_field f dst) (\<lambda>d off.
        do { d1 \<leftarrow> put d off (fr_control f); d2 \<leftarrow> put d1 (off + 1) control_extension;
             write_pid_info f d2 (off + 2) }))"

text \<open>The \<open>expect\<close> on the result makes a \<open>None\<close> a panic.\<close>

definition encode :: "frame \<Rightarrow> bytes panicking" where
  "encode f = do { (buf, r) \<leftarrow> encode_into f (replicate (encoded_len f) 0); n \<leftarrow> r; Some (take n buf) }"

definition encode_extended :: "frame \<Rightarrow> u8 \<Rightarrow> bytes panicking" where
  "encode_extended f control_extension =
     do { (buf, r) \<leftarrow> encode_extended_into f control_extension (replicate (encoded_extended_len f) 0);
          n \<leftarrow> r; Some (take n buf) }"

section \<open>Specification: the octets of a frame\<close>

definition with_ext :: "bool \<Rightarrow> address \<Rightarrow> address" where
  "with_ext e a = a\<lparr>ad_extension := e\<rparr>"

fun digi_octets :: "address list \<Rightarrow> bytes" where
  "digi_octets [] = []"
| "digi_octets (d # ds) = address_octets (with_ext (ds = []) d) @ digi_octets ds"

definition address_field :: "frame \<Rightarrow> bytes" where
  "address_field f = address_octets (with_ext False (fr_destination f))
     @ address_octets (with_ext (fr_digipeaters f = []) (fr_source f)) @ digi_octets (fr_digipeaters f)"

definition frame_octets :: "frame \<Rightarrow> bytes \<Rightarrow> bytes" where
  "frame_octets f ext = address_field f @ fr_control f # ext
     @ (case fr_pid f of None \<Rightarrow> [] | Some p \<Rightarrow> [p]) @ fr_info f"

definition has_pid :: "u8 \<Rightarrow> bool" where
  "has_pid ctrl \<longleftrightarrow> ctrl AND 0x01 = 0 \<or> ctrl AND 0xEF = CONTROL_UI"

text \<open>
  The frames of the logical model: well-formed addresses with the wire's extension bit normalised
  away, at most eight repeaters, and a PID exactly on I and UI frames.
\<close>

definition logical_address :: "address \<Rightarrow> bool" where
  "logical_address a \<longleftrightarrow> address_wf a \<and> \<not> ad_extension a"

definition frame_wf :: "frame \<Rightarrow> bool" where
  "frame_wf f \<longleftrightarrow> logical_address (fr_destination f) \<and> logical_address (fr_source f) \<and>
     list_all logical_address (fr_digipeaters f) \<and> length (fr_digipeaters f) \<le> MAX_DIGIPEATERS \<and>
     (fr_pid f \<noteq> None \<longleftrightarrow> has_pid (fr_control f))"

section \<open>The encoders write the frame's octets\<close>

lemma length_digi_octets [simp]: "length (digi_octets ds) = ADDRESS_LEN * length ds"
  by (induction ds) simp_all

lemma length_address_field [simp]:
  "length (address_field f) = ADDRESS_LEN * (2 + length (fr_digipeaters f))"
  by (simp add: address_field_def)

lemma length_frame_octets:
  "length (frame_octets f []) = encoded_len f" "length (frame_octets f [e]) = encoded_extended_len f"
  by (simp_all add: frame_octets_def encoded_len_def encoded_extended_len_def split: option.splits)

lemma write_addr_eq:
  assumes "off + ADDRESS_LEN \<le> length dst"
  shows "write_addr dst off a m = Some (overwrite dst off (address_octets (with_ext (\<not> m) a)), Some ())"
  using assms by (simp add: write_addr_def address_encode_def overwrite_def with_ext_def add.commute)

lemma write_digipeaters_eq:
  "off + ADDRESS_LEN * length ds \<le> length dst \<Longrightarrow>
   write_digipeaters dst off ds =
     Some (overwrite dst off (digi_octets ds), Some (off + ADDRESS_LEN * length ds))"
proof (induction ds arbitrary: dst off)
  case (Cons d ds)
  then show ?case
    using overwrite_overwrite [of off "address_octets (with_ext (ds = []) d)" dst "digi_octets ds"]
    by (simp add: try_write_def write_addr_eq)
qed simp

lemma write_address_field_eq:
  assumes "length (address_field f) \<le> length dst"
  shows "write_address_field f dst =
    Some (overwrite dst 0 (address_field f), Some (length (address_field f)))"
proof -
  let ?a = "address_octets (with_ext False (fr_destination f))"
    and ?b = "address_octets (with_ext (fr_digipeaters f = []) (fr_source f))"
  have len: "ADDRESS_LEN * 2 + ADDRESS_LEN * length (fr_digipeaters f) \<le> length dst"
    using assms by (simp add: algebra_simps)
  have "overwrite (overwrite dst 0 ?a) ADDRESS_LEN ?b = overwrite dst 0 (?a @ ?b)"
    using len overwrite_overwrite [of 0 ?a dst ?b] by simp
  moreover have "overwrite (overwrite dst 0 (?a @ ?b)) (ADDRESS_LEN * 2) (digi_octets (fr_digipeaters f))
      = overwrite dst 0 (address_field f)"
    using len overwrite_overwrite [of 0 "?a @ ?b" dst "digi_octets (fr_digipeaters f)"]
    by (simp add: address_field_def mult_2_right)
  ultimately show ?thesis
    using len by (simp add: write_address_field_def try_write_def write_addr_eq write_digipeaters_eq
        algebra_simps)
qed

lemma write_pid_info_eq:
  assumes "off + length (case fr_pid f of None \<Rightarrow> [] | Some p \<Rightarrow> [p]) + length (fr_info f) \<le> length dst"
  shows "write_pid_info f dst off =
    Some (overwrite dst off ((case fr_pid f of None \<Rightarrow> [] | Some p \<Rightarrow> [p]) @ fr_info f),
      Some (off + length (case fr_pid f of None \<Rightarrow> [] | Some p \<Rightarrow> [p]) + length (fr_info f)))"
proof (cases "fr_pid f")
  case None
  then show ?thesis
    using assms by (simp add: write_pid_info_def put_slice_def)
next
  case (Some p)
  then show ?thesis
    using assms overwrite_overwrite [of off "[p]" dst "fr_info f"]
    by (simp add: write_pid_info_def put_slice_def put_overwrite)
qed

lemma frame_encode_into_eq:
  assumes "encoded_len f \<le> length dst"
  shows "encode_into f dst = Some (overwrite dst 0 (frame_octets f []), Some (encoded_len f))"
proof -
  let ?A = "address_field f" and ?P = "(case fr_pid f of None \<Rightarrow> [] | Some p \<Rightarrow> [p]) @ fr_info f"
  have len: "length ?A + Suc (length ?P) \<le> length dst"
    and n: "encoded_len f = length ?A + Suc (length ?P)"
    using assms length_frame_octets(1) [of f] by (simp_all add: frame_octets_def)
  have "put (overwrite dst 0 ?A) (length ?A) (fr_control f) = Some (overwrite dst 0 (?A @ [fr_control f]))"
    using len overwrite_overwrite [of 0 ?A dst "[fr_control f]"] by (simp add: put_overwrite)
  moreover have "overwrite (overwrite dst 0 (?A @ [fr_control f])) (length ?A + 1) ?P
      = overwrite dst 0 (frame_octets f [])"
    using len overwrite_overwrite [of 0 "?A @ [fr_control f]" dst ?P] by (simp add: frame_octets_def)
  ultimately show ?thesis
    using len n write_address_field_eq [of f dst]
      write_pid_info_eq [of "length ?A + 1" f "overwrite dst 0 (?A @ [fr_control f])"]
    by (simp add: encode_into_def try_write_def del: length_address_field)
qed

lemma encode_extended_into_eq:
  assumes "encoded_extended_len f \<le> length dst"
  shows "encode_extended_into f e dst =
    Some (overwrite dst 0 (frame_octets f [e]), Some (encoded_extended_len f))"
proof -
  let ?A = "address_field f" and ?P = "(case fr_pid f of None \<Rightarrow> [] | Some p \<Rightarrow> [p]) @ fr_info f"
  have len: "length ?A + Suc (Suc (length ?P)) \<le> length dst"
    and n: "encoded_extended_len f = length ?A + Suc (Suc (length ?P))"
    using assms length_frame_octets(2) [of f e] by (simp_all add: frame_octets_def)
  have "put (overwrite dst 0 ?A) (length ?A) (fr_control f) = Some (overwrite dst 0 (?A @ [fr_control f]))"
    using len overwrite_overwrite [of 0 ?A dst "[fr_control f]"] by (simp add: put_overwrite)
  moreover have "put (overwrite dst 0 (?A @ [fr_control f])) (length ?A + 1) e
      = Some (overwrite dst 0 (?A @ [fr_control f, e]))"
    using len overwrite_overwrite [of 0 "?A @ [fr_control f]" dst "[e]"] by (simp add: put_overwrite)
  moreover have "overwrite (overwrite dst 0 (?A @ [fr_control f, e])) (length ?A + 2) ?P
      = overwrite dst 0 (frame_octets f [e])"
    using len overwrite_overwrite [of 0 "?A @ [fr_control f, e]" dst ?P] by (simp add: frame_octets_def)
  ultimately show ?thesis
    using len n write_address_field_eq [of f dst]
      write_pid_info_eq [of "length ?A + 2" f "overwrite dst 0 (?A @ [fr_control f, e])"]
    by (simp add: encode_extended_into_def try_write_def del: length_address_field)
qed

lemma frame_encode_eq: "encode f = Some (frame_octets f [])"
  by (simp add: encode_def frame_encode_into_eq overwrite_def length_frame_octets)

lemma encode_extended_eq: "encode_extended f e = Some (frame_octets f [e])"
  by (simp add: encode_extended_def encode_extended_into_eq overwrite_def length_frame_octets)

section \<open>The decoder reads them back\<close>

lemma clear_with_ext: "logical_address a \<Longrightarrow> clear_ext (with_ext e a) = a"
  by (simp add: clear_ext_def with_ext_def logical_address_def)

lemma with_ext_fields [simp]:
  "ad_extension (with_ext e a) = e" "ad_callsign (with_ext e a) = ad_callsign a"
  "ad_crh (with_ext e a) = ad_crh a"
  by (simp_all add: with_ext_def)

lemma clear_ext_fields [simp]:
  "ad_extension (clear_ext a) = False" "ad_callsign (clear_ext a) = ad_callsign a"
  "ad_crh (clear_ext a) = ad_crh a"
  by (simp_all add: clear_ext_def)

lemma decode_slot:
  assumes "logical_address a" and "drop off bs = address_octets (with_ext e a) @ rest"
  shows "address_decode (slice bs off ADDRESS_LEN) = Some (with_ext e a)"
  using assms address.dec_enc_exact [of "with_ext e a"]
  by (simp add: logical_address_def address_wf_def)

lemma read_digipeaters_octets:
  assumes "drop off bs = digi_octets ds @ rest" "list_all logical_address ds"
    and "length digis + length ds \<le> MAX_DIGIPEATERS"
    and "\<forall>d \<in> set ds. allow_empty_callsign_base options \<or> \<not> empty_base d"
  shows "\<exists>ds'. read_digipeaters options bs off digis (ds = []) =
      Inr (digis @ ds', off + ADDRESS_LEN * length ds) \<and> map clear_ext ds' = ds"
  using assms
proof (induction ds arbitrary: off digis)
  case Nil
  then show ?case
    by (simp add: read_digipeaters.simps)
next
  case (Cons d ds)
  have slot: "drop off bs = address_octets (with_ext (ds = []) d) @ digi_octets ds @ rest"
    and d: "logical_address d" "allow_empty_callsign_base options \<or> \<not> empty_base (with_ext (ds = []) d)"
    using Cons.prems by (auto simp: empty_base_def)
  have "drop (off + ADDRESS_LEN) bs = drop ADDRESS_LEN (drop off bs)"
    by (simp add: add.commute)
  also have "\<dots> = digi_octets ds @ rest"
    by (simp add: slot)
  finally obtain ds' where ds':
    "read_digipeaters options bs (off + ADDRESS_LEN) (digis @ [with_ext (ds = []) d]) (ds = []) =
      Inr ((digis @ [with_ext (ds = []) d]) @ ds', off + ADDRESS_LEN + ADDRESS_LEN * length ds)"
    "map clear_ext ds' = ds"
    using Cons.IH [of "off + ADDRESS_LEN" "digis @ [with_ext (ds = []) d]"] Cons.prems by auto
  have "length (drop off bs) \<ge> ADDRESS_LEN"
    by (simp add: slot)
  then have "\<not> length bs < off + ADDRESS_LEN"
    by (simp add: ADDRESS_LEN_def)
  then have "read_digipeaters options bs off digis False =
      Inr (digis @ with_ext (ds = []) d # ds', off + ADDRESS_LEN * length (d # ds))"
    using Cons.prems(3) d(2) ds'(1) decode_slot [OF d(1) slot]
    by (subst read_digipeaters.simps) auto
  then show ?case
    using ds'(2) clear_with_ext [OF d(1)] by (intro exI [of _ "with_ext (ds = []) d # ds'"]) simp
qed

text \<open>The body that both modulos share, for the option set that accepts the frame.\<close>

definition accepts :: "parse_options \<Rightarrow> frame \<Rightarrow> bool" where
  "accepts options f \<longleftrightarrow>
     (allow_empty_callsign_base options \<or>
        list_all (\<lambda>a. \<not> empty_base a) (fr_destination f # fr_source f # fr_digipeaters f)) \<and>
     (allow_info_on_supervisory_frames options \<or> has_pid (fr_control f) \<or>
        fr_control f AND 0xEF \<in> {0x87, 0xAF, 0xE3} \<or> fr_info f = []) \<and>
     \<not> command_as_response options (fr_control f) (fr_destination f) (fr_source f)"

lemma decode_inner_octets:
  assumes wf: "frame_wf f" and acc: "accepts options f"
    and ext: "ext = (if wide then [e] else [])" "wide = (extended \<and> \<not> is_unnumbered f)"
  shows "decode_inner (frame_octets f ext) extended options =
    Inr (f, if wide then Some e else None)"
proof -
  let ?P = "(case fr_pid f of None \<Rightarrow> [] | Some p \<Rightarrow> [p]) @ fr_info f"
  let ?dst = "with_ext False (fr_destination f)"
    and ?src = "with_ext (fr_digipeaters f = []) (fr_source f)"
  let ?off = "ADDRESS_LEN * 2 + ADDRESS_LEN * length (fr_digipeaters f)"
  define bs where "bs = frame_octets f ext"
  note w = wf [unfolded frame_wf_def]
  have bs0: "bs = address_octets ?dst @ address_octets ?src @ digi_octets (fr_digipeaters f)
      @ fr_control f # ext @ ?P"
    by (simp add: bs_def frame_octets_def address_field_def)
  have dest: "address_decode (slice bs 0 ADDRESS_LEN) = Some ?dst"
    using w by (intro decode_slot) (simp_all add: bs0)
  have src: "address_decode (slice bs ADDRESS_LEN ADDRESS_LEN) = Some ?src"
    using w by (intro decode_slot) (simp_all add: bs0)
  have "drop (ADDRESS_LEN * 2) bs = digi_octets (fr_digipeaters f) @ fr_control f # ext @ ?P"
    by (simp add: bs0 mult_2_right)
  then obtain ds' where ds': "read_digipeaters options bs (ADDRESS_LEN * 2) [] (fr_digipeaters f = []) =
      Inr (ds', ?off)" "map clear_ext ds' = fr_digipeaters f"
    using read_digipeaters_octets [of "ADDRESS_LEN * 2" bs "fr_digipeaters f" _ "[]" options] w acc
    by (auto simp: accepts_def list_all_iff)
  have off: "bs = address_field f @ fr_control f # ext @ ?P" "length (address_field f) = ?off"
    by (simp_all add: bs_def frame_octets_def algebra_simps)
  have ctrl: "bs ! ?off = fr_control f"
    unfolding off(1) off(2) [symmetric] by (simp del: length_address_field)
  have e: "wide \<Longrightarrow> bs ! (?off + 1) = e"
    unfolding off(1) off(2) [symmetric] by (simp add: nth_append ext(1) del: length_address_field)
  have tl: "drop (?off + Suc (length ext)) bs = ?P"
    unfolding off(1) off(2) [symmetric] by (simp del: length_address_field)
  have len: "length bs = ?off + Suc (length ext) + length ?P"
    unfolding off(1) off(2) [symmetric] by (simp del: length_address_field)
  have pid: "read_pid_info options bs (fr_control f) (?off + Suc (length ext)) =
      Inr (fr_pid f, fr_info f)"
  proof (cases "fr_pid f")
    case None
    then show ?thesis
      using w acc tl len by (auto simp: read_pid_info_def has_pid_def accepts_def)
  next
    case (Some p)
    then have "bs ! (?off + Suc (length ext)) = p"
      using tl len by (metis append_Cons hd_append2 hd_drop_conv_nth length_append length_Cons
          less_add_same_cancel1 list.sel(1) not_Cons_self2 option.simps(5) zero_less_Suc add_Suc list.distinct(1))
    moreover have "drop (Suc (?off + Suc (length ext))) bs = drop 1 ?P"
      by (metis drop_drop plus_1_eq_Suc tl)
    ultimately show ?thesis
      using w Some len by (simp add: read_pid_info_def has_pid_def)
  qed
  have ne: "allow_empty_callsign_base options \<or> \<not> empty_base ?dst \<and> \<not> empty_base ?src"
    using acc by (auto simp: accepts_def empty_base_def)
  have cr: "\<not> command_as_response options (fr_control f) ?dst ?src"
    using acc by (simp add: accepts_def command_as_response_def)
  have wd: "(extended \<and> fr_control f AND 0x03 \<noteq> 0x03) = wide"
    by (simp add: ext(2) is_unnumbered_def)
  show ?thesis
    unfolding bs_def [symmetric]
    using dest src ne ds' ctrl pid cr w len e ext(1) wd
    by (cases wide) (auto simp: decode_inner_def Let_def clear_with_ext)
qed

section \<open>Everything the decoder accepts is a logical frame\<close>

lemma read_digipeaters_Inr:
  assumes "read_digipeaters options bs off digis last_ext = Inr (digis', off')"
    and "list_all address_wf digis" "length digis \<le> MAX_DIGIPEATERS" "off \<le> length bs"
  shows "list_all address_wf digis' \<and> length digis' \<le> MAX_DIGIPEATERS \<and> off' \<le> length bs \<and>
    off' + ADDRESS_LEN * length digis = off + ADDRESS_LEN * length digis' \<and>
    (allow_empty_callsign_base options \<or>
      (list_all (\<lambda>a. \<not> empty_base a) digis \<longrightarrow> list_all (\<lambda>a. \<not> empty_base a) digis'))"
  using assms
proof (induction options bs off digis last_ext rule: read_digipeaters.induct)
  case (1 options bs off digis last_ext)
  show ?case
  proof (cases last_ext)
    case True
    then show ?thesis
      using "1.prems" by (simp add: read_digipeaters.simps)
  next
    case False
    obtain d where d: "\<not> MAX_DIGIPEATERS \<le> length digis" "\<not> length bs < off + ADDRESS_LEN"
      "address_decode (slice bs off ADDRESS_LEN) = Some d"
      "\<not> (\<not> allow_empty_callsign_base options \<and> empty_base d)"
      "read_digipeaters options bs (off + ADDRESS_LEN) (digis @ [d]) (ad_extension d) = Inr (digis', off')"
      using "1.prems"(1) False
      by (subst (asm) read_digipeaters.simps) (auto split: if_splits option.splits)
    show ?thesis
      using "1.IH" [OF False d(1,2,3,4,5)] "1.prems"(2) d address_decode_wf [OF d(3)] by auto
  qed
qed

lemma decode_innerE:
  assumes "decode_inner bs extended options = Inr (f, c)"
  obtains dest src digis off wide where
    "address_decode (slice bs 0 ADDRESS_LEN) = Some dest"
    "address_decode (slice bs ADDRESS_LEN ADDRESS_LEN) = Some src"
    "allow_empty_callsign_base options \<or> \<not> empty_base dest \<and> \<not> empty_base src"
    "read_digipeaters options bs (ADDRESS_LEN * 2) [] (ad_extension src) = Inr (digis, off)"
    "ADDRESS_LEN * 2 \<le> length bs"
    "wide \<longleftrightarrow> extended \<and> \<not> is_unnumbered f" "c \<noteq> None \<longleftrightarrow> wide"
    "off + (if wide then 2 else 1) \<le> length bs"
    "read_pid_info options bs (fr_control f) (off + (if wide then 2 else 1)) = Inr (fr_pid f, fr_info f)"
    "\<not> command_as_response options (fr_control f) dest src"
    "fr_destination f = clear_ext dest" "fr_source f = clear_ext src"
    "fr_digipeaters f = map clear_ext digis"
    "\<not> ad_extension dest" "fr_control f = bs ! off" "c = (if wide then Some (bs ! (off + 1)) else None)"
proof -
  define wide where "wide \<longleftrightarrow> extended \<and> \<not> is_unnumbered f"
  show ?thesis
    using assms by (auto simp: decode_inner_def Let_def is_unnumbered_def not_less
        split: option.splits sum.splits prod.splits if_splits
        intro!: that [where wide = wide] simp: wide_def)
qed

lemma read_pid_info_Inr:
  assumes "read_pid_info options bs ctrl off = Inr (p, body)" "off \<le> length bs"
  shows "(p \<noteq> None \<longleftrightarrow> has_pid ctrl) \<and>
    length bs = off + (case p of None \<Rightarrow> 0 | Some _ \<Rightarrow> 1) + length body \<and>
    (allow_info_on_supervisory_frames options \<or> has_pid ctrl \<or> ctrl AND 0xEF \<in> {0x87, 0xAF, 0xE3} \<or>
     body = [])"
  using assms by (auto simp: read_pid_info_def has_pid_def split: if_splits)

lemma clear_ext_logical: "address_wf a \<Longrightarrow> logical_address (clear_ext a)"
  by (simp add: logical_address_def address_wf_def)

lemma decode_inner_sound:
  assumes "decode_inner bs extended options = Inr (f, c)"
  shows "frame_wf f" "accepts options f" "c \<noteq> None \<longleftrightarrow> extended \<and> \<not> is_unnumbered f"
    "length bs = (if c = None then encoded_len f else encoded_extended_len f)"
proof -
  obtain dest src digis off wide where *:
    "address_decode (slice bs 0 ADDRESS_LEN) = Some dest"
    "address_decode (slice bs ADDRESS_LEN ADDRESS_LEN) = Some src"
    "allow_empty_callsign_base options \<or> \<not> empty_base dest \<and> \<not> empty_base src"
    "read_digipeaters options bs (ADDRESS_LEN * 2) [] (ad_extension src) = Inr (digis, off)"
    "ADDRESS_LEN * 2 \<le> length bs"
    "wide \<longleftrightarrow> extended \<and> \<not> is_unnumbered f" "c \<noteq> None \<longleftrightarrow> wide"
    "off + (if wide then 2 else 1) \<le> length bs"
    "read_pid_info options bs (fr_control f) (off + (if wide then 2 else 1)) = Inr (fr_pid f, fr_info f)"
    "\<not> command_as_response options (fr_control f) dest src"
    "fr_destination f = clear_ext dest" "fr_source f = clear_ext src"
    "fr_digipeaters f = map clear_ext digis"
    using assms by (rule decode_innerE) blast
  note digis = read_digipeaters_Inr [OF *(4) _ _ *(5)]
  note pid = read_pid_info_Inr [OF *(9) *(8)]
  have wf: "list_all address_wf digis" "length digis \<le> MAX_DIGIPEATERS" "off = ADDRESS_LEN * (2 + length digis)"
    and ne: "allow_empty_callsign_base options \<or> list_all (\<lambda>a. \<not> empty_base a) digis"
    using digis by (auto simp: algebra_simps)
  show "frame_wf f"
    using wf pid *(11-13) address_decode_wf [OF *(1)] address_decode_wf [OF *(2)]
    by (auto simp: frame_wf_def clear_ext_logical list_all_iff)
  show "accepts options f"
    using ne pid *(3,10,11,12,13)
    by (auto simp: accepts_def empty_base_def list_all_iff command_as_response_def)
  show "c \<noteq> None \<longleftrightarrow> extended \<and> \<not> is_unnumbered f"
    using *(6,7) by simp
  show "length bs = (if c = None then encoded_len f else encoded_extended_len f)"
    using pid wf(3) *(7,13) by (auto simp: encoded_len_def encoded_extended_len_def)
qed

section \<open>The options only refuse frames\<close>

definition stricter :: "parse_options \<Rightarrow> parse_options \<Rightarrow> bool" where
  "stricter o1 o2 \<longleftrightarrow>
     (allow_empty_callsign_base o1 \<longrightarrow> allow_empty_callsign_base o2) \<and>
     (allow_info_on_supervisory_frames o1 \<longrightarrow> allow_info_on_supervisory_frames o2) \<and>
     (allow_command_frame_as_response o1 \<longrightarrow> allow_command_frame_as_response o2)"

lemma read_digipeaters_stricter:
  assumes "stricter o1 o2" "read_digipeaters o1 bs off digis last_ext = Inr r"
  shows "read_digipeaters o2 bs off digis last_ext = Inr r"
  using assms
proof (induction o1 bs off digis last_ext rule: read_digipeaters.induct)
  case (1 options bs off digis last_ext)
  show ?case
  proof (cases last_ext)
    case True
    then show ?thesis
      using "1.prems" by (simp add: read_digipeaters.simps)
  next
    case False
    obtain d where d: "\<not> MAX_DIGIPEATERS \<le> length digis" "\<not> length bs < off + ADDRESS_LEN"
      "address_decode (slice bs off ADDRESS_LEN) = Some d"
      "\<not> (\<not> allow_empty_callsign_base options \<and> empty_base d)"
      "read_digipeaters options bs (off + ADDRESS_LEN) (digis @ [d]) (ad_extension d) = Inr r"
      using "1.prems"(2) False
      by (subst (asm) read_digipeaters.simps) (auto split: if_splits option.splits)
    have "\<not> (\<not> allow_empty_callsign_base o2 \<and> empty_base d)"
      using d(4) "1.prems"(1) by (auto simp: stricter_def)
    then show ?thesis
      using "1.IH" [OF False d(1-4) "1.prems"(1) d(5)] False d
      by (subst read_digipeaters.simps) simp
  qed
qed

lemma read_pid_info_stricter:
  "stricter o1 o2 \<Longrightarrow> read_pid_info o1 bs ctrl off = Inr r \<Longrightarrow> read_pid_info o2 bs ctrl off = Inr r"
  by (auto simp: read_pid_info_def stricter_def split: if_splits)

lemma command_as_response_stricter:
  "stricter o1 o2 \<Longrightarrow> command_as_response o2 ctrl d s \<Longrightarrow> command_as_response o1 ctrl d s"
  by (auto simp: command_as_response_def stricter_def)

lemma decode_inner_stricter:
  assumes "stricter o1 o2" "decode_inner bs extended o1 = Inr (f, c)"
  shows "decode_inner bs extended o2 = Inr (f, c)"
proof -
  obtain dest src digis off wide where *:
    "address_decode (slice bs 0 ADDRESS_LEN) = Some dest"
    "address_decode (slice bs ADDRESS_LEN ADDRESS_LEN) = Some src"
    "allow_empty_callsign_base o1 \<or> \<not> empty_base dest \<and> \<not> empty_base src"
    "read_digipeaters o1 bs (ADDRESS_LEN * 2) [] (ad_extension src) = Inr (digis, off)"
    "ADDRESS_LEN * 2 \<le> length bs"
    "wide \<longleftrightarrow> extended \<and> \<not> is_unnumbered f" "c \<noteq> None \<longleftrightarrow> wide"
    "off + (if wide then 2 else 1) \<le> length bs"
    "read_pid_info o1 bs (fr_control f) (off + (if wide then 2 else 1)) = Inr (fr_pid f, fr_info f)"
    "\<not> command_as_response o1 (fr_control f) dest src"
    and f: "fr_destination f = clear_ext dest" "fr_source f = clear_ext src"
    "fr_digipeaters f = map clear_ext digis"
    "\<not> ad_extension dest" "fr_control f = bs ! off" "c = (if wide then Some (bs ! (off + 1)) else None)"
    using assms(2) by (rule decode_innerE)
  have o2: "allow_empty_callsign_base o2 \<or> \<not> empty_base dest \<and> \<not> empty_base src"
    "read_digipeaters o2 bs (ADDRESS_LEN * 2) [] (ad_extension src) = Inr (digis, off)"
    "read_pid_info o2 bs (fr_control f) (off + (if wide then 2 else 1)) = Inr (fr_pid f, fr_info f)"
    "\<not> command_as_response o2 (fr_control f) dest src"
    using * read_digipeaters_stricter [OF assms(1)] read_pid_info_stricter [OF assms(1)]
      command_as_response_stricter [OF assms(1)] assms(1) by (auto simp: stricter_def)
  have wide: "(extended \<and> bs ! off AND 0x03 \<noteq> 0x03) = wide"
    using *(6) f(5) by (simp add: is_unnumbered_def)
  have f_eq: "\<lparr>fr_destination = clear_ext dest, fr_source = clear_ext src,
      fr_digipeaters = map clear_ext digis, fr_control = bs ! off, fr_pid = fr_pid f,
      fr_info = fr_info f\<rparr> = f"
    using f by simp
  show ?thesis
    using * o2 f(4,5,6) wide
    by (cases wide) (auto simp: decode_inner_def Let_def f_eq)
qed

text \<open>A concrete frame for the witnesses: a UI frame from A-7 to CQ.\<close>

definition sample_callsign :: "byte list \<Rightarrow> u8 \<Rightarrow> callsign" where
  "sample_callsign b s = \<lparr>cs_base = padded b, cs_len = of_nat (length b), cs_ssid = s\<rparr>"

definition sample_ui :: frame where
  "sample_ui = \<lparr>
     fr_destination = \<lparr>ad_callsign = sample_callsign [67, 81] 0, ad_crh = True, ad_extension = False\<rparr>,
     fr_source = \<lparr>ad_callsign = sample_callsign [65] 7, ad_crh = False, ad_extension = False\<rparr>,
     fr_digipeaters = [], fr_control = 3, fr_pid = Some 0xF0, fr_info = [104, 105]\<rparr>"

lemma sample_callsigns:
  "callsign_wf (sample_callsign [67, 81] 0)" "callsign_wf (sample_callsign [65] 7)"
  by (auto simp: callsign_wf_def sample_callsign_def MAX_BASE_LEN_def is_base_byte_def ascii_defs
      intro: exI [of _ "[67, 81]"] exI [of _ "[65]"])

lemma sample_base: "base (sample_callsign [67, 81] 0) = [67, 81]" "base (sample_callsign [65] 7) = [65]"
  by (simp_all add: base_def sample_callsign_def padded_def)

lemma sample_ui_wf: "frame_wf sample_ui"
  by (simp add: frame_wf_def sample_ui_def logical_address_def address_wf_def sample_callsigns
      has_pid_def CONTROL_UI_def)

lemma sample_strict: "decode_with_modulo_options (frame_octets sample_ui []) False STRICT = Inr (sample_ui, None)"
proof -
  have "accepts STRICT sample_ui"
    by (simp add: accepts_def sample_ui_def empty_base_def sample_base has_pid_def
        command_as_response_def CONTROL_UI_def)
  then show ?thesis
    using decode_inner_octets [OF sample_ui_wf, of STRICT "[]" False undefined False]
    by (simp add: decode_with_modulo_options_def)
qed

section \<open>Properties\<close>

text \<open>
  C36: both encoders return for every frame, with exactly the announced number of octets; decoding
  them at the link's modulo gives every logical frame back, with its second control octet when
  it has one.
\<close>

theorem frame_roundtrip:
  "(\<exists>w. encode f = Some w \<and> length w = encoded_len f \<and>
      (frame_wf f \<longrightarrow> decode w = Inr f \<and>
         (is_unnumbered f \<longrightarrow> decode_with_modulo w True = Inr (f, None)))) \<and>
   (\<exists>w. encode_extended f e = Some w \<and> length w = encoded_extended_len f \<and>
      (frame_wf f \<and> \<not> is_unnumbered f \<longrightarrow> decode_with_modulo w True = Inr (f, Some e)))"
proof -
  have "accepts LENIENT f"
    by (simp add: accepts_def LENIENT_def command_as_response_def)
  then show ?thesis
    using decode_inner_octets [of f LENIENT "[]" False e False]
      decode_inner_octets [of f LENIENT "[]" False e True]
      decode_inner_octets [of f LENIENT "[e]" True e True]
    by (auto simp: frame_encode_eq encode_extended_eq length_frame_octets decode_def decode_with_modulo_def)
qed

theorem frame_roundtrip_witness:
  "\<exists>w. encode sample_ui = Some w \<and> length w = 18 \<and> decode w = Inr sample_ui"
proof -
  have "encoded_len sample_ui = 18"
    by (simp add: encoded_len_def sample_ui_def ADDRESS_LEN_def)
  then show ?thesis
    using frame_roundtrip [of sample_ui 0] sample_ui_wf by auto
qed

text \<open>
  C37: whatever a decoder accepts, at either modulo and under any options, is a logical frame with
  at most eight repeaters that uses up the input exactly, has a PID exactly on I and UI frames and a
  second control octet exactly on the I and S frames of an extended link; its canonical encoding
  decodes to it again under the same options.
\<close>

theorem frame_decode_sound:
  assumes "decode_with_modulo_options bs extended options = Inr (f, c)"
  shows "frame_wf f \<and> length (fr_digipeaters f) \<le> 8 \<and>
    (c \<noteq> None \<longleftrightarrow> extended \<and> \<not> is_unnumbered f) \<and>
    length bs = (if c = None then encoded_len f else encoded_extended_len f) \<and>
    (\<exists>w. (case c of None \<Rightarrow> encode f | Some e \<Rightarrow> encode_extended f e) = Some w \<and>
       decode_with_modulo_options w extended options = Inr (f, c))"
proof -
  note d = decode_inner_sound [OF assms [unfolded decode_with_modulo_options_def]]
  have "decode_inner (frame_octets f (case c of None \<Rightarrow> [] | Some e \<Rightarrow> [e])) extended options = Inr (f, c)"
    using decode_inner_octets [OF d(1,2), of _ "c \<noteq> None" "the c" extended] d(3)
    by (cases c) auto
  then show ?thesis
    using d by (auto simp: decode_with_modulo_options_def frame_encode_eq encode_extended_eq frame_wf_def
        MAX_DIGIPEATERS_def split: option.splits)
qed

theorem frame_decode_sound_witness:
  "frame_wf sample_ui \<and> length (frame_octets sample_ui []) = encoded_len sample_ui"
  using frame_decode_sound [OF sample_strict] by simp

text \<open>
  The options only ever refuse: what strict decoding accepts every option set accepts with the
  same result, and a strictly decoded frame has no empty callsign, no information field where
  AX.25 forbids one, and never carries SABM, SABME or DISC as a response.
\<close>

theorem strict_decode_refines:
  assumes "decode_with_modulo_options bs extended STRICT = Inr (f, c)"
  shows "decode_with_modulo_options bs extended options = Inr (f, c) \<and>
    list_all (\<lambda>a. base (ad_callsign a) \<noteq> []) (fr_destination f # fr_source f # fr_digipeaters f) \<and>
    (fr_info f \<noteq> [] \<longrightarrow> is_information f \<or> is_ui f \<or> fr_control f AND 0xEF \<in> {0x87, 0xAF, 0xE3}) \<and>
    (is_unnumbered f \<and> fr_control f AND 0xEF \<in> {0x2F, 0x6F, 0x43} \<longrightarrow> is_command f)"
proof -
  note a = assms [unfolded decode_with_modulo_options_def]
  have "stricter STRICT options"
    by (simp add: stricter_def STRICT_def)
  moreover have "accepts STRICT f"
    using decode_inner_sound [OF a] by blast
  ultimately show ?thesis
    using decode_inner_stricter [OF _ a]
    by (auto simp: decode_with_modulo_options_def accepts_def STRICT_def empty_base_def list_all_iff
        command_as_response_def has_pid_def is_information_def is_ui_def is_unnumbered_def is_command_def)
qed

theorem strict_decode_refines_witness:
  "decode_with_modulo_options (frame_octets sample_ui []) False LENIENT = Inr (sample_ui, None)"
  using strict_decode_refines [OF sample_strict] by simp

end
