(* ===== verification/Netrom_Wire.thy ===== *)
theory Netrom_Wire
  imports Ax25_Address
begin

text \<open>
  The NET/ROM headers (\<open>netrom/wire/\<close>: \<open>callsign.rs\<close>, \<open>network_header.rs\<close>, \<open>transport_header.rs\<close>,
  \<open>packet.rs\<close>, \<open>connect_request_info.rs\<close>, \<open>connect_ack_info.rs\<close>). Each fixed-width header is an
  instance of \<open>fixed_codec\<close>; the transport header, which loses nothing, of \<open>exact_codec\<close>. The build
  without the \<open>netrom-compress\<close> feature is modelled.
\<close>

section \<open>Shifted callsigns and aliases (\<open>callsign.rs\<close>)\<close>

definition SHIFTED_LENGTH :: nat where
  "SHIFTED_LENGTH = ADDRESS_LEN"

definition ALIAS_LENGTH :: nat where
  "ALIAS_LENGTH = 6"

lemma wire_lengths: "SHIFTED_LENGTH = 7" "ALIAS_LENGTH = 6"
  by (simp_all add: SHIFTED_LENGTH_def ADDRESS_LEN_def ALIAS_LENGTH_def)

record node_alias =
  al_buf :: bytes
  al_len :: u8

definition printable :: "byte \<Rightarrow> bool" where
  "printable b \<longleftrightarrow> 32 \<le> b \<and> b \<le> 126"

text \<open>The loop \<open>while len > 0 && buf[len - 1] == b' '\<close>.\<close>

definition trim_spaces :: "bytes \<Rightarrow> bytes" where
  "trim_spaces b = rev (dropWhile (\<lambda>c. c = 32) (rev b))"

text \<open>The canonical buffer both constructors end with: the bytes, then zeros.\<close>

definition alias_of :: "bytes \<Rightarrow> node_alias" where
  "alias_of b = \<lparr>al_buf = b @ replicate (ALIAS_LENGTH - length b) 0, al_len = of_nat (length b)\<rparr>"

definition alias_EMPTY :: node_alias where
  "alias_EMPTY = \<lparr>al_buf = replicate ALIAS_LENGTH 0, al_len = 0\<rparr>"

text \<open>\<open>from_str_lossy\<close>, on the UTF-8 bytes of the text: at most six printable ones are kept.\<close>

definition from_str_lossy :: "bytes \<Rightarrow> node_alias" where
  "from_str_lossy s = alias_of (trim_spaces (take ALIAS_LENGTH (filter printable s)))"

definition as_bytes :: "node_alias \<Rightarrow> bytes" where
  "as_bytes a = take (unat (al_len a)) (al_buf a)"

definition alias_is_empty :: "node_alias \<Rightarrow> bool" where
  "alias_is_empty a \<longleftrightarrow> al_len a = 0"

definition try_read_shifted :: "bytes \<Rightarrow> callsign option" where
  "try_read_shifted src =
     (if length src < SHIFTED_LENGTH then None
      else map_option ad_callsign (address_decode (take SHIFTED_LENGTH src)))"

definition read_alias :: "bytes \<Rightarrow> node_alias" where
  "read_alias src =
     (if length src < ALIAS_LENGTH then alias_EMPTY
      else alias_of (trim_spaces (filter printable (take ALIAS_LENGTH src))))"

definition write_shifted :: "callsign \<Rightarrow> bytes \<Rightarrow> bytes option" where
  "write_shifted cs dst = address_encode \<lparr>ad_callsign = cs, ad_crh = False, ad_extension = False\<rparr> dst"

text \<open>
  \<open>write_alias\<close> reads the alias through \<open>as_str\<close>; the bytes of every alias the constructors build
  are printable ASCII, so that the text is those bytes.
\<close>

definition alias_octets :: "node_alias \<Rightarrow> bytes" where
  "alias_octets a = map (\<lambda>i. if i < length (as_bytes a) then as_bytes a ! i else 32) [0..<ALIAS_LENGTH]"

definition write_alias :: "node_alias \<Rightarrow> bytes \<Rightarrow> bytes option" where
  "write_alias a dst =
     (if length dst < ALIAS_LENGTH then None else Some (overwrite dst 0 (alias_octets a)))"

definition alias_wf :: "node_alias \<Rightarrow> bool" where
  "alias_wf a \<longleftrightarrow> (\<exists>b. length b \<le> ALIAS_LENGTH \<and> list_all printable b \<and> trim_spaces b = b \<and> a = alias_of b)"

definition shifted_octets :: "callsign \<Rightarrow> bytes" where
  "shifted_octets cs = address_octets \<lparr>ad_callsign = cs, ad_crh = False, ad_extension = False\<rparr>"

lemma trim_spaces_idem [simp]: "trim_spaces (trim_spaces b) = trim_spaces b"
  by (simp add: trim_spaces_def)

lemma length_trim_spaces: "length (trim_spaces b) \<le> length b"
  using length_dropWhile_le [of "\<lambda>c. c = 32" "rev b"] by (simp add: trim_spaces_def)

lemma set_trim_spaces: "x \<in> set (trim_spaces b) \<Longrightarrow> x \<in> set b"
  by (auto simp: trim_spaces_def dest: set_dropWhileD)

lemma trim_spaces_pad: "trim_spaces b = b \<Longrightarrow> trim_spaces (b @ replicate n 32) = b"
  by (simp add: trim_spaces_def dropWhile_append)

lemma as_bytes_alias_of: "length b \<le> ALIAS_LENGTH \<Longrightarrow> as_bytes (alias_of b) = b"
  by (simp add: as_bytes_def alias_of_def unat_of_nat ALIAS_LENGTH_def)

lemma alias_wf_of:
  assumes "length b \<le> ALIAS_LENGTH" "list_all printable b"
  shows "alias_wf (alias_of (trim_spaces b))"
  unfolding alias_wf_def
  using assms length_trim_spaces [of b] set_trim_spaces [of _ b]
  by (intro exI [of _ "trim_spaces b"]) (auto simp: list_all_iff)

lemma read_alias_wf: "alias_wf (read_alias src)"
proof -
  have "alias_EMPTY = alias_of (trim_spaces [])"
    by (simp add: alias_EMPTY_def alias_of_def trim_spaces_def)
  then have "alias_wf alias_EMPTY"
    using alias_wf_of [of "[]"] by simp
  moreover have "length (filter printable (take ALIAS_LENGTH src)) \<le> ALIAS_LENGTH"
    by (rule le_trans [OF length_filter_le]) simp
  ultimately show ?thesis
    by (auto simp: read_alias_def list_all_iff intro!: alias_wf_of)
qed

lemma from_str_lossy_wf: "alias_wf (from_str_lossy s)"
  unfolding from_str_lossy_def list_all_iff
  by (intro alias_wf_of) (auto simp: list_all_iff dest!: in_set_takeD)

lemma length_alias_octets [simp]: "length (alias_octets a) = ALIAS_LENGTH"
  by (simp add: alias_octets_def)

lemma alias_octets_of:
  assumes "length b \<le> ALIAS_LENGTH"
  shows "alias_octets (alias_of b) = b @ replicate (ALIAS_LENGTH - length b) 32"
  using assms by (intro nth_equalityI) (auto simp: alias_octets_def as_bytes_alias_of nth_append)

lemma filter_printable: "list_all printable b \<Longrightarrow> filter printable b = b"
  by (simp add: list_all_iff filter_id_conv)

lemma read_alias_octets:
  assumes "alias_wf a"
  shows "read_alias (alias_octets a @ rest) = a"
proof -
  obtain b where b: "length b \<le> ALIAS_LENGTH" "list_all printable b" "trim_spaces b = b" "a = alias_of b"
    using assms by (auto simp: alias_wf_def)
  have "filter printable (alias_octets a) = alias_octets a"
    using b by (intro filter_printable)
      (auto simp: alias_octets_of list_all_iff printable_def)
  then show ?thesis
    using b trim_spaces_pad [OF b(3)] by (simp add: read_alias_def alias_octets_of)
qed

lemma write_alias_fills: "fills (lift_write (write_alias a)) (alias_octets a) ()"
  by (rule fills_lift) (simp add: write_alias_def)

lemma length_shifted_octets [simp]: "length (shifted_octets cs) = SHIFTED_LENGTH"
  by (simp add: shifted_octets_def SHIFTED_LENGTH_def)

lemma write_shifted_fills: "fills (lift_write (write_shifted cs)) (shifted_octets cs) ()"
  by (rule fills_lift) (simp add: write_shifted_def address_encode_def shifted_octets_def
      SHIFTED_LENGTH_def)

interpretation shifted: fixed_codec shifted_octets try_read_shifted callsign_wf SHIFTED_LENGTH
proof
  fix cs :: callsign and rest :: bytes
  assume "callsign_wf cs"
  then have "address_wf \<lparr>ad_callsign = cs, ad_crh = False, ad_extension = False\<rparr>"
    by (simp add: address_wf_def)
  then show "try_read_shifted (shifted_octets cs @ rest) = Some cs"
    using address.dec_enc_exact by (simp add: try_read_shifted_def shifted_octets_def SHIFTED_LENGTH_def)
qed (simp_all add: try_read_shifted_def)

lemma try_read_shifted_wf: "try_read_shifted src = Some cs \<Longrightarrow> callsign_wf cs"
  by (auto simp: try_read_shifted_def split: if_splits dest: address_decode_wf simp: address_wf_def)

section \<open>The network header\<close>

definition NETWORK_HEADER_LEN :: nat where
  "NETWORK_HEADER_LEN = SHIFTED_LENGTH + SHIFTED_LENGTH + 1"

definition DEFAULT_TIME_TO_LIVE :: u8 where
  "DEFAULT_TIME_TO_LIVE = 25"

record network_header =
  nh_origin :: callsign
  nh_destination :: callsign
  nh_time_to_live :: u8

definition decremented :: "network_header \<Rightarrow> network_header" where
  "decremented h = \<lparr>nh_origin = nh_origin h, nh_destination = nh_destination h,
     nh_time_to_live = saturating_sub (nh_time_to_live h) 1\<rparr>"

definition network_encode :: "network_header \<Rightarrow> bytes \<Rightarrow> unit writer" where
  "network_encode h dst =
     (if length dst < NETWORK_HEADER_LEN then Some (dst, None)
      else try_write (sub_write 0 (lift_write (write_shifted (nh_origin h))) dst) (\<lambda>d1 _.
           try_write (sub_write SHIFTED_LENGTH (lift_write (write_shifted (nh_destination h))) d1) (\<lambda>d2 _.
           try_write (write_byte (SHIFTED_LENGTH * 2) (nh_time_to_live h) d2) (\<lambda>d3 _.
           Some (d3, Some ())))))"

definition network_decode :: "bytes \<Rightarrow> network_header option" where
  "network_decode src =
     (if length src < NETWORK_HEADER_LEN then None
      else case try_read_shifted src of None \<Rightarrow> None | Some origin \<Rightarrow>
           case try_read_shifted (drop SHIFTED_LENGTH src) of None \<Rightarrow> None | Some destination \<Rightarrow>
           Some \<lparr>nh_origin = origin, nh_destination = destination,
                 nh_time_to_live = src ! (SHIFTED_LENGTH * 2)\<rparr>)"

definition network_wf :: "network_header \<Rightarrow> bool" where
  "network_wf h \<longleftrightarrow> callsign_wf (nh_origin h) \<and> callsign_wf (nh_destination h)"

definition network_octets :: "network_header \<Rightarrow> bytes" where
  "network_octets h = (shifted_octets (nh_origin h) @ shifted_octets (nh_destination h)) @ [nh_time_to_live h]"

lemma length_network_octets [simp]: "length (network_octets h) = NETWORK_HEADER_LEN"
  by (simp add: network_octets_def NETWORK_HEADER_LEN_def)

lemma network_encode_fills: "fills (network_encode h) (network_octets h) ()"
proof -
  have "network_encode h dst = Some (overwrite dst 0 (network_octets h), Some ())"
    if "\<not> length dst < NETWORK_HEADER_LEN" for dst
    using that
    by (simp add: network_encode_def sub_write_first [OF write_shifted_fills]
        sub_write_next [OF write_shifted_fills] write_byte_next network_octets_def NETWORK_HEADER_LEN_def)
  then show ?thesis
    by (auto simp: fills_def network_encode_def)
qed

interpretation network: fixed_codec network_octets network_decode network_wf NETWORK_HEADER_LEN
proof
  fix h :: network_header and rest :: bytes
  assume wf: "network_wf h"
  let ?s = "network_octets h @ rest"
  have "?s = shifted_octets (nh_origin h) @ shifted_octets (nh_destination h) @ nh_time_to_live h # rest"
    by (simp add: network_octets_def)
  then have "try_read_shifted ?s = Some (nh_origin h)"
    "try_read_shifted (drop SHIFTED_LENGTH ?s) = Some (nh_destination h)"
    "?s ! (SHIFTED_LENGTH * 2) = nh_time_to_live h"
    using wf shifted.dec_enc by (simp_all add: network_wf_def nth_append mult_2_right)
  then show "network_decode ?s = Some h"
    by (simp add: network_decode_def)
qed (simp_all add: network_decode_def)

lemma network_decode_wf: "network_decode src = Some h \<Longrightarrow> network_wf h"
  by (auto simp: network_decode_def network_wf_def try_read_shifted_wf split: if_splits option.splits)

section \<open>The transport header\<close>

definition TRANSPORT_HEADER_LEN :: nat where
  "TRANSPORT_HEADER_LEN = 5"

definition OPCODE_MASK :: u8 where "OPCODE_MASK = 0x0F"
definition FLAGS_MASK :: u8 where "FLAGS_MASK = 0xF0"
definition FLAG_MORE_FOLLOWS :: u8 where "FLAG_MORE_FOLLOWS = 0x20"
definition FLAG_NAK :: u8 where "FLAG_NAK = 0x40"
definition FLAG_CHOKE :: u8 where "FLAG_CHOKE = 0x80"

lemmas transport_consts =
  OPCODE_MASK_def FLAGS_MASK_def FLAG_MORE_FOLLOWS_def FLAG_NAK_def FLAG_CHOKE_def

datatype opcode =
  ConnectRequest | ConnectAcknowledge | DisconnectRequest | DisconnectAcknowledge
  | Information | InformationAcknowledge

definition from_nibble :: "u8 \<Rightarrow> opcode option" where
  "from_nibble raw =
     (let n = raw AND OPCODE_MASK in
      if n = 1 then Some ConnectRequest
      else if n = 2 then Some ConnectAcknowledge
      else if n = 3 then Some DisconnectRequest
      else if n = 4 then Some DisconnectAcknowledge
      else if n = 5 then Some Information
      else if n = 6 then Some InformationAcknowledge
      else None)"

fun opcode_as_u8 :: "opcode \<Rightarrow> u8" where
  "opcode_as_u8 ConnectRequest = 1"
| "opcode_as_u8 ConnectAcknowledge = 2"
| "opcode_as_u8 DisconnectRequest = 3"
| "opcode_as_u8 DisconnectAcknowledge = 4"
| "opcode_as_u8 Information = 5"
| "opcode_as_u8 InformationAcknowledge = 6"

record transport_header =
  th_circuit_index :: u8
  th_circuit_id :: u8
  th_tx_sequence :: u8
  th_rx_sequence :: u8
  th_opcode :: u8
  th_flags :: u8

definition choke :: "transport_header \<Rightarrow> bool" where
  "choke h \<longleftrightarrow> th_flags h AND FLAG_CHOKE \<noteq> 0"

definition nak :: "transport_header \<Rightarrow> bool" where
  "nak h \<longleftrightarrow> th_flags h AND FLAG_NAK \<noteq> 0"

definition more_follows :: "transport_header \<Rightarrow> bool" where
  "more_follows h \<longleftrightarrow> th_flags h AND FLAG_MORE_FOLLOWS \<noteq> 0"

definition opcode_and_flags :: "transport_header \<Rightarrow> u8" where
  "opcode_and_flags h = (th_opcode h AND OPCODE_MASK) OR (th_flags h AND FLAGS_MASK)"

definition transport_octets :: "transport_header \<Rightarrow> bytes" where
  "transport_octets h =
     [th_circuit_index h, th_circuit_id h, th_tx_sequence h, th_rx_sequence h, opcode_and_flags h]"

definition transport_encode :: "transport_header \<Rightarrow> bytes \<Rightarrow> unit writer" where
  "transport_encode h dst =
     (if length dst < TRANSPORT_HEADER_LEN then Some (dst, None)
      else Some (overwrite dst 0 (transport_octets h), Some ()))"

definition transport_decode :: "bytes \<Rightarrow> transport_header option" where
  "transport_decode src =
     (if length src < TRANSPORT_HEADER_LEN then None
      else Some \<lparr>th_circuit_index = src ! 0, th_circuit_id = src ! 1, th_tx_sequence = src ! 2,
                 th_rx_sequence = src ! 3, th_opcode = src ! 4 AND OPCODE_MASK,
                 th_flags = src ! 4 AND FLAGS_MASK\<rparr>)"

definition transport_wf :: "transport_header \<Rightarrow> bool" where
  "transport_wf h \<longleftrightarrow> th_opcode h AND OPCODE_MASK = th_opcode h \<and> th_flags h AND FLAGS_MASK = th_flags h"

lemma length_transport_octets [simp]: "length (transport_octets h) = TRANSPORT_HEADER_LEN"
  by (simp add: transport_octets_def TRANSPORT_HEADER_LEN_def)

lemma transport_encode_fills: "fills (transport_encode h) (transport_octets h) ()"
  by (simp add: fills_def transport_encode_def)

lemma masks_disjoint: "(OPCODE_MASK :: u8) AND FLAGS_MASK = 0" "OPCODE_MASK OR FLAGS_MASK = (- 1 :: u8)"
  by (simp_all add: transport_consts)

lemma opcode_and_flags_parts:
  "opcode_and_flags h AND OPCODE_MASK = th_opcode h AND OPCODE_MASK"
  "opcode_and_flags h AND FLAGS_MASK = th_flags h AND FLAGS_MASK"
proof -
  have "(a AND OPCODE_MASK OR b AND FLAGS_MASK) AND OPCODE_MASK = a AND OPCODE_MASK" for a b :: u8
    using masks_disjoint(1) by (simp add: and.assoc bit.conj_disj_distrib2 and.commute [of FLAGS_MASK])
  moreover have "(a AND OPCODE_MASK OR b AND FLAGS_MASK) AND FLAGS_MASK = b AND FLAGS_MASK" for a b :: u8
    using masks_disjoint(1) by (simp add: and.assoc bit.conj_disj_distrib2)
  ultimately show "opcode_and_flags h AND OPCODE_MASK = th_opcode h AND OPCODE_MASK"
    "opcode_and_flags h AND FLAGS_MASK = th_flags h AND FLAGS_MASK"
    by (simp_all add: opcode_and_flags_def)
qed

lemma opcode_flags_join: "(w AND OPCODE_MASK) OR (w AND FLAGS_MASK) = w" for w :: u8
  using masks_disjoint(2) by (simp flip: bit.conj_disj_distrib)

interpretation transport: exact_codec transport_octets transport_decode transport_wf TRANSPORT_HEADER_LEN
proof
  fix h :: transport_header and rest :: bytes
  assume "transport_wf h"
  then show "transport_decode (transport_octets h @ rest) = Some h"
    by (simp add: transport_decode_def transport_wf_def opcode_and_flags_parts transport_octets_def
        TRANSPORT_HEADER_LEN_def)
next
  fix bs h
  assume dec: "transport_decode bs = Some h"
  then have "5 \<le> length bs"
    by (auto simp: transport_decode_def TRANSPORT_HEADER_LEN_def split: if_splits)
  then have "take 5 bs = [bs ! 0, bs ! 1, bs ! 2, bs ! 3, bs ! 4]"
    by (intro nth_equalityI) (auto simp: nth_Cons' less_Suc_eq numeral_eq_Suc)
  then show "transport_wf h \<and> take TRANSPORT_HEADER_LEN bs = transport_octets h"
    using dec by (auto simp: transport_decode_def transport_wf_def transport_octets_def
        TRANSPORT_HEADER_LEN_def opcode_and_flags_def and.assoc opcode_flags_join split: if_splits)
qed (simp_all add: transport_decode_def)

lemma transport_decode_Some:
  "TRANSPORT_HEADER_LEN \<le> length src \<Longrightarrow> \<exists>h. transport_decode src = Some h"
  by (simp add: transport_decode_def)

section \<open>The packet\<close>

definition PACKET_HEADER_LEN :: nat where
  "PACKET_HEADER_LEN = NETWORK_HEADER_LEN + TRANSPORT_HEADER_LEN"

definition MAX_PAYLOAD :: nat where
  "MAX_PAYLOAD = 236"

record packet =
  pk_network :: network_header
  pk_transport :: transport_header
  pk_payload :: bytes

definition write_slice :: "nat \<Rightarrow> bytes \<Rightarrow> bytes \<Rightarrow> unit writer" where
  "write_slice off bs dst =
     (if off + length bs \<le> length dst then Some (overwrite dst off bs, Some ()) else None)"

definition packet_encode :: "packet \<Rightarrow> bytes \<Rightarrow> nat writer" where
  "packet_encode p dst =
     (let total = PACKET_HEADER_LEN + length (pk_payload p) in
      if length dst < total then Some (dst, None)
      else try_write (sub_write 0 (network_encode (pk_network p)) dst) (\<lambda>d1 _.
           try_write (sub_write NETWORK_HEADER_LEN (transport_encode (pk_transport p)) d1) (\<lambda>d2 _.
           try_write (write_slice PACKET_HEADER_LEN (pk_payload p) d2) (\<lambda>d3 _.
           Some (d3, Some total)))))"

definition packet_decode :: "bytes \<Rightarrow> packet option" where
  "packet_decode src =
     (if length src < PACKET_HEADER_LEN then None
      else case network_decode src of None \<Rightarrow> None | Some network \<Rightarrow>
           case transport_decode (drop NETWORK_HEADER_LEN src) of None \<Rightarrow> None | Some transport \<Rightarrow>
           Some \<lparr>pk_network = network, pk_transport = transport,
                 pk_payload = drop PACKET_HEADER_LEN src\<rparr>)"

definition packet_octets :: "packet \<Rightarrow> bytes" where
  "packet_octets p = (network_octets (pk_network p) @ transport_octets (pk_transport p)) @ pk_payload p"

definition packet_wf :: "packet \<Rightarrow> bool" where
  "packet_wf p \<longleftrightarrow> network_wf (pk_network p) \<and> transport_wf (pk_transport p)"

lemma packet_encode_fills:
  "fills (packet_encode p) (packet_octets p) (PACKET_HEADER_LEN + length (pk_payload p))"
proof -
  have len: "length (packet_octets p) = PACKET_HEADER_LEN + length (pk_payload p)"
    by (simp add: packet_octets_def PACKET_HEADER_LEN_def)
  have "packet_encode p dst =
      Some (overwrite dst 0 (packet_octets p), Some (PACKET_HEADER_LEN + length (pk_payload p)))"
    if "\<not> length dst < PACKET_HEADER_LEN + length (pk_payload p)" for dst
  proof -
    let ?h = "network_octets (pk_network p) @ transport_octets (pk_transport p)"
    have "write_slice PACKET_HEADER_LEN (pk_payload p) (overwrite dst 0 ?h)
        = Some (overwrite dst 0 (packet_octets p), Some ())"
      using that overwrite_overwrite [of 0 ?h dst "pk_payload p"]
      by (simp add: write_slice_def packet_octets_def PACKET_HEADER_LEN_def)
    then show ?thesis
      using that
      by (simp add: packet_encode_def Let_def sub_write_first [OF network_encode_fills]
          sub_write_next [OF transport_encode_fills] PACKET_HEADER_LEN_def)
        (simp add: try_write_def)
  qed
  then show ?thesis
    by (auto simp: fills_def packet_encode_def len)
qed

lemma packet_decode_iff:
  "packet_decode src = Some p \<longleftrightarrow>
    network_decode src = Some (pk_network p) \<and> transport_wf (pk_transport p) \<and>
    drop NETWORK_HEADER_LEN src = transport_octets (pk_transport p) @ pk_payload p"
proof
  assume a: "packet_decode src = Some p"
  then have n: "network_decode src = Some (pk_network p)"
    and t: "transport_decode (drop NETWORK_HEADER_LEN src) = Some (pk_transport p)"
    and d: "pk_payload p = drop TRANSPORT_HEADER_LEN (drop NETWORK_HEADER_LEN src)"
    by (auto simp: packet_decode_def PACKET_HEADER_LEN_def add.commute split: if_splits option.splits)
  have "take TRANSPORT_HEADER_LEN (drop NETWORK_HEADER_LEN src) = transport_octets (pk_transport p)"
    "transport_wf (pk_transport p)"
    using transport.enc_dec [OF t] by auto
  then show "network_decode src = Some (pk_network p) \<and> transport_wf (pk_transport p) \<and>
      drop NETWORK_HEADER_LEN src = transport_octets (pk_transport p) @ pk_payload p"
    using n d append_take_drop_id [of TRANSPORT_HEADER_LEN "drop NETWORK_HEADER_LEN src"] by metis
next
  assume a: "network_decode src = Some (pk_network p) \<and> transport_wf (pk_transport p) \<and>
      drop NETWORK_HEADER_LEN src = transport_octets (pk_transport p) @ pk_payload p"
  have "NETWORK_HEADER_LEN \<le> length src"
    using a network.dec_Some_width by blast
  moreover have "length (drop NETWORK_HEADER_LEN src) \<ge> TRANSPORT_HEADER_LEN"
    using a by simp
  ultimately have "\<not> length src < PACKET_HEADER_LEN"
    by (simp add: PACKET_HEADER_LEN_def)
  moreover have "drop PACKET_HEADER_LEN src = pk_payload p"
    using a by (metis PACKET_HEADER_LEN_def append_eq_conv_conj drop_drop length_transport_octets add.commute)
  ultimately show "packet_decode src = Some p"
    using a transport.dec_enc by (simp add: packet_decode_def)
qed

section \<open>Connect Request and Connect Acknowledge information fields\<close>

definition CONNECT_REQUEST_INFO_LEN :: nat where
  "CONNECT_REQUEST_INFO_LEN = 1 + SHIFTED_LENGTH + SHIFTED_LENGTH"

record connect_request_info =
  cr_proposed_window :: u8
  cr_originating_user :: callsign
  cr_originating_node :: callsign

definition connect_request_encode :: "connect_request_info \<Rightarrow> bytes \<Rightarrow> unit writer" where
  "connect_request_encode c dst =
     (if length dst < CONNECT_REQUEST_INFO_LEN then Some (dst, None)
      else try_write (write_byte 0 (cr_proposed_window c) dst) (\<lambda>d1 _.
           try_write (sub_write 1 (lift_write (write_shifted (cr_originating_user c))) d1) (\<lambda>d2 _.
           try_write (sub_write (1 + SHIFTED_LENGTH) (lift_write (write_shifted (cr_originating_node c))) d2)
             (\<lambda>d3 _. Some (d3, Some ())))))"

definition connect_request_decode :: "bytes \<Rightarrow> connect_request_info option" where
  "connect_request_decode i =
     (if length i < CONNECT_REQUEST_INFO_LEN then None
      else case try_read_shifted (drop 1 i) of None \<Rightarrow> None | Some user \<Rightarrow>
           case try_read_shifted (drop (1 + SHIFTED_LENGTH) i) of None \<Rightarrow> None | Some node \<Rightarrow>
           Some \<lparr>cr_proposed_window = i ! 0, cr_originating_user = user, cr_originating_node = node\<rparr>)"

definition connect_request_octets :: "connect_request_info \<Rightarrow> bytes" where
  "connect_request_octets c = ([cr_proposed_window c] @ shifted_octets (cr_originating_user c))
     @ shifted_octets (cr_originating_node c)"

definition connect_request_wf :: "connect_request_info \<Rightarrow> bool" where
  "connect_request_wf c \<longleftrightarrow> callsign_wf (cr_originating_user c) \<and> callsign_wf (cr_originating_node c)"

lemma length_connect_request_octets [simp]:
  "length (connect_request_octets c) = CONNECT_REQUEST_INFO_LEN"
  by (simp add: connect_request_octets_def CONNECT_REQUEST_INFO_LEN_def)

lemma connect_request_encode_fills: "fills (connect_request_encode c) (connect_request_octets c) ()"
proof -
  have "connect_request_encode c dst = Some (overwrite dst 0 (connect_request_octets c), Some ())"
    if "\<not> length dst < CONNECT_REQUEST_INFO_LEN" for dst
  proof -
    have w: "try_write (write_byte 0 (cr_proposed_window c) dst) k =
        k (overwrite dst 0 [cr_proposed_window c]) ()" for k :: "bytes \<Rightarrow> unit \<Rightarrow> unit writer"
    proof -
      have "dst \<noteq> []"
        using that by (auto simp: CONNECT_REQUEST_INFO_LEN_def)
      then show ?thesis
        using write_byte_next [of 0 "[]" dst "cr_proposed_window c" k] by simp
    qed
    show ?thesis
      using that
      by (simp add: connect_request_encode_def w CONNECT_REQUEST_INFO_LEN_def
          sub_write_next [OF write_shifted_fills] connect_request_octets_def)
  qed
  then show ?thesis
    by (auto simp: fills_def connect_request_encode_def)
qed

interpretation connect_request: fixed_codec connect_request_octets connect_request_decode
  connect_request_wf CONNECT_REQUEST_INFO_LEN
proof
  fix c :: connect_request_info and rest :: bytes
  assume wf: "connect_request_wf c"
  let ?s = "connect_request_octets c @ rest"
  have "?s = cr_proposed_window c # shifted_octets (cr_originating_user c)
      @ shifted_octets (cr_originating_node c) @ rest"
    by (simp add: connect_request_octets_def)
  then show "connect_request_decode ?s = Some c"
    using wf by (simp add: connect_request_decode_def connect_request_wf_def shifted.dec_enc
        CONNECT_REQUEST_INFO_LEN_def)
qed (simp_all add: connect_request_decode_def)

definition CONNECT_ACK_MAX_WINDOW :: u8 where "CONNECT_ACK_MAX_WINDOW = 127"
definition CONNECT_ACK_COMPRESS_BIT :: u8 where "CONNECT_ACK_COMPRESS_BIT = 0x80"

definition connect_ack_encode :: "u8 \<Rightarrow> u8 \<Rightarrow> bool \<Rightarrow> bytes \<times> nat" where
  "connect_ack_encode accepted_window time_to_live agree_compression =
     (if \<not> agree_compression then ([accepted_window, 0], 1)
      else ([accepted_window, time_to_live OR CONNECT_ACK_COMPRESS_BIT], 2))"

definition try_read_accepted_window :: "bytes \<Rightarrow> u8 option" where
  "try_read_accepted_window i =
     (case i of [] \<Rightarrow> None
      | w # _ \<Rightarrow> if w \<noteq> 0 \<and> w \<le> CONNECT_ACK_MAX_WINDOW then Some w else None)"

definition agrees_compression :: "bytes \<Rightarrow> bool" where
  "agrees_compression i \<longleftrightarrow> length i \<ge> 2 \<and> i ! 1 AND CONNECT_ACK_COMPRESS_BIT \<noteq> 0"

section \<open>Properties\<close>

lemma nibble_opcode: "from_nibble (opcode_as_u8 op) = Some op"
  by (cases op) (simp_all add: from_nibble_def OPCODE_MASK_def)

text \<open>
  A NET/ROM packet is written in front of any buffer that holds it, leaving the rest alone, and
  decodes to itself with its whole payload; a buffer too short for it is refused untouched; decoding
  is exact on the transport header and payload, so that a decoded packet has only the opcode and flag
  bits of its nibbles, and a node relaying it writes those bytes unchanged.
\<close>

theorem packet_roundtrip:
  "(length dst < PACKET_HEADER_LEN + length (pk_payload p) \<longrightarrow> packet_encode p dst = Some (dst, None)) \<and>
   (PACKET_HEADER_LEN + length (pk_payload p) \<le> length dst \<longrightarrow>
      (\<exists>out. packet_encode p dst = Some (out, Some (PACKET_HEADER_LEN + length (pk_payload p))) \<and>
         length out = length dst \<and>
         drop (PACKET_HEADER_LEN + length (pk_payload p)) out =
           drop (PACKET_HEADER_LEN + length (pk_payload p)) dst \<and>
         (packet_wf p \<longrightarrow>
            packet_decode (take (PACKET_HEADER_LEN + length (pk_payload p)) out) = Some p))) \<and>
   (packet_decode src = Some q \<longrightarrow> packet_wf q \<and>
      src = take NETWORK_HEADER_LEN src @ transport_octets (pk_transport q) @ pk_payload q)"
proof (intro conjI impI)
  have len: "length (packet_octets p) = PACKET_HEADER_LEN + length (pk_payload p)"
    by (simp add: packet_octets_def PACKET_HEADER_LEN_def)
  show "packet_encode p dst = Some (dst, None)"
    if "length dst < PACKET_HEADER_LEN + length (pk_payload p)"
    using that fillsD(2) [OF packet_encode_fills] len by metis
  show "\<exists>out. packet_encode p dst = Some (out, Some (PACKET_HEADER_LEN + length (pk_payload p))) \<and>
         length out = length dst \<and>
         drop (PACKET_HEADER_LEN + length (pk_payload p)) out =
           drop (PACKET_HEADER_LEN + length (pk_payload p)) dst \<and>
         (packet_wf p \<longrightarrow>
            packet_decode (take (PACKET_HEADER_LEN + length (pk_payload p)) out) = Some p)"
    if fits: "PACKET_HEADER_LEN + length (pk_payload p) \<le> length dst"
  proof -
    have "packet_wf p \<Longrightarrow> packet_decode (packet_octets p) = Some p"
      by (simp add: packet_decode_iff packet_octets_def packet_wf_def network.dec_enc)
    then show ?thesis
      using fits len fillsD(1) [OF packet_encode_fills, of p dst]
      by (auto simp: overwrite_def)
  qed
  assume "packet_decode src = Some q"
  then have q: "network_decode src = Some (pk_network q)" "transport_wf (pk_transport q)"
    "drop NETWORK_HEADER_LEN src = transport_octets (pk_transport q) @ pk_payload q"
    by (simp_all add: packet_decode_iff)
  show "packet_wf q"
    using q network_decode_wf by (simp add: packet_wf_def)
  show "src = take NETWORK_HEADER_LEN src @ transport_octets (pk_transport q) @ pk_payload q"
    using q(3) by (metis append_take_drop_id)
qed

theorem packet_roundtrip_witness:
  "\<exists>out. packet_encode \<lparr>pk_network = \<lparr>nh_origin = \<lparr>cs_base = padded [65], cs_len = 1, cs_ssid = 0\<rparr>,
      nh_destination = \<lparr>cs_base = padded [66], cs_len = 1, cs_ssid = 3\<rparr>, nh_time_to_live = 25\<rparr>,
      pk_transport = \<lparr>th_circuit_index = 1, th_circuit_id = 2, th_tx_sequence = 3, th_rx_sequence = 4,
      th_opcode = 5, th_flags = 0x20\<rparr>, pk_payload = [1, 2]\<rparr> (replicate 22 0) = Some (out, Some 22) \<and>
    map_option pk_payload (packet_decode out) = Some [1, 2]" (is "\<exists>out. packet_encode ?p _ = _ \<and> _")
proof -
  have "callsign_wf \<lparr>cs_base = padded [65], cs_len = 1, cs_ssid = 0\<rparr>"
    "callsign_wf \<lparr>cs_base = padded [66], cs_len = 1, cs_ssid = 3\<rparr>"
    by (auto simp: callsign_wf_def MAX_BASE_LEN_def is_base_byte_def ascii_defs
        intro: exI [of _ "[65]"] exI [of _ "[66]"])
  then have "packet_wf ?p"
    by (simp add: packet_wf_def network_wf_def transport_wf_def transport_consts)
  moreover have n: "PACKET_HEADER_LEN = 20"
    by (simp add: PACKET_HEADER_LEN_def NETWORK_HEADER_LEN_def wire_lengths TRANSPORT_HEADER_LEN_def)
  ultimately obtain out where out: "packet_encode ?p (replicate 22 0) = Some (out, Some 22)"
    "length out = 22" "packet_decode (take 22 out) = Some ?p"
    using packet_roundtrip [of "replicate 22 0" ?p "[]" ?p] by auto
  have "take 22 out = out"
    using out(2) by simp
  then show ?thesis
    using out by (intro exI [of _ out]) simp
qed

text \<open>
  The Connect Request and Connect Acknowledge information fields are read back as written: the
  proposed window, user and node of a request from any sufficiently long buffer; the accepted window
  of an acknowledgement exactly when it lies in 1..127, and the compression bit exactly when agreed.
\<close>

theorem connect_info_roundtrip:
  "(CONNECT_REQUEST_INFO_LEN \<le> length dst \<and> connect_request_wf c \<longrightarrow>
      (\<exists>out. connect_request_encode c dst = Some (out, Some ()) \<and> connect_request_decode out = Some c)) \<and>
   (case connect_ack_encode w ttl agree of (buf, n) \<Rightarrow>
      n \<le> length buf \<and>
      try_read_accepted_window (take n buf) = (if 1 \<le> unat w \<and> unat w \<le> 127 then Some w else None) \<and>
      agrees_compression (take n buf) = agree)"
proof
  show "CONNECT_REQUEST_INFO_LEN \<le> length dst \<and> connect_request_wf c \<longrightarrow>
      (\<exists>out. connect_request_encode c dst = Some (out, Some ()) \<and> connect_request_decode out = Some c)"
    using fillsD(1) [OF connect_request_encode_fills, of c dst]
    by (auto simp: overwrite_def connect_request.dec_enc)
  have "w \<noteq> 0 \<longleftrightarrow> 1 \<le> unat w"
    by (simp add: unat_eq_0 [symmetric] Suc_le_eq)
  moreover have "w \<le> CONNECT_ACK_MAX_WINDOW \<longleftrightarrow> unat w \<le> 127"
    by (simp add: CONNECT_ACK_MAX_WINDOW_def word_le_nat_alt)
  moreover have "(ttl OR CONNECT_ACK_COMPRESS_BIT) AND CONNECT_ACK_COMPRESS_BIT = CONNECT_ACK_COMPRESS_BIT"
    by simp
  ultimately show "case connect_ack_encode w ttl agree of (buf, n) \<Rightarrow>
      n \<le> length buf \<and>
      try_read_accepted_window (take n buf) = (if 1 \<le> unat w \<and> unat w \<le> 127 then Some w else None) \<and>
      agrees_compression (take n buf) = agree"
    by (auto simp: connect_ack_encode_def try_read_accepted_window_def agrees_compression_def
        CONNECT_ACK_COMPRESS_BIT_def)
qed

theorem connect_info_roundtrip_witness:
  "connect_ack_encode 4 9 True = ([4, 0x89], 2) \<and> try_read_accepted_window [4, 0x89] = Some 4 \<and>
   agrees_compression [4, 0x89]"
proof -
  have e: "connect_ack_encode 4 9 True = ([4, 0x89], 2)"
    by (simp add: connect_ack_encode_def CONNECT_ACK_COMPRESS_BIT_def)
  then show ?thesis
    using connect_info_roundtrip [where w = 4 and ttl = 9 and agree = True] by simp
qed

end
