(* ===== verification/Netrom_Nodes.thy ===== *)
theory Netrom_Nodes
  imports Netrom_Wire
begin

text \<open>
  The NODES routing broadcast (\<open>netrom/wire/\<close>: \<open>entry.rs\<close>, \<open>options.rs\<close>, \<open>broadcast.rs\<close>,
  \<open>nodes_broadcast_builder.rs\<close>): the 21-byte entry as a fixed-width codec, the parser with its strict
  and lenient options, and the frame builder.
\<close>

section \<open>Entries\<close>

record nodes_entry =
  ne_destination :: callsign
  ne_destination_alias :: node_alias
  ne_best_neighbour :: callsign
  ne_best_quality :: u8

definition ENCODED_LENGTH :: nat where
  "ENCODED_LENGTH = SHIFTED_LENGTH + ALIAS_LENGTH + SHIFTED_LENGTH + 1"

definition entry_parse :: "bytes \<Rightarrow> nodes_entry option" where
  "entry_parse src =
     (if length src < ENCODED_LENGTH then None
      else case try_read_shifted src of None \<Rightarrow> None | Some dest \<Rightarrow>
           let al = read_alias (drop SHIFTED_LENGTH src) in
           case try_read_shifted (drop (SHIFTED_LENGTH + ALIAS_LENGTH) src) of None \<Rightarrow> None | Some nb \<Rightarrow>
           Some \<lparr>ne_destination = dest, ne_destination_alias = al, ne_best_neighbour = nb,
                 ne_best_quality = src ! (SHIFTED_LENGTH + ALIAS_LENGTH + SHIFTED_LENGTH)\<rparr>)"

definition entry_octets :: "nodes_entry \<Rightarrow> bytes" where
  "entry_octets e = shifted_octets (ne_destination e) @ alias_octets (ne_destination_alias e)
     @ shifted_octets (ne_best_neighbour e) @ [ne_best_quality e]"

definition entry_wf :: "nodes_entry \<Rightarrow> bool" where
  "entry_wf e \<longleftrightarrow> callsign_wf (ne_destination e) \<and> alias_wf (ne_destination_alias e) \<and>
     callsign_wf (ne_best_neighbour e)"

lemma length_entry_octets [simp]: "length (entry_octets e) = ENCODED_LENGTH"
  by (simp add: entry_octets_def ENCODED_LENGTH_def)

interpretation entry: fixed_codec entry_octets entry_parse entry_wf ENCODED_LENGTH
proof
  fix e :: nodes_entry and rest :: bytes
  assume wf: "entry_wf e"
  let ?s = "entry_octets e @ rest"
  have s: "?s = shifted_octets (ne_destination e) @ alias_octets (ne_destination_alias e)
      @ shifted_octets (ne_best_neighbour e) @ ne_best_quality e # rest"
    by (simp add: entry_octets_def)
  have "drop (SHIFTED_LENGTH + ALIAS_LENGTH) ?s = shifted_octets (ne_best_neighbour e) @ ne_best_quality e # rest"
    unfolding s by simp
  moreover have "?s ! (SHIFTED_LENGTH + ALIAS_LENGTH + SHIFTED_LENGTH) = ne_best_quality e"
    unfolding s by (simp add: nth_append)
  ultimately show "entry_parse ?s = Some e"
    using wf shifted.dec_enc read_alias_octets
    by (simp add: entry_parse_def entry_wf_def s Let_def ENCODED_LENGTH_def)
qed (simp_all add: entry_parse_def)

lemma entry_parse_wf: "entry_parse src = Some e \<Longrightarrow> entry_wf e"
  by (auto simp: entry_parse_def entry_wf_def Let_def try_read_shifted_wf read_alias_wf
      split: if_splits option.splits)

section \<open>Parsing a broadcast\<close>

record nodes_options =
  allow_trailing_partial_entry :: bool
  allow_empty_destination_list :: bool

definition NODES_STRICT :: nodes_options where
  "NODES_STRICT = \<lparr>allow_trailing_partial_entry = False, allow_empty_destination_list = False\<rparr>"

definition NODES_LENIENT :: nodes_options where
  "NODES_LENIENT = \<lparr>allow_trailing_partial_entry = True, allow_empty_destination_list = True\<rparr>"

definition SIGNATURE :: byte where
  "SIGNATURE = 0xFF"

definition MAX_ENTRIES_PER_FRAME :: nat where
  "MAX_ENTRIES_PER_FRAME = 11"

definition HEADER_LENGTH :: nat where
  "HEADER_LENGTH = 1 + ALIAS_LENGTH"

record nodes_broadcast =
  nb_sender_alias :: node_alias
  nb_entries :: "nodes_entry option list"
  nb_count :: u8

definition broadcast_entries :: "nodes_broadcast \<Rightarrow> nodes_entry list" where
  "broadcast_entries b = slot_items (take (unat (nb_count b)) (nb_entries b))"

definition entry_count :: "nodes_broadcast \<Rightarrow> nat" where
  "entry_count b = unat (nb_count b)"

text \<open>
  The loop over the entries still to read, from \<open>offset\<close>, into the slots from \<open>count\<close> on. An index
  past the eleven slots would panic; \<open>entries[count] := \<dots>\<close> of the model leaves the list alone there, and
  \<open>parse_entries_count\<close> shows that it does not happen.
\<close>

fun parse_entries ::
  "nodes_options \<Rightarrow> bytes \<Rightarrow> nat \<Rightarrow> nat \<Rightarrow> nodes_entry option list \<Rightarrow> nat
     \<Rightarrow> (nodes_entry option list \<times> nat) option" where
  "parse_entries opts body 0 offset entries count = Some (entries, count)"
| "parse_entries opts body (Suc n) offset entries count =
     (case entry_parse (take ENCODED_LENGTH (drop offset body)) of
        Some e \<Rightarrow> parse_entries opts body n (offset + ENCODED_LENGTH) (entries[count := Some e]) (count + 1)
      | None \<Rightarrow>
          if \<not> allow_trailing_partial_entry opts then None
          else parse_entries opts body n (offset + ENCODED_LENGTH) entries count)"

definition nodes_parse_with :: "bytes \<Rightarrow> nodes_options \<Rightarrow> nodes_broadcast option" where
  "nodes_parse_with i opts =
     (if length i < HEADER_LENGTH then None
      else if i ! 0 \<noteq> SIGNATURE then None
      else
        let sender = read_alias (drop 1 i);
            body = drop HEADER_LENGTH i;
            n = length body div ENCODED_LENGTH;
            remainder = length body - n * ENCODED_LENGTH
        in if remainder \<noteq> 0 \<and> \<not> allow_trailing_partial_entry opts then None
           else
             let tk = min n MAX_ENTRIES_PER_FRAME in
             if tk = 0 \<and> \<not> allow_empty_destination_list opts then None
             else case parse_entries opts body tk 0 (replicate MAX_ENTRIES_PER_FRAME None) 0 of
                    None \<Rightarrow> None
                  | Some (entries, count) \<Rightarrow>
                      Some \<lparr>nb_sender_alias = sender, nb_entries = entries, nb_count = of_nat count\<rparr>)"

definition nodes_parse :: "bytes \<Rightarrow> nodes_broadcast option" where
  "nodes_parse i = nodes_parse_with i NODES_LENIENT"

section \<open>Building a broadcast\<close>

record advertisement =
  av_destination :: callsign
  av_destination_alias :: node_alias
  av_best_neighbour :: callsign
  av_quality :: u8

fun write_entries :: "advertisement list \<Rightarrow> nat \<Rightarrow> bytes \<Rightarrow> unit writer" where
  "write_entries [] off dst = Some (dst, Some ())"
| "write_entries (e # es) off dst =
     try_write (sub_write off (lift_write (write_shifted (av_destination e))) dst) (\<lambda>d1 _.
     try_write (sub_write (off + SHIFTED_LENGTH) (lift_write (write_alias (av_destination_alias e))) d1) (\<lambda>d2 _.
     try_write (sub_write (off + SHIFTED_LENGTH + ALIAS_LENGTH)
       (lift_write (write_shifted (av_best_neighbour e))) d2) (\<lambda>d3 _.
     try_write (write_byte (off + ENCODED_LENGTH - 1) (av_quality e) d3) (\<lambda>d4 _.
     write_entries es (off + ENCODED_LENGTH) d4))))"

definition write_nodes_frame :: "node_alias \<Rightarrow> advertisement list \<Rightarrow> bytes \<Rightarrow> nat writer" where
  "write_nodes_frame sender_alias entries dst =
     (let tk = min (length entries) MAX_ENTRIES_PER_FRAME;
          total = HEADER_LENGTH + tk * ENCODED_LENGTH
      in if length dst < total then Some (dst, None)
         else try_write (write_byte 0 SIGNATURE dst) (\<lambda>d1 _.
              try_write (sub_write 1 (lift_write (write_alias sender_alias)) d1) (\<lambda>d2 _.
              try_write (write_entries (take tk entries) HEADER_LENGTH d2) (\<lambda>d3 _.
              Some (d3, Some total)))))"

text \<open>The entry a receiver reads for an advertised one.\<close>

definition entry_of :: "advertisement \<Rightarrow> nodes_entry" where
  "entry_of e = \<lparr>ne_destination = av_destination e, ne_destination_alias = av_destination_alias e,
     ne_best_neighbour = av_best_neighbour e, ne_best_quality = av_quality e\<rparr>"

definition nodes_octets :: "node_alias \<Rightarrow> advertisement list \<Rightarrow> bytes" where
  "nodes_octets al es = ([SIGNATURE] @ alias_octets al) @ concat (map (entry_octets \<circ> entry_of) es)"

lemma write_entries_eq:
  assumes "length bs + length (concat (map (entry_octets \<circ> entry_of) es)) \<le> length dst"
  shows "write_entries es (length bs) (overwrite dst 0 bs) =
    Some (overwrite dst 0 (bs @ concat (map (entry_octets \<circ> entry_of) es)), Some ())"
  using assms
proof (induction es arbitrary: bs)
  case (Cons e es)
  let ?b1 = "bs @ shifted_octets (av_destination e)"
  let ?b2 = "?b1 @ alias_octets (av_destination_alias e)"
  let ?b3 = "?b2 @ shifted_octets (av_best_neighbour e)"
  have fits: "length bs + ENCODED_LENGTH \<le> length dst"
    using Cons.prems by simp
  have eq: "?b3 @ [av_quality e] = bs @ entry_octets (entry_of e)"
    by (simp add: entry_octets_def entry_of_def)
  have "write_entries (e # es) (length bs) (overwrite dst 0 bs) =
      write_entries es (length bs + ENCODED_LENGTH) (overwrite dst 0 (?b3 @ [av_quality e]))"
    using fits
    by (simp add: sub_write_next [OF write_shifted_fills] sub_write_next [OF write_alias_fills]
        write_byte_next ENCODED_LENGTH_def add.assoc del: append_assoc)
  then show ?case
    using Cons.IH [of "bs @ entry_octets (entry_of e)"] Cons.prems unfolding eq by simp
qed simp

lemma write_nodes_frame_fills:
  "fills (write_nodes_frame al es) (nodes_octets al (take MAX_ENTRIES_PER_FRAME es))
     (HEADER_LENGTH + min (length es) MAX_ENTRIES_PER_FRAME * ENCODED_LENGTH)"
proof -
  let ?es = "take MAX_ENTRIES_PER_FRAME es"
  have tk: "take (min (length es) MAX_ENTRIES_PER_FRAME) es = ?es"
    by (simp add: min_def)
  have c: "length (concat (map (entry_octets \<circ> entry_of) ?es)) = min (length es) MAX_ENTRIES_PER_FRAME * ENCODED_LENGTH"
    by (simp add: length_concat o_def sum_list_triv min.commute)
  have len: "length (nodes_octets al ?es) = HEADER_LENGTH + min (length es) MAX_ENTRIES_PER_FRAME * ENCODED_LENGTH"
    by (simp add: nodes_octets_def c HEADER_LENGTH_def)
  have "write_nodes_frame al es dst = Some (overwrite dst 0 (nodes_octets al ?es),
      Some (HEADER_LENGTH + min (length es) MAX_ENTRIES_PER_FRAME * ENCODED_LENGTH))"
    if fits: "\<not> length dst < HEADER_LENGTH + min (length es) MAX_ENTRIES_PER_FRAME * ENCODED_LENGTH" for dst
  proof -
    have "dst \<noteq> []"
      using fits by (auto simp: HEADER_LENGTH_def)
    then have sig: "try_write (write_byte 0 SIGNATURE dst) k = k (overwrite dst 0 [SIGNATURE]) ()"
      for k :: "bytes \<Rightarrow> unit \<Rightarrow> nat writer"
      using write_byte_next [of 0 "[]" dst SIGNATURE k] by simp
    have "write_entries ?es HEADER_LENGTH (overwrite dst 0 (SIGNATURE # alias_octets al)) =
        Some (overwrite dst 0 (nodes_octets al ?es), Some ())"
      using write_entries_eq [of "SIGNATURE # alias_octets al" ?es dst] fits c
      by (simp add: HEADER_LENGTH_def nodes_octets_def)
    moreover have "sub_write 1 (lift_write (write_alias al)) (overwrite dst 0 [SIGNATURE]) =
        Some (overwrite dst 0 (SIGNATURE # alias_octets al), Some ())"
      using fits sub_write_fills [OF write_alias_fills, of 1 al "overwrite dst 0 [SIGNATURE]"]
        overwrite_overwrite [of 0 "[SIGNATURE]" dst "alias_octets al"]
      by (simp add: HEADER_LENGTH_def)
    ultimately show ?thesis
      using fits by (simp add: write_nodes_frame_def Let_def tk sig) (simp add: try_write_def)
  qed
  then show ?thesis
    by (auto simp: fills_def write_nodes_frame_def len Let_def)
qed

section \<open>What the parser reads\<close>

fun decoded :: "bytes \<Rightarrow> nat \<Rightarrow> nat \<Rightarrow> nodes_entry list" where
  "decoded body 0 offset = []"
| "decoded body (Suc n) offset =
     (case entry_parse (take ENCODED_LENGTH (drop offset body)) of
        Some e \<Rightarrow> e # decoded body n (offset + ENCODED_LENGTH)
      | None \<Rightarrow> decoded body n (offset + ENCODED_LENGTH))"

lemma length_decoded: "length (decoded body n offset) \<le> n"
  by (induction n arbitrary: offset) (auto split: option.splits intro: le_SucI)

lemma decoded_wf: "e \<in> set (decoded body n offset) \<Longrightarrow> entry_wf e"
  by (induction n arbitrary: offset) (auto split: option.splits simp: entry_parse_wf)

lemma parse_entries_eq:
  assumes "count + n \<le> length entries"
  shows "parse_entries opts body n offset entries count =
    (if \<not> allow_trailing_partial_entry opts \<and> length (decoded body n offset) < n then None
     else Some (overwrite entries count (map Some (decoded body n offset)),
                count + length (decoded body n offset)))"
  using assms
proof (induction n arbitrary: offset entries count)
  case (Suc n)
  show ?case
  proof (cases "entry_parse (take ENCODED_LENGTH (drop offset body))")
    case None
    then show ?thesis
      using Suc length_decoded [of body n "offset + ENCODED_LENGTH"] by (simp add: le_imp_less_Suc)
  next
    case (Some e)
    have "overwrite (entries[count := Some e]) (count + 1) bs = overwrite entries count (Some e # bs)" for bs
      using Suc.prems overwrite_overwrite [of count "[Some e]" entries bs]
      by (simp add: overwrite_def upd_conv_take_nth_drop)
    then show ?thesis
      using Suc Some by simp
  qed
qed simp

lemma slot_items_map_Some [simp]: "slot_items (map Some xs) = xs"
  by (induction xs) simp_all

lemma nodes_parse_with_eq:
  "nodes_parse_with i opts =
    (let body = drop HEADER_LENGTH i; n = length body div ENCODED_LENGTH; k = min n 11;
         ds = decoded body k 0
     in if length i < HEADER_LENGTH \<or> i ! 0 \<noteq> SIGNATURE
          \<or> (\<not> allow_trailing_partial_entry opts \<and> (length body \<noteq> n * ENCODED_LENGTH \<or> length ds < k))
          \<or> (k = 0 \<and> \<not> allow_empty_destination_list opts)
        then None
        else Some \<lparr>nb_sender_alias = read_alias (drop 1 i),
          nb_entries = overwrite (replicate 11 None) 0 (map Some ds), nb_count = of_nat (length ds)\<rparr>)"
proof -
  define body where "body = drop HEADER_LENGTH i"
  have "n \<le> 11 \<Longrightarrow> parse_entries opts body n 0 (replicate 11 None) 0 =
    (if \<not> allow_trailing_partial_entry opts \<and> length (decoded body n 0) < n then None
     else Some (overwrite (replicate 11 None) 0 (map Some (decoded body n 0)),
                length (decoded body n 0)))" for n
    using parse_entries_eq [of 0 n "replicate 11 None"] by simp
  moreover have "length body - length body div ENCODED_LENGTH * ENCODED_LENGTH \<noteq> 0 \<longleftrightarrow>
      length body \<noteq> length body div ENCODED_LENGTH * ENCODED_LENGTH"
    using div_times_less_eq_dividend [of "length body" ENCODED_LENGTH] by linarith
  ultimately show ?thesis
    unfolding nodes_parse_with_def body_def [symmetric]
    by (auto simp: Let_def MAX_ENTRIES_PER_FRAME_def)
qed

lemma decoded_octets:
  assumes "\<And>e. e \<in> set es \<Longrightarrow> entry_wf e"
  shows "decoded (pre @ concat (map entry_octets es)) (length es) (length pre) = es"
  using assms
proof (induction es arbitrary: pre)
  case (Cons e es)
  have "entry_parse (entry_octets e) = Some e"
    using Cons.prems entry.dec_enc_exact by simp
  then show ?case
    using Cons.IH [of "pre @ entry_octets e"] Cons.prems by simp
qed simp

lemma nodes_parse_named:
  assumes "nodes_parse_with i opts = Some b"
  shows "alias_wf (nb_sender_alias b) \<and> list_all entry_wf (broadcast_entries b)"
proof -
  let ?ds = "decoded (drop HEADER_LENGTH i) (min ((length i - HEADER_LENGTH) div ENCODED_LENGTH) 11) 0"
  have "length ?ds \<le> 11"
    by (rule order_trans [OF length_decoded]) simp
  then have u: "unat (of_nat (length ?ds) :: u8) = length ?ds"
    by (simp add: unat_of_nat)
  have b: "b = \<lparr>nb_sender_alias = read_alias (drop 1 i),
      nb_entries = overwrite (replicate 11 None) 0 (map Some ?ds), nb_count = of_nat (length ?ds)\<rparr>"
    using assms unfolding nodes_parse_with_eq Let_def length_drop by (simp only: option.inject option.distinct split: if_splits)
  have "take (length ?ds) (overwrite (replicate 11 None) 0 (map Some ?ds)) = map Some ?ds"
    by (simp add: overwrite_def)
  then have "broadcast_entries b = ?ds"
    by (simp add: b broadcast_entries_def u)
  moreover have "list_all entry_wf ?ds"
    unfolding list_all_iff by (blast intro: decoded_wf)
  ultimately show ?thesis
    by (simp add: b read_alias_wf)
qed

section \<open>Properties\<close>

text \<open>
  For every input and option set, a parsed NODES broadcast starts with the signature byte, holds
  a canonical alias and at most eleven well-formed entries, which are the decodable ones among the
  first eleven 21-byte blocks in their order; strict parsing accepts only whole, all-decodable,
  non-empty broadcasts, and lenient parsing accepts exactly the inputs with a header and signature.
\<close>

theorem nodes_parse_sound:
  "(nodes_parse_with i opts = Some b \<longrightarrow>
      i ! 0 = SIGNATURE \<and> alias_wf (nb_sender_alias b) \<and>
      entry_count b = length (broadcast_entries b) \<and> entry_count b \<le> 11 \<and>
      list_all entry_wf (broadcast_entries b) \<and>
      broadcast_entries b = decoded (drop 7 i) (min ((length i - 7) div 21) 11) 0) \<and>
   (nodes_parse_with i NODES_STRICT = Some b \<longrightarrow>
      length i = 7 + 21 * ((length i - 7) div 21) \<and> 1 \<le> entry_count b \<and>
      entry_count b = min ((length i - 7) div 21) 11) \<and>
   (nodes_parse i \<noteq> None \<longleftrightarrow> 7 \<le> length i \<and> i ! 0 = SIGNATURE)"
proof -
  have n: "HEADER_LENGTH = 7" "ENCODED_LENGTH = 21"
    by (simp_all add: HEADER_LENGTH_def ENCODED_LENGTH_def wire_lengths)
  define ds where "ds = decoded (drop 7 i) (min ((length i - 7) div 21) 11) 0"
  have "length ds \<le> min ((length i - 7) div 21) 11"
    unfolding ds_def by (rule length_decoded)
  moreover have "list_all entry_wf ds"
    unfolding ds_def list_all_iff by (blast intro: decoded_wf)
  ultimately have ds: "length ds \<le> min ((length i - 7) div 21) 11" "list_all entry_wf ds"
    by blast+
  then have u: "unat (of_nat (length ds) :: u8) = length ds"
    by (simp add: unat_of_nat)
  define r where "r = \<lparr>nb_sender_alias = read_alias (drop 1 i),
    nb_entries = overwrite (replicate 11 None) 0 (map Some ds), nb_count = of_nat (length ds)\<rparr>"
  have eq: "nodes_parse_with i o1 =
      (if length i < 7 \<or> i ! 0 \<noteq> SIGNATURE
          \<or> (\<not> allow_trailing_partial_entry o1 \<and>
               (length i - 7 \<noteq> (length i - 7) div 21 * 21 \<or> length ds < min ((length i - 7) div 21) 11))
          \<or> (min ((length i - 7) div 21) 11 = 0 \<and> \<not> allow_empty_destination_list o1)
       then None else Some r)" for o1
    by (simp only: nodes_parse_with_eq Let_def n length_drop ds_def r_def)
  have "take (length ds) (overwrite (replicate 11 None) 0 (map Some ds)) = map Some ds"
    by (simp add: overwrite_def)
  then have r: "broadcast_entries r = ds" "entry_count r = length ds" "alias_wf (nb_sender_alias r)"
    by (simp_all add: r_def broadcast_entries_def entry_count_def u read_alias_wf)
  have lenient: "b = r \<and> i ! 0 = SIGNATURE" if "nodes_parse_with i opts = Some b"
    using that unfolding eq by (simp split: if_splits)
  have strict: "b = r \<and> 7 \<le> length i \<and> length i - 7 = (length i - 7) div 21 * 21 \<and>
      \<not> length ds < min ((length i - 7) div 21) 11 \<and> min ((length i - 7) div 21) 11 \<noteq> 0"
    if "nodes_parse_with i NODES_STRICT = Some b"
    using that unfolding eq NODES_STRICT_def
    by (simp only: nodes_options.simps not_less de_Morgan_disj de_Morgan_conj simp_thms
        option.inject option.distinct split: if_splits)
  have "nodes_parse i \<noteq> None \<longleftrightarrow> 7 \<le> length i \<and> i ! 0 = SIGNATURE"
    unfolding eq nodes_parse_def NODES_LENIENT_def by (simp add: not_less)
  moreover have "i ! 0 = SIGNATURE \<and> alias_wf (nb_sender_alias b) \<and>
      entry_count b = length (broadcast_entries b) \<and> entry_count b \<le> 11 \<and>
      list_all entry_wf (broadcast_entries b) \<and> broadcast_entries b = ds"
    if "nodes_parse_with i opts = Some b"
    using lenient [OF that] r ds by simp
  moreover have "length i = 7 + 21 * ((length i - 7) div 21) \<and> 1 \<le> entry_count b \<and>
      entry_count b = min ((length i - 7) div 21) 11"
    if "nodes_parse_with i NODES_STRICT = Some b"
  proof -
    note st = strict [OF that]
    have "length ds = min ((length i - 7) div 21) 11"
      using st ds(1) by linarith
    moreover have "length i = 7 + 21 * ((length i - 7) div 21)"
      using st by linarith
    moreover have "entry_count b = length ds"
      using st r(2) by simp
    moreover have "min ((length i - 7) div 21) 11 \<noteq> 0"
      using st by blast
    ultimately show ?thesis
      by linarith
  qed
  ultimately show ?thesis
    unfolding ds_def [symmetric] by blast
qed

theorem nodes_parse_sound_witness:
  "entry_count \<lparr>nb_sender_alias = alias_EMPTY, nb_entries = replicate 11 None, nb_count = 0\<rparr> \<le> 11 \<and>
   nodes_parse_with (SIGNATURE # replicate 6 32) NODES_LENIENT =
     Some \<lparr>nb_sender_alias = alias_EMPTY, nb_entries = replicate 11 None, nb_count = 0\<rparr>"
proof -
  have r: "read_alias (replicate 6 32) = alias_EMPTY"
    by (simp add: read_alias_def ALIAS_LENGTH_def printable_def trim_spaces_def alias_of_def alias_EMPTY_def)
  have "nodes_parse_with (SIGNATURE # replicate 6 32) NODES_LENIENT =
     Some \<lparr>nb_sender_alias = alias_EMPTY, nb_entries = replicate 11 None, nb_count = 0\<rparr>"
    by (simp add: nodes_parse_with_eq Let_def HEADER_LENGTH_def wire_lengths NODES_LENIENT_def r overwrite_def)
  then show ?thesis
    using nodes_parse_sound [of "SIGNATURE # replicate 6 32" NODES_LENIENT] by blast
qed

lemma nodes_consts: "HEADER_LENGTH = 7" "ENCODED_LENGTH = 21" "MAX_ENTRIES_PER_FRAME = 11"
  by (simp_all add: HEADER_LENGTH_def ENCODED_LENGTH_def wire_lengths MAX_ENTRIES_PER_FRAME_def)

lemma length_nodes_octets: "length (nodes_octets al es) = 7 + 21 * length es"
proof -
  have "length (concat (map (entry_octets \<circ> entry_of) es)) = 21 * length es"
    by (induction es) (simp_all add: nodes_consts)
  then show ?thesis
    by (simp add: nodes_octets_def ALIAS_LENGTH_def)
qed

lemma nodes_parse_octets:
  assumes "alias_wf al" "list_all (entry_wf \<circ> entry_of) es" "length es \<le> 11"
    and "es \<noteq> [] \<or> allow_empty_destination_list opts"
  shows "\<exists>b. nodes_parse_with (nodes_octets al es) opts = Some b \<and>
    nb_sender_alias b = al \<and> broadcast_entries b = map entry_of es"
proof -
  define ds where "ds = map entry_of es"
  define w where "w = nodes_octets al es"
  have w: "w = SIGNATURE # alias_octets al @ concat (map entry_octets ds)"
    by (simp add: w_def nodes_octets_def ds_def)
  have wf: "\<And>e. e \<in> set ds \<Longrightarrow> entry_wf e"
    using assms(2) by (auto simp: ds_def list_all_iff)
  have body: "drop 7 w = concat (map entry_octets ds)" "length (concat (map entry_octets ds)) = 21 * length ds"
    using entry.length_enc_concat [of ds, OF wf] by (simp_all add: w ALIAS_LENGTH_def nodes_consts)
  have len: "length w = 7 + 21 * length ds"
    using body(2) by (simp add: w ALIAS_LENGTH_def)
  have dec: "decoded (drop 7 w) (length ds) 0 = ds"
    using decoded_octets [of ds "[]", OF wf] body by simp
  have al: "read_alias (drop 1 w) = al"
    using read_alias_octets [OF assms(1)] by (simp add: w)
  have u: "unat (of_nat (length ds) :: u8) = length ds" "length ds \<le> 11"
    "length ds \<noteq> 0 \<or> allow_empty_destination_list opts"
    using assms(3,4) by (auto simp: ds_def unat_of_nat)
  have "nodes_parse_with w opts = Some \<lparr>nb_sender_alias = al,
      nb_entries = overwrite (replicate 11 None) 0 (map Some ds), nb_count = of_nat (length ds)\<rparr>"
    using dec al u len by (simp add: nodes_parse_with_eq Let_def nodes_consts) (simp add: w)
  moreover have "take (length ds) (overwrite (replicate 11 None) 0 (map Some ds)) = map Some ds"
    by (simp add: overwrite_def)
  ultimately show ?thesis
    using u(1) by (simp add: broadcast_entries_def w_def ds_def [symmetric])
qed

text \<open>
  Building a NODES frame fits the announced length, never writes more than eleven entries or past
  the buffer's end, and a receiver parsing it strictly reads back the sender's alias and exactly the
  advertised entries, in order, the surplus beyond eleven dropped.
\<close>

theorem nodes_build_parse:
  assumes "alias_wf al" "es \<noteq> []" "list_all (entry_wf \<circ> entry_of) es"
    and "7 + 21 * min (length es) 11 \<le> length dst"
  shows "\<exists>out. write_nodes_frame al es dst = Some (out, Some (7 + 21 * min (length es) 11)) \<and>
    length out = length dst \<and>
    drop (7 + 21 * min (length es) 11) out = drop (7 + 21 * min (length es) 11) dst \<and>
    (\<exists>b. nodes_parse_with (take (7 + 21 * min (length es) 11) out) NODES_STRICT = Some b \<and>
       nb_sender_alias b = al \<and> broadcast_entries b = map entry_of (take 11 es))"
proof -
  define w where "w = nodes_octets al (take 11 es)"
  have len: "length w = 7 + 21 * min (length es) 11"
    by (simp add: w_def length_nodes_octets min.commute)
  have "list_all (entry_wf \<circ> entry_of) (take 11 es)"
    using assms(3) by (auto simp: list_all_iff dest: in_set_takeD)
  then have "\<exists>b. nodes_parse_with w NODES_STRICT = Some b \<and>
      nb_sender_alias b = al \<and> broadcast_entries b = map entry_of (take 11 es)"
    unfolding w_def using assms(1,2) by (intro nodes_parse_octets) simp_all
  moreover have "write_nodes_frame al es dst = Some (overwrite dst 0 w, Some (length w))"
    using fillsD(1) [OF write_nodes_frame_fills, of al es dst] assms(4) len
    by (simp add: nodes_consts w_def mult.commute)
  moreover have "take (length w) (overwrite dst 0 w) = w"
    by (simp add: overwrite_def)
  ultimately show ?thesis
    using assms(4) unfolding len by (simp add: overwrite_def len)
qed

theorem nodes_build_parse_witness:
  "\<exists>out b. write_nodes_frame (alias_of [78]) [\<lparr>av_destination = \<lparr>cs_base = padded [65], cs_len = 1, cs_ssid = 0\<rparr>,
      av_destination_alias = alias_of [66], av_best_neighbour = \<lparr>cs_base = padded [65], cs_len = 1, cs_ssid = 0\<rparr>,
      av_quality = 192\<rparr>] (replicate 28 0) = Some (out, Some 28) \<and>
    nodes_parse_with (take 28 out) NODES_STRICT = Some b \<and> map ne_best_quality (broadcast_entries b) = [192]"
  (is "\<exists>out b. write_nodes_frame ?al [?e] _ = _ \<and> _")
proof -
  have cs: "callsign_wf \<lparr>cs_base = padded [65], cs_len = 1, cs_ssid = 0\<rparr>"
    by (auto simp: callsign_wf_def MAX_BASE_LEN_def is_base_byte_def ascii_defs intro: exI [of _ "[65]"])
  have al: "alias_wf (alias_of [78])" "alias_wf (alias_of [66])"
    using alias_wf_of [of "[78]"] alias_wf_of [of "[66]"]
    by (simp_all add: ALIAS_LENGTH_def printable_def trim_spaces_def)
  have "list_all (entry_wf \<circ> entry_of) [?e]"
    using cs al by (simp add: entry_wf_def entry_of_def)
  then show ?thesis
    using nodes_build_parse [OF al(1), of "[?e]" "replicate 28 0"] by (auto simp: entry_of_def)
qed

end
