(* ===== verification/Netrom_Rif.thy ===== *)
theory Netrom_Rif
  imports Netrom_Wire
begin

text \<open>
  The INP3 routing information frame (\<open>netrom/wire/inp3_rif.rs\<close>): a signature and self-delimited routing
  entries (RIPs), each a fixed prefix, type/length/value fields and a terminator. The terminator and
  the type of an alias field are the same octet, and the parser tells them apart by whether the
  bytes that follow fit as a field. The main result is the exact condition under which a frame
  without fields, the only kind that the node emits, is read back.
\<close>

section \<open>Parse options\<close>

record inp3_parse_options =
  allow_empty_rip_list :: bool
  allow_trailing_partial_rip :: bool

definition RIF_LENIENT :: inp3_parse_options where
  "RIF_LENIENT = \<lparr>allow_empty_rip_list = True, allow_trailing_partial_rip = True\<rparr>"

definition RIF_STRICT :: inp3_parse_options where
  "RIF_STRICT = \<lparr>allow_empty_rip_list = False, allow_trailing_partial_rip = False\<rparr>"

section \<open>Fields\<close>

record tlv =
  tlv_type :: u8
  tlv_value :: bytes

definition ALIAS_TYPE :: u8 where "ALIAS_TYPE = 0"
definition IP_TYPE :: u8 where "IP_TYPE = 1"

definition tlv_encoded_length :: "tlv \<Rightarrow> nat" where
  "tlv_encoded_length t = 2 + length (tlv_value t)"

definition tlv_is_known :: "tlv \<Rightarrow> bool" where
  "tlv_is_known t \<longleftrightarrow> tlv_type t = ALIAS_TYPE \<or> tlv_type t = IP_TYPE"

text \<open>\<open>alias\<close> and \<open>ip\<close>, the two builders; the text is given by its bytes.\<close>

definition tlv_alias :: "bytes \<Rightarrow> tlv" where
  "tlv_alias al = \<lparr>tlv_type = ALIAS_TYPE, tlv_value = map (\<lambda>b. if printable b then b else 32) al\<rparr>"

definition tlv_ip :: "bytes \<Rightarrow> tlv" where
  "tlv_ip address_bytes = \<lparr>tlv_type = IP_TYPE, tlv_value = address_bytes\<rparr>"

text \<open>\<open>as_alias\<close>: the two loops over the caller's buffer.\<close>

fun keep_printable :: "bytes \<Rightarrow> bytes \<Rightarrow> nat \<Rightarrow> bytes \<times> nat" where
  "keep_printable [] dst n = (dst, n)"
| "keep_printable (b # bs) dst n =
     (if printable b then
        (if n \<ge> length dst then (dst, n) else keep_printable bs (dst[n := b]) (n + 1))
      else keep_printable bs dst n)"

fun trim_end :: "bytes \<Rightarrow> nat \<Rightarrow> nat" where
  "trim_end dst 0 = 0"
| "trim_end dst (Suc n) = (if dst ! n = 32 then trim_end dst n else Suc n)"

definition as_alias :: "tlv \<Rightarrow> bytes \<Rightarrow> bytes \<times> nat" where
  "as_alias t dst = (let (d, n) = keep_printable (tlv_value t) dst 0 in (d, trim_end d n))"

definition as_ipv4 :: "tlv \<Rightarrow> bytes option" where
  "as_ipv4 t = (if length (tlv_value t) = 4 then Some (tlv_value t) else None)"

definition as_ipv6 :: "tlv \<Rightarrow> bytes option" where
  "as_ipv6 t = (if length (tlv_value t) = 16 then Some (tlv_value t) else None)"

definition tlv_write :: "tlv \<Rightarrow> bytes \<Rightarrow> nat writer" where
  "tlv_write t dst =
     (if length (tlv_value t) > 255 then Some (dst, None)
      else if length dst < tlv_encoded_length t then Some (dst, None)
      else try_write (write_byte 0 (tlv_type t) dst) (\<lambda>d1 _.
           try_write (write_byte 1 (of_nat (length (tlv_value t))) d1) (\<lambda>d2 _.
           Some (overwrite d2 2 (tlv_value t), Some (tlv_encoded_length t)))))"

section \<open>Routing entries\<close>

record rip =
  rip_destination :: callsign
  rip_hop_count :: u8
  rip_target_time_ms :: u32
  rip_tlvs :: "tlv list"

definition PREFIX_LENGTH :: nat where "PREFIX_LENGTH = SHIFTED_LENGTH + 1 + 2"
definition HORIZON_UNITS :: u32 where "HORIZON_UNITS = 0xEA60"
definition HORIZON_MS :: u32 where "HORIZON_MS = HORIZON_UNITS * 10"
definition END_OF_PACKET :: u8 where "END_OF_PACKET = 0"

definition is_horizon :: "rip \<Rightarrow> bool" where
  "is_horizon r \<longleftrightarrow> rip_target_time_ms r \<ge> HORIZON_MS"

definition rip_alias_into :: "rip \<Rightarrow> bytes \<Rightarrow> (bytes \<times> nat) option" where
  "rip_alias_into r dst =
     map_option (\<lambda>t. as_alias t dst) (List.find (\<lambda>t. tlv_type t = ALIAS_TYPE) (rip_tlvs r))"

definition rip_encoded_length :: "rip \<Rightarrow> nat" where
  "rip_encoded_length r = fold (\<lambda>t n. n + tlv_encoded_length t) (rip_tlvs r) PREFIX_LENGTH + 1"

fun write_tlvs :: "tlv list \<Rightarrow> nat \<Rightarrow> bytes \<Rightarrow> nat writer" where
  "write_tlvs [] offset dst = Some (dst, Some offset)"
| "write_tlvs (t # ts) offset dst =
     try_write (sub_write offset (tlv_write t) dst) (\<lambda>d n. write_tlvs ts (offset + n) d)"

definition rip_write :: "rip \<Rightarrow> bytes \<Rightarrow> nat writer" where
  "rip_write r dst =
     (let units = rip_target_time_ms r div 10 in
      if units > 0xFFFF then Some (dst, None)
      else if length dst < rip_encoded_length r then Some (dst, None)
      else try_write (lift_write (write_shifted (rip_destination r)) dst) (\<lambda>d1 _.
           try_write (write_byte SHIFTED_LENGTH (rip_hop_count r) d1) (\<lambda>d2 _.
           try_write (write_byte (SHIFTED_LENGTH + 1) (ucast (drop_bit 8 units AND 0xFF)) d2) (\<lambda>d3 _.
           try_write (write_byte (SHIFTED_LENGTH + 2) (ucast (units AND 0xFF)) d3) (\<lambda>d4 _.
           try_write (write_tlvs (rip_tlvs r) PREFIX_LENGTH d4) (\<lambda>d5 offset.
           try_write (write_byte offset END_OF_PACKET d5) (\<lambda>d6 _.
           Some (d6, Some (offset + 1)))))))))"

text \<open>A fresh buffer of the announced length, filled and returned whole.\<close>

definition to_vec :: "nat \<Rightarrow> (bytes \<Rightarrow> nat writer) \<Rightarrow> bytes option panicking" where
  "to_vec n w =
     (case w (replicate n 0) of
        None \<Rightarrow> None
      | Some (buf, r) \<Rightarrow> Some (case r of None \<Rightarrow> None | Some _ \<Rightarrow> Some buf))"

definition rip_to_bytes :: "rip \<Rightarrow> bytes option panicking" where
  "rip_to_bytes r = to_vec (rip_encoded_length r) (rip_write r)"

text \<open>The walk over the fields, from \<open>offset\<close> on.\<close>

function parse_tlvs :: "bytes \<Rightarrow> nat \<Rightarrow> tlv list \<Rightarrow> (tlv list \<times> nat) option" where
  "parse_tlvs src offset tlvs =
     (if offset \<ge> length src then None
      else
        let ty = src ! offset in
        if ty = END_OF_PACKET \<and>
           \<not> (offset + 1 < length src \<and> offset + 2 + unat (src ! (offset + 1)) \<le> length src)
        then Some (tlvs, offset + 1)
        else if ty \<noteq> END_OF_PACKET \<and> offset + 1 \<ge> length src then None
        else
          let n = unat (src ! (offset + 1)); value_start = offset + 2 in
          if value_start + n > length src then None
          else parse_tlvs src (value_start + n)
                 (tlvs @ [\<lparr>tlv_type = ty, tlv_value = take n (drop value_start src)\<rparr>]))"
  by pat_completeness auto
termination
  by (relation "measure (\<lambda>(src, offset, _). length src - offset)") auto

declare parse_tlvs.simps [simp del]

definition rip_try_parse :: "bytes \<Rightarrow> (rip \<times> nat) option" where
  "rip_try_parse src =
     (if length src < PREFIX_LENGTH then None
      else case try_read_shifted src of None \<Rightarrow> None | Some dest \<Rightarrow>
        let hop = src ! SHIFTED_LENGTH;
            units = push_bit 8 (ucast (src ! (SHIFTED_LENGTH + 1))) OR ucast (src ! (SHIFTED_LENGTH + 2)) :: u32
        in case parse_tlvs src PREFIX_LENGTH [] of None \<Rightarrow> None | Some (tlvs, offset) \<Rightarrow>
          Some (\<lparr>rip_destination = dest, rip_hop_count = hop, rip_target_time_ms = units * 10,
                 rip_tlvs = tlvs\<rparr>, offset))"

section \<open>Frames\<close>

record rif =
  rif_rips :: "rip list"

definition RIF_SIGNATURE :: u8 where "RIF_SIGNATURE = 0xFF"

definition rif_encoded_length :: "rif \<Rightarrow> nat" where
  "rif_encoded_length f = fold (\<lambda>r n. n + rip_encoded_length r) (rif_rips f) 1"

fun write_rips :: "rip list \<Rightarrow> nat \<Rightarrow> bytes \<Rightarrow> nat writer" where
  "write_rips [] offset dst = Some (dst, Some offset)"
| "write_rips (r # rs) offset dst =
     try_write (sub_write offset (rip_write r) dst) (\<lambda>d n. write_rips rs (offset + n) d)"

definition rif_write :: "rif \<Rightarrow> bytes \<Rightarrow> nat writer" where
  "rif_write f dst =
     (if length dst < rif_encoded_length f then Some (dst, None)
      else try_write (write_byte 0 RIF_SIGNATURE dst) (\<lambda>d1 _. write_rips (rif_rips f) 1 d1))"

definition rif_to_bytes :: "rif \<Rightarrow> bytes option panicking" where
  "rif_to_bytes f = to_vec (rif_encoded_length f) (rif_write f)"

text \<open>
  The loop over the entries of the body. The guard against an entry that consumes nothing never
  takes effect (\<open>rip_try_parse_consumes\<close>); it is what makes the recursion end here too.
\<close>

function parse_rips :: "inp3_parse_options \<Rightarrow> bytes \<Rightarrow> nat \<Rightarrow> rip list \<Rightarrow> rip list option" where
  "parse_rips opts info offset rips =
     (if offset \<ge> length info then Some rips
      else case rip_try_parse (drop offset info) of
             Some (r, consumed) \<Rightarrow>
               if consumed = 0 then Some (rips @ [r])
               else parse_rips opts info (offset + consumed) (rips @ [r])
           | None \<Rightarrow> if \<not> allow_trailing_partial_rip opts then None else Some rips)"
  by pat_completeness auto
termination
  by (relation "measure (\<lambda>(_, info, offset, _). length info - offset)") auto

declare parse_rips.simps [simp del]

definition rif_try_parse_with :: "bytes \<Rightarrow> inp3_parse_options \<Rightarrow> rif option" where
  "rif_try_parse_with info opts =
     (if info = [] then None
      else if info ! 0 \<noteq> RIF_SIGNATURE then None
      else case parse_rips opts info 1 [] of None \<Rightarrow> None | Some rips \<Rightarrow>
        if rips = [] \<and> \<not> allow_empty_rip_list opts then None else Some \<lparr>rif_rips = rips\<rparr>)"

definition rif_try_parse :: "bytes \<Rightarrow> rif option" where
  "rif_try_parse info = rif_try_parse_with info RIF_LENIENT"

section \<open>Writing\<close>

definition tlv_octets :: "tlv \<Rightarrow> bytes" where
  "tlv_octets t = [tlv_type t, of_nat (length (tlv_value t))] @ tlv_value t"

definition rip_octets :: "rip \<Rightarrow> bytes" where
  "rip_octets r = shifted_octets (rip_destination r) @
     [rip_hop_count r, ucast (drop_bit 8 (rip_target_time_ms r div 10) AND 0xFF),
      ucast (rip_target_time_ms r div 10 AND 0xFF)] @
     concat (map tlv_octets (rip_tlvs r)) @ [END_OF_PACKET]"

definition rif_octets :: "rip list \<Rightarrow> bytes" where
  "rif_octets rs = RIF_SIGNATURE # concat (map rip_octets rs)"

definition encodable :: "rip \<Rightarrow> bool" where
  "encodable r \<longleftrightarrow> rip_target_time_ms r div 10 \<le> 0xFFFF \<and>
     list_all (\<lambda>t. length (tlv_value t) \<le> 255) (rip_tlvs r)"

lemma length_tlv_octets [simp]: "length (tlv_octets t) = tlv_encoded_length t"
  by (simp add: tlv_octets_def tlv_encoded_length_def)

lemma fold_add_lengths: "fold (\<lambda>x n. n + length (f x)) xs k = k + length (concat (map f xs))"
  by (induction xs arbitrary: k) simp_all

lemma length_rip_octets [simp]: "length (rip_octets r) = rip_encoded_length r"
  using fold_add_lengths [of tlv_octets "rip_tlvs r" PREFIX_LENGTH]
  by (simp add: rip_octets_def rip_encoded_length_def PREFIX_LENGTH_def)

lemma length_rif_octets [simp]: "length (rif_octets rs) = rif_encoded_length \<lparr>rif_rips = rs\<rparr>"
  using fold_add_lengths [of rip_octets rs 1] by (simp add: rif_octets_def rif_encoded_length_def)

lemma try_write_Some [simp]: "try_write (Some (d, Some a)) k = k d a"
  by (simp add: try_write_def)

lemma tlv_write_fills:
  assumes "length (tlv_value t) \<le> 255"
  shows "fills (tlv_write t) (tlv_octets t) (tlv_encoded_length t)"
proof -
  let ?n = "of_nat (length (tlv_value t)) :: byte"
  have "tlv_write t dst = Some (overwrite dst 0 (tlv_octets t), Some (tlv_encoded_length t))"
    if len: "tlv_encoded_length t \<le> length dst" for dst
  proof -
    have "write_byte 0 (tlv_type t) dst = Some (overwrite dst 0 [tlv_type t], Some ())"
      using len by (intro write_byte_eq) (auto simp: tlv_encoded_length_def)
    moreover have "write_byte 1 ?n (overwrite dst 0 [tlv_type t]) =
        Some (overwrite dst 0 [tlv_type t, ?n], Some ())"
      using len overwrite_overwrite [of 0 "[tlv_type t]" dst "[?n]"]
      by (simp add: write_byte_eq tlv_encoded_length_def)
    moreover have "overwrite (overwrite dst 0 [tlv_type t, ?n]) 2 (tlv_value t) = overwrite dst 0 (tlv_octets t)"
      using len overwrite_overwrite [of 0 "[tlv_type t, ?n]" dst "tlv_value t"]
      by (simp add: tlv_encoded_length_def tlv_octets_def numeral_2_eq_2)
    ultimately show ?thesis
      using assms len by (simp add: tlv_write_def)
  qed
  then show ?thesis
    using assms by (auto simp: fills_def tlv_write_def not_less)
qed

lemma write_tlvs_eq:
  assumes "list_all (\<lambda>t. length (tlv_value t) \<le> 255) ts" "offset = length bs"
    "length bs + length (concat (map tlv_octets ts)) \<le> length dst"
  shows "write_tlvs ts offset (overwrite dst 0 bs) =
    Some (overwrite dst 0 (bs @ concat (map tlv_octets ts)), Some (length (bs @ concat (map tlv_octets ts))))"
  using assms
proof (induction ts arbitrary: offset bs)
  case (Cons t ts)
  then show ?case
    using Cons.IH [of "length (bs @ tlv_octets t)" "bs @ tlv_octets t"]
    by (simp add: sub_write_next [OF tlv_write_fills] ac_simps)
qed simp

lemma rip_write_fills:
  assumes "encodable r"
  shows "fills (rip_write r) (rip_octets r) (rip_encoded_length r)"
proof -
  let ?units = "rip_target_time_ms r div 10"
  let ?p = "shifted_octets (rip_destination r) @ [rip_hop_count r, ucast (drop_bit 8 ?units AND 0xFF),
      ucast (?units AND 0xFF)]"
  have ok: "\<not> ?units > 0xFFFF" "list_all (\<lambda>t. length (tlv_value t) \<le> 255) (rip_tlvs r)"
    using assms by (auto simp: encodable_def)
  have oct: "rip_octets r = (?p @ concat (map tlv_octets (rip_tlvs r))) @ [END_OF_PACKET]"
    by (simp add: rip_octets_def)
  have "rip_write r dst = Some (overwrite dst 0 (rip_octets r), Some (rip_encoded_length r))"
    if len: "rip_encoded_length r \<le> length dst" for dst
  proof -
    have l: "length (?p @ concat (map tlv_octets (rip_tlvs r))) + 1 = rip_encoded_length r"
      "length (?p @ concat (map tlv_octets (rip_tlvs r))) + 1 \<le> length dst"
      using len length_rip_octets [of r] unfolding oct by simp_all
    have first: "try_write (lift_write (write_shifted (rip_destination r)) dst) k =
        k (overwrite dst 0 (shifted_octets (rip_destination r))) ()" for k :: "bytes \<Rightarrow> unit \<Rightarrow> nat writer"
      using fillsD(1) [OF write_shifted_fills, of "rip_destination r" dst] l(2) by (simp add: try_write_def)
    have tlvs: "write_tlvs (rip_tlvs r) PREFIX_LENGTH (overwrite dst 0 ?p) =
      Some (overwrite dst 0 (?p @ concat (map tlv_octets (rip_tlvs r))),
        Some (length (?p @ concat (map tlv_octets (rip_tlvs r)))))"
      using l(2) by (intro write_tlvs_eq [OF ok(2)]) (simp_all add: PREFIX_LENGTH_def)
    have eop: "try_write (write_byte (length (?p @ concat (map tlv_octets (rip_tlvs r)))) END_OF_PACKET
        (overwrite dst 0 (?p @ concat (map tlv_octets (rip_tlvs r))))) k = k (overwrite dst 0 (rip_octets r)) ()"
      for k :: "bytes \<Rightarrow> unit \<Rightarrow> nat writer"
      using l(2) unfolding oct by (intro write_byte_next) simp_all
    have "rip_write r dst = try_write (write_tlvs (rip_tlvs r) PREFIX_LENGTH (overwrite dst 0 ?p)) (\<lambda>d5 offset.
        try_write (write_byte offset END_OF_PACKET d5) (\<lambda>d6 _. Some (d6, Some (offset + 1))))"
      using ok(1) len l(2) by (simp add: rip_write_def first write_byte_next del: One_nat_def) (simp only: Let_def)
    then show ?thesis
      by (simp only: tlvs try_write_Some eop l(1))
  qed
  moreover have "rip_write r dst = Some (dst, None)" if "length dst < rip_encoded_length r" for dst
    using ok(1) that by (simp add: rip_write_def Let_def)
  ultimately show ?thesis
    by (simp add: fills_def not_less)
qed

lemma write_rips_eq:
  assumes "list_all encodable rs" "offset = length bs"
    "length bs + length (concat (map rip_octets rs)) \<le> length dst"
  shows "write_rips rs offset (overwrite dst 0 bs) =
    Some (overwrite dst 0 (bs @ concat (map rip_octets rs)), Some (length (bs @ concat (map rip_octets rs))))"
  using assms
proof (induction rs arbitrary: offset bs)
  case (Cons r rs)
  then show ?case
    using Cons.IH [of "length (bs @ rip_octets r)" "bs @ rip_octets r"]
    by (simp add: sub_write_next [OF rip_write_fills] ac_simps)
qed simp

lemma rif_write_fills:
  assumes "list_all encodable rs"
  shows "fills (rif_write \<lparr>rif_rips = rs\<rparr>) (rif_octets rs) (rif_encoded_length \<lparr>rif_rips = rs\<rparr>)"
proof -
  have "rif_write \<lparr>rif_rips = rs\<rparr> dst = Some (overwrite dst 0 (rif_octets rs), Some (rif_encoded_length \<lparr>rif_rips = rs\<rparr>))"
    if "rif_encoded_length \<lparr>rif_rips = rs\<rparr> \<le> length dst" for dst
  proof -
    have l: "length (rif_octets rs) \<le> length dst" "length (rif_octets rs) = rif_encoded_length \<lparr>rif_rips = rs\<rparr>"
      using that by simp_all
    then have "write_byte 0 RIF_SIGNATURE dst = Some (overwrite dst 0 [RIF_SIGNATURE], Some ())"
      by (intro write_byte_eq) (auto simp: rif_octets_def)
    moreover have "write_rips rs 1 (overwrite dst 0 [RIF_SIGNATURE]) =
        Some (overwrite dst 0 (rif_octets rs), Some (length (rif_octets rs)))"
      using write_rips_eq [OF assms, of 1 "[RIF_SIGNATURE]" dst] l(1) unfolding rif_octets_def by simp
    ultimately show ?thesis
      using that l(2) by (simp add: rif_write_def)
  qed
  then show ?thesis
    by (auto simp: fills_def rif_write_def not_less)
qed

lemma to_vec_fills:
  assumes "fills w bs n" "length bs = n"
  shows "to_vec n w = Some (Some bs)"
  using fillsD(1) [OF assms(1), of "replicate n 0"] assms(2) by (simp add: to_vec_def overwrite_def)

lemma rif_to_bytes_eq: "list_all encodable rs \<Longrightarrow> rif_to_bytes \<lparr>rif_rips = rs\<rparr> = Some (Some (rif_octets rs))"
  unfolding rif_to_bytes_def by (rule to_vec_fills [OF rif_write_fills]) simp_all

section \<open>Reading\<close>

text \<open>What may follow an entry: nothing, or bytes too few for the field that they would announce.\<close>

definition unambiguous :: "bytes \<Rightarrow> bool" where
  "unambiguous rest \<longleftrightarrow> (case rest of [] \<Rightarrow> True | b # _ \<Rightarrow> length rest \<le> unat b)"

definition rip_wf :: "rip \<Rightarrow> bool" where
  "rip_wf r \<longleftrightarrow> callsign_wf (rip_destination r) \<and> encodable r \<and> rip_target_time_ms r mod 10 = 0"

lemma parse_tlvs_append:
  assumes "list_all (\<lambda>t. length (tlv_value t) \<le> 255) ts"
  shows "parse_tlvs (pre @ concat (map tlv_octets ts) @ rest) (length pre) acc =
    parse_tlvs (pre @ concat (map tlv_octets ts) @ rest) (length pre + length (concat (map tlv_octets ts))) (acc @ ts)"
  using assms
proof (induction ts arbitrary: pre acc)
  case (Cons t ts)
  let ?src = "pre @ concat (map tlv_octets (t # ts)) @ rest"
  have n: "unat (of_nat (length (tlv_value t)) :: byte) = length (tlv_value t)"
    using Cons.prems by (simp add: unat_of_nat)
  define src where "src = ?src"
  have src: "src ! length pre = tlv_type t" "src ! (length pre + 1) = of_nat (length (tlv_value t))"
    "take (length (tlv_value t)) (drop (length pre + 2) src) = tlv_value t"
    "length pre + 2 + length (tlv_value t) \<le> length src"
    by (simp_all add: src_def tlv_octets_def nth_append)
  have "parse_tlvs src (length pre) acc = parse_tlvs src (length pre + 2 + length (tlv_value t)) (acc @ [t])"
    using src n by (subst parse_tlvs.simps) (cases t, simp add: Let_def)
  then have "parse_tlvs ?src (length pre) acc = parse_tlvs ?src (length pre + 2 + length (tlv_value t)) (acc @ [t])"
    by (simp only: src_def)
  also have "\<dots> = parse_tlvs ((pre @ tlv_octets t) @ concat (map tlv_octets ts) @ rest) (length (pre @ tlv_octets t)) (acc @ [t])"
    by (simp add: tlv_encoded_length_def)
  finally show ?case
    using Cons.IH [of "pre @ tlv_octets t" "acc @ [t]"] Cons.prems by (simp add: ac_simps)
qed simp

lemma parse_tlvs_extends:
  "parse_tlvs src offset acc = Some (ts, n) \<Longrightarrow> (\<exists>more'. ts = acc @ more') \<and> offset < n \<and> n \<le> length src"
proof (induction src offset acc rule: parse_tlvs.induct)
  case (1 src offset tlvs)
  then show ?case
    using "1.IH" by (fastforce simp: parse_tlvs.simps [of src offset tlvs] Let_def split: if_splits)
qed

text \<open>At a terminator: the entry ends there exactly when what follows is unambiguous.\<close>

lemma parse_tlvs_end:
  assumes "src = pre @ END_OF_PACKET # rest"
  shows "unambiguous rest \<Longrightarrow> parse_tlvs src (length pre) acc = Some (acc, length pre + 1)"
    and "\<not> unambiguous rest \<Longrightarrow> parse_tlvs src (length pre) acc = Some (ts, n) \<Longrightarrow> length acc < length ts"
proof -
  have at: "src ! length pre = END_OF_PACKET" "length src = length pre + 1 + length rest"
    by (simp_all add: assms)
  have len: "rest = b # rest' \<Longrightarrow> src ! (length pre + 1) = b" for b rest'
    by (simp add: assms nth_append)
  show "parse_tlvs src (length pre) acc = Some (acc, length pre + 1)" if "unambiguous rest"
    using that at len by (subst parse_tlvs.simps) (auto simp: Let_def unambiguous_def split: list.splits)
  show "length acc < length ts" if bad: "\<not> unambiguous rest" and some: "parse_tlvs src (length pre) acc = Some (ts, n)"
  proof -
    obtain b rest' where r: "rest = b # rest'" "unat b < length rest"
      using bad by (cases rest) (auto simp: unambiguous_def)
    have "parse_tlvs src (length pre) acc = parse_tlvs src (length pre + 2 + unat b)
        (acc @ [\<lparr>tlv_type = END_OF_PACKET, tlv_value = take (unat b) (drop (length pre + 2) src)\<rparr>])"
      using at len [OF r(1)] r by (subst parse_tlvs.simps) (simp add: Let_def)
    then obtain more' where "ts = (acc @ [\<lparr>tlv_type = END_OF_PACKET,
        tlv_value = take (unat b) (drop (length pre + 2) src)\<rparr>]) @ more'"
      using parse_tlvs_extends some by metis
    then show ?thesis
      by simp
  qed
qed

lemma units_split:
  fixes u :: u32
  assumes "u \<le> 0xFFFF"
  shows "push_bit 8 (ucast (ucast (drop_bit 8 u AND 0xFF) :: byte)) OR ucast (ucast (u AND 0xFF) :: byte) = u"
proof (rule bit_word_eqI)
  fix i
  assume "i < LENGTH(32)"
  have "u = take_bit 16 u"
    using assms by (simp add: take_bit_eq_mod word_unat_eq_iff unat_mod word_le_nat_alt)
  then have "bit u i \<Longrightarrow> i < 16"
    by (metis bit_take_bit_iff)
  then show "bit (push_bit 8 (ucast (ucast (drop_bit 8 u AND 0xFF) :: byte)) OR
      ucast (ucast (u AND 0xFF) :: byte) :: u32) i = bit u i"
    using \<open>i < LENGTH(32)\<close> by (auto simp: FF_mask bit_simps)
qed

lemma rip_parse_octets:
  assumes "rip_wf r"
  shows "unambiguous rest \<Longrightarrow> rip_try_parse (rip_octets r @ rest) = Some (r, rip_encoded_length r)"
    and "\<not> unambiguous rest \<Longrightarrow> rip_try_parse (rip_octets r @ rest) = Some (r', n) \<Longrightarrow> r' \<noteq> r"
proof -
  let ?units = "rip_target_time_ms r div 10"
  define pre where "pre = shifted_octets (rip_destination r) @ [rip_hop_count r,
      ucast (drop_bit 8 ?units AND 0xFF), ucast (?units AND 0xFF)]"
  define src where "src = rip_octets r @ rest"
  have wf: "callsign_wf (rip_destination r)" "?units \<le> 0xFFFF" "rip_target_time_ms r mod 10 = 0"
    "list_all (\<lambda>t. length (tlv_value t) \<le> 255) (rip_tlvs r)"
    using assms by (auto simp: rip_wf_def encodable_def)
  have src: "src = pre @ concat (map tlv_octets (rip_tlvs r)) @ END_OF_PACKET # rest"
    by (simp add: src_def rip_octets_def pre_def)
  have len: "length pre = PREFIX_LENGTH" "\<not> length src < PREFIX_LENGTH"
    by (simp_all add: pre_def PREFIX_LENGTH_def src)
  have dest: "try_read_shifted src = Some (rip_destination r)"
    using shifted.dec_enc [OF wf(1)] by (simp add: src pre_def)
  have hop: "src ! SHIFTED_LENGTH = rip_hop_count r"
    "src ! (SHIFTED_LENGTH + 1) = ucast (drop_bit 8 ?units AND 0xFF)"
    "src ! (SHIFTED_LENGTH + 2) = ucast (?units AND 0xFF)"
    by (simp_all add: src pre_def nth_append)
  have time: "?units * 10 = rip_target_time_ms r"
    using div_mult_mod_eq [of "rip_target_time_ms r" 10] wf(3) by simp
  have parsed: "rip_try_parse src = (case parse_tlvs src PREFIX_LENGTH [] of None \<Rightarrow> None
      | Some (ts, off) \<Rightarrow> Some (r\<lparr>rip_tlvs := ts\<rparr>, off))"
    using dest hop time len(2) units_split [OF wf(2)] by (cases r) (simp add: rip_try_parse_def Let_def split: option.splits)
  let ?pre' = "pre @ concat (map tlv_octets (rip_tlvs r))"
  have walk: "parse_tlvs src PREFIX_LENGTH [] = parse_tlvs src (length ?pre') (rip_tlvs r)"
    using parse_tlvs_append [OF wf(4), of pre "END_OF_PACKET # rest" "[]"] by (simp add: src len(1))
  have src': "src = ?pre' @ END_OF_PACKET # rest"
    by (simp add: src)
  have n: "length ?pre' + 1 = rip_encoded_length r"
    using length_rip_octets [of r] by (simp add: rip_octets_def pre_def)
  show "rip_try_parse (rip_octets r @ rest) = Some (r, rip_encoded_length r)" if "unambiguous rest"
    using parsed walk parse_tlvs_end(1) [OF src' that, of "rip_tlvs r"] n by (simp add: src_def)
  show "r' \<noteq> r" if bad: "\<not> unambiguous rest" and some: "rip_try_parse (rip_octets r @ rest) = Some (r', n)"
  proof -
    obtain ts where "parse_tlvs src (length ?pre') (rip_tlvs r) = Some (ts, n)" "r' = r\<lparr>rip_tlvs := ts\<rparr>"
      using parsed walk some by (auto simp: src_def split: option.splits)
    then show ?thesis
      using parse_tlvs_end(2) [OF src' bad, of "rip_tlvs r" ts n]
      by (metis less_irrefl rip.select_convs(4) rip.surjective rip.update_convs(4))
  qed
qed

lemma rip_try_parse_consumes:
  assumes "rip_try_parse src = Some (r, n)"
  shows "0 < n \<and> n \<le> length src"
  using assms parse_tlvs_extends by (fastforce simp: rip_try_parse_def Let_def split: if_splits option.splits prod.splits)

lemma parse_rips_extends: "parse_rips opts info offset acc = Some res \<Longrightarrow> \<exists>more'. res = acc @ more'"
proof (induction opts info offset acc rule: parse_rips.induct)
  case (1 opts info offset rips)
  show ?case
    using "1.prems" "1.IH" by (fastforce simp: parse_rips.simps [of opts info offset rips] split: if_splits option.splits)
qed

fun separable :: "rip list \<Rightarrow> bool" where
  "separable [] \<longleftrightarrow> True"
| "separable (r # rs) \<longleftrightarrow> unambiguous (concat (map rip_octets rs)) \<and> separable rs"

lemma parse_rips_octets:
  assumes "list_all rip_wf rs" "info = pre @ concat (map rip_octets rs)"
  shows "parse_rips opts info (length pre) acc = Some (acc @ rs) \<longleftrightarrow> separable rs"
  using assms
proof (induction rs arbitrary: pre acc)
  case Nil
  then show ?case
    by (simp add: parse_rips.simps)
next
  case (Cons r rs)
  let ?rest = "concat (map rip_octets rs)"
  have wf: "rip_wf r"
    using Cons.prems by simp
  have "rip_encoded_length r \<noteq> 0"
    by (simp add: rip_encoded_length_def)
  then have info: "drop (length pre) info = rip_octets r @ ?rest" "length pre < length info"
    using Cons.prems by simp_all
  have step: "parse_rips opts info (length pre) acc =
      (case rip_try_parse (rip_octets r @ ?rest) of
         Some (r', n) \<Rightarrow> parse_rips opts info (length pre + n) (acc @ [r'])
       | None \<Rightarrow> if \<not> allow_trailing_partial_rip opts then None else Some acc)"
    using info rip_try_parse_consumes by (subst parse_rips.simps) (auto split: option.splits)
  show ?case
  proof (cases "unambiguous ?rest")
    case True
    then have "parse_rips opts info (length pre) acc = parse_rips opts info (length (pre @ rip_octets r)) (acc @ [r])"
      using step rip_parse_octets(1) [OF wf] by simp
    moreover have "parse_rips opts info (length (pre @ rip_octets r)) (acc @ [r]) = Some ((acc @ [r]) @ rs)
        \<longleftrightarrow> separable rs"
      using Cons.prems by (intro Cons.IH) simp_all
    ultimately show ?thesis
      using True by simp
  next
    case False
    have "parse_rips opts info (length pre) acc \<noteq> Some (acc @ r # rs)"
    proof
      assume *: "parse_rips opts info (length pre) acc = Some (acc @ r # rs)"
      then obtain r' n where p: "rip_try_parse (rip_octets r @ ?rest) = Some (r', n)"
        "parse_rips opts info (length pre + n) (acc @ [r']) = Some (acc @ r # rs)"
        using step by (auto split: option.splits if_splits)
      then have "r' = r"
        using parse_rips_extends [OF p(2)] by auto
      then show False
        using rip_parse_octets(2) [OF wf False p(1)] by simp
    qed
    then show ?thesis
      using False by simp
  qed
qed

lemma rif_parse_octets:
  assumes "list_all rip_wf rs" "rs \<noteq> [] \<or> allow_empty_rip_list opts"
  shows "rif_try_parse_with (rif_octets rs) opts = Some \<lparr>rif_rips = rs\<rparr> \<longleftrightarrow> separable rs"
proof -
  have "parse_rips opts (rif_octets rs) (length [RIF_SIGNATURE]) [] = Some ([] @ rs) \<longleftrightarrow> separable rs"
    by (rule parse_rips_octets [OF assms(1)]) (simp add: rif_octets_def)
  then show ?thesis
    using assms(2) by (auto simp: rif_try_parse_with_def rif_octets_def split: option.splits)
qed

lemma separable_nth:
  "separable rs \<longleftrightarrow> (\<forall>k. Suc k < length rs \<longrightarrow>
     length (concat (map rip_octets (drop (Suc k) rs))) \<le> unat (hd (rip_octets (rs ! Suc k))))"
proof (induction rs)
  case (Cons r rs)
  have hd: "hd (concat (map rip_octets (r' # rs'))) = hd (rip_octets r')" for r' rs'
    by (simp add: rip_octets_def shifted_octets_def address_octets_def MAX_BASE_LEN_def Let_def upt_rec)
  have first: "unambiguous (concat (map rip_octets rs)) \<longleftrightarrow>
      (rs \<noteq> [] \<longrightarrow> length (concat (map rip_octets rs)) \<le> unat (hd (rip_octets (rs ! 0))))"
  proof (cases rs)
    case (Cons r' rs')
    then have "concat (map rip_octets rs) \<noteq> []"
      by (simp add: rip_octets_def)
    then obtain b bs where "concat (map rip_octets rs) = b # bs"
      by (cases "concat (map rip_octets rs)") auto
    then show ?thesis
      using Cons hd [of r' rs'] by (simp add: unambiguous_def)
  qed (simp add: unambiguous_def)
  have shift: "(\<forall>k. Suc k < length (r # rs) \<longrightarrow> Q k) \<longleftrightarrow> (rs \<noteq> [] \<longrightarrow> Q 0) \<and> (\<forall>k. Suc k < length rs \<longrightarrow> Q (Suc k))" for Q
    by (metis (no_types, lifting) Suc_less_eq length_Cons length_greater_0_conv not0_implies_Suc)
  show ?case
    unfolding separable.simps first shift Cons.IH by simp
qed simp

section \<open>Properties\<close>

text \<open>
  Encoding a frame of routing entries never panics and gives exactly the announced number of
  bytes. Reading them back gives the same frame if and only if, for every entry after the first, the
  bytes from that entry to the end of the frame are no more than the value of its first octet: that
  is when the terminator before it cannot be taken for the start of an alias field.
\<close>

theorem rif_roundtrip:
  assumes "list_all rip_wf rs" "rs \<noteq> [] \<or> allow_empty_rip_list opts"
  shows "\<exists>out. rif_to_bytes \<lparr>rif_rips = rs\<rparr> = Some (Some out) \<and>
    length out = rif_encoded_length \<lparr>rif_rips = rs\<rparr> \<and>
    (rif_try_parse_with out opts = Some \<lparr>rif_rips = rs\<rparr> \<longleftrightarrow>
       (\<forall>k. Suc k < length rs \<longrightarrow>
          sum_list (map rip_encoded_length (drop (Suc k) rs)) \<le> unat (hd (shifted_octets (rip_destination (rs ! Suc k))))))"
proof -
  have enc: "list_all encodable rs"
    using assms(1) by (auto simp: list_all_iff rip_wf_def)
  have hd: "hd (rip_octets r) = hd (shifted_octets (rip_destination r))" for r
    using length_shifted_octets [of "rip_destination r"]
    by (cases "shifted_octets (rip_destination r)") (auto simp: rip_octets_def SHIFTED_LENGTH_def ADDRESS_LEN_def)
  have len: "length (concat (map rip_octets xs)) = sum_list (map rip_encoded_length xs)" for xs
    by (simp add: length_concat comp_def)
  show ?thesis
    using rif_to_bytes_eq [OF enc] rif_parse_octets [OF assms] length_rif_octets [of rs]
    by (simp add: separable_nth hd len)
qed

definition sample_rip :: "bytes \<Rightarrow> u32 \<Rightarrow> rip" where
  "sample_rip b t = \<lparr>rip_destination = sample b, rip_hop_count = 1, rip_target_time_ms = t, rip_tlvs = []\<rparr>"

lemma sample_rip_wf: "rip_wf (sample_rip [71, 66, 55] 40)"
  by (auto simp: sample_rip_def rip_wf_def encodable_def sample_def callsign_wf_def MAX_BASE_LEN_def is_base_byte_def
      ascii_defs intro: exI [of _ "[71, 66, 55]"])

lemma shifted_first:
  assumes "base c = b # bs" "callsign_wf c"
  shows "unat (hd (shifted_octets c)) = 2 * unat b" "48 \<le> unat b" "unat b \<le> 90"
proof -
  have b: "is_base_byte b"
    using callsign_wfE [OF assms(2)] assms(1) by (metis list.pred_inject(2))
  then show b: "48 \<le> unat b" "unat b \<le> 90"
    by (auto simp: is_base_byte_def ascii_defs word_le_nat_alt)
  have "hd (shifted_octets c) = push_bit 1 b"
    using assms by (simp add: shifted_octets_def address_octets_def MAX_BASE_LEN_def Let_def upt_rec)
  then show "unat (hd (shifted_octets c)) = 2 * unat b"
    using b by (simp add: push_bit_eq_mult unat_word_ariths)
qed

theorem rif_roundtrip_witness:
  "\<exists>out. rif_to_bytes \<lparr>rif_rips = replicate 2 (sample_rip [71, 66, 55] 40)\<rparr> = Some (Some out) \<and> length out = 23 \<and>
    rif_try_parse out = Some \<lparr>rif_rips = replicate 2 (sample_rip [71, 66, 55] 40)\<rparr>"
proof -
  let ?r = "sample_rip [71, 66, 55] 40"
  have "base (sample [71, 66, 55]) = [71, 66, 55]" "callsign_wf (sample [71, 66, 55])"
    using sample_rip_wf by (simp_all add: rip_wf_def sample_rip_def sample_def base_def padded_def)
  then have "unat (hd (shifted_octets (rip_destination ?r))) = 142"
    using shifted_first(1) by (simp add: sample_rip_def)
  moreover have "rip_encoded_length ?r = 11" "rif_encoded_length \<lparr>rif_rips = replicate 2 ?r\<rparr> = 23"
    by (simp_all add: rif_encoded_length_def rip_encoded_length_def sample_rip_def PREFIX_LENGTH_def wire_lengths
        numeral_2_eq_2)
  ultimately show ?thesis
    using rif_roundtrip [of "replicate 2 ?r" RIF_LENIENT] sample_rip_wf
    by (auto simp: rif_try_parse_def RIF_LENIENT_def list_all_iff numeral_2_eq_2 less_Suc_eq)
qed

text \<open>
  What that means for the frames that the node builds, whose entries carry no fields and name
  stations with a non-empty callsign. Up to nine entries always survive the trip; eighteen or more never
  do: the receiver takes the terminator of an entry and the callsign after it for an alias.
\<close>

theorem rif_capacity:
  assumes "list_all rip_wf rs" "\<forall>r \<in> set rs. rip_tlvs r = [] \<and> base (rip_destination r) \<noteq> []" "rs \<noteq> []"
  shows "\<exists>out. rif_to_bytes \<lparr>rif_rips = rs\<rparr> = Some (Some out) \<and> length out = 1 + 11 * length rs \<and>
    (length rs \<le> 9 \<longrightarrow> rif_try_parse_with out opts = Some \<lparr>rif_rips = rs\<rparr>) \<and>
    (18 \<le> length rs \<longrightarrow> rif_try_parse_with out opts \<noteq> Some \<lparr>rif_rips = rs\<rparr>)"
proof -
  have enc: "list_all encodable rs"
    using assms(1) by (auto simp: list_all_iff rip_wf_def)
  have eleven: "rip_tlvs r = [] \<Longrightarrow> rip_encoded_length r = 11" for r
    by (simp add: rip_encoded_length_def PREFIX_LENGTH_def wire_lengths)
  have len: "length (concat (map rip_octets xs)) = 11 * length xs" if "set xs \<subseteq> set rs" for xs
    using that assms(2) by (induction xs) (auto simp: eleven)
  have bounds: "96 \<le> unat (hd (rip_octets r)) \<and> unat (hd (rip_octets r)) \<le> 180" if r: "r \<in> set rs" for r
  proof -
    have hd: "hd (rip_octets r) = hd (shifted_octets (rip_destination r))"
      using length_shifted_octets [of "rip_destination r"]
      by (cases "shifted_octets (rip_destination r)") (auto simp: rip_octets_def SHIFTED_LENGTH_def ADDRESS_LEN_def)
    obtain b bs where "base (rip_destination r) = b # bs" "callsign_wf (rip_destination r)"
      using assms(1,2) r by (metis list.exhaust list_all_iff rip_wf_def)
    then show ?thesis
      using shifted_first [of "rip_destination r" b bs] by (simp add: hd)
  qed
  have sep: "separable rs \<longleftrightarrow> (\<forall>k. Suc k < length rs \<longrightarrow> 11 * (length rs - Suc k) \<le> unat (hd (rip_octets (rs ! Suc k))))"
    by (simp add: separable_nth len set_drop_subset)
  have "separable rs" if "length rs \<le> 9"
    unfolding sep
  proof (intro allI impI)
    fix k
    assume "Suc k < length rs"
    then show "11 * (length rs - Suc k) \<le> unat (hd (rip_octets (rs ! Suc k)))"
      using that bounds [of "rs ! Suc k"] nth_mem [of "Suc k" rs] by linarith
  qed
  moreover have "\<not> separable rs" if "18 \<le> length rs"
  proof
    assume "separable rs"
    then have "11 * (length rs - Suc 0) \<le> unat (hd (rip_octets (rs ! Suc 0)))"
      using that unfolding sep by simp
    moreover have "unat (hd (rip_octets (rs ! Suc 0))) \<le> 180"
      using that bounds [of "rs ! Suc 0"] by simp
    ultimately show False
      using that by linarith
  qed
  moreover have "length (rif_octets rs) = 1 + 11 * length rs"
    using len [of rs] by (simp add: rif_octets_def del: length_rif_octets)
  ultimately show ?thesis
    using rif_to_bytes_eq [OF enc] rif_parse_octets [OF assms(1), of opts] assms(3) by auto
qed

theorem rif_capacity_witness:
  "\<exists>out. rif_to_bytes \<lparr>rif_rips = replicate 18 (sample_rip [71, 66, 55] 40)\<rparr> = Some (Some out) \<and>
    rif_try_parse out \<noteq> Some \<lparr>rif_rips = replicate 18 (sample_rip [71, 66, 55] 40)\<rparr>"
proof -
  have "list_all rip_wf (replicate 18 (sample_rip [71, 66, 55] 40))"
    using sample_rip_wf by (simp add: list_all_iff)
  moreover have "\<forall>r \<in> set (replicate 18 (sample_rip [71, 66, 55] 40)). rip_tlvs r = [] \<and> base (rip_destination r) \<noteq> []"
    by (simp add: sample_rip_def sample_def base_def padded_def)
  ultimately show ?thesis
    using rif_capacity [of "replicate 18 (sample_rip [71, 66, 55] 40)" RIF_LENIENT]
    by (auto simp: rif_try_parse_def)
qed

end
