(* ===== verification/Selection_Sort.thy ===== *)
theory Selection_Sort
  imports Prelude "HOL-Library.Multiset"
begin

text \<open>
  The in-place selection sort of the routing table (\<open>selection_sort_by\<close> in
  \<open>netrom/routing/table.rs\<close>), shown to be the library's \<open>sort_key\<close> for every comparison that comes
  from a key.
\<close>

section \<open>The routine\<close>

definition min_from :: "('a \<Rightarrow> 'a \<Rightarrow> bool) \<Rightarrow> 'a list \<Rightarrow> nat \<Rightarrow> nat" where
  "min_from lt items i =
     fold (\<lambda>j m. if lt (items ! j) (items ! m) then j else m) [Suc i..<length items] i"

definition swap :: "'a list \<Rightarrow> nat \<Rightarrow> nat \<Rightarrow> 'a list" where
  "swap items i j = items[i := items ! j, j := items ! i]"

definition selection_sort_by :: "('a \<Rightarrow> 'a \<Rightarrow> bool) \<Rightarrow> 'a list \<Rightarrow> 'a list" where
  "selection_sort_by lt items =
     fold (\<lambda>i xs. swap xs i (min_from lt xs i)) [0..<length items] items"

section \<open>One pass finds a minimum of the rest\<close>

lemma min_fold:
  fixes f :: "'a \<Rightarrow> 'b::linorder"
  assumes "m < length xs" "\<And>j. j \<in> set js \<Longrightarrow> j < length xs"
  shows "fold (\<lambda>j m. if f (xs ! j) < f (xs ! m) then j else m) js m \<in> insert m (set js) \<and>
    (\<forall>j \<in> insert m (set js).
      f (xs ! fold (\<lambda>j m. if f (xs ! j) < f (xs ! m) then j else m) js m) \<le> f (xs ! j))"
  using assms
proof (induction js arbitrary: m)
  case (Cons j js)
  show ?case
  proof (cases "f (xs ! j) < f (xs ! m)")
    case True
    then show ?thesis
      using Cons.IH [of j] Cons.prems by (auto dest: order.trans less_imp_le)
  next
    case False
    then show ?thesis
      using Cons.IH [of m] Cons.prems by (auto simp: not_less intro: order.trans)
  qed
qed simp

lemma min_from_spec:
  fixes f :: "'a \<Rightarrow> 'b::linorder"
  assumes "i < length xs"
  defines "k \<equiv> min_from (\<lambda>a b. f a < f b) xs i"
  shows "i \<le> k" "k < length xs" "\<And>j. i \<le> j \<Longrightarrow> j < length xs \<Longrightarrow> f (xs ! k) \<le> f (xs ! j)"
proof -
  have "k \<in> insert i {Suc i..<length xs} \<and> (\<forall>j \<in> insert i {Suc i..<length xs}. f (xs ! k) \<le> f (xs ! j))"
    using min_fold [of i xs "[Suc i..<length xs]" f] assms(1) by (simp add: k_def min_from_def)
  then show "i \<le> k" "k < length xs" "\<And>j. i \<le> j \<Longrightarrow> j < length xs \<Longrightarrow> f (xs ! k) \<le> f (xs ! j)"
    using assms(1) by (auto simp: le_eq_less_or_eq Suc_le_eq)
qed

lemma length_swap [simp]: "length (swap xs i j) = length xs"
  by (simp add: swap_def)

lemma mset_swap' [simp]: "i < length xs \<Longrightarrow> j < length xs \<Longrightarrow> mset (swap xs i j) = mset xs"
  by (cases "i = j") (simp_all add: swap_def mset_swap)

lemma nth_swap: "i < length xs \<Longrightarrow> j < length xs \<Longrightarrow> k < length xs \<Longrightarrow>
    swap xs i j ! k = (if k = i then xs ! j else if k = j then xs ! i else xs ! k)"
  by (auto simp: swap_def nth_list_update)

section \<open>The sorted prefix grows\<close>

definition sorted_prefix :: "('a \<Rightarrow> 'b::linorder) \<Rightarrow> nat \<Rightarrow> 'a list \<Rightarrow> bool" where
  "sorted_prefix f n xs \<longleftrightarrow>
     (\<forall>i j. i < n \<longrightarrow> i \<le> j \<longrightarrow> j < length xs \<longrightarrow> f (xs ! i) \<le> f (xs ! j))"

lemma selection_step:
  fixes f :: "'a \<Rightarrow> 'b::linorder"
  assumes "sorted_prefix f n xs" "n < length xs"
  shows "sorted_prefix f (Suc n) (swap xs n (min_from (\<lambda>a b. f a < f b) xs n))"
proof -
  note m = min_from_spec [OF assms(2), where f = f]
  show ?thesis
    unfolding sorted_prefix_def
  proof (intro allI impI)
    fix i j
    assume ij: "i < Suc n" "i \<le> j" "j < length (swap xs n (min_from (\<lambda>a b. f a < f b) xs n))"
    have "f (xs ! i) \<le> f (xs ! k)" if "i < n" "i \<le> k" "k < length xs" for k
      using assms(1) that by (simp add: sorted_prefix_def)
    then show "f (swap xs n (min_from (\<lambda>a b. f a < f b) xs n) ! i)
        \<le> f (swap xs n (min_from (\<lambda>a b. f a < f b) xs n) ! j)"
      using ij m assms(2) by (cases "i = n") (auto simp: nth_swap)
  qed
qed

lemma selection_fold:
  fixes f :: "'a \<Rightarrow> 'b::linorder"
  assumes "n \<le> length xs"
  shows "length (fold (\<lambda>i ys. swap ys i (min_from (\<lambda>a b. f a < f b) ys i)) [0..<n] xs) = length xs \<and>
    mset (fold (\<lambda>i ys. swap ys i (min_from (\<lambda>a b. f a < f b) ys i)) [0..<n] xs) = mset xs \<and>
    sorted_prefix f n (fold (\<lambda>i ys. swap ys i (min_from (\<lambda>a b. f a < f b) ys i)) [0..<n] xs)"
  using assms
proof (induction n)
  case 0
  then show ?case
    by (simp add: sorted_prefix_def)
next
  case (Suc n)
  let ?ys = "fold (\<lambda>i ys. swap ys i (min_from (\<lambda>a b. f a < f b) ys i)) [0..<n] xs"
  have ys: "length ?ys = length xs" "mset ?ys = mset xs" "sorted_prefix f n ?ys" "n < length ?ys"
    using Suc by auto
  then show ?case
    using selection_step [OF ys(3,4)] min_from_spec(2) [OF ys(4), where f = f] by simp
qed

lemma selection_sort_sorted:
  fixes f :: "'a \<Rightarrow> 'b::linorder"
  shows "mset (selection_sort_by (\<lambda>a b. f a < f b) xs) = mset xs"
    and "sorted (map f (selection_sort_by (\<lambda>a b. f a < f b) xs))"
proof -
  let ?ys = "selection_sort_by (\<lambda>a b. f a < f b) xs"
  have ys: "length ?ys = length xs" "mset ?ys = mset xs" "sorted_prefix f (length xs) ?ys"
    using selection_fold [of "length xs" xs f] by (simp_all add: selection_sort_by_def)
  show "mset ?ys = mset xs"
    by (rule ys(2))
  show "sorted (map f ?ys)"
    using ys(1,3) by (auto simp: sorted_iff_nth_mono sorted_prefix_def)
qed

lemma sorted_filter_unique:
  assumes "distinct (map f xs)" "k \<in> set xs"
  shows "filter (\<lambda>x. f k = f x) xs = [k]"
  using assms by (induction xs) (auto simp: filter_empty_conv image_iff)

lemma selection_sort_is_sort_key:
  fixes f :: "'a \<Rightarrow> 'b::linorder"
  assumes "distinct (map f xs)"
  shows "selection_sort_by (\<lambda>a b. f a < f b) xs = sort_key f xs"
proof -
  let ?ys = "selection_sort_by (\<lambda>a b. f a < f b) xs"
  have m: "mset ?ys = mset xs"
    by (rule selection_sort_sorted(1))
  then have d: "distinct (map f ?ys)"
    using assms by (metis mset_eq_imp_distinct_iff mset_map)
  show ?thesis
  proof (rule properties_for_sort_key [symmetric])
    show "mset ?ys = mset xs"
      by (rule m)
    show "sorted (map f ?ys)"
      by (rule selection_sort_sorted(2))
    fix k
    assume "k \<in> set ?ys"
    then show "filter (\<lambda>x. f k = f x) ?ys = filter (\<lambda>x. f k = f x) xs"
      using sorted_filter_unique [OF d] sorted_filter_unique [OF assms] m by (metis mset_eq_setD)
  qed
qed

end
