(* ===== verification/Netrom_Table.thy ===== *)
theory Netrom_Table
  imports Netrom_Nodes Netrom_Rif Slots Selection_Sort "HOL-Library.Product_Lexorder" "HOL-Library.List_Lexorder"
begin

text \<open>
  The learned NET/ROM routing table (\<open>netrom/routing/\<close>: \<open>quality.rs\<close>, \<open>options.rs\<close>, \<open>model.rs\<close>,
  \<open>table.rs\<close>): its state and every operation of the quality space. The const generics of the Rust
  type are the lengths of the two slot arrays and the field \<open>rt_max_routes\<close>. The abstraction is
  \<open>route_of\<close>, the route kept for a destination via a neighbour. The operations that learn and advertise
  measured times are in \<open>Netrom_Inp3\<close>, the snapshots in \<open>Netrom_Views\<close>.
\<close>

section \<open>Quality arithmetic (\<open>quality.rs\<close>)\<close>

definition quality_MAX :: u8 where "quality_MAX = 255"
definition quality_MIN :: u8 where "quality_MIN = 0"

definition combine :: "u8 \<Rightarrow> u8 \<Rightarrow> u8" where
  "combine broadcast_quality path_quality =
     (let combined = (ucast broadcast_quality * ucast path_quality + 128 :: u32) div 256
      in ucast (min combined (ucast quality_MAX)))"

section \<open>State\<close>

record routing_options =
  ro_default_neighbour_quality :: u8
  ro_min_quality :: u8
  ro_obsolete_initial :: u8
  ro_obsolete_minimum :: u8

definition ROUTING_DEFAULT :: routing_options where
  "ROUTING_DEFAULT = \<lparr>ro_default_neighbour_quality = 192, ro_min_quality = 0,
     ro_obsolete_initial = 6, ro_obsolete_minimum = 4\<rparr>"

record inp3_metric =
  im_target_time_ms :: u32
  im_hop_count :: u8

record route_state =
  rs_neighbour :: callsign
  rs_quality :: u8
  rs_obsolescence :: u8
  rs_inp3 :: "inp3_metric option"

record dest_state =
  ds_destination :: callsign
  ds_alias :: node_alias
  ds_routes :: "route_state option list"

text \<open>A port id is opaque text; its significant bytes are kept.\<close>

type_synonym port_id = bytes

record neighbour_state =
  ns_neighbour :: callsign
  ns_alias :: node_alias
  ns_port_id :: port_id
  ns_path_quality :: u8
  ns_last_heard :: u64

record table =
  rt_options :: routing_options
  rt_destinations :: "dest_state option list"
  rt_neighbours :: "neighbour_state option list"
  rt_recently_withdrawn :: "callsign list"
  rt_max_routes :: nat

definition table_new :: "nat \<Rightarrow> nat \<Rightarrow> nat \<Rightarrow> routing_options \<Rightarrow> table" where
  "table_new max_dests max_routes max_nbrs options =
     \<lparr>rt_options = options, rt_destinations = replicate max_dests None,
      rt_neighbours = replicate max_nbrs None, rt_recently_withdrawn = [], rt_max_routes = max_routes\<rparr>"

definition destination_count :: "table \<Rightarrow> nat" where
  "destination_count t = length (slot_items (rt_destinations t))"

definition neighbour_count :: "table \<Rightarrow> nat" where
  "neighbour_count t = length (slot_items (rt_neighbours t))"

definition destination_index :: "table \<Rightarrow> callsign \<Rightarrow> nat option" where
  "destination_index t call = slot_position (\<lambda>d. ds_destination d = call) (rt_destinations t)"

definition neighbour_index :: "table \<Rightarrow> callsign \<Rightarrow> nat option" where
  "neighbour_index t call = slot_position (\<lambda>n. ns_neighbour n = call) (rt_neighbours t)"

definition route_index :: "dest_state \<Rightarrow> callsign \<Rightarrow> nat option" where
  "route_index d neighbour = slot_position (\<lambda>r. rs_neighbour r = neighbour) (ds_routes d)"

definition route_count :: "dest_state \<Rightarrow> nat" where
  "route_count d = length (slot_items (ds_routes d))"

section \<open>Route ordering\<close>

text \<open>
  \<open>base().cmp\<close> is the lexicographic order of the bytes. A callsign's rank in every ordering of the
  table is its base, then its SSID.
\<close>

definition callsign_key :: "callsign \<Rightarrow> bytes \<times> u8" where
  "callsign_key c = (base c, ssid c)"

definition callsign_lt :: "callsign \<Rightarrow> callsign \<Rightarrow> bool" where
  "callsign_lt a b \<longleftrightarrow> (base a < base b \<or> (base a = base b \<and> ssid a < ssid b))"

definition is_better :: "route_state \<Rightarrow> route_state \<Rightarrow> bool" where
  "is_better a b \<longleftrightarrow> rs_quality b < rs_quality a \<or>
     (rs_quality a = rs_quality b \<and> callsign_lt (rs_neighbour a) (rs_neighbour b))"

definition is_worse :: "route_state \<Rightarrow> route_state \<Rightarrow> bool" where
  "is_worse a b = is_better b a"

text \<open>The scans of \<open>worst_route_index\<close> and \<open>best_route\<close>, which keep the first of equals.\<close>

fun worst_scan :: "nat \<Rightarrow> (nat \<times> route_state) option \<Rightarrow> route_state option list \<Rightarrow> (nat \<times> route_state) option" where
  "worst_scan i worst [] = worst"
| "worst_scan i worst (None # ss) = worst_scan (Suc i) worst ss"
| "worst_scan i worst (Some rt # ss) =
     worst_scan (Suc i)
       (case worst of None \<Rightarrow> Some (i, rt)
        | Some (j, w) \<Rightarrow> if is_worse rt w then Some (i, rt) else Some (j, w)) ss"

definition worst_route_index :: "dest_state \<Rightarrow> nat option" where
  "worst_route_index d = map_option fst (worst_scan 0 None (ds_routes d))"

definition best_route :: "dest_state \<Rightarrow> route_state option" where
  "best_route d = fold (\<lambda>rt best. case best of None \<Rightarrow> Some rt
      | Some b \<Rightarrow> if is_better rt b then Some rt else Some b) (slot_items (ds_routes d)) None"

section \<open>Learning a route\<close>

definition set_destination :: "table \<Rightarrow> nat \<Rightarrow> dest_state option \<Rightarrow> table" where
  "set_destination t i s = t\<lparr>rt_destinations := (rt_destinations t)[i := s]\<rparr>"

text \<open>
  The tail of \<open>upsert_route\<close>: update in place, take a free slot, or evict the worst route when the new
  one is better.
\<close>

definition keep_route :: "dest_state \<Rightarrow> route_state \<Rightarrow> dest_state" where
  "keep_route d new_route =
     (case route_index d (rs_neighbour new_route) of
        Some i \<Rightarrow> d\<lparr>ds_routes := (ds_routes d)[i := Some new_route]\<rparr>
      | None \<Rightarrow>
          case slot_free (ds_routes d) of
            Some i \<Rightarrow> d\<lparr>ds_routes := (ds_routes d)[i := Some new_route]\<rparr>
          | None \<Rightarrow>
              case worst_scan 0 None (ds_routes d) of
                None \<Rightarrow> d
              | Some (i, worst) \<Rightarrow>
                  if is_better new_route worst
                  then d\<lparr>ds_routes := (ds_routes d)[i := Some new_route]\<rparr>
                  else d)"

definition preserved_inp3 :: "dest_state \<Rightarrow> callsign \<Rightarrow> inp3_metric option" where
  "preserved_inp3 d via =
     (case route_index d via of None \<Rightarrow> None | Some i \<Rightarrow> Option.bind (ds_routes d ! i) rs_inp3)"

definition acceptable :: "routing_options \<Rightarrow> u8 \<Rightarrow> bool" where
  "acceptable options q \<longleftrightarrow> q > quality_MIN \<and> q \<ge> ro_min_quality options"

definition refresh_alias :: "node_alias \<Rightarrow> dest_state \<Rightarrow> dest_state" where
  "refresh_alias al d = (if alias_is_empty al then d else d\<lparr>ds_alias := al\<rparr>)"

definition drop_route :: "callsign \<Rightarrow> dest_state \<Rightarrow> dest_state" where
  "drop_route via d =
     (case route_index d via of None \<Rightarrow> d | Some i \<Rightarrow> d\<lparr>ds_routes := (ds_routes d)[i := None]\<rparr>)"

definition upsert_route :: "callsign \<Rightarrow> node_alias \<Rightarrow> callsign \<Rightarrow> u8 \<Rightarrow> table \<Rightarrow> table" where
  "upsert_route destination al via q t =
     (let ok = acceptable (rt_options t) q;
          store = (\<lambda>i d. set_destination t i (Some (keep_route d
            \<lparr>rs_neighbour = via, rs_quality = q, rs_obsolescence = ro_obsolete_initial (rt_options t),
             rs_inp3 = preserved_inp3 d via\<rparr>)))
      in case destination_index t destination of
           Some i \<Rightarrow>
             (case rt_destinations t ! i of None \<Rightarrow> t | Some d0 \<Rightarrow>
                let d = refresh_alias al d0 in
                if ok then store i d
                else let d' = drop_route via d in
                     set_destination t i (if route_count d' = 0 then None else Some d'))
         | None \<Rightarrow>
             if \<not> ok then t
             else case slot_free (rt_destinations t) of
                 None \<Rightarrow> t
               | Some i \<Rightarrow> store i \<lparr>ds_destination = destination, ds_alias = al,
                                   ds_routes = replicate (rt_max_routes t) None\<rparr>)"

section \<open>Ingesting a broadcast\<close>

definition ingest_neighbour :: "callsign \<Rightarrow> port_id \<Rightarrow> node_alias \<Rightarrow> u64 \<Rightarrow> table \<Rightarrow> table \<times> u8" where
  "ingest_neighbour originator port sender_alias now t =
     (let path_quality = ro_default_neighbour_quality (rt_options t) in
      case neighbour_index t originator of
        Some i \<Rightarrow>
          (case rt_neighbours t ! i of
             None \<Rightarrow> (t, path_quality)
           | Some nbr \<Rightarrow>
               (t\<lparr>rt_neighbours := (rt_neighbours t)[i := Some (nbr\<lparr>ns_alias := sender_alias,
                    ns_port_id := port, ns_last_heard := now\<rparr>)]\<rparr>, ns_path_quality nbr))
      | None \<Rightarrow>
          (case slot_free (rt_neighbours t) of
             Some i \<Rightarrow>
               (t\<lparr>rt_neighbours := (rt_neighbours t)[i := Some \<lparr>ns_neighbour = originator,
                    ns_alias = sender_alias, ns_port_id = port, ns_path_quality = path_quality,
                    ns_last_heard = now\<rparr>]\<rparr>, path_quality)
           | None \<Rightarrow> (t, path_quality)))"

definition ingest_entry :: "callsign \<Rightarrow> callsign \<Rightarrow> u8 \<Rightarrow> nodes_entry \<Rightarrow> table \<Rightarrow> table" where
  "ingest_entry my_call originator path_quality e t =
     (if ne_destination e = my_call then t
      else upsert_route (ne_destination e) (ne_destination_alias e) originator
        (if ne_best_neighbour e = my_call then quality_MIN
         else combine (ne_best_quality e) path_quality) t)"

definition ingest :: "callsign \<Rightarrow> callsign \<Rightarrow> port_id \<Rightarrow> nodes_broadcast \<Rightarrow> u64 \<Rightarrow> table \<Rightarrow> table" where
  "ingest originator my_call port broadcast now t =
     (let (t1, path_quality) = ingest_neighbour originator port (nb_sender_alias broadcast) now t;
          t2 = upsert_route originator (nb_sender_alias broadcast) originator path_quality t1
      in fold (ingest_entry my_call originator path_quality) (broadcast_entries broadcast) t2)"

section \<open>Ageing and link failure\<close>

definition has_inp3 :: "dest_state \<Rightarrow> bool" where
  "has_inp3 d \<longleftrightarrow> (\<exists>rt \<in> set (slot_items (ds_routes d)). rs_inp3 rt \<noteq> None)"

definition record_recently_withdrawn :: "callsign \<Rightarrow> table \<Rightarrow> table" where
  "record_recently_withdrawn destination t =
     (if destination \<in> set (rt_recently_withdrawn t) then t
      else t\<lparr>rt_recently_withdrawn := rt_recently_withdrawn t @ [destination]\<rparr>)"

definition in_use :: "table \<Rightarrow> callsign \<Rightarrow> bool" where
  "in_use t nb \<longleftrightarrow> (\<exists>d \<in> set (slot_items (rt_destinations t)).
     \<exists>r \<in> set (slot_items (ds_routes d)). rs_neighbour r = nb)"

definition prune_orphan_neighbours :: "table \<Rightarrow> table" where
  "prune_orphan_neighbours t =
     t\<lparr>rt_neighbours := map (\<lambda>s. case s of None \<Rightarrow> None
         | Some nb \<Rightarrow> if in_use t (ns_neighbour nb) then Some nb else None) (rt_neighbours t)\<rparr>"

text \<open>One pass over the destinations with a change to their routes: the shape that the two share.\<close>

definition prune_destination :: "dest_state \<Rightarrow> dest_state option" where
  "prune_destination d = (if route_count d = 0 then None else Some d)"

definition map_destinations :: "(dest_state \<Rightarrow> dest_state) \<Rightarrow> table \<Rightarrow> table" where
  "map_destinations g t =
     t\<lparr>rt_destinations := map (\<lambda>s. Option.bind s (prune_destination \<circ> g)) (rt_destinations t)\<rparr>"

definition age_route :: "route_state option \<Rightarrow> route_state option" where
  "age_route s =
     (case s of None \<Rightarrow> None
      | Some rt \<Rightarrow>
          let nxt = saturating_sub (rs_obsolescence rt) 1 in
          if nxt = 0 then None else Some (rt\<lparr>rs_obsolescence := nxt\<rparr>))"

definition age_destination :: "dest_state \<Rightarrow> dest_state" where
  "age_destination d = d\<lparr>ds_routes := map age_route (ds_routes d)\<rparr>"

definition sweep :: "table \<Rightarrow> table \<times> nat" where
  "sweep t =
     (let dests = slot_items (rt_destinations t);
          purged = sum_list (map (\<lambda>d. length (filter (\<lambda>rt. age_route (Some rt) = None)
            (slot_items (ds_routes d)))) dests);
          withdrawn = map ds_destination
            (filter (\<lambda>d. has_inp3 d \<and> \<not> has_inp3 (age_destination d)) dests);
          t1 = map_destinations age_destination t;
          t2 = fold record_recently_withdrawn withdrawn t1
      in (prune_orphan_neighbours t2, purged))"

definition unroute :: "callsign \<Rightarrow> dest_state \<Rightarrow> dest_state" where
  "unroute nb d = d\<lparr>ds_routes := map (\<lambda>s. case s of None \<Rightarrow> None
      | Some rt \<Rightarrow> if rs_neighbour rt = nb then None else Some rt) (ds_routes d)\<rparr>"

definition removed_inp3 :: "callsign \<Rightarrow> dest_state \<Rightarrow> bool" where
  "removed_inp3 nb d \<longleftrightarrow>
     (case route_index d nb of None \<Rightarrow> False
      | Some i \<Rightarrow> (case ds_routes d ! i of None \<Rightarrow> False | Some rt \<Rightarrow> rs_inp3 rt \<noteq> None))"

definition mark_neighbour_down :: "callsign \<Rightarrow> table \<Rightarrow> table \<times> nat" where
  "mark_neighbour_down nb t =
     (let dests = slot_items (rt_destinations t);
          dropped = sum_list (map (\<lambda>d. length (filter (\<lambda>rt. rs_neighbour rt = nb)
            (slot_items (ds_routes d)))) dests);
          withdrawn = map ds_destination
            (filter (\<lambda>d. removed_inp3 nb d \<and> \<not> has_inp3 (unroute nb d)) dests);
          t1 = map_destinations (unroute nb) t;
          t2 = fold record_recently_withdrawn withdrawn t1;
          t3 = t2\<lparr>rt_neighbours := map (\<lambda>s. case s of None \<Rightarrow> None
            | Some n \<Rightarrow> if ns_neighbour n = nb then None else Some n) (rt_neighbours t2)\<rparr>
      in (prune_orphan_neighbours t3, dropped))"

section \<open>Reading the table\<close>

definition kept_routes :: "table \<Rightarrow> callsign \<Rightarrow> route_state list" where
  "kept_routes t dest =
     (case destination_index t dest of None \<Rightarrow> []
      | Some i \<Rightarrow> (case rt_destinations t ! i of None \<Rightarrow> []
          | Some d \<Rightarrow> selection_sort_by is_better (slot_items (ds_routes d))))"

definition best_route_excluding :: "table \<Rightarrow> callsign \<Rightarrow> callsign \<Rightarrow> callsign option" where
  "best_route_excluding t dest exclude =
     map_option rs_neighbour (List.find (\<lambda>r. rs_neighbour r \<noteq> exclude) (kept_routes t dest))"

definition eligible :: "callsign \<Rightarrow> route_state \<Rightarrow> bool" where
  "eligible exclude r \<longleftrightarrow> rs_neighbour r \<noteq> exclude \<and> rs_quality r > 0"

fun pick_bucket :: "callsign \<Rightarrow> u32 \<Rightarrow> route_state list \<Rightarrow> callsign option" where
  "pick_bucket exclude target [] = None"
| "pick_bucket exclude target (r # rs) =
     (if \<not> eligible exclude r then pick_bucket exclude target rs
      else let weight = ucast (rs_quality r) in
           if target < weight then Some (rs_neighbour r)
           else pick_bucket exclude (target - weight) rs)"

definition select_route_excluding :: "table \<Rightarrow> callsign \<Rightarrow> callsign \<Rightarrow> u32 \<Rightarrow> callsign option" where
  "select_route_excluding t dest exclude flow_hash =
     (let routes = kept_routes t dest;
          total = fold (\<lambda>r acc. if eligible exclude r then acc + ucast (rs_quality r) else acc) routes (0 :: u32)
      in if total = 0 then None else pick_bucket exclude (flow_hash mod total) routes)"

definition neighbour_entry :: "table \<Rightarrow> callsign \<Rightarrow> neighbour_state option" where
  "neighbour_entry t call =
     (case neighbour_index t call of None \<Rightarrow> None | Some i \<Rightarrow> rt_neighbours t ! i)"

section \<open>Abstraction and invariant\<close>

definition dest_of :: "table \<Rightarrow> callsign \<Rightarrow> dest_state option" where
  "dest_of t = slot_lookup ds_destination (rt_destinations t)"

definition route_of :: "table \<Rightarrow> callsign \<Rightarrow> callsign \<Rightarrow> route_state option" where
  "route_of t dest nb =
     Option.bind (dest_of t dest) (\<lambda>d. slot_lookup rs_neighbour (ds_routes d) nb)"

text \<open>A measured time is below the horizon and counts at least the hop to the neighbour.\<close>

definition metric_ok :: "inp3_metric \<Rightarrow> bool" where
  "metric_ok m \<longleftrightarrow> 10 \<le> im_target_time_ms m \<and> im_target_time_ms m < HORIZON_MS \<and> 1 \<le> im_hop_count m"

definition route_ok :: "routing_options \<Rightarrow> route_state \<Rightarrow> bool" where
  "route_ok options r \<longleftrightarrow> (acceptable options (rs_quality r) \<or> rs_inp3 r \<noteq> None) \<and>
     rs_obsolescence r \<le> ro_obsolete_initial options \<and> (\<forall>m. rs_inp3 r = Some m \<longrightarrow> metric_ok m)"

definition dest_inv :: "routing_options \<Rightarrow> nat \<Rightarrow> dest_state \<Rightarrow> bool" where
  "dest_inv options n d \<longleftrightarrow> length (ds_routes d) = n \<and> slots_distinct rs_neighbour (ds_routes d) \<and>
     route_count d \<noteq> 0 \<and> (\<forall>r. Some r \<in> set (ds_routes d) \<longrightarrow> route_ok options r)"

definition table_inv :: "table \<Rightarrow> bool" where
  "table_inv t \<longleftrightarrow> 0 < rt_max_routes t \<and>
     slots_distinct ds_destination (rt_destinations t) \<and>
     (\<forall>d. Some d \<in> set (rt_destinations t) \<longrightarrow> dest_inv (rt_options t) (rt_max_routes t) d) \<and>
     slots_distinct ns_neighbour (rt_neighbours t) \<and>
     distinct (rt_recently_withdrawn t)"

section \<open>The order of routes\<close>

datatype route_rank = Rank (rank_quality: u8) (rank_key: "bytes \<times> u8")

instantiation route_rank :: linorder
begin

definition less_route_rank :: "route_rank \<Rightarrow> route_rank \<Rightarrow> bool" where
  "less_route_rank a b \<longleftrightarrow>
     rank_quality b < rank_quality a \<or> rank_quality a = rank_quality b \<and> rank_key a < rank_key b"

definition less_eq_route_rank :: "route_rank \<Rightarrow> route_rank \<Rightarrow> bool" where
  "less_eq_route_rank a b \<longleftrightarrow>
     rank_quality b < rank_quality a \<or> rank_quality a = rank_quality b \<and> rank_key a \<le> rank_key b"

instance
proof
  fix a b c :: route_rank
  show "a < b \<longleftrightarrow> a \<le> b \<and> \<not> b \<le> a"
    by (cases a; cases b) (auto simp: less_route_rank_def less_eq_route_rank_def)
  show "a \<le> a"
    by (simp add: less_eq_route_rank_def)
  show "a \<le> b \<Longrightarrow> b \<le> c \<Longrightarrow> a \<le> c"
    unfolding less_eq_route_rank_def using order.strict_trans order.trans by metis
  show "a \<le> b \<Longrightarrow> b \<le> a \<Longrightarrow> a = b"
    by (cases a; cases b) (auto simp: less_eq_route_rank_def)
  show "a \<le> b \<or> b \<le> a"
    by (cases a; cases b) (auto simp: less_eq_route_rank_def)
qed

end

definition rank_of :: "route_state \<Rightarrow> route_rank" where
  "rank_of r = Rank (rs_quality r) (callsign_key (rs_neighbour r))"

lemma is_better_rank: "is_better a b \<longleftrightarrow> rank_of a < rank_of b"
  by (auto simp: is_better_def rank_of_def less_route_rank_def callsign_lt_def callsign_key_def)

lemma is_worse_rank: "is_worse a b \<longleftrightarrow> rank_of b < rank_of a"
  by (simp add: is_worse_def is_better_rank)

lemma kept_routes_order:
  "mset (selection_sort_by is_better rs) = mset rs"
  "sorted (map rank_of (selection_sort_by is_better rs))"
proof -
  have "is_better = (\<lambda>a b. rank_of a < rank_of b)"
    by (intro ext) (simp add: is_better_rank)
  then show "mset (selection_sort_by is_better rs) = mset rs"
    "sorted (map rank_of (selection_sort_by is_better rs))"
    using selection_sort_sorted [where f = rank_of and xs = rs] by simp_all
qed

lemma worst_scan_spec:
  assumes "worst_scan i worst ss = res"
  shows "(res = None \<longleftrightarrow> worst = None \<and> slot_items ss = []) \<and>
    (\<forall>j w. res = Some (j, w) \<longrightarrow>
      (worst = Some (j, w) \<or> i \<le> j \<and> j < i + length ss \<and> ss ! (j - i) = Some w) \<and>
      (\<forall>x \<in> set (slot_items ss). rank_of x \<le> rank_of w) \<and>
      (\<forall>k v. worst = Some (k, v) \<longrightarrow> rank_of v \<le> rank_of w))"
  using assms
proof (induction i worst ss rule: worst_scan.induct)
  case (1 i worst)
  then show ?case
    by auto
next
  case (2 i worst ss)
  have "ss ! (j - Suc i) = (None # ss) ! (j - i)" if "Suc i \<le> j" for j
    using that by (simp add: Suc_diff_le nth_Cons')
  then show ?case
    using 2 by (fastforce simp: Suc_le_eq)
next
  case (3 i worst rt ss)
  define nw where "nw = (case worst of None \<Rightarrow> Some (i, rt)
      | Some (j, w) \<Rightarrow> if is_worse rt w then Some (i, rt) else Some (j, w))"
  have nw: "nw \<noteq> None" "\<And>j w. nw = Some (j, w) \<Longrightarrow> (worst = Some (j, w) \<or> j = i \<and> w = rt) \<and>
      rank_of rt \<le> rank_of w \<and> (\<forall>k v. worst = Some (k, v) \<longrightarrow> rank_of v \<le> rank_of w)"
    by (auto simp: nw_def is_worse_rank not_less split: option.splits if_splits)
  have res: "worst_scan (Suc i) nw ss = res"
    using "3.prems" by (simp add: nw_def)
  have nth: "ss ! (j - Suc i) = (Some rt # ss) ! (j - i)" if "Suc i \<le> j" for j
    using that by (simp add: Suc_diff_le nth_Cons')
  note IH = "3.IH" [folded nw_def, OF res]
  show ?case
  proof (intro conjI allI impI)
    show "res = None \<longleftrightarrow> worst = None \<and> slot_items (Some rt # ss) = []"
      using IH nw(1) by simp
    fix j w
    assume r: "res = Some (j, w)"
    obtain k v where kv: "nw = Some (k, v)"
      using nw(1) by auto
    have w: "nw = Some (j, w) \<or> Suc i \<le> j \<and> j < Suc i + length ss \<and> ss ! (j - Suc i) = Some w"
      "\<forall>x \<in> set (slot_items ss). rank_of x \<le> rank_of w" "rank_of v \<le> rank_of w"
      using IH r kv by auto
    show "worst = Some (j, w) \<or> i \<le> j \<and> j < i + length (Some rt # ss) \<and> (Some rt # ss) ! (j - i) = Some w"
      using w(1) nw(2) [of j w] nth [of j] by auto
    show "\<forall>x \<in> set (slot_items (Some rt # ss)). rank_of x \<le> rank_of w"
      using w(2,3) nw(2) [OF kv] by (auto intro: order.trans)
    show "rank_of v' \<le> rank_of w" if "worst = Some (k', v')" for k' v'
      using w(3) nw(2) [OF kv] that by (auto intro: order.trans)
  qed
qed

end
