(* ===== verification/Netrom_Routing.thy ===== *)
theory Netrom_Routing
  imports Netrom_Table
begin

text \<open>
  What the operations of the routing table do to the routes it keeps: one equation per operation over
  the abstraction \<open>dest_of\<close> / \<open>route_of\<close>, the invariant, and the properties of learning, ageing,
  failover and next-hop selection.
\<close>

section \<open>One destination\<close>

abbreviation routes_of :: "dest_state \<Rightarrow> callsign \<Rightarrow> route_state option" where
  "routes_of d \<equiv> slot_lookup rs_neighbour (ds_routes d)"

lemma route_index_Some:
  assumes "slots_distinct rs_neighbour (ds_routes d)" "route_index d nb = Some i"
  obtains r where "i < length (ds_routes d)" "ds_routes d ! i = Some r" "rs_neighbour r = nb" "routes_of d nb = Some r"
  using slot_position_key [OF assms(2) [unfolded route_index_def] assms(1)] that by blast

lemma route_index_None: "route_index d nb = None \<longleftrightarrow> routes_of d nb = None"
  by (simp add: route_index_def slot_position_key_None)

lemma preserved_inp3_eq:
  assumes "slots_distinct rs_neighbour (ds_routes d)"
  shows "preserved_inp3 d nb = Option.bind (routes_of d nb) rs_inp3"
proof (cases "route_index d nb")
  case None
  then show ?thesis
    using route_index_None [of d nb] by (simp add: preserved_inp3_def)
next
  case (Some i)
  with assms show ?thesis
    by (auto simp: preserved_inp3_def elim: route_index_Some)
qed

lemma drop_route_spec:
  assumes "slots_distinct rs_neighbour (ds_routes d)"
  shows "slots_distinct rs_neighbour (ds_routes (drop_route nb d))"
    and "routes_of (drop_route nb d) = (routes_of d)(nb := None)"
    and "length (ds_routes (drop_route nb d)) = length (ds_routes d)"
    and "ds_destination (drop_route nb d) = ds_destination d" "ds_alias (drop_route nb d) = ds_alias d"
proof -
  have *: "slots_distinct rs_neighbour (ds_routes (drop_route nb d)) \<and>
      routes_of (drop_route nb d) = (routes_of d)(nb := None)"
  proof (cases "route_index d nb")
    case None
    then show ?thesis
      using assms route_index_None [of d nb] by (auto simp: drop_route_def)
  next
    case (Some i)
    then obtain r where r: "i < length (ds_routes d)" "ds_routes d ! i = Some r" "rs_neighbour r = nb"
      using assms route_index_Some by blast
    show ?thesis
      using Some slot_clear [OF assms r(1,2)] r(3) by (simp add: drop_route_def)
  qed
  then show "slots_distinct rs_neighbour (ds_routes (drop_route nb d))"
    "routes_of (drop_route nb d) = (routes_of d)(nb := None)"
    by blast+
qed (simp_all add: drop_route_def split: option.splits)

definition has_room :: "dest_state \<Rightarrow> bool" where
  "has_room d \<longleftrightarrow> length (slot_items (ds_routes d)) < length (ds_routes d)"

lemma keep_route_fields [simp]:
  "length (ds_routes (keep_route d r)) = length (ds_routes d)"
  "ds_destination (keep_route d r) = ds_destination d" "ds_alias (keep_route d r) = ds_alias d"
  by (simp_all add: keep_route_def split: option.splits prod.splits)

lemma keep_route_fits:
  assumes "slots_distinct rs_neighbour (ds_routes d)"
    and "routes_of d (rs_neighbour r) \<noteq> None \<or> has_room d"
  shows "slots_distinct rs_neighbour (ds_routes (keep_route d r)) \<and>
    routes_of (keep_route d r) = (routes_of d)(rs_neighbour r \<mapsto> r)"
proof (cases "route_index d (rs_neighbour r)")
  case (Some i)
  then obtain q where q: "i < length (ds_routes d)" "ds_routes d ! i = Some q" "rs_neighbour q = rs_neighbour r"
    using assms(1) route_index_Some by blast
  show ?thesis
    using Some slot_replace [OF assms(1) q(1,2) q(3) [symmetric]] q(3) by (simp add: keep_route_def)
next
  case None
  then have fresh: "routes_of d (rs_neighbour r) = None"
    by (simp add: route_index_None)
  then have "slot_free (ds_routes d) \<noteq> None"
    using assms(2) by (simp add: slot_free_None has_room_def)
  then obtain i where i: "slot_free (ds_routes d) = Some i"
    by auto
  show ?thesis
    using None i slot_free_Some [OF i] slot_store [OF assms(1) _ _ fresh, of i]
    by (simp add: keep_route_def)
qed

text \<open>A full set keeps the better of the new route and its worst one.\<close>

lemma keep_route_full:
  assumes "slots_distinct rs_neighbour (ds_routes d)" "0 < length (ds_routes d)"
    and "routes_of d (rs_neighbour r) = None" "\<not> has_room d"
  obtains w where "routes_of d (rs_neighbour w) = Some w"
    "\<And>nb x. routes_of d nb = Some x \<Longrightarrow> rank_of x \<le> rank_of w"
    "slots_distinct rs_neighbour (ds_routes (keep_route d r))"
    "routes_of (keep_route d r) =
       (if is_better r w then (routes_of d)(rs_neighbour w := None, rs_neighbour r \<mapsto> r) else routes_of d)"
proof -
  have idx: "route_index d (rs_neighbour r) = None" and full: "slot_free (ds_routes d) = None"
    using assms(3,4) length_slot_items [of "ds_routes d"]
    by (simp_all add: route_index_None slot_free_None has_room_def)
  then have "slot_items (ds_routes d) \<noteq> []"
    using assms(2) by (auto simp: slot_free_None)
  then obtain i w where iw: "worst_scan 0 None (ds_routes d) = Some (i, w)"
    using worst_scan_spec [of 0 None "ds_routes d", OF refl] by fastforce
  then have i: "i < length (ds_routes d)" "ds_routes d ! i = Some w"
    and worst: "\<And>x. x \<in> set (slot_items (ds_routes d)) \<Longrightarrow> rank_of x \<le> rank_of w"
    using worst_scan_spec [of 0 None "ds_routes d", OF refl] by auto
  have w: "routes_of d (rs_neighbour w) = Some w"
    using i nth_mem [OF i(1)] by (simp add: slot_lookup_Some [OF assms(1)])
  have le: "rank_of x \<le> rank_of w" if "routes_of d nb = Some x" for nb x
    using that worst by (simp add: slot_lookup_Some [OF assms(1)] slot_simps)
  note cl = slot_clear [OF assms(1) i]
  have "slots_distinct rs_neighbour ((ds_routes d)[i := Some r]) \<and>
      slot_lookup rs_neighbour ((ds_routes d)[i := Some r]) =
        (routes_of d)(rs_neighbour w := None, rs_neighbour r \<mapsto> r)"
    using slot_store [OF cl(1), of i r] i(1) cl(2) assms(3) by simp
  then have "slots_distinct rs_neighbour (ds_routes (keep_route d r)) \<and>
    routes_of (keep_route d r) =
       (if is_better r w then (routes_of d)(rs_neighbour w := None, rs_neighbour r \<mapsto> r) else routes_of d)"
    using idx full iw assms(1) by (simp add: keep_route_def)
  then show ?thesis
    using that w le by blast
qed

lemma keep_route_kept:
  assumes "slots_distinct rs_neighbour (ds_routes d)" "0 < length (ds_routes d)"
  shows "slots_distinct rs_neighbour (ds_routes (keep_route d r))"
    and "routes_of (keep_route d r) nb = Some x \<Longrightarrow> x = r \<or> routes_of d nb = Some x"
    and "route_count (keep_route d r) \<noteq> 0"
proof -
  have *: "slots_distinct rs_neighbour (ds_routes (keep_route d r)) \<and>
      (\<forall>nb x. routes_of (keep_route d r) nb = Some x \<longrightarrow> x = r \<or> routes_of d nb = Some x) \<and>
      (\<exists>nb x. routes_of (keep_route d r) nb = Some x)"
  proof (cases "routes_of d (rs_neighbour r) \<noteq> None \<or> has_room d")
    case True
    then show ?thesis
      using keep_route_fits [OF assms(1)] by (auto split: if_splits)
  next
    case False
    then obtain w where w: "routes_of d (rs_neighbour w) = Some w"
      "slots_distinct rs_neighbour (ds_routes (keep_route d r))"
      "routes_of (keep_route d r) =
       (if is_better r w then (routes_of d)(rs_neighbour w := None, rs_neighbour r \<mapsto> r) else routes_of d)"
      using keep_route_full [OF assms(1,2)] by metis
    have "routes_of (keep_route d r) (rs_neighbour (if is_better r w then r else w)) \<noteq> None"
      using w by simp
    then have "\<exists>nb x. routes_of (keep_route d r) nb = Some x"
      by blast
    moreover have "x = r \<or> routes_of d nb = Some x" if "routes_of (keep_route d r) nb = Some x" for nb x
      using that w(3) by (auto split: if_splits)
    ultimately show ?thesis
      using w(2) by blast
  qed
  then show "slots_distinct rs_neighbour (ds_routes (keep_route d r))"
    "routes_of (keep_route d r) nb = Some x \<Longrightarrow> x = r \<or> routes_of d nb = Some x"
    by blast+
  show "route_count (keep_route d r) \<noteq> 0"
    using * by (auto simp: route_count_def slot_lookup_def)
qed

lemma route_count_zero: "route_count d = 0 \<longleftrightarrow> routes_of d = Map.empty"
  by (auto simp: route_count_def slot_lookup_def)

section \<open>The table\<close>

lemma destination_index_Some:
  assumes "slots_distinct ds_destination (rt_destinations t)" "destination_index t k = Some i"
  obtains d where "i < length (rt_destinations t)" "rt_destinations t ! i = Some d" "ds_destination d = k"
    "dest_of t k = Some d"
  using slot_position_key [OF assms(2) [unfolded destination_index_def] assms(1)] that
  by (auto simp: dest_of_def)

lemma destination_index_None: "destination_index t k = None \<longleftrightarrow> dest_of t k = None"
  by (simp add: destination_index_def slot_position_key_None dest_of_def)

lemma set_destination_fields [simp]:
  "rt_options (set_destination t i s) = rt_options t"
  "rt_max_routes (set_destination t i s) = rt_max_routes t"
  "rt_neighbours (set_destination t i s) = rt_neighbours t"
  "rt_recently_withdrawn (set_destination t i s) = rt_recently_withdrawn t"
  "length (rt_destinations (set_destination t i s)) = length (rt_destinations t)"
  by (simp_all add: set_destination_def)

lemma upsert_fields [simp]:
  "rt_options (upsert_route dest al via q t) = rt_options t"
  "rt_max_routes (upsert_route dest al via q t) = rt_max_routes t"
  "rt_neighbours (upsert_route dest al via q t) = rt_neighbours t"
  "rt_recently_withdrawn (upsert_route dest al via q t) = rt_recently_withdrawn t"
  "length (rt_destinations (upsert_route dest al via q t)) = length (rt_destinations t)"
  by (simp_all add: upsert_route_def Let_def split: option.splits)

definition learned :: "routing_options \<Rightarrow> dest_state \<Rightarrow> callsign \<Rightarrow> u8 \<Rightarrow> route_state" where
  "learned options d via q = \<lparr>rs_neighbour = via, rs_quality = q,
     rs_obsolescence = ro_obsolete_initial options, rs_inp3 = preserved_inp3 d via\<rparr>"

definition fresh_dest :: "table \<Rightarrow> callsign \<Rightarrow> node_alias \<Rightarrow> dest_state" where
  "fresh_dest t dest al = \<lparr>ds_destination = dest, ds_alias = al, ds_routes = replicate (rt_max_routes t) None\<rparr>"

lemma refresh_alias_fields [simp]:
  "ds_destination (refresh_alias al d) = ds_destination d" "ds_routes (refresh_alias al d) = ds_routes d"
  by (simp_all add: refresh_alias_def)

lemma upsert_dest_of:
  assumes "slots_distinct ds_destination (rt_destinations t)"
    and "\<And>d. dest_of t dest = Some d \<Longrightarrow> slots_distinct rs_neighbour (ds_routes d)"
  shows "slots_distinct ds_destination (rt_destinations (upsert_route dest al via q t)) \<and>
    dest_of (upsert_route dest al via q t) =
      (case dest_of t dest of
         Some d0 \<Rightarrow> (let d = refresh_alias al d0 in
           if acceptable (rt_options t) q
           then (dest_of t)(dest \<mapsto> keep_route d (learned (rt_options t) d via q))
           else (dest_of t)(dest := prune_destination (drop_route via d)))
       | None \<Rightarrow>
           if acceptable (rt_options t) q \<and> destination_count t < length (rt_destinations t)
           then (dest_of t)(dest \<mapsto> keep_route (fresh_dest t dest al)
                  (learned (rt_options t) (fresh_dest t dest al) via q))
           else dest_of t)"
proof (cases "destination_index t dest")
    case (Some i)
    then obtain d0 where d0: "i < length (rt_destinations t)" "rt_destinations t ! i = Some d0"
      "ds_destination d0 = dest" "dest_of t dest = Some d0"
      using assms(1) destination_index_Some by blast
    let ?d = "refresh_alias al d0"
    let ?k = "keep_route ?d (learned (rt_options t) ?d via q)"
    let ?p = "drop_route via ?d"
    have "ds_destination ?k = ds_destination d0"
      by simp
    note rep = slot_replace [OF assms(1) d0(1,2) this]
    have "ds_destination ?p = ds_destination d0"
      using drop_route_spec(4) [of ?d via] assms(2) [OF d0(4)] by simp
    note rep' = slot_replace [OF assms(1) d0(1,2) this] and cl = slot_clear [OF assms(1) d0(1,2)]
    show ?thesis
      using Some d0 rep rep' cl
      by (auto simp: upsert_route_def Let_def set_destination_def dest_of_def learned_def
          prune_destination_def)
  next
    case None
    then have fresh: "dest_of t dest = None"
      by (simp add: destination_index_None)
    show ?thesis
    proof (cases "slot_free (rt_destinations t)")
      case full: None
      then have "\<not> destination_count t < length (rt_destinations t)"
        by (simp add: slot_free_None destination_count_def)
      then show ?thesis
        using None fresh assms(1) full by (simp add: upsert_route_def Let_def)
    next
      case free: (Some i)
      let ?f = "fresh_dest t dest al"
      let ?k = "keep_route ?f (learned (rt_options t) ?f via q)"
      have "destination_count t < length (rt_destinations t)"
        using free length_slot_items [of "rt_destinations t"] slot_free_None [of "rt_destinations t"]
        by (auto simp: destination_count_def le_less)
      moreover have "ds_destination ?k = dest"
        by (simp add: fresh_dest_def)
      ultimately show ?thesis
        using None fresh assms(1) free slot_free_Some [OF free]
          slot_store [OF assms(1), of i ?k]
        by (auto simp: upsert_route_def Let_def set_destination_def dest_of_def learned_def fresh_dest_def)
    qed
  qed

lemmas upsert_distinct = upsert_dest_of [THEN conjunct1]
lemmas dest_of_upsert = upsert_dest_of [THEN conjunct2]

section \<open>The invariant\<close>

lemma dest_inv_iff:
  "dest_inv options n d \<longleftrightarrow> length (ds_routes d) = n \<and> slots_distinct rs_neighbour (ds_routes d) \<and>
     routes_of d \<noteq> Map.empty \<and> (\<forall>nb r. routes_of d nb = Some r \<longrightarrow> route_ok options r)"
  unfolding dest_inv_def route_count_zero using slot_lookup_Some [of rs_neighbour "ds_routes d"] by metis

lemma table_inv_iff:
  "table_inv t \<longleftrightarrow> 0 < rt_max_routes t \<and> slots_distinct ds_destination (rt_destinations t) \<and>
     (\<forall>k d. dest_of t k = Some d \<longrightarrow> dest_inv (rt_options t) (rt_max_routes t) d) \<and>
     slots_distinct ns_neighbour (rt_neighbours t) \<and> distinct (rt_recently_withdrawn t)"
  unfolding table_inv_def dest_of_def
  using slot_lookup_Some [of ds_destination "rt_destinations t"] by metis

lemma table_invD:
  assumes "table_inv t"
  shows "0 < rt_max_routes t" "slots_distinct ds_destination (rt_destinations t)"
    "slots_distinct ns_neighbour (rt_neighbours t)" "distinct (rt_recently_withdrawn t)"
    "dest_of t k = Some d \<Longrightarrow> dest_inv (rt_options t) (rt_max_routes t) d"
    "dest_of t k = Some d \<Longrightarrow> slots_distinct rs_neighbour (ds_routes d)"
    "dest_of t k = Some d \<Longrightarrow> length (ds_routes d) = rt_max_routes t"
  using assms by (auto simp: table_inv_iff dest_inv_iff)

lemma dest_of_key: "slots_distinct ds_destination (rt_destinations t) \<Longrightarrow> dest_of t k = Some d \<Longrightarrow> ds_destination d = k"
  by (simp add: dest_of_def slot_lookup_Some)

lemma keep_route_inv:
  assumes "slots_distinct rs_neighbour (ds_routes d)" "length (ds_routes d) = n" "0 < n"
    and "\<And>nb x. routes_of d nb = Some x \<Longrightarrow> route_ok options x" "route_ok options r"
  shows "dest_inv options n (keep_route d r)"
  using keep_route_kept [OF assms(1), of r] assms by (auto simp: dest_inv_iff route_count_zero)

lemma drop_route_inv:
  assumes "dest_inv options n d" "prune_destination (drop_route via d) = Some d'"
  shows "dest_inv options n d'"
  using assms drop_route_spec [of d via]
  by (auto simp: dest_inv_iff prune_destination_def route_count_zero split: if_splits)

lemma learned_ok:
  assumes "slots_distinct rs_neighbour (ds_routes d)" "\<And>nb r. routes_of d nb = Some r \<Longrightarrow> route_ok options r"
    and "acceptable options q"
  shows "route_ok options (learned options d via q)"
  using assms(2) [of via] assms(3)
  by (auto simp: route_ok_def learned_def preserved_inp3_eq [OF assms(1)] bind_eq_Some_conv)

lemma refresh_alias_inv [simp]: "dest_inv options n (refresh_alias al d) = dest_inv options n d"
  by (simp add: dest_inv_def route_count_def)

lemma fresh_dest_routes [simp]:
  "routes_of (fresh_dest t dest al) = Map.empty" "slots_distinct rs_neighbour (ds_routes (fresh_dest t dest al))"
  "length (ds_routes (fresh_dest t dest al)) = rt_max_routes t"
  "has_room (fresh_dest t dest al) = (0 < rt_max_routes t)"
  by (simp_all add: fresh_dest_def has_room_def slot_simps)

lemma upsert_inv:
  assumes "table_inv t"
  shows "table_inv (upsert_route dest al via q t)"
proof -
  note t = table_invD [OF assms]
  have ds: "dest_inv (rt_options t) (rt_max_routes t) d"
    if "dest_of (upsert_route dest al via q t) k = Some d" for k d
  proof (cases "dest_of t dest")
    case None
    then show ?thesis
      using that t keep_route_inv [of "fresh_dest t dest al" "rt_max_routes t" "rt_options t"
          "learned (rt_options t) (fresh_dest t dest al) via q"] learned_ok [of "fresh_dest t dest al"]
      by (auto simp: dest_of_upsert [OF t(2,6)] split: if_splits)
  next
    case (Some d0)
    note inv = t(5) [OF Some]
    have "dest_inv (rt_options t) (rt_max_routes t)
        (keep_route (refresh_alias al d0) (learned (rt_options t) (refresh_alias al d0) via q))"
      if "acceptable (rt_options t) q"
      using that inv t(1) learned_ok [of "refresh_alias al d0"] by (intro keep_route_inv) (auto simp: dest_inv_iff)
    then show ?thesis
      using that Some t(5) drop_route_inv [of "rt_options t" "rt_max_routes t" "refresh_alias al d0" via d] inv
      by (auto simp: dest_of_upsert [OF t(2,6)] Let_def split: if_splits)
  qed
  then show ?thesis
    using t upsert_distinct [OF t(2,6)] by (simp add: table_inv_iff)
qed

section \<open>Ingesting\<close>

lemma ingest_neighbour_fields:
  assumes "ingest_neighbour originator port al now t = (t1, pq)"
  shows "rt_options t1 = rt_options t" "rt_max_routes t1 = rt_max_routes t"
    "rt_destinations t1 = rt_destinations t" "rt_recently_withdrawn t1 = rt_recently_withdrawn t"
  using assms by (auto simp: ingest_neighbour_def Let_def split: option.splits)

lemma ingest_neighbour_distinct:
  assumes "ingest_neighbour originator port al now t = (t1, pq)" "slots_distinct ns_neighbour (rt_neighbours t)"
  shows "slots_distinct ns_neighbour (rt_neighbours t1)"
proof (cases "neighbour_index t originator")
  case (Some i)
  then obtain n where "i < length (rt_neighbours t)" "rt_neighbours t ! i = Some n"
    using slot_position_key [OF Some [unfolded neighbour_index_def] assms(2)] by blast
  then show ?thesis
    using Some assms slot_replace(1) [OF assms(2)] by (auto simp: ingest_neighbour_def Let_def)
next
  case None
  then have "slot_lookup ns_neighbour (rt_neighbours t) originator = None"
    by (simp add: neighbour_index_def slot_position_key_None)
  then have free: "slots_distinct ns_neighbour ((rt_neighbours t)[i := Some n])"
    if "slot_free (rt_neighbours t) = Some i" "ns_neighbour n = originator" for i n
    using slot_store(1) [OF assms(2), of i n] slot_free_Some [OF that(1)] that(2) by simp
  then show ?thesis
    using None assms by (auto simp: ingest_neighbour_def Let_def split: option.splits)
qed

lemma ingest_entry_inv: "table_inv t \<Longrightarrow> table_inv (ingest_entry my_call originator pq e t)"
  by (simp add: ingest_entry_def upsert_inv)

interpretation learning: state_machine "ingest_entry my_call originator pq" table_inv
  for my_call originator pq
  by unfold_locales (rule ingest_entry_inv)

lemma ingest_inv:
  assumes "table_inv t"
  shows "table_inv (ingest originator my_call port b now t)"
proof -
  obtain t1 pq where t1: "ingest_neighbour originator port (nb_sender_alias b) now t = (t1, pq)"
    by fastforce
  have "table_inv t1"
    using assms ingest_neighbour_fields [OF t1] ingest_neighbour_distinct [OF t1]
    by (simp add: table_inv_def)
  then show ?thesis
    by (simp add: ingest_def t1 learning.run_inv upsert_inv)
qed

text \<open>Learning touches no other destination; in particular nothing is ever learned about oneself.\<close>

lemma dest_of_upsert_other:
  assumes "table_inv t" "k \<noteq> dest"
  shows "dest_of (upsert_route dest al via q t) k = dest_of t k"
  using assms(2) dest_of_upsert [OF table_invD(2,6) [OF assms(1)]]
  by (auto simp: Let_def split: option.splits)

lemma ingest_entries_self:
  assumes "table_inv t"
  shows "dest_of (fold (ingest_entry my_call originator pq) es t) my_call = dest_of t my_call"
  using assms
proof (induction es arbitrary: t)
  case (Cons e es)
  have "dest_of (ingest_entry my_call originator pq e t) my_call = dest_of t my_call"
    using Cons.prems by (auto simp: ingest_entry_def dest_of_upsert_other)
  then show ?case
    using Cons ingest_entry_inv [OF Cons.prems, of my_call originator pq e] by simp
qed simp

lemma ingest_self:
  assumes "table_inv t" "originator \<noteq> my_call"
  shows "dest_of (ingest originator my_call port b now t) my_call = dest_of t my_call"
proof -
  obtain t1 pq where t1: "ingest_neighbour originator port (nb_sender_alias b) now t = (t1, pq)"
    by fastforce
  have "table_inv t1" "dest_of t1 = dest_of t"
    using assms ingest_neighbour_fields [OF t1] ingest_neighbour_distinct [OF t1]
    by (simp_all add: table_inv_def dest_of_def)
  then show ?thesis
    using assms(2) upsert_inv [of t1] dest_of_upsert_other [of t1 my_call originator]
    by (simp add: ingest_def t1 ingest_entries_self)
qed

section \<open>Ageing and link failure\<close>

lemma map_destinations_fields [simp]:
  "rt_options (map_destinations g t) = rt_options t" "rt_max_routes (map_destinations g t) = rt_max_routes t"
  "rt_neighbours (map_destinations g t) = rt_neighbours t"
  "rt_recently_withdrawn (map_destinations g t) = rt_recently_withdrawn t"
  by (simp_all add: map_destinations_def)

lemma map_destinations_spec:
  assumes "slots_distinct ds_destination (rt_destinations t)" "\<And>d. ds_destination (g d) = ds_destination d"
  shows "slots_distinct ds_destination (rt_destinations (map_destinations g t)) \<and>
    dest_of (map_destinations g t) = (\<lambda>k. Option.bind (dest_of t k) (prune_destination \<circ> g))"
proof -
  have "\<And>x y. (prune_destination \<circ> g) x = Some y \<Longrightarrow> ds_destination y = ds_destination x"
    using assms(2) by (auto simp: prune_destination_def split: if_splits)
  from slot_bind [where h = "prune_destination \<circ> g", OF assms(1) this] show ?thesis
    by (simp add: map_destinations_def dest_of_def)
qed

lemma record_withdrawn_fields [simp]:
  "rt_options (fold record_recently_withdrawn ws t) = rt_options t"
  "rt_max_routes (fold record_recently_withdrawn ws t) = rt_max_routes t"
  "rt_neighbours (fold record_recently_withdrawn ws t) = rt_neighbours t"
  "rt_destinations (fold record_recently_withdrawn ws t) = rt_destinations t"
  by (induction ws arbitrary: t) (simp_all add: record_recently_withdrawn_def)

lemma record_withdrawn_set:
  "distinct (rt_recently_withdrawn t) \<Longrightarrow>
   distinct (rt_recently_withdrawn (fold record_recently_withdrawn ws t)) \<and>
   set (rt_recently_withdrawn (fold record_recently_withdrawn ws t)) = set (rt_recently_withdrawn t) \<union> set ws"
  by (induction ws arbitrary: t) (auto simp: record_recently_withdrawn_def)

lemma prune_fields [simp]:
  "rt_options (prune_orphan_neighbours t) = rt_options t"
  "rt_max_routes (prune_orphan_neighbours t) = rt_max_routes t"
  "rt_destinations (prune_orphan_neighbours t) = rt_destinations t"
  "rt_recently_withdrawn (prune_orphan_neighbours t) = rt_recently_withdrawn t"
  by (simp_all add: prune_orphan_neighbours_def)

lemma filter_slots_bind:
  "(\<lambda>s. case s of None \<Rightarrow> None | Some x \<Rightarrow> if P x then Some x else None) =
   (\<lambda>s. Option.bind s (\<lambda>x. if P x then Some x else None))"
  by (rule ext) (simp split: option.splits)

lemma prune_neighbours:
  assumes "slots_distinct ns_neighbour (rt_neighbours t)"
  shows "slots_distinct ns_neighbour (rt_neighbours (prune_orphan_neighbours t)) \<and>
    slot_lookup ns_neighbour (rt_neighbours (prune_orphan_neighbours t)) =
      (\<lambda>k. if in_use t k then slot_lookup ns_neighbour (rt_neighbours t) k else None)"
proof -
  have "ns_neighbour y = ns_neighbour x"
    if "(if in_use t (ns_neighbour x) then Some x else None) = Some y" for x y
    using that by (simp split: if_splits)
  note b = slot_bind [where h = "\<lambda>x. if in_use t (ns_neighbour x) then Some x else None", OF assms this]
  have "Option.bind (slot_lookup ns_neighbour (rt_neighbours t) k)
      (\<lambda>x. if in_use t (ns_neighbour x) then Some x else None) =
      (if in_use t k then slot_lookup ns_neighbour (rt_neighbours t) k else None)" for k
    using slot_lookup_key [OF assms, of k]
    by (cases "slot_lookup ns_neighbour (rt_neighbours t) k") auto
  then show ?thesis
    using b by (simp add: prune_orphan_neighbours_def filter_slots_bind)
qed

lemma routes_bind:
  fixes h :: "route_state \<Rightarrow> route_state option"
  assumes "slots_distinct rs_neighbour (ds_routes d)" "\<And>x y. h x = Some y \<Longrightarrow> rs_neighbour y = rs_neighbour x"
  shows "slots_distinct rs_neighbour (map (\<lambda>s. Option.bind s h) (ds_routes d))"
    and "slot_lookup rs_neighbour (map (\<lambda>s. Option.bind s h) (ds_routes d)) = (\<lambda>k. Option.bind (routes_of d k) h)"
  using slot_bind [where h = h, OF assms] by auto

definition older :: "route_state \<Rightarrow> route_state option" where
  "older rt = age_route (Some rt)"

lemma older_eq:
  "older rt = (if unat (rs_obsolescence rt) \<le> 1 then None
     else Some (rt\<lparr>rs_obsolescence := rs_obsolescence rt - 1\<rparr>))"
proof -
  have "saturating_sub (rs_obsolescence rt) 1 = 0 \<longleftrightarrow> unat (rs_obsolescence rt) \<le> 1"
    using unat_saturating_sub [of "rs_obsolescence rt" 1] by (simp add: unat_eq_0 [symmetric] le_Suc_eq)
  moreover have "\<not> unat (rs_obsolescence rt) \<le> 1 \<Longrightarrow> saturating_sub (rs_obsolescence rt) 1 = rs_obsolescence rt - 1"
    by (simp add: saturating_sub_def word_le_nat_alt)
  ultimately show ?thesis
    by (simp add: older_def age_route_def Let_def)
qed

lemma age_routes: "map age_route ss = map (\<lambda>s. Option.bind s older) ss"
  by (intro map_cong refl) (simp add: older_def age_route_def split: option.splits)

lemma age_destination_spec:
  assumes "slots_distinct rs_neighbour (ds_routes d)"
  shows "slots_distinct rs_neighbour (ds_routes (age_destination d))"
    and "routes_of (age_destination d) = (\<lambda>k. Option.bind (routes_of d k) older)"
proof -
  have "older x = Some y \<Longrightarrow> rs_neighbour y = rs_neighbour x" for x y
    by (auto simp: older_eq split: if_splits)
  from routes_bind [OF assms this]
  show "slots_distinct rs_neighbour (ds_routes (age_destination d))"
    "routes_of (age_destination d) = (\<lambda>k. Option.bind (routes_of d k) older)"
    by (simp_all add: age_destination_def age_routes)
qed

lemma unroute_spec:
  assumes "slots_distinct rs_neighbour (ds_routes d)"
  shows "slots_distinct rs_neighbour (ds_routes (unroute nb d))"
    and "routes_of (unroute nb d) = (routes_of d)(nb := None)"
proof -
  let ?h = "\<lambda>x. if rs_neighbour x \<noteq> nb then Some x else None"
  have h: "(\<lambda>s. case s of None \<Rightarrow> None | Some rt \<Rightarrow> if rs_neighbour rt = nb then None else Some rt) =
      (\<lambda>s. Option.bind s ?h)"
    by (rule ext) (simp split: option.splits)
  have k: "?h x = Some y \<Longrightarrow> rs_neighbour y = rs_neighbour x" for x y
    by (simp split: if_splits)
  show "slots_distinct rs_neighbour (ds_routes (unroute nb d))"
    using routes_bind(1) [OF assms k] by (simp add: unroute_def h)
  have "Option.bind (routes_of d k) ?h = ((routes_of d)(nb := None)) k" for k
  proof (cases "routes_of d k")
    case (Some r)
    then have "rs_neighbour r = k"
      using slot_lookup_Some [OF assms] by blast
    then show ?thesis
      using Some by simp
  qed simp
  then show "routes_of (unroute nb d) = (routes_of d)(nb := None)"
    using routes_bind(2) [OF assms k] by (auto simp: unroute_def h)
qed

lemma ageing_fields [simp]:
  "ds_destination (age_destination d) = ds_destination d" "ds_destination (unroute nb d) = ds_destination d"
  "length (ds_routes (age_destination d)) = length (ds_routes d)"
  "length (ds_routes (unroute nb d)) = length (ds_routes d)"
  by (simp_all add: age_destination_def unroute_def)

lemma route_of_map:
  assumes "table_inv t" "\<And>d. ds_destination (g d) = ds_destination d"
    and "\<And>d. slots_distinct rs_neighbour (ds_routes d) \<Longrightarrow> routes_of (g d) = G (routes_of d)"
    and "G Map.empty = Map.empty"
  shows "route_of (map_destinations g t) dest = G (route_of t dest)"
proof (cases "dest_of t dest")
  case None
  then have "route_of t dest = Map.empty" "route_of (map_destinations g t) dest = Map.empty"
    using map_destinations_spec [OF table_invD(2) [OF assms(1)] assms(2)]
    by (simp_all add: route_of_def fun_eq_iff)
  then show ?thesis
    using assms(4) by simp
next
  case (Some d)
  have "routes_of (g d) = G (routes_of d)"
    using assms(3) table_invD(6) [OF assms(1) Some] by blast
  moreover have "route_of t dest = routes_of d" "route_of (map_destinations g t) dest = routes_of (g d)"
    using Some map_destinations_spec [OF table_invD(2) [OF assms(1)] assms(2)]
    by (auto simp: route_of_def fun_eq_iff prune_destination_def route_count_zero)
  ultimately show ?thesis
    by simp
qed

lemma map_destinations_inv:
  assumes "table_inv t" "\<And>d. ds_destination (g d) = ds_destination d"
    and "\<And>d d'. dest_inv (rt_options t) (rt_max_routes t) d \<Longrightarrow> prune_destination (g d) = Some d' \<Longrightarrow>
      dest_inv (rt_options t) (rt_max_routes t) d'"
  shows "table_inv (map_destinations g t)"
  using assms(1,3) map_destinations_spec [OF table_invD(2) [OF assms(1)] assms(2)]
  by (auto simp: table_inv_iff bind_eq_Some_conv)

lemma age_inv:
  assumes "dest_inv options n d" "prune_destination (age_destination d) = Some d'"
  shows "dest_inv options n d'"
proof -
  have ok: "route_ok options y" if "route_ok options x" "older x = Some y" for x y
  proof -
    have "rs_obsolescence x - 1 \<le> rs_obsolescence x" if "\<not> unat (rs_obsolescence x) \<le> 1"
      using that by (simp add: word_le_nat_alt unat_sub)
    then show ?thesis
      using that by (auto simp: older_eq route_ok_def split: if_splits intro: order.trans)
  qed
  have d: "slots_distinct rs_neighbour (ds_routes d)" "length (ds_routes d) = n"
    using assms(1) by (simp_all add: dest_inv_iff)
  have "route_ok options y" if "Option.bind (routes_of d nb) older = Some y" for nb y
    using that assms(1) ok by (auto simp: dest_inv_iff bind_eq_Some_conv)
  then show ?thesis
    using assms(2) age_destination_spec [OF d(1)] d
    by (auto simp: dest_inv_iff prune_destination_def route_count_zero split: if_splits)
qed

lemma unroute_inv:
  assumes "dest_inv options n d" "prune_destination (unroute nb d) = Some d'"
  shows "dest_inv options n d'"
  using assms unroute_spec [of d nb]
  by (auto simp: dest_inv_iff prune_destination_def route_count_zero split: if_splits)

lemma sweep_inv: "table_inv t \<Longrightarrow> table_inv (fst (sweep t))"
proof -
  assume t: "table_inv t"
  have m: "table_inv (map_destinations age_destination t)"
    using age_inv by (intro map_destinations_inv [OF t]) auto
  define ws where "ws = map ds_destination (filter (\<lambda>d. has_inp3 d \<and> \<not> has_inp3 (age_destination d))
    (slot_items (rt_destinations t)))"
  define u where "u = fold record_recently_withdrawn ws (map_destinations age_destination t)"
  have "table_inv u"
    using m record_withdrawn_set [of "map_destinations age_destination t" ws]
    by (simp add: table_inv_def u_def)
  then have "table_inv (prune_orphan_neighbours u)"
    using prune_neighbours [of u] by (simp add: table_inv_def)
  then show ?thesis
    by (simp add: sweep_def Let_def ws_def u_def)
qed

lemma drop_neighbour_distinct:
  assumes "slots_distinct ns_neighbour ns"
  shows "slots_distinct ns_neighbour (map (\<lambda>s. case s of None \<Rightarrow> None
    | Some n \<Rightarrow> if ns_neighbour n = nb then None else Some n) ns)"
proof -
  have h: "(\<lambda>s. case s of None \<Rightarrow> None | Some n \<Rightarrow> if ns_neighbour n = nb then None else Some n) =
      (\<lambda>s. Option.bind s (\<lambda>n. if ns_neighbour n = nb then None else Some n))"
    by (rule ext) (simp split: option.splits)
  have "(if ns_neighbour x = nb then None else Some x) = Some y \<Longrightarrow> ns_neighbour y = ns_neighbour x" for x y
    by (simp split: if_splits)
  from slot_bind(1) [where h = "\<lambda>n. if ns_neighbour n = nb then None else Some n", OF assms this]
  show ?thesis
    unfolding h .
qed

lemma mark_inv: "table_inv t \<Longrightarrow> table_inv (fst (mark_neighbour_down nb t))"
proof -
  assume t: "table_inv t"
  have m: "table_inv (map_destinations (unroute nb) t)"
    using unroute_inv by (intro map_destinations_inv [OF t]) auto
  define ws where "ws = map ds_destination (filter (\<lambda>d. removed_inp3 nb d \<and> \<not> has_inp3 (unroute nb d))
    (slot_items (rt_destinations t)))"
  define u where "u = fold record_recently_withdrawn ws (map_destinations (unroute nb) t)"
  define v where "v = u\<lparr>rt_neighbours := map (\<lambda>s. case s of None \<Rightarrow> None
            | Some n \<Rightarrow> if ns_neighbour n = nb then None else Some n) (rt_neighbours u)\<rparr>"
  have u: "table_inv u"
    using m record_withdrawn_set [of "map_destinations (unroute nb) t" ws]
    by (simp add: table_inv_def u_def)
  have "slots_distinct ns_neighbour (rt_neighbours v)"
    using drop_neighbour_distinct [OF table_invD(3) [OF u]] by (simp add: v_def)
  then have "table_inv v"
    using u by (simp add: table_inv_def v_def)
  then have "table_inv (prune_orphan_neighbours v)"
    using prune_neighbours [of v] by (simp add: table_inv_def)
  then show ?thesis
    by (simp add: mark_neighbour_down_def Let_def ws_def u_def v_def)
qed

end
