(* ===== verification/Netrom_Sntt.thy ===== *)
theory Netrom_Sntt
  imports Prelude
begin

text \<open>
  The smoothed neighbour transport time of INP3 (\<open>netrom/routing/inp3_sntt.rs\<close>): an integer
  low-pass filter over half round-trip times. The arithmetic is that of 32-bit words; the main lemma
  shows that no sum wraps for the values that the filter produces itself.
\<close>

definition SNTT_DEFAULT_GAIN_SHIFT :: u32 where "SNTT_DEFAULT_GAIN_SHIFT = 3"
definition SNTT_MIN_GAIN_SHIFT :: u32 where "SNTT_MIN_GAIN_SHIFT = 1"
definition SNTT_MAX_GAIN_SHIFT :: u32 where "SNTT_MAX_GAIN_SHIFT = 8"
definition SNTT_SAMPLE_MAX_MS :: u32 where "SNTT_SAMPLE_MAX_MS = 600000"
definition SNTT_UNSET :: u32 where "SNTT_UNSET = - 1"

record sntt =
  sn_ms :: u32

definition clamp_sample :: "u32 \<Rightarrow> u32" where
  "clamp_sample sample_ms = (if sample_ms > SNTT_SAMPLE_MAX_MS then SNTT_SAMPLE_MAX_MS else sample_ms)"

definition gain_shift_in_range :: "u32 \<Rightarrow> bool" where
  "gain_shift_in_range g \<longleftrightarrow> g \<ge> SNTT_MIN_GAIN_SHIFT \<and> g \<le> SNTT_MAX_GAIN_SHIFT"

definition sntt_fresh :: sntt where
  "sntt_fresh = \<lparr>sn_ms = SNTT_UNSET\<rparr>"

definition sntt_seed :: "u32 \<Rightarrow> sntt" where
  "sntt_seed sample_ms = \<lparr>sn_ms = clamp_sample sample_ms\<rparr>"

definition sntt_from_raw :: "u32 \<Rightarrow> sntt" where
  "sntt_from_raw ms = \<lparr>sn_ms = ms\<rparr>"

definition sntt_initialised :: "sntt \<Rightarrow> bool" where
  "sntt_initialised s \<longleftrightarrow> sn_ms s \<noteq> SNTT_UNSET"

definition sntt_value :: "sntt \<Rightarrow> u32 option" where
  "sntt_value s = (if sntt_initialised s then Some (sn_ms s) else None)"

text \<open>\<open>update\<close>: a gain out of range panics.\<close>

definition sntt_update :: "sntt \<Rightarrow> u32 \<Rightarrow> u32 \<Rightarrow> sntt panicking" where
  "sntt_update s sample_ms gain_shift =
     (if \<not> gain_shift_in_range gain_shift then None
      else
        let sample = clamp_sample sample_ms in
        if \<not> sntt_initialised s then Some \<lparr>sn_ms = sample\<rparr>
        else
          let denom = push_bit (unat gain_shift) 1;
              accumulator = (denom - 1) * sn_ms s + sample + drop_bit 1 denom
          in Some \<lparr>sn_ms = drop_bit (unat gain_shift) accumulator\<rparr>)"

definition sntt_update_default :: "sntt \<Rightarrow> u32 \<Rightarrow> sntt panicking" where
  "sntt_update_default s sample_ms = sntt_update s sample_ms SNTT_DEFAULT_GAIN_SHIFT"

definition smooth :: "u32 \<Rightarrow> u32 \<Rightarrow> u32 \<Rightarrow> u32 panicking" where
  "smooth current_ms sample_ms gain_shift =
     map_option sn_ms (sntt_update
       (if current_ms = SNTT_UNSET then sntt_fresh else sntt_from_raw current_ms) sample_ms gain_shift)"

section \<open>The filter over the naturals\<close>

definition blend :: "nat \<Rightarrow> nat \<Rightarrow> nat \<Rightarrow> nat" where
  "blend d cur s = ((d - 1) * cur + s + d div 2) div d"

lemma blend_between:
  assumes "0 < d"
  shows "min cur s \<le> blend d cur s \<and> blend d cur s \<le> max cur s"
proof -
  have d: "d * n = (d - 1) * n + n" for n
    using assms by (cases d) simp_all
  have "d * min cur s \<le> (d - 1) * cur + s + d div 2"
    unfolding d [of "min cur s"] by (intro trans_le_add1 add_mono mult_le_mono2) simp_all
  moreover have "(d - 1) * cur + s + d div 2 < d * (max cur s + 1)"
  proof -
    have "(d - 1) * cur + s \<le> d * max cur s"
      unfolding d [of "max cur s"] by (intro add_mono mult_le_mono2) simp_all
    moreover have "d div 2 < d"
      using assms by simp
    ultimately show ?thesis
      by (simp add: add_le_less_mono)
  qed
  ultimately show ?thesis
    using assms unfolding blend_def
    by (metis Suc_eq_plus1 less_Suc_eq_le less_mult_imp_div_less mult.commute div_le_mono nonzero_mult_div_cancel_left neq0_conv)
qed

lemma blend_closer:
  assumes "0 < d" "s < cur" "d div 2 < cur - s"
  shows "blend d cur s < cur"
proof -
  have d: "d * cur = (d - 1) * cur + cur"
    using assms(1) by (cases d) simp_all
  have "(d - 1) * cur + s + d div 2 < d * cur"
    unfolding d using assms(2,3) by linarith
  then show ?thesis
    unfolding blend_def by (simp add: less_mult_imp_div_less mult.commute)
qed

lemma blend_closer_below:
  assumes "0 < d" "cur < s" "d \<le> s - cur + d div 2"
  shows "cur < blend d cur s"
proof -
  have d: "d * (cur + 1) = (d - 1) * cur + cur + d"
    using assms(1) by (cases d) simp_all
  have "d * (cur + 1) \<le> (d - 1) * cur + s + d div 2"
    unfolding d using assms(2,3) by linarith
  then have "cur + 1 \<le> blend d cur s"
    unfolding blend_def using assms(1) by (metis div_le_mono nonzero_mult_div_cancel_left neq0_conv)
  then show ?thesis
    by simp
qed

definition gap :: "nat \<Rightarrow> nat \<Rightarrow> nat" where
  "gap a b = (a - b) + (b - a)"

lemma blend_gap:
  assumes "0 < d"
  shows "gap (blend d cur s) s \<le> gap cur s"
    and "d div 2 < gap cur s \<Longrightarrow> gap (blend d cur s) s < gap cur s"
proof -
  show "gap (blend d cur s) s \<le> gap cur s"
    using blend_between [OF assms, of cur s] by (auto simp: gap_def min_def max_def split: if_splits)
  show "gap (blend d cur s) s < gap cur s" if "d div 2 < gap cur s"
  proof (cases "s < cur")
    case True
    then show ?thesis
      using blend_closer [OF assms True] blend_between [OF assms, of cur s] that by (auto simp: gap_def)
  next
    case False
    then have "cur < s" "d \<le> s - cur + d div 2"
      using that by (auto simp: gap_def)
    then show ?thesis
      using blend_closer_below [OF assms, of cur s] blend_between [OF assms, of cur s] by (auto simp: gap_def)
  qed
qed

lemma blend_settles:
  assumes "0 < d"
  shows "gap (((\<lambda>c. blend d c s) ^^ n) cur) s \<le> max (d div 2) (gap cur s - n)"
proof (induction n)
  case (Suc n)
  let ?c = "((\<lambda>c. blend d c s) ^^ n) cur"
  show ?case
    using Suc blend_gap [OF assms, of ?c s] by (cases "d div 2 < gap ?c s") auto
qed simp

section \<open>The words\<close>

lemma clamp_sample_nat: "unat (clamp_sample s) = min (unat s) 600000"
  by (auto simp: clamp_sample_def SNTT_SAMPLE_MAX_MS_def word_less_nat_alt)

lemma unat_push_one:
  fixes g :: u32
  assumes "unat g \<le> 8"
  shows "unat (push_bit (unat g) (1 :: u32)) = 2 ^ unat g"
proof -
  have "(2 :: nat) ^ unat g < 2 ^ 32"
    using assms by (intro power_strict_increasing) simp_all
  moreover have "unat (push_bit (unat g) (1 :: u32)) = take_bit 32 (push_bit (unat g) 1)"
    unfolding unsigned_push_bit_eq by simp
  ultimately show ?thesis
    by (simp only: push_bit_of_1 take_bit_nat_eq_self)
qed

lemma gain_range: "gain_shift_in_range g \<longleftrightarrow> 1 \<le> unat g \<and> unat g \<le> 8"
  by (simp add: gain_shift_in_range_def SNTT_MIN_GAIN_SHIFT_def SNTT_MAX_GAIN_SHIFT_def word_le_nat_alt)

lemma unat_UNSET: "unat SNTT_UNSET = 4294967295"
  by (simp add: SNTT_UNSET_def unsigned_minus_1_eq_mask mask_eq_exp_minus_1)

lemma smooth_blend:
  assumes "1 \<le> unat g" "unat g \<le> 8" "unat cur \<le> 600000"
  shows "\<exists>r. smooth cur s g = Some r \<and> unat r = blend (2 ^ unat g) (unat cur) (min (unat s) 600000)"
proof -
  define D where "D = (2 :: nat) ^ unat g"
  have "D \<le> 2 ^ 8"
    unfolding D_def using assms(2) by (intro power_increasing) simp_all
  then have D: "D \<le> 256" "1 \<le> D"
    by (simp_all add: D_def)
  let ?one = "push_bit (unat g) (1 :: u32)"
  let ?acc = "(?one - 1) * cur + clamp_sample s + drop_bit 1 ?one"
  have one: "unat ?one = D"
    using unat_push_one [OF assms(2)] by (simp add: D_def)
  have less: "unat (?one - 1) = D - 1"
  proof -
    have "?one \<noteq> 0"
      using one D by (metis not_one_le_zero unat_0)
    from unat_minus_one [OF this] one show ?thesis
      by simp
  qed
  have prod: "(D - 1) * unat cur \<le> 255 * 600000"
    using D assms(3) by (intro mult_le_mono) simp_all
  have half: "unat (drop_bit 1 ?one) = D div 2"
    using one by (simp only: drop_bit_eq_div unat_div) simp
  have "unat ((?one - 1) * cur) = (D - 1) * unat cur"
    using prod less by (simp add: unat_mult_lem [THEN iffD1])
  moreover have "(D - 1) * unat cur + min (unat s) 600000 + D div 2 < 2 ^ 32"
    using prod D by simp
  ultimately have acc: "unat ?acc = (D - 1) * unat cur + min (unat s) 600000 + D div 2"
    using half by (simp add: unat_word_ariths clamp_sample_nat)
  have "cur \<noteq> SNTT_UNSET"
    using assms(3) unat_UNSET by auto
  then have "smooth cur s g = Some (drop_bit (unat g) ?acc)"
    using assms(1,2)
    by (simp add: smooth_def sntt_update_def gain_range sntt_from_raw_def sntt_initialised_def Let_def)
  moreover have "unat (drop_bit (unat g) ?acc) = unat ?acc div D"
    using one by (simp only: drop_bit_eq_div unat_div push_bit_of_1 [symmetric])
  ultimately show ?thesis
    using acc by (simp add: blend_def D_def)
qed

lemma smooth_unset:
  assumes "1 \<le> unat g" "unat g \<le> 8"
  shows "smooth SNTT_UNSET s g = Some (clamp_sample s)"
  using assms by (simp add: smooth_def sntt_update_def gain_range sntt_fresh_def sntt_initialised_def Let_def)

text \<open>One sample after the other, as the engine feeds them.\<close>

definition smooth_all :: "u32 \<Rightarrow> u32 list \<Rightarrow> u32 \<Rightarrow> u32 panicking" where
  "smooth_all cur samples g = fold (\<lambda>s c. Option.bind c (\<lambda>c. smooth c s g)) samples (Some cur)"

lemma smooth_all_append:
  "smooth_all cur (xs @ ys) g = Option.bind (smooth_all cur xs g) (\<lambda>c. smooth_all c ys g)"
proof -
  have "fold (\<lambda>s c. Option.bind c (\<lambda>c. smooth c s g)) ys None = None"
    by (induction ys) simp_all
  then show ?thesis
    by (cases "smooth_all cur xs g") (simp_all add: smooth_all_def)
qed

text \<open>What every later measurement finds.\<close>

definition sntt_ok :: "u32 \<Rightarrow> bool" where
  "sntt_ok ms \<longleftrightarrow> ms = SNTT_UNSET \<or> unat ms \<le> 600000"

lemma smooth_ok:
  assumes "1 \<le> unat g" "unat g \<le> 8" "sntt_ok cur"
  shows "\<exists>r. smooth cur s g = Some r \<and> unat r \<le> 600000"
proof (cases "cur = SNTT_UNSET")
  case True
  then show ?thesis
    using smooth_unset [OF assms(1,2), of s] by (simp add: clamp_sample_nat)
next
  case False
  then have "unat cur \<le> 600000"
    using assms(3) by (simp add: sntt_ok_def)
  then show ?thesis
    using smooth_blend [OF assms(1,2), of cur s] blend_between [of "2 ^ unat g" "unat cur" "min (unat s) 600000"]
    by auto
qed

lemma smooth_all_ok:
  assumes "1 \<le> unat g" "unat g \<le> 8" "sntt_ok cur" "samples \<noteq> []"
  shows "\<exists>r. smooth_all cur samples g = Some r \<and> unat r \<le> 600000"
  using assms(3,4)
proof (induction samples arbitrary: cur)
  case (Cons s samples)
  obtain r where r: "smooth cur s g = Some r" "unat r \<le> 600000"
    using smooth_ok [OF assms(1,2) Cons.prems(1)] by blast
  then have "smooth_all cur (s # samples) g = smooth_all r samples g"
    by (simp add: smooth_all_def)
  then show ?case
    using Cons.IH [of r] r by (cases "samples = []") (auto simp: sntt_ok_def smooth_all_def)
qed simp

lemma smooth_all_constant:
  assumes "1 \<le> unat g" "unat g \<le> 8" "unat cur \<le> 600000"
  shows "\<exists>r. smooth_all cur (replicate n s) g = Some r \<and> unat r \<le> 600000 \<and>
    unat r = ((\<lambda>c. blend (2 ^ unat g) c (min (unat s) 600000)) ^^ n) (unat cur)"
proof (induction n)
  case 0
  then show ?case
    using assms(3) by (simp add: smooth_all_def)
next
  case (Suc n)
  then obtain r where r: "smooth_all cur (replicate n s) g = Some r" "unat r \<le> 600000"
    "unat r = ((\<lambda>c. blend (2 ^ unat g) c (min (unat s) 600000)) ^^ n) (unat cur)"
    by blast
  have "smooth_all cur (replicate (Suc n) s) g = smooth r s g"
    using r(1) by (simp add: replicate_append_same [symmetric] smooth_all_append) (simp add: smooth_all_def)
  then show ?case
    using smooth_blend [OF assms(1,2) r(2), of s] smooth_ok [OF assms(1,2), of r s] r by (auto simp: sntt_ok_def)
qed

section \<open>Properties\<close>

text \<open>
  The filter never panics for a valid gain and never leaves the range up to the horizon, whatever
  it is fed. Its first sample seeds it; every later one moves it by the rounded weighted mean, without
  overflow, to between the old value and the sample; and under a steady sample it settles within half a
  denominator of that sample.
\<close>

theorem sntt_tracks:
  assumes g: "1 \<le> unat g" "unat g \<le> 8" and cur: "unat cur \<le> 600000"
    and x_def: "x = min (unat s) 600000"
  shows "smooth SNTT_UNSET s g = Some (clamp_sample s) \<and>
    (\<exists>r. smooth cur s g = Some r \<and> unat r = ((2 ^ unat g - 1) * unat cur + x + 2 ^ unat g div 2) div 2 ^ unat g \<and>
       min (unat cur) x \<le> unat r \<and> unat r \<le> max (unat cur) x) \<and>
    (samples \<noteq> [] \<longrightarrow> (\<exists>r. smooth_all SNTT_UNSET samples g = Some r \<and> unat r \<le> 600000)) \<and>
    (\<exists>r. smooth_all cur (replicate n s) g = Some r \<and>
       (600000 \<le> n \<longrightarrow> unat r \<le> x + 2 ^ unat g div 2 \<and> x \<le> unat r + 2 ^ unat g div 2))"
proof -
  let ?D = "2 ^ unat g :: nat"
  obtain r where r: "smooth cur s g = Some r" "unat r = blend ?D (unat cur) x"
    using smooth_blend [OF g cur] by (auto simp: x_def)
  have "smooth_all SNTT_UNSET samples g = Some r' \<Longrightarrow> samples \<noteq> [] \<Longrightarrow> unat r' \<le> 600000" for r'
    using smooth_all_ok [OF g, of SNTT_UNSET samples] by (auto simp: sntt_ok_def)
  obtain q where q: "smooth_all cur (replicate n s) g = Some q"
    "unat q = ((\<lambda>c. blend ?D c x) ^^ n) (unat cur)"
    using smooth_all_constant [OF g cur] by (auto simp: x_def)
  have "gap (unat q) x \<le> max (?D div 2) (gap (unat cur) x - n)"
    unfolding q(2) by (rule blend_settles) simp
  moreover have "gap (unat cur) x \<le> 600000"
    using cur by (auto simp: gap_def x_def)
  ultimately have "unat q \<le> x + ?D div 2 \<and> x \<le> unat q + ?D div 2" if "600000 \<le> n"
    using that by (auto simp: gap_def max_def split: if_splits)
  moreover have "\<exists>r. smooth_all SNTT_UNSET samples g = Some r \<and> unat r \<le> 600000" if "samples \<noteq> []"
    using smooth_all_ok [OF g _ that, of SNTT_UNSET] by (simp add: sntt_ok_def)
  ultimately show ?thesis
    using smooth_unset [OF g] r q(1) blend_between [of ?D "unat cur" x] by (auto simp: blend_def)
qed

theorem sntt_tracks_witness: "\<exists>r. smooth 100 180 3 = Some r \<and> unat r = 110"
  using sntt_tracks [of 3 100 180 180 "[]" 0] by auto

end
