(* ===== verification/Netrom_Inp3.thy ===== *)
theory Netrom_Inp3
  imports Netrom_Routing Netrom_Sntt
begin

text \<open>
  The measured-time side of the routing table (\<open>netrom/routing/table.rs\<close>): learning and withdrawing
  time routes from the frames of a neighbour, and the poison-reversed frame advertised to one. The
  times share the routes of the quality space but change neither their quality nor their neighbour.
\<close>

definition PER_HOP_INCREMENT_MS :: u32 where
  "PER_HOP_INCREMENT_MS = 10"

section \<open>Learning\<close>

text \<open>
  The tail of \<open>upsert_inp3_route\<close>: the metric of an existing route is set in place; a route known by
  its time alone has quality 0 and takes its place as any new route does.
\<close>

definition learn_time :: "routing_options \<Rightarrow> callsign \<Rightarrow> inp3_metric \<Rightarrow> dest_state \<Rightarrow> dest_state" where
  "learn_time options via metric d =
     (case route_index d via of
        Some i \<Rightarrow>
          (case ds_routes d ! i of
             None \<Rightarrow> d
           | Some rt \<Rightarrow> d\<lparr>ds_routes := (ds_routes d)[i := Some (rt\<lparr>rs_obsolescence := ro_obsolete_initial options,
               rs_inp3 := Some metric\<rparr>)]\<rparr>)
      | None \<Rightarrow>
          keep_route d \<lparr>rs_neighbour = via, rs_quality = quality_MIN,
            rs_obsolescence = ro_obsolete_initial options, rs_inp3 = Some metric\<rparr>)"

definition upsert_inp3_route :: "callsign \<Rightarrow> node_alias \<Rightarrow> callsign \<Rightarrow> inp3_metric \<Rightarrow> table \<Rightarrow> table" where
  "upsert_inp3_route destination al via metric t =
     (case destination_index t destination of
        Some i \<Rightarrow>
          (case rt_destinations t ! i of
             None \<Rightarrow> t
           | Some d0 \<Rightarrow> set_destination t i (Some (learn_time (rt_options t) via metric (refresh_alias al d0))))
      | None \<Rightarrow>
          (case slot_free (rt_destinations t) of
             None \<Rightarrow> t
           | Some i \<Rightarrow> set_destination t i (Some (learn_time (rt_options t) via metric
               \<lparr>ds_destination = destination, ds_alias = al, ds_routes = replicate (rt_max_routes t) None\<rparr>))))"

definition has_any_inp3_route :: "table \<Rightarrow> callsign \<Rightarrow> bool" where
  "has_any_inp3_route t destination =
     (case destination_index t destination of
        Some i \<Rightarrow> (case rt_destinations t ! i of None \<Rightarrow> False | Some d \<Rightarrow> has_inp3 d)
      | None \<Rightarrow> False)"

text \<open>A route keeps its place without its time if its quality is usable.\<close>

definition forget_time :: "routing_options \<Rightarrow> callsign \<Rightarrow> dest_state \<Rightarrow> dest_state" where
  "forget_time options via d =
     (case route_index d via of
        None \<Rightarrow> d
      | Some i \<Rightarrow>
          (case ds_routes d ! i of
             None \<Rightarrow> d
           | Some rt \<Rightarrow> d\<lparr>ds_routes := (ds_routes d)[i :=
               (if acceptable options (rs_quality rt) then Some (rt\<lparr>rs_inp3 := None\<rparr>) else None)]\<rparr>))"

definition withdraw_inp3 :: "callsign \<Rightarrow> callsign \<Rightarrow> table \<Rightarrow> table" where
  "withdraw_inp3 destination via t =
     (case destination_index t destination of
        None \<Rightarrow> t
      | Some i \<Rightarrow>
          (case rt_destinations t ! i of
             None \<Rightarrow> t
           | Some d \<Rightarrow>
               if \<not> removed_inp3 via d then t
               else
                 let d' = forget_time (rt_options t) via d;
                     t' = set_destination t i (if route_count d' = 0 then None else Some d')
                 in if \<not> has_any_inp3_route t' destination
                    then record_recently_withdrawn destination t' else t'))"

definition rip_alias :: "rip \<Rightarrow> node_alias" where
  "rip_alias r =
     (case rip_alias_into r (replicate 16 0) of
        Some (buf, n) \<Rightarrow> from_str_lossy (take n buf)
      | None \<Rightarrow> alias_EMPTY)"

text \<open>One round of the loop of \<open>ingest_rif\<close>; the sum is a 64-bit one and cannot wrap.\<close>

definition ingest_rip :: "callsign \<Rightarrow> callsign \<Rightarrow> u32 \<Rightarrow> u32 \<Rightarrow> rip \<Rightarrow> table \<Rightarrow> table" where
  "ingest_rip received_from my_call neighbour_sntt_ms effective_hop_limit r t =
     (let link_measured = (neighbour_sntt_ms \<noteq> SNTT_UNSET);
          local_target_time = ucast (rip_target_time_ms r) + ucast neighbour_sntt_ms + ucast PER_HOP_INCREMENT_MS :: u64
      in if is_horizon r \<or> (link_measured \<and> local_target_time \<ge> ucast HORIZON_MS)
         then withdraw_inp3 (rip_destination r) received_from t
         else if \<not> link_measured then t
         else
           let local_hop_count = ucast (rip_hop_count r) + 1 :: u32 in
           if local_hop_count > effective_hop_limit then t
           else if rip_destination r = my_call then t
           else upsert_inp3_route (rip_destination r) (rip_alias r) received_from
                  \<lparr>im_target_time_ms = ucast local_target_time, im_hop_count = ucast (min local_hop_count 255)\<rparr> t)"

definition ingest_rif :: "callsign \<Rightarrow> callsign \<Rightarrow> u32 \<Rightarrow> rif \<Rightarrow> u32 \<Rightarrow> table \<Rightarrow> table" where
  "ingest_rif received_from my_call neighbour_sntt_ms f hop_limit t =
     fold (ingest_rip received_from my_call neighbour_sntt_ms (max hop_limit 1)) (rif_rips f) t"

section \<open>Advertising\<close>

definition quantise10 :: "u32 \<Rightarrow> u32" where
  "quantise10 target_time_ms = min ((target_time_ms div 10) * 10) (HORIZON_MS - 10)"

text \<open>The scan over the kept routes: the first lowest time, and whether the neighbour is a next hop.\<close>

definition best_time :: "dest_state \<Rightarrow> inp3_metric option" where
  "best_time d = fold (\<lambda>rt best. case rs_inp3 rt of
      None \<Rightarrow> best
    | Some m \<Rightarrow>
        (case best of
           None \<Rightarrow> Some m
         | Some b \<Rightarrow> if im_target_time_ms m < im_target_time_ms b then Some m else Some b))
    (slot_items (ds_routes d)) None"

definition poisoned :: "callsign \<Rightarrow> dest_state \<Rightarrow> bool" where
  "poisoned nb d \<longleftrightarrow> (\<exists>rt \<in> set (slot_items (ds_routes d)). rs_neighbour rt = nb)"

definition advertise_time :: "callsign \<Rightarrow> callsign \<Rightarrow> dest_state \<Rightarrow> (rip \<times> u32) option" where
  "advertise_time my_call nb d =
     (if ds_destination d = my_call then None
      else case best_time d of
             None \<Rightarrow> None
           | Some m \<Rightarrow> Some
               (\<lparr>rip_destination = ds_destination d, rip_hop_count = im_hop_count m,
                 rip_target_time_ms = (if poisoned nb d then HORIZON_MS else quantise10 (im_target_time_ms m)),
                 rip_tlvs = []\<rparr>, im_target_time_ms m))"

text \<open>The stable sorts of the standard library, by the keys that the comparisons state.\<close>

definition build_rif :: "callsign \<Rightarrow> callsign \<Rightarrow> callsign list \<Rightarrow> table \<Rightarrow> rif" where
  "build_rif my_call to_target_neighbour recently_withdrawn t =
     (let dest_rips = sort_key (\<lambda>(r, time). (time, callsign_key (rip_destination r)))
            (List.map_filter (advertise_time my_call to_target_neighbour) (slot_items (rt_destinations t)));
          own = \<lparr>rip_destination = my_call, rip_hop_count = 0, rip_target_time_ms = 0, rip_tlvs = []\<rparr>;
          withdrawn = filter (\<lambda>wd. \<not> (wd = my_call \<or> (\<exists>r \<in> set dest_rips. rip_destination (fst r) = wd)))
            (sort_key callsign_key recently_withdrawn)
      in \<lparr>rif_rips = [own] @ map fst dest_rips @
            map (\<lambda>wd. \<lparr>rip_destination = wd, rip_hop_count = 0, rip_target_time_ms = HORIZON_MS,
                       rip_tlvs = []\<rparr>) withdrawn\<rparr>)"

definition recently_withdrawn :: "table \<Rightarrow> callsign list" where
  "recently_withdrawn t = sort_key callsign_key (rt_recently_withdrawn t)"

definition drain_recently_withdrawn :: "table \<Rightarrow> table \<times> callsign list" where
  "drain_recently_withdrawn t =
     (t\<lparr>rt_recently_withdrawn := []\<rparr>, sort_key callsign_key (rt_recently_withdrawn t))"

section \<open>One destination\<close>

lemma learn_time_fields [simp]:
  "length (ds_routes (learn_time options via m d)) = length (ds_routes d)"
  "ds_destination (learn_time options via m d) = ds_destination d"
  by (simp_all add: learn_time_def split: option.splits)

lemma forget_time_fields [simp]:
  "length (ds_routes (forget_time options via d)) = length (ds_routes d)"
  "ds_destination (forget_time options via d) = ds_destination d"
  by (simp_all add: forget_time_def split: option.splits)

definition timed :: "routing_options \<Rightarrow> inp3_metric \<Rightarrow> route_state \<Rightarrow> route_state" where
  "timed options m rt = rt\<lparr>rs_obsolescence := ro_obsolete_initial options, rs_inp3 := Some m\<rparr>"

definition time_route :: "routing_options \<Rightarrow> callsign \<Rightarrow> inp3_metric \<Rightarrow> route_state" where
  "time_route options via m = \<lparr>rs_neighbour = via, rs_quality = quality_MIN,
     rs_obsolescence = ro_obsolete_initial options, rs_inp3 = Some m\<rparr>"

lemma learn_time_known:
  assumes "slots_distinct rs_neighbour (ds_routes d)" "routes_of d via = Some rt"
  shows "slots_distinct rs_neighbour (ds_routes (learn_time options via m d))"
    and "routes_of (learn_time options via m d) = (routes_of d)(via \<mapsto> timed options m rt)"
proof -
  obtain i where ri: "route_index d via = Some i"
    using assms(2) route_index_None [of d via] by (cases "route_index d via") auto
  then obtain r where r: "i < length (ds_routes d)" "ds_routes d ! i = Some r" "rs_neighbour r = via"
    "routes_of d via = Some r"
    using route_index_Some [OF assms(1)] by blast
  have "rs_neighbour (timed options m rt) = rs_neighbour r"
    using r(4) assms(2) by (simp add: timed_def)
  note rep = slot_replace [OF assms(1) r(1,2) this]
  have eq: "ds_routes (learn_time options via m d) = (ds_routes d)[i := Some (timed options m rt)]"
    using ri r assms(2) by (simp add: learn_time_def timed_def)
  show "slots_distinct rs_neighbour (ds_routes (learn_time options via m d))"
    "routes_of (learn_time options via m d) = (routes_of d)(via \<mapsto> timed options m rt)"
    using rep r(3) by (simp_all add: eq)
qed

lemma learn_time_new:
  "routes_of d via = None \<Longrightarrow> learn_time options via m d = keep_route d (time_route options via m)"
  using route_index_None [of d via] by (simp add: learn_time_def time_route_def)

lemma learn_time_kept:
  assumes "slots_distinct rs_neighbour (ds_routes d)" "0 < length (ds_routes d)"
  shows "slots_distinct rs_neighbour (ds_routes (learn_time options via m d))"
    and "routes_of (learn_time options via m d) nb = Some x \<Longrightarrow>
      routes_of d nb = Some x \<or> x = time_route options via m \<or>
      (\<exists>rt. routes_of d via = Some rt \<and> nb = via \<and> x = timed options m rt)"
    and "routes_of (learn_time options via m d) \<noteq> Map.empty"
proof -
  have *: "slots_distinct rs_neighbour (ds_routes (learn_time options via m d)) \<and>
    (\<forall>nb x. routes_of (learn_time options via m d) nb = Some x \<longrightarrow>
      routes_of d nb = Some x \<or> x = time_route options via m \<or>
      (\<exists>rt. routes_of d via = Some rt \<and> nb = via \<and> x = timed options m rt)) \<and>
    routes_of (learn_time options via m d) \<noteq> Map.empty"
  proof (cases "routes_of d via")
    case None
    then show ?thesis
      using keep_route_kept [OF assms, of "time_route options via m"]
      by (auto simp: learn_time_new route_count_zero)
  next
    case (Some rt)
    then show ?thesis
      using learn_time_known [OF assms(1) Some, of options m] by auto
  qed
  then show "slots_distinct rs_neighbour (ds_routes (learn_time options via m d))"
    "routes_of (learn_time options via m d) nb = Some x \<Longrightarrow>
      routes_of d nb = Some x \<or> x = time_route options via m \<or>
      (\<exists>rt. routes_of d via = Some rt \<and> nb = via \<and> x = timed options m rt)"
    "routes_of (learn_time options via m d) \<noteq> Map.empty"
    by blast+
qed

lemma learn_time_inv:
  assumes "slots_distinct rs_neighbour (ds_routes d)" "length (ds_routes d) = n" "0 < n"
    and "\<And>nb x. routes_of d nb = Some x \<Longrightarrow> route_ok options x" "metric_ok m"
  shows "dest_inv options n (learn_time options via m d)"
proof -
  have "route_ok options (time_route options via m)"
    using assms(5) by (simp add: route_ok_def time_route_def)
  moreover have "route_ok options (timed options m rt)" if "routes_of d via = Some rt" for rt
    using assms(4) [OF that] assms(5) by (simp add: route_ok_def timed_def)
  ultimately have "route_ok options x" if "routes_of (learn_time options via m d) nb = Some x" for nb x
    using learn_time_kept(2) [OF assms(1) _ that] assms(2-4) by auto
  then show ?thesis
    using learn_time_kept [OF assms(1), of options via m] assms(2,3) by (auto simp: dest_inv_iff)
qed

text \<open>Clearing the time of one route.\<close>

definition untimed :: "routing_options \<Rightarrow> route_state \<Rightarrow> route_state option" where
  "untimed options rt = (if acceptable options (rs_quality rt) then Some (rt\<lparr>rs_inp3 := None\<rparr>) else None)"

lemma forget_time_spec:
  assumes "slots_distinct rs_neighbour (ds_routes d)"
  shows "slots_distinct rs_neighbour (ds_routes (forget_time options via d))"
    and "routes_of (forget_time options via d) = (routes_of d)(via := Option.bind (routes_of d via) (untimed options))"
proof -
  have "slots_distinct rs_neighbour (ds_routes (forget_time options via d)) \<and>
    routes_of (forget_time options via d) = (routes_of d)(via := Option.bind (routes_of d via) (untimed options))"
  proof (cases "route_index d via")
    case None
    then show ?thesis
      using assms route_index_None [of d via] by (auto simp: forget_time_def)
  next
    case (Some i)
    then obtain r where r: "i < length (ds_routes d)" "ds_routes d ! i = Some r" "rs_neighbour r = via"
      "routes_of d via = Some r"
      using assms route_index_Some by blast
    have "rs_neighbour (r\<lparr>rs_inp3 := None\<rparr>) = rs_neighbour r"
      by simp
    note rep = slot_replace [OF assms r(1,2) this] and cl = slot_clear [OF assms r(1,2)]
    show ?thesis
      using Some r rep cl by (auto simp: forget_time_def untimed_def)
  qed
  then show "slots_distinct rs_neighbour (ds_routes (forget_time options via d))"
    "routes_of (forget_time options via d) = (routes_of d)(via := Option.bind (routes_of d via) (untimed options))"
    by blast+
qed

lemma untimed_ok: "route_ok options rt \<Longrightarrow> untimed options rt = Some y \<Longrightarrow> route_ok options y"
  by (auto simp: untimed_def route_ok_def split: if_splits)

lemma forget_time_inv:
  assumes "dest_inv options n d" "prune_destination (forget_time options via d) = Some d'"
  shows "dest_inv options n d'"
  using assms forget_time_spec [of d options via]
  by (auto simp: dest_inv_iff prune_destination_def route_count_zero bind_eq_Some_conv split: if_splits
      intro: untimed_ok)

lemma removed_inp3_iff:
  assumes "slots_distinct rs_neighbour (ds_routes d)"
  shows "removed_inp3 via d \<longleftrightarrow> (\<exists>rt m. routes_of d via = Some rt \<and> rs_inp3 rt = Some m)"
proof (cases "route_index d via")
  case None
  then show ?thesis
    using route_index_None [of d via] by (simp add: removed_inp3_def)
next
  case (Some i)
  with assms show ?thesis
    by (auto simp: removed_inp3_def elim: route_index_Some)
qed

lemma has_inp3_iff:
  assumes "slots_distinct rs_neighbour (ds_routes d)"
  shows "has_inp3 d \<longleftrightarrow> (\<exists>nb rt. routes_of d nb = Some rt \<and> rs_inp3 rt \<noteq> None)"
  using slot_lookup_Some [OF assms] slot_lookup_key [OF assms] by (force simp: has_inp3_def slot_simps)

section \<open>The table\<close>

lemma set_destination_known:
  assumes "slots_distinct ds_destination (rt_destinations t)" "destination_index t k = Some i"
  shows "ds_destination d = k \<Longrightarrow> slots_distinct ds_destination (rt_destinations (set_destination t i (Some d))) \<and>
      dest_of (set_destination t i (Some d)) = (dest_of t)(k \<mapsto> d)"
    and "slots_distinct ds_destination (rt_destinations (set_destination t i None)) \<and>
      dest_of (set_destination t i None) = (dest_of t)(k := None)"
proof -
  obtain d0 where d0: "i < length (rt_destinations t)" "rt_destinations t ! i = Some d0" "ds_destination d0 = k"
    using destination_index_Some [OF assms] by blast
  show "slots_distinct ds_destination (rt_destinations (set_destination t i (Some d))) \<and>
      dest_of (set_destination t i (Some d)) = (dest_of t)(k \<mapsto> d)" if "ds_destination d = k"
    using slot_replace [OF assms(1) d0(1,2), of d] that d0(3) by (simp add: set_destination_def dest_of_def)
  show "slots_distinct ds_destination (rt_destinations (set_destination t i None)) \<and>
      dest_of (set_destination t i None) = (dest_of t)(k := None)"
    using slot_clear [OF assms(1) d0(1,2)] d0(3) by (simp add: set_destination_def dest_of_def)
qed

lemma set_destination_free:
  assumes "slots_distinct ds_destination (rt_destinations t)" "dest_of t k = None"
    and "slot_free (rt_destinations t) = Some i" "ds_destination d = k"
  shows "slots_distinct ds_destination (rt_destinations (set_destination t i (Some d))) \<and>
    dest_of (set_destination t i (Some d)) = (dest_of t)(k \<mapsto> d)"
  using slot_store [OF assms(1), of i d] slot_free_Some [OF assms(3)] assms(2,4)
  by (simp add: set_destination_def dest_of_def)

lemma free_iff_room: "slot_free (rt_destinations t) \<noteq> None \<longleftrightarrow> destination_count t < length (rt_destinations t)"
  using length_slot_items [of "rt_destinations t"] slot_free_None [of "rt_destinations t"]
  by (auto simp: destination_count_def le_less)

lemma upsert_inp3_fields [simp]:
  "rt_options (upsert_inp3_route dest al via m t) = rt_options t"
  "rt_max_routes (upsert_inp3_route dest al via m t) = rt_max_routes t"
  "rt_neighbours (upsert_inp3_route dest al via m t) = rt_neighbours t"
  "rt_recently_withdrawn (upsert_inp3_route dest al via m t) = rt_recently_withdrawn t"
  "length (rt_destinations (upsert_inp3_route dest al via m t)) = length (rt_destinations t)"
  by (simp_all add: upsert_inp3_route_def split: option.splits)

lemma upsert_inp3_dest_of:
  assumes "table_inv t"
  shows "slots_distinct ds_destination (rt_destinations (upsert_inp3_route dest al via m t)) \<and>
    dest_of (upsert_inp3_route dest al via m t) =
      (case dest_of t dest of
         Some d0 \<Rightarrow> (dest_of t)(dest \<mapsto> learn_time (rt_options t) via m (refresh_alias al d0))
       | None \<Rightarrow>
           if destination_count t < length (rt_destinations t)
           then (dest_of t)(dest \<mapsto> learn_time (rt_options t) via m (fresh_dest t dest al))
           else dest_of t)"
proof (cases "destination_index t dest")
  case (Some i)
  then obtain d0 where "rt_destinations t ! i = Some d0" "ds_destination d0 = dest" "dest_of t dest = Some d0"
    using table_invD(2) [OF assms] destination_index_Some by blast
  then show ?thesis
    using set_destination_known(1) [OF table_invD(2) [OF assms] Some] Some
    by (simp add: upsert_inp3_route_def)
next
  case None
  then have fresh: "dest_of t dest = None"
    by (simp add: destination_index_None)
  show ?thesis
  proof (cases "slot_free (rt_destinations t)")
    case full: None
    then show ?thesis
      using None fresh table_invD(2) [OF assms] free_iff_room [of t] by (simp add: upsert_inp3_route_def)
  next
    case (Some i)
    then show ?thesis
      using None fresh free_iff_room [of t] set_destination_free [OF table_invD(2) [OF assms] fresh Some]
      by (simp add: upsert_inp3_route_def fresh_dest_def)
  qed
qed

lemma upsert_inp3_inv:
  assumes "table_inv t" "metric_ok m"
  shows "table_inv (upsert_inp3_route dest al via m t)"
proof -
  note t = table_invD [OF assms(1)] and u = upsert_inp3_dest_of [OF assms(1), of dest al via m]
  have "dest_inv (rt_options t) (rt_max_routes t) (learn_time (rt_options t) via m (fresh_dest t dest al))"
    using t(1) assms(2) by (intro learn_time_inv) simp_all
  moreover have "dest_inv (rt_options t) (rt_max_routes t) (learn_time (rt_options t) via m (refresh_alias al d0))"
    if "dest_of t dest = Some d0" for d0
    using t(1) t(5) [OF that] assms(2) by (intro learn_time_inv) (auto simp: dest_inv_iff)
  ultimately show ?thesis
    using t(1-5) u by (auto simp: table_inv_iff split: option.splits if_splits)
qed

lemma has_any_inp3_iff:
  assumes "slots_distinct ds_destination (rt_destinations t)"
  shows "has_any_inp3_route t k \<longleftrightarrow> (\<exists>d. dest_of t k = Some d \<and> has_inp3 d)"
proof (cases "destination_index t k")
  case None
  then show ?thesis
    using destination_index_None [of t k] by (simp add: has_any_inp3_route_def)
next
  case (Some i)
  with assms show ?thesis
    by (auto simp: has_any_inp3_route_def elim: destination_index_Some)
qed

lemma record_one_fields [simp]:
  "rt_options (record_recently_withdrawn k t) = rt_options t"
  "rt_max_routes (record_recently_withdrawn k t) = rt_max_routes t"
  "rt_neighbours (record_recently_withdrawn k t) = rt_neighbours t"
  "rt_destinations (record_recently_withdrawn k t) = rt_destinations t"
  "dest_of (record_recently_withdrawn k t) = dest_of t"
  by (simp_all add: record_recently_withdrawn_def dest_of_def)

lemma has_any_record: "has_any_inp3_route (record_recently_withdrawn k t) = has_any_inp3_route t"
  unfolding has_any_inp3_route_def destination_index_def record_one_fields ..

lemma withdraw_fields [simp]:
  "rt_options (withdraw_inp3 dest via t) = rt_options t"
  "rt_max_routes (withdraw_inp3 dest via t) = rt_max_routes t"
  "rt_neighbours (withdraw_inp3 dest via t) = rt_neighbours t"
  "length (rt_destinations (withdraw_inp3 dest via t)) = length (rt_destinations t)"
  by (simp_all add: withdraw_inp3_def Let_def split: option.splits)

lemma withdraw_dest_of:
  assumes "table_inv t"
  shows "slots_distinct ds_destination (rt_destinations (withdraw_inp3 dest via t)) \<and>
    dest_of (withdraw_inp3 dest via t) =
      (case dest_of t dest of
         Some d \<Rightarrow> if removed_inp3 via d
           then (dest_of t)(dest := prune_destination (forget_time (rt_options t) via d)) else dest_of t
       | None \<Rightarrow> dest_of t)"
    and "distinct (rt_recently_withdrawn (withdraw_inp3 dest via t))"
    and "set (rt_recently_withdrawn (withdraw_inp3 dest via t)) = set (rt_recently_withdrawn t) \<union>
      (if has_any_inp3_route t dest \<and> \<not> has_any_inp3_route (withdraw_inp3 dest via t) dest then {dest} else {})"
proof -
  note t = table_invD [OF assms]
  have "slots_distinct ds_destination (rt_destinations (withdraw_inp3 dest via t)) \<and>
    dest_of (withdraw_inp3 dest via t) =
      (case dest_of t dest of
         Some d \<Rightarrow> if removed_inp3 via d
           then (dest_of t)(dest := prune_destination (forget_time (rt_options t) via d)) else dest_of t
       | None \<Rightarrow> dest_of t) \<and>
    distinct (rt_recently_withdrawn (withdraw_inp3 dest via t)) \<and>
    set (rt_recently_withdrawn (withdraw_inp3 dest via t)) = set (rt_recently_withdrawn t) \<union>
      (if has_any_inp3_route t dest \<and> \<not> has_any_inp3_route (withdraw_inp3 dest via t) dest then {dest} else {})"
  proof (cases "destination_index t dest")
    case None
    then show ?thesis
      using t(2,4) destination_index_None [of t dest] by (simp add: withdraw_inp3_def)
  next
    case (Some i)
    then obtain d where d: "rt_destinations t ! i = Some d" "ds_destination d = dest" "dest_of t dest = Some d"
      using t(2) destination_index_Some by blast
    let ?d' = "forget_time (rt_options t) via d"
    let ?t' = "set_destination t i (if route_count ?d' = 0 then None else Some ?d')"
    show ?thesis
    proof (cases "removed_inp3 via d")
      case False
      then show ?thesis
        using Some d t(2,4) by (simp add: withdraw_inp3_def)
    next
      case True
      then have "has_inp3 d"
        using removed_inp3_iff [OF t(6) [OF d(3)]] has_inp3_iff [OF t(6) [OF d(3)]] by fastforce
      then have had: "has_any_inp3_route t dest"
        using has_any_inp3_iff [OF t(2)] d(3) by simp
      define t' where "t' = ?t'"
      have t': "slots_distinct ds_destination (rt_destinations t')"
          "dest_of t' = (dest_of t)(dest := prune_destination ?d')"
          "rt_recently_withdrawn t' = rt_recently_withdrawn t"
        using set_destination_known [OF t(2) Some] d(2) by (simp_all add: t'_def prune_destination_def)
      have w: "withdraw_inp3 dest via t =
          (if \<not> has_any_inp3_route t' dest then record_recently_withdrawn dest t' else t')"
        using Some d(1) True by (simp add: withdraw_inp3_def Let_def t'_def)
      then have "has_any_inp3_route (withdraw_inp3 dest via t) = has_any_inp3_route t'"
        "rt_destinations (withdraw_inp3 dest via t) = rt_destinations t'"
        "dest_of (withdraw_inp3 dest via t) = dest_of t'"
        by (simp_all add: has_any_record)
      moreover have "rt_recently_withdrawn (withdraw_inp3 dest via t) =
          (if \<not> has_any_inp3_route t' dest \<and> dest \<notin> set (rt_recently_withdrawn t)
           then rt_recently_withdrawn t @ [dest] else rt_recently_withdrawn t)"
        using t'(3) by (simp add: w record_recently_withdrawn_def)
      ultimately show ?thesis
        using True had d(3) t(4) t'(1,2) by auto
    qed
  qed
  then show "slots_distinct ds_destination (rt_destinations (withdraw_inp3 dest via t)) \<and>
    dest_of (withdraw_inp3 dest via t) =
      (case dest_of t dest of
         Some d \<Rightarrow> if removed_inp3 via d
           then (dest_of t)(dest := prune_destination (forget_time (rt_options t) via d)) else dest_of t
       | None \<Rightarrow> dest_of t)"
    "distinct (rt_recently_withdrawn (withdraw_inp3 dest via t))"
    "set (rt_recently_withdrawn (withdraw_inp3 dest via t)) = set (rt_recently_withdrawn t) \<union>
      (if has_any_inp3_route t dest \<and> \<not> has_any_inp3_route (withdraw_inp3 dest via t) dest then {dest} else {})"
    by blast+
qed

lemma withdraw_inv:
  assumes "table_inv t"
  shows "table_inv (withdraw_inp3 dest via t)"
  using table_invD [OF assms] withdraw_dest_of [OF assms, of dest via]
  by (auto simp: table_inv_iff split: option.splits if_splits intro: forget_time_inv)

section \<open>One entry of a received frame\<close>

lemma unat_widen:
  "unat (ucast (b :: u8) :: u32) = unat b" "unat (ucast (w :: u32) :: u64) = unat w"
proof -
  have "unat w < 2 ^ LENGTH(32)"
    by (rule unsigned_less)
  then show "unat (ucast (b :: u8) :: u32) = unat b" "unat (ucast (w :: u32) :: u64) = unat w"
    using unat_u8_le [of b] by (simp_all add: unsigned_ucast_eq take_bit_eq_mod)
qed

lemma unat_narrow:
  "unat (ucast (w :: u32) :: u8) = unat w mod 256" "unat (ucast (v :: u64) :: u32) = unat v mod 4294967296"
  by (simp_all add: unsigned_ucast_eq take_bit_eq_mod unat_mod)

lemma unat_time:
  fixes sn :: u32
  shows "unat (ucast (rip_target_time_ms r) + ucast sn + ucast PER_HOP_INCREMENT_MS :: u64) =
    unat (rip_target_time_ms r) + unat sn + 10"
proof -
  have "unat w < 2 ^ LENGTH(32)" for w :: u32
    by (rule unsigned_less)
  from this [of sn] this [of "rip_target_time_ms r"] show ?thesis
    by (simp add: unat_word_ariths unat_widen PER_HOP_INCREMENT_MS_def)
qed

lemma unat_HORIZON: "unat HORIZON_MS = 600000"
  by (simp add: HORIZON_MS_def HORIZON_UNITS_def)

definition learned_metric :: "rip \<Rightarrow> u32 \<Rightarrow> inp3_metric" where
  "learned_metric r sn = \<lparr>im_target_time_ms = rip_target_time_ms r + sn + PER_HOP_INCREMENT_MS,
     im_hop_count = ucast (min (ucast (rip_hop_count r) + 1) 255 :: u32)\<rparr>"

lemma learned_metric_nat:
  "unat (im_hop_count (learned_metric r sn)) = min (unat (rip_hop_count r) + 1) 255"
proof -
  have h: "unat (rip_hop_count r) \<le> 255"
    by (rule unat_u8_le)
  then have "unat (min (ucast (rip_hop_count r) + 1) 255 :: u32) = min (unat (rip_hop_count r) + 1) 255"
    by (simp add: min_def word_le_nat_alt unat_word_ariths unat_widen)
  then show ?thesis
    using h by (simp add: learned_metric_def unat_narrow)
qed

text \<open>The three things that an entry can do.\<close>

definition withdraws :: "u32 \<Rightarrow> rip \<Rightarrow> bool" where
  "withdraws sn r \<longleftrightarrow> is_horizon r \<or> sn \<noteq> SNTT_UNSET \<and> unat (rip_target_time_ms r) + unat sn + 10 \<ge> 600000"

definition teaches :: "callsign \<Rightarrow> u32 \<Rightarrow> u32 \<Rightarrow> rip \<Rightarrow> bool" where
  "teaches me sn limit r \<longleftrightarrow> \<not> withdraws sn r \<and> sn \<noteq> SNTT_UNSET \<and>
     unat (rip_hop_count r) + 1 \<le> unat limit \<and> rip_destination r \<noteq> me"

lemma ingest_rip_eq:
  "ingest_rip nb me sn limit r t =
     (if withdraws sn r then withdraw_inp3 (rip_destination r) nb t
      else if teaches me sn limit r
      then upsert_inp3_route (rip_destination r) (rip_alias r) nb (learned_metric r sn) t
      else t)"
proof -
  let ?time = "ucast (rip_target_time_ms r) + ucast sn + ucast PER_HOP_INCREMENT_MS :: u64"
  have "unat (ucast HORIZON_MS :: u64) = 600000"
    by (simp add: HORIZON_MS_def HORIZON_UNITS_def)
  then have w: "is_horizon r \<or> (sn \<noteq> SNTT_UNSET \<and> ?time \<ge> ucast HORIZON_MS) \<longleftrightarrow> withdraws sn r"
    by (simp only: withdraws_def word_le_nat_alt unat_time)
  have "unat (ucast (rip_hop_count r) + 1 :: u32) = unat (rip_hop_count r) + 1"
    using unat_u8_le [of "rip_hop_count r"] by (simp add: unat_word_ariths unat_widen)
  then have h: "(ucast (rip_hop_count r) + 1 > limit) \<longleftrightarrow> \<not> unat (rip_hop_count r) + 1 \<le> unat limit"
    by (simp only: word_less_nat_alt not_le)
  have c: "ucast ?time = rip_target_time_ms r + sn + PER_HOP_INCREMENT_MS"
  proof (rule word_unat_eq_iff [THEN iffD2])
    show "unat (ucast ?time :: u32) = unat (rip_target_time_ms r + sn + PER_HOP_INCREMENT_MS)"
      unfolding unat_narrow unat_time by (simp add: unat_word_ariths PER_HOP_INCREMENT_MS_def mod_simps)
  qed
  show ?thesis
    unfolding ingest_rip_def Let_def w h c by (auto simp: teaches_def learned_metric_def)
qed

lemma learned_metric_ok:
  assumes "teaches me sn limit r"
  shows "metric_ok (learned_metric r sn)"
    and "unat (im_target_time_ms (learned_metric r sn)) = unat (rip_target_time_ms r) + unat sn + 10"
proof -
  have less: "unat (rip_target_time_ms r) + unat sn + 10 < 600000"
    using assms by (auto simp: teaches_def withdraws_def)
  then show time: "unat (im_target_time_ms (learned_metric r sn)) = unat (rip_target_time_ms r) + unat sn + 10"
    by (simp add: learned_metric_def unat_word_ariths PER_HOP_INCREMENT_MS_def)
  have "1 \<le> unat (im_hop_count (learned_metric r sn))"
    unfolding learned_metric_nat by simp
  then show "metric_ok (learned_metric r sn)"
    using less time by (simp add: metric_ok_def word_le_nat_alt word_less_nat_alt unat_HORIZON)
qed

lemma ingest_rip_inv: "table_inv t \<Longrightarrow> table_inv (ingest_rip nb me sn limit r t)"
  by (simp add: ingest_rip_eq withdraw_inv upsert_inp3_inv learned_metric_ok(1))

interpretation timing: state_machine "ingest_rip nb me sn limit" table_inv
  by unfold_locales (rule ingest_rip_inv)

lemma ingest_rif_inv: "table_inv t \<Longrightarrow> table_inv (ingest_rif nb me sn f limit t)"
  unfolding ingest_rif_def by (rule timing.run_inv)

lemma ingest_rip_fields [simp]:
  "rt_options (ingest_rip nb me sn limit r t) = rt_options t"
  "rt_max_routes (ingest_rip nb me sn limit r t) = rt_max_routes t"
  "rt_neighbours (ingest_rip nb me sn limit r t) = rt_neighbours t"
  "length (rt_destinations (ingest_rip nb me sn limit r t)) = length (rt_destinations t)"
  by (simp_all add: ingest_rip_eq)

lemma ingest_rif_fields [simp]:
  "rt_options (ingest_rif nb me sn f limit t) = rt_options t"
  "rt_max_routes (ingest_rif nb me sn f limit t) = rt_max_routes t"
  "rt_neighbours (ingest_rif nb me sn f limit t) = rt_neighbours t"
  "length (rt_destinations (ingest_rif nb me sn f limit t)) = length (rt_destinations t)"
proof -
  have "rt_options (fold (ingest_rip nb me sn l) rs t) = rt_options t \<and>
      rt_max_routes (fold (ingest_rip nb me sn l) rs t) = rt_max_routes t \<and>
      rt_neighbours (fold (ingest_rip nb me sn l) rs t) = rt_neighbours t \<and>
      length (rt_destinations (fold (ingest_rip nb me sn l) rs t)) = length (rt_destinations t)" for l rs
    by (induction rs arbitrary: t) simp_all
  then show "rt_options (ingest_rif nb me sn f limit t) = rt_options t"
    "rt_max_routes (ingest_rif nb me sn f limit t) = rt_max_routes t"
    "rt_neighbours (ingest_rif nb me sn f limit t) = rt_neighbours t"
    "length (rt_destinations (ingest_rif nb me sn f limit t)) = length (rt_destinations t)"
    by (simp_all add: ingest_rif_def)
qed

text \<open>The node itself is never taught.\<close>

lemma ingest_rip_self:
  assumes "table_inv t" "dest_of t me = None"
  shows "dest_of (ingest_rip nb me sn limit r t) me = None"
  using withdraw_dest_of(1) [OF assms(1), of "rip_destination r" nb]
    upsert_inp3_dest_of [OF assms(1), of "rip_destination r" "rip_alias r" nb "learned_metric r sn"] assms(2)
  by (cases "rip_destination r = me") (auto simp: ingest_rip_eq teaches_def split: option.splits)

lemma ingest_rif_self:
  assumes "table_inv t" "dest_of t me = None"
  shows "dest_of (ingest_rif nb me sn f limit t) me = None"
proof -
  have "table_inv t \<Longrightarrow> dest_of t me = None \<Longrightarrow> dest_of (fold (ingest_rip nb me sn l) rs t) me = None" for l rs t
    by (induction rs arbitrary: t) (simp_all add: ingest_rip_inv ingest_rip_self)
  then show ?thesis
    using assms by (simp add: ingest_rif_def)
qed

end
