(* ===== verification/Netrom_Routing_Props.thy ===== *)
theory Netrom_Routing_Props
  imports Netrom_Inp3
begin

text \<open>
  The properties of the routing table: the quality arithmetic, the invariant over every sequence of
  broadcasts, sweeps and link failures, learning, ageing, failover, and next-hop selection.
\<close>

section \<open>Quality\<close>

lemma unat_combine: "unat (combine b p) = (unat b * unat p + 128) div 256"
proof -
  have b: "unat b \<le> 255" "unat p \<le> 255"
    by (rule unat_u8_le)+
  then have prod: "unat b * unat p \<le> 255 * 255"
    by (intro mult_le_mono)
  have u: "unat (ucast b :: u32) = unat b" "unat (ucast p :: u32) = unat p"
    using b by (simp_all add: unsigned_ucast_eq take_bit_eq_mod)
  have "unat (ucast b * ucast p + 128 :: u32) = unat b * unat p + 128"
    using prod by (simp add: unat_word_ariths u)
  then have d: "unat ((ucast b * ucast p + 128 :: u32) div 256) = (unat b * unat p + 128) div 256"
    by (simp add: unat_div)
  moreover have small: "(unat b * unat p + 128) div 256 \<le> 254"
    using prod by simp
  ultimately have "min ((ucast b * ucast p + 128 :: u32) div 256) (ucast quality_MAX)
      = (ucast b * ucast p + 128) div 256"
    by (simp add: quality_MAX_def min_def word_le_nat_alt)
  then have "combine b p = ucast ((ucast b * ucast p + 128 :: u32) div 256)"
    by (simp add: combine_def Let_def)
  then show ?thesis
    using d small by (simp add: unsigned_ucast_eq take_bit_eq_mod)
qed

text \<open>
  Combining an advertised quality with the path quality computes the product over 256 rounded to
  nearest without overflow: it never exceeds either quality, never reaches 255, is within half a
  unit of the exact value, is monotone in both arguments and gives 0 from 0.
\<close>

theorem quality_combine_spec:
  "unat (combine b p) = (unat b * unat p + 128) div 256 \<and> combine b p \<le> b \<and> combine b p \<le> p \<and>
   unat (combine b p) \<le> 254 \<and>
   (b \<le> b' \<and> p \<le> p' \<longrightarrow> combine b p \<le> combine b' p') \<and>
   combine 0 p = 0 \<and> combine b 0 = 0"
proof -
  have b: "unat b \<le> 255" "unat p \<le> 255"
    by (rule unat_u8_le)+
  then have "unat b * unat p \<le> unat b * 255" "unat b * unat p \<le> 255 * unat p" "unat b * unat p \<le> 255 * 255"
    using mult_le_mono [of "unat b" 255 "unat p" 255] by simp_all
  moreover have "(x + 128) div 256 \<le> y" if "x \<le> 255 * y" for x y :: nat
  proof -
    have "x + 128 < Suc y * 256"
      using that by simp
    then show ?thesis
      by (metis less_Suc_eq_le less_mult_imp_div_less)
  qed
  ultimately have le: "(unat b * unat p + 128) div 256 \<le> unat b" "(unat b * unat p + 128) div 256 \<le> unat p"
    "(unat b * unat p + 128) div 256 \<le> 254"
    by (simp_all add: mult.commute)
  have mono: "(unat b * unat p + 128) div 256 \<le> (unat b' * unat p' + 128) div 256" if "b \<le> b' \<and> p \<le> p'"
    using that by (intro div_le_mono add_le_mono mult_le_mono) (simp_all add: word_le_nat_alt)
  have "unat (combine 0 p) = 0" "unat (combine b 0) = 0"
    by (simp_all add: unat_combine)
  then have "combine 0 p = 0" "combine b 0 = 0"
    by (simp_all only: unsigned_eq_0_iff)
  then show ?thesis
    using le mono by (simp add: word_le_nat_alt unat_combine)
qed

theorem quality_combine_spec_witness:
  "unat (combine 200 200) = 156 \<and> combine 100 100 \<le> combine 200 200"
proof -
  have "(100 :: u8) \<le> 200 \<and> (100 :: u8) \<le> 200"
    by (simp add: word_le_nat_alt)
  then show ?thesis
    using quality_combine_spec [of 200 200] quality_combine_spec [of 100 100 200 200] by simp
qed

section \<open>Every history keeps the table well formed\<close>

datatype table_event =
  Heard callsign callsign port_id nodes_broadcast u64
| Swept
| LinkDown callsign
| Timed callsign callsign u32 rif u32
| WithdrawalsTaken

fun table_step :: "table_event \<Rightarrow> table \<Rightarrow> table" where
  "table_step (Heard originator my_call port b now) t = ingest originator my_call port b now t"
| "table_step Swept t = fst (sweep t)"
| "table_step (LinkDown nb) t = fst (mark_neighbour_down nb t)"
| "table_step (Timed received_from my_call sntt_ms f hop_limit) t = ingest_rif received_from my_call sntt_ms f hop_limit t"
| "table_step WithdrawalsTaken t = fst (drain_recently_withdrawn t)"

lemma drain_inv: "table_inv t \<Longrightarrow> table_inv (fst (drain_recently_withdrawn t))"
  by (simp add: drain_recently_withdrawn_def table_inv_def)

interpretation routing: state_machine table_step table_inv
proof
  show "table_inv t \<Longrightarrow> table_inv (table_step e t)" for t e
    by (cases e) (simp_all add: ingest_inv sweep_inv mark_inv ingest_rif_inv drain_inv)
qed

lemma table_new_inv: "0 < max_routes \<Longrightarrow> table_inv (table_new max_dests max_routes max_nbrs options)"
  by (simp add: table_new_def table_inv_def)

lemma sweep_capacity:
  "rt_options (fst (sweep t)) = rt_options t" "rt_max_routes (fst (sweep t)) = rt_max_routes t"
  "length (rt_destinations (fst (sweep t))) = length (rt_destinations t)"
  "length (rt_neighbours (fst (sweep t))) = length (rt_neighbours t)"
  by (simp_all add: sweep_def Let_def) (simp_all add: map_destinations_def prune_orphan_neighbours_def)

lemma mark_capacity:
  "rt_options (fst (mark_neighbour_down nb t)) = rt_options t"
  "rt_max_routes (fst (mark_neighbour_down nb t)) = rt_max_routes t"
  "length (rt_destinations (fst (mark_neighbour_down nb t))) = length (rt_destinations t)"
  "length (rt_neighbours (fst (mark_neighbour_down nb t))) = length (rt_neighbours t)"
  by (simp_all add: mark_neighbour_down_def Let_def prune_orphan_neighbours_def) (simp add: map_destinations_def)

lemma ingest_entries_fields:
  "rt_options (fold (ingest_entry my originator pq) es t) = rt_options t \<and>
   rt_max_routes (fold (ingest_entry my originator pq) es t) = rt_max_routes t \<and>
   length (rt_destinations (fold (ingest_entry my originator pq) es t)) = length (rt_destinations t) \<and>
   rt_neighbours (fold (ingest_entry my originator pq) es t) = rt_neighbours t"
  by (induction es arbitrary: t) (simp_all add: ingest_entry_def)

lemma ingest_capacity:
  "rt_options (ingest originator my port b now t) = rt_options t"
  "rt_max_routes (ingest originator my port b now t) = rt_max_routes t"
  "length (rt_destinations (ingest originator my port b now t)) = length (rt_destinations t)"
  "length (rt_neighbours (ingest originator my port b now t)) = length (rt_neighbours t)"
proof -
  obtain t1 pq where t1: "ingest_neighbour originator port (nb_sender_alias b) now t = (t1, pq)"
    by fastforce
  then have "length (rt_neighbours t1) = length (rt_neighbours t)"
    by (auto simp: ingest_neighbour_def Let_def split: option.splits)
  then show "rt_options (ingest originator my port b now t) = rt_options t"
    "rt_max_routes (ingest originator my port b now t) = rt_max_routes t"
    "length (rt_destinations (ingest originator my port b now t)) = length (rt_destinations t)"
    "length (rt_neighbours (ingest originator my port b now t)) = length (rt_neighbours t)"
    using ingest_neighbour_fields [OF t1] by (simp_all add: ingest_def t1 ingest_entries_fields)
qed

lemma run_capacity:
  "rt_options (fold table_step es t) = rt_options t \<and> rt_max_routes (fold table_step es t) = rt_max_routes t \<and>
   length (rt_destinations (fold table_step es t)) = length (rt_destinations t) \<and>
   length (rt_neighbours (fold table_step es t)) = length (rt_neighbours t)"
proof (induction es arbitrary: t)
  case (Cons e es)
  show ?case
    using Cons.IH [of "table_step e t"]
    by (cases e) (simp_all add: sweep_capacity mark_capacity ingest_capacity, simp_all add: drain_recently_withdrawn_def)
qed simp

text \<open>
  C34: after any sequence of broadcasts, measured-time frames, sweeps and link failures the table is
  within its capacities, holds each destination once, with at least one and at most \<open>MAX_ROUTES\<close>
  routes, one per neighbour, each above the quality floor or carrying a measured time, and no older
  than freshly learned; a measured time is at least the per-hop increment and below the horizon.
\<close>

theorem table_bounded:
  assumes "0 < max_routes" and t_def: "t = fold table_step es (table_new max_dests max_routes max_nbrs options)"
  shows "destination_count t \<le> max_dests \<and> neighbour_count t \<le> max_nbrs \<and>
    distinct (map ds_destination (slot_items (rt_destinations t))) \<and>
    (\<forall>d \<in> set (slot_items (rt_destinations t)).
       1 \<le> route_count d \<and> route_count d \<le> max_routes \<and>
       distinct (map rs_neighbour (slot_items (ds_routes d))) \<and>
       (\<forall>r \<in> set (slot_items (ds_routes d)).
          rs_obsolescence r \<le> ro_obsolete_initial options \<and>
          (rs_inp3 r = None \<longrightarrow> rs_quality r > 0 \<and> rs_quality r \<ge> ro_min_quality options) \<and>
          (\<forall>m. rs_inp3 r = Some m \<longrightarrow> 10 \<le> im_target_time_ms m \<and> im_target_time_ms m < 600000)))"
proof -
  have inv: "table_inv t"
    unfolding t_def by (intro routing.run_inv table_new_inv assms(1))
  have cap: "rt_options t = options" "rt_max_routes t = max_routes"
    "length (rt_destinations t) = max_dests" "length (rt_neighbours t) = max_nbrs"
    using run_capacity [of es] by (simp_all add: t_def table_new_def)
  have "destination_count t \<le> max_dests" "neighbour_count t \<le> max_nbrs"
    using cap length_slot_items [of "rt_destinations t"] length_slot_items [of "rt_neighbours t"]
    by (simp_all add: destination_count_def neighbour_count_def)
  moreover have "1 \<le> route_count d \<and> route_count d \<le> max_routes \<and>
       distinct (map rs_neighbour (slot_items (ds_routes d))) \<and>
       (\<forall>r \<in> set (slot_items (ds_routes d)).
          rs_obsolescence r \<le> ro_obsolete_initial options \<and>
          (rs_inp3 r = None \<longrightarrow> rs_quality r > 0 \<and> rs_quality r \<ge> ro_min_quality options) \<and>
          (\<forall>m. rs_inp3 r = Some m \<longrightarrow> 10 \<le> im_target_time_ms m \<and> im_target_time_ms m < 600000))"
    if "d \<in> set (slot_items (rt_destinations t))" for d
  proof -
    have "dest_inv options max_routes d"
      using that inv cap by (simp add: table_inv_def slot_simps)
    then show ?thesis
      using length_slot_items [of "ds_routes d"]
      by (auto simp: dest_inv_def route_count_def slots_distinct_def slot_simps route_ok_def
          acceptable_def quality_MIN_def Suc_le_eq metric_ok_def HORIZON_MS_def HORIZON_UNITS_def)
  qed
  ultimately show ?thesis
    using inv by (simp add: table_inv_def slots_distinct_def)
qed

theorem table_bounded_witness:
  "destination_count (fold table_step [Swept, Swept] (table_new 8 3 4 ROUTING_DEFAULT)) \<le> 8"
  using table_bounded [OF _ refl, of 3 "[Swept, Swept]" 8 4 ROUTING_DEFAULT] by simp

fun heard_from_others :: "callsign \<Rightarrow> table_event \<Rightarrow> bool" where
  "heard_from_others me (Heard originator my_call _ _ _) \<longleftrightarrow> my_call = me \<and> originator \<noteq> me"
| "heard_from_others me (Timed _ my_call _ _ _) \<longleftrightarrow> my_call = me"
| "heard_from_others me _ \<longleftrightarrow> True"

lemma map_destinations_None:
  "slots_distinct ds_destination (rt_destinations t) \<Longrightarrow> (\<And>d. ds_destination (g d) = ds_destination d) \<Longrightarrow>
    dest_of t k = None \<Longrightarrow> dest_of (map_destinations g t) k = None"
  using map_destinations_spec [of t g] by simp

lemma dest_of_sweep: "dest_of (fst (sweep t)) = dest_of (map_destinations age_destination t)"
  by (simp add: dest_of_def sweep_def Let_def)

lemma dest_of_mark: "dest_of (fst (mark_neighbour_down nb t)) = dest_of (map_destinations (unroute nb) t)"
  by (simp add: dest_of_def mark_neighbour_down_def Let_def)

lemma dest_of_drain: "dest_of (fst (drain_recently_withdrawn t)) = dest_of t"
  by (simp add: dest_of_def drain_recently_withdrawn_def)

lemma no_self_step:
  assumes "table_inv t" "heard_from_others me e" "dest_of t me = None"
  shows "dest_of (table_step e t) me = None"
  using assms ingest_self [OF assms(1)] ingest_rif_self [OF assms(1)] table_invD(2) [OF assms(1)]
  by (cases e) (auto simp: dest_of_sweep dest_of_mark dest_of_drain intro: map_destinations_None)



section \<open>Learning\<close>

lemma route_of_dest: "dest_of t dest = Some d \<Longrightarrow> route_of t dest = routes_of d"
  by (simp add: route_of_def fun_eq_iff)

lemma route_of_None: "dest_of t dest = None \<Longrightarrow> route_of t dest = Map.empty"
  by (simp add: route_of_def fun_eq_iff)

definition dest_room :: "table \<Rightarrow> callsign \<Rightarrow> bool" where
  "dest_room t dest \<longleftrightarrow> (case dest_of t dest of
     Some d \<Rightarrow> has_room d | None \<Rightarrow> destination_count t < length (rt_destinations t))"

definition fresh_route :: "table \<Rightarrow> callsign \<Rightarrow> callsign \<Rightarrow> u8 \<Rightarrow> route_state" where
  "fresh_route t dest via q = \<lparr>rs_neighbour = via, rs_quality = q,
     rs_obsolescence = ro_obsolete_initial (rt_options t),
     rs_inp3 = Option.bind (route_of t dest via) rs_inp3\<rparr>"

lemma learned_eq:
  "slots_distinct rs_neighbour (ds_routes d) \<Longrightarrow> routes_of d = route_of t dest \<Longrightarrow>
   learned (rt_options t) d via q = fresh_route t dest via q"
  by (simp add: learned_def fresh_route_def preserved_inp3_eq)

lemma route_of_unacceptable:
  assumes "table_inv t" "\<not> acceptable (rt_options t) q"
  shows "route_of (upsert_route dest al via q t) dest = (route_of t dest)(via := None)"
proof (cases "dest_of t dest")
  case None
  then show ?thesis
    using dest_of_upsert [OF table_invD(2,6) [OF assms(1)]] assms(2) by (simp add: route_of_None)
next
  case (Some d0)
  let ?d = "drop_route via (refresh_alias al d0)"
  have "routes_of ?d = (routes_of d0)(via := None)"
    using drop_route_spec(2) [of "refresh_alias al d0" via] table_invD(6) [OF assms(1) Some] by simp
  moreover have "dest_of (upsert_route dest al via q t) dest = prune_destination ?d"
    using dest_of_upsert [OF table_invD(2,6) [OF assms(1)]] assms(2) Some by (simp add: Let_def)
  ultimately show ?thesis
    using Some by (auto simp: route_of_def fun_eq_iff prune_destination_def route_count_zero)
qed

text \<open>The destination an acceptable route is put into, and the result.\<close>

lemma acceptable_upsert:
  assumes "table_inv t" "acceptable (rt_options t) q"
    and "dest_of t dest \<noteq> None \<or> destination_count t < length (rt_destinations t)"
  obtains d where "slots_distinct rs_neighbour (ds_routes d)" "length (ds_routes d) = rt_max_routes t"
    "routes_of d = route_of t dest" "has_room d = (dest_of t dest = None \<or> dest_room t dest)"
    "route_of (upsert_route dest al via q t) dest = routes_of (keep_route d (fresh_route t dest via q))"
proof (cases "dest_of t dest")
  case None
  let ?d = "fresh_dest t dest al"
  have r: "routes_of ?d = route_of t dest"
    using None by (simp add: route_of_None)
  have "dest_of (upsert_route dest al via q t) dest = Some (keep_route ?d (learned (rt_options t) ?d via q))"
    using dest_of_upsert [OF table_invD(2,6) [OF assms(1)]] assms(2,3) None by simp
  then show ?thesis
    using that [of ?d] None r learned_eq [of ?d t dest via q] table_invD(1) [OF assms(1)]
    by (simp add: route_of_dest)
next
  case (Some d0)
  let ?d = "refresh_alias al d0"
  have r: "routes_of ?d = route_of t dest" "slots_distinct rs_neighbour (ds_routes ?d)"
    using Some table_invD(6) [OF assms(1) Some] by (simp_all add: route_of_dest)
  have "dest_of (upsert_route dest al via q t) dest = Some (keep_route ?d (learned (rt_options t) ?d via q))"
    using dest_of_upsert [OF table_invD(2,6) [OF assms(1)]] assms(2,3) Some by (simp add: Let_def)
  then show ?thesis
    using that [of ?d] Some r learned_eq [OF r(2,1)] table_invD(7) [OF assms(1) Some]
    by (simp add: route_of_dest dest_room_def has_room_def)
qed

text \<open>A table with one learned route, for the witnesses.\<close>

definition sample_table :: table where
  "sample_table = upsert_route (sample [67]) alias_EMPTY (sample [66]) 192 (table_new 8 3 4 ROUTING_DEFAULT)"

definition sample_route :: route_state where
  "sample_route = \<lparr>rs_neighbour = sample [66], rs_quality = 192, rs_obsolescence = 6, rs_inp3 = None\<rparr>"

lemma sample_table:
  "table_inv sample_table" "route_of sample_table (sample [67]) = [sample [66] \<mapsto> sample_route]"
proof -
  let ?t = "table_new 8 3 4 ROUTING_DEFAULT"
  have t: "table_inv ?t"
    by (rule table_new_inv) simp
  then show "table_inv sample_table"
    by (simp add: sample_table_def upsert_inv)
  have none: "dest_of ?t (sample [67]) = None"
    by (simp add: table_new_def dest_of_def)
  have ok: "acceptable (rt_options ?t) 192" "destination_count ?t < length (rt_destinations ?t)"
    by (simp_all add: acceptable_def table_new_def ROUTING_DEFAULT_def quality_MIN_def destination_count_def slot_simps)
  obtain d where d: "slots_distinct rs_neighbour (ds_routes d)" "routes_of d = route_of ?t (sample [67])"
    "has_room d" "route_of sample_table (sample [67]) = routes_of (keep_route d (fresh_route ?t (sample [67]) (sample [66]) 192))"
    using acceptable_upsert [OF t ok(1), of "sample [67]" alias_EMPTY "sample [66]"] ok(2) none
    unfolding sample_table_def by metis
  have "fresh_route ?t (sample [67]) (sample [66]) 192 = sample_route"
    by (simp add: fresh_route_def sample_route_def route_of_None [OF none])
      (simp add: table_new_def ROUTING_DEFAULT_def)
  then show "route_of sample_table (sample [67]) = [sample [66] \<mapsto> sample_route]"
    using keep_route_fits [OF d(1), of sample_route] d route_of_None [OF none]
    by (simp add: sample_route_def)
qed



section \<open>Ageing\<close>

lemma route_of_sweep:
  assumes "table_inv t"
  shows "route_of (fst (sweep t)) dest nb = Option.bind (route_of t dest nb) older"
proof -
  have "route_of (map_destinations age_destination t) dest = (\<lambda>k. Option.bind (route_of t dest k) older)"
    by (rule route_of_map [OF assms]) (simp_all add: age_destination_spec)
  moreover have "route_of (fst (sweep t)) dest = route_of (map_destinations age_destination t) dest"
    unfolding route_of_def dest_of_sweep ..
  ultimately show ?thesis
    by simp
qed

text \<open>What is left of a route after \<open>n\<close> sweeps.\<close>

definition aged :: "nat \<Rightarrow> route_state \<Rightarrow> route_state option" where
  "aged n r = (if n = 0 then Some r else if unat (rs_obsolescence r) \<le> n then None
     else Some (r\<lparr>rs_obsolescence := rs_obsolescence r - of_nat n\<rparr>))"

lemma unat_minus_one: "1 < unat w \<Longrightarrow> unat (w - 1) = unat w - 1" for w :: u8
  by (simp add: unat_sub word_le_nat_alt)

lemma aged_Suc: "Option.bind (older r) (aged n) = aged (Suc n) r"
proof (cases "unat (rs_obsolescence r) \<le> 1")
  case True
  then show ?thesis
    by (simp add: older_eq aged_def)
next
  case False
  then have "unat (rs_obsolescence r - 1) = unat (rs_obsolescence r) - 1"
    by (intro unat_minus_one) simp
  then show ?thesis
    using False by (auto simp: older_eq aged_def algebra_simps)
qed

lemma in_use_iff:
  assumes "table_inv t"
  shows "in_use t nb \<longleftrightarrow> (\<exists>dest. route_of t dest nb \<noteq> None)"
proof
  assume "in_use t nb"
  then obtain d r where d: "Some d \<in> set (rt_destinations t)" "Some r \<in> set (ds_routes d)" "rs_neighbour r = nb"
    by (auto simp: in_use_def slot_simps)
  then have k: "dest_of t (ds_destination d) = Some d"
    using table_invD(2) [OF assms] by (simp add: dest_of_def slot_lookup_Some)
  then have "routes_of d nb = Some r"
    using d table_invD(6) [OF assms k] by (simp add: slot_lookup_Some)
  then show "\<exists>dest. route_of t dest nb \<noteq> None"
    using route_of_dest [OF k] by (intro exI [of _ "ds_destination d"]) simp
next
  assume "\<exists>dest. route_of t dest nb \<noteq> None"
  then obtain dest d r where d: "dest_of t dest = Some d" "routes_of d nb = Some r"
    by (auto simp: route_of_def bind_eq_Some_conv)
  then have "Some d \<in> set (rt_destinations t)" "Some r \<in> set (ds_routes d)" "rs_neighbour r = nb"
    using table_invD(2,6) [OF assms] by (auto simp: dest_of_def slot_lookup_Some)
  then have "d \<in> set (slot_items (rt_destinations t))" "r \<in> set (slot_items (ds_routes d))" "rs_neighbour r = nb"
    by (simp_all add: slot_simps)
  then show "in_use t nb"
    unfolding in_use_def by blast
qed

lemma neighbour_entry_lookup:
  assumes "slots_distinct ns_neighbour (rt_neighbours t)"
  shows "neighbour_entry t k = slot_lookup ns_neighbour (rt_neighbours t) k"
proof (cases "neighbour_index t k")
  case None
  then have "slot_lookup ns_neighbour (rt_neighbours t) k = None"
    by (simp add: neighbour_index_def slot_position_key_None)
  then show ?thesis
    by (simp add: neighbour_entry_def None)
next
  case (Some i)
  then show ?thesis
    using slot_position_key [OF Some [unfolded neighbour_index_def] assms]
    by (auto simp: neighbour_entry_def)
qed

lemma pruned_neighbour:
  assumes "table_inv t" "neighbour_entry (prune_orphan_neighbours t) k \<noteq> None"
  shows "in_use (prune_orphan_neighbours t) k \<and> neighbour_entry t k \<noteq> None"
proof -
  have p: "slots_distinct ns_neighbour (rt_neighbours (prune_orphan_neighbours t))"
    "slot_lookup ns_neighbour (rt_neighbours (prune_orphan_neighbours t)) k =
      (if in_use t k then slot_lookup ns_neighbour (rt_neighbours t) k else None)"
    using prune_neighbours [OF table_invD(3) [OF assms(1)]] by auto
  moreover have "in_use (prune_orphan_neighbours t) k = in_use t k"
    by (simp add: in_use_def)
  ultimately show ?thesis
    using assms(2) neighbour_entry_lookup [OF p(1)] neighbour_entry_lookup [OF table_invD(3) [OF assms(1)]]
    by (auto split: if_splits)
qed

text \<open>
  A route that is not refreshed survives sweeps with its count decremented each time, everything
  else about it unchanged, and is gone after exactly as many sweeps as its obsolescence count, at most
  OBSINIT; a neighbour through which no route leads any more is forgotten by the sweep.
\<close>

theorem routes_age_out:
  assumes "table_inv t"
  shows "route_of (((\<lambda>u. fst (sweep u)) ^^ n) t) dest nb = Option.bind (route_of t dest nb) (aged n) \<and>
    (unat (ro_obsolete_initial (rt_options t)) \<le> n \<and> 0 < n \<longrightarrow>
       route_of (((\<lambda>u. fst (sweep u)) ^^ n) t) dest nb = None) \<and>
    (neighbour_entry (fst (sweep t)) k \<noteq> None \<longrightarrow> (\<exists>d. route_of (fst (sweep t)) d k \<noteq> None))"
proof -
  have aged: "table_inv t \<Longrightarrow> route_of (((\<lambda>u. fst (sweep u)) ^^ n) t) dest nb = Option.bind (route_of t dest nb) (aged n)" for t
  proof (induction n arbitrary: t)
    case 0
    then show ?case
      by (simp add: aged_def [abs_def])
  next
    case (Suc n)
    have "route_of (((\<lambda>u. fst (sweep u)) ^^ Suc n) t) dest nb =
        route_of (((\<lambda>u. fst (sweep u)) ^^ n) (fst (sweep t))) dest nb"
      by (simp only: funpow_Suc_right o_apply)
    also have "\<dots> = Option.bind (Option.bind (route_of t dest nb) older) (aged n)"
      using Suc.IH [OF sweep_inv [OF Suc.prems]] route_of_sweep [OF Suc.prems] by simp
    also have "\<dots> = Option.bind (route_of t dest nb) (aged (Suc n))"
      by (simp add: aged_Suc)
    finally show ?case .
  qed
  have old: "rs_obsolescence r \<le> ro_obsolete_initial (rt_options t)" if "route_of t dest nb = Some r" for r
    using that table_invD(5) [OF assms] by (auto simp: route_of_def bind_eq_Some_conv dest_inv_iff route_ok_def)
  have gone: "Option.bind (route_of t dest nb) (aged n) = None"
    if "unat (ro_obsolete_initial (rt_options t)) \<le> n \<and> 0 < n"
    using that old by (cases "route_of t dest nb") (auto simp: aged_def word_le_nat_alt)
  have "\<exists>d. route_of (fst (sweep t)) d k \<noteq> None" if "neighbour_entry (fst (sweep t)) k \<noteq> None"
  proof -
    obtain u where u: "fst (sweep t) = prune_orphan_neighbours u" "rt_destinations u = rt_destinations (fst (sweep t))"
      "slots_distinct ns_neighbour (rt_neighbours u)" "table_inv u"
    proof
      define ws where "ws = map ds_destination (filter (\<lambda>d. has_inp3 d \<and> \<not> has_inp3 (age_destination d))
        (slot_items (rt_destinations t)))"
      let ?u = "fold record_recently_withdrawn ws (map_destinations age_destination t)"
      show eq: "fst (sweep t) = prune_orphan_neighbours ?u"
        by (simp add: sweep_def Let_def ws_def)
      then show "rt_destinations ?u = rt_destinations (fst (sweep t))"
        by simp
      show "slots_distinct ns_neighbour (rt_neighbours ?u)"
        using table_invD(3) [OF assms] by simp
      then show "table_inv ?u"
        using sweep_inv [OF assms] unfolding eq by (simp add: table_inv_def)
    qed
    then show ?thesis
      using that pruned_neighbour [OF u(4)] in_use_iff [OF sweep_inv [OF assms]] by simp
  qed
  then show ?thesis
    using aged [OF assms] gone by simp
qed

theorem routes_age_out_witness:
  "route_of (((\<lambda>u. fst (sweep u)) ^^ 5) sample_table) (sample [67]) (sample [66]) \<noteq> None \<and>
   route_of (((\<lambda>u. fst (sweep u)) ^^ 6) sample_table) (sample [67]) (sample [66]) = None"
  using routes_age_out [OF sample_table(1), of 5] routes_age_out [OF sample_table(1), of 6] sample_table(2)
  by (simp add: aged_def sample_route_def)

section \<open>Link failure\<close>

lemma route_of_mark:
  assumes "table_inv t"
  shows "route_of (fst (mark_neighbour_down nb t)) dest = (route_of t dest)(nb := None)"
proof -
  have "route_of (map_destinations (unroute nb) t) dest = (route_of t dest)(nb := None)"
    by (rule route_of_map [where G = "\<lambda>m. m(nb := None)", OF assms]) (simp_all add: unroute_spec)
  moreover have "route_of (fst (mark_neighbour_down nb t)) dest = route_of (map_destinations (unroute nb) t) dest"
    unfolding route_of_def dest_of_mark ..
  ultimately show ?thesis
    by simp
qed

lemma mark_pruned:
  assumes "table_inv t"
  obtains u where "fst (mark_neighbour_down nb t) = prune_orphan_neighbours u" "table_inv u"
proof
  define ws where "ws = map ds_destination (filter (\<lambda>d. removed_inp3 nb d \<and> \<not> has_inp3 (unroute nb d))
    (slot_items (rt_destinations t)))"
  define w where "w = fold record_recently_withdrawn ws (map_destinations (unroute nb) t)"
  let ?u = "w\<lparr>rt_neighbours := map (\<lambda>s. case s of None \<Rightarrow> None
            | Some n \<Rightarrow> if ns_neighbour n = nb then None else Some n) (rt_neighbours w)\<rparr>"
  show eq: "fst (mark_neighbour_down nb t) = prune_orphan_neighbours ?u"
    by (simp add: mark_neighbour_down_def Let_def ws_def w_def)
  have "slots_distinct ns_neighbour (rt_neighbours ?u)"
    using drop_neighbour_distinct [OF table_invD(3) [OF assms]] by (simp add: w_def)
  then show "table_inv ?u"
    using mark_inv [OF assms, of nb] unfolding eq by (simp add: table_inv_def)
qed

section \<open>Next hops\<close>

lemma kept_routes_dest:
  assumes "table_inv t"
  shows "kept_routes t dest = (case dest_of t dest of None \<Rightarrow> []
    | Some d \<Rightarrow> selection_sort_by is_better (slot_items (ds_routes d)))"
proof (cases "destination_index t dest")
  case None
  then have "dest_of t dest = None"
    by (simp add: destination_index_None)
  then show ?thesis
    by (simp add: kept_routes_def None)
next
  case (Some i)
  then show ?thesis
    using table_invD(2) [OF assms] by (auto simp: kept_routes_def elim: destination_index_Some)
qed

lemma kept_routes_spec:
  assumes "table_inv t"
  shows "set (kept_routes t dest) = ran (route_of t dest)" "sorted (map rank_of (kept_routes t dest))"
    "distinct (map rs_neighbour (kept_routes t dest))" "length (kept_routes t dest) \<le> rt_max_routes t"
    "r \<in> set (kept_routes t dest) \<longleftrightarrow> route_of t dest (rs_neighbour r) = Some r"
proof -
  have *: "set (kept_routes t dest) = ran (route_of t dest) \<and> sorted (map rank_of (kept_routes t dest)) \<and>
    distinct (map rs_neighbour (kept_routes t dest)) \<and> length (kept_routes t dest) \<le> rt_max_routes t \<and>
    (\<forall>r. r \<in> set (kept_routes t dest) \<longleftrightarrow> route_of t dest (rs_neighbour r) = Some r)"
  proof (cases "dest_of t dest")
    case None
    then show ?thesis
      using kept_routes_dest [OF assms, of dest] route_of_None [OF None] by simp
  next
    case (Some d)
    let ?ks = "selection_sort_by is_better (slot_items (ds_routes d))"
    have k: "kept_routes t dest = ?ks" "route_of t dest = routes_of d"
      using Some kept_routes_dest [OF assms, of dest] by (simp_all add: route_of_dest)
    have m: "mset ?ks = mset (slot_items (ds_routes d))" "sorted (map rank_of ?ks)"
      by (rule kept_routes_order)+
    have d: "slots_distinct rs_neighbour (ds_routes d)" "length (ds_routes d) = rt_max_routes t"
      using table_invD(6,7) [OF assms Some] by auto
    have set: "set ?ks = set (slot_items (ds_routes d))" "length ?ks = length (slot_items (ds_routes d))"
      using m(1) mset_eq_setD mset_eq_length by blast+
    have "mset (map rs_neighbour ?ks) = mset (map rs_neighbour (slot_items (ds_routes d)))"
      using m(1) by simp
    then have "distinct (map rs_neighbour ?ks)"
      using d(1) unfolding slots_distinct_def by (metis mset_eq_imp_distinct_iff)
    moreover have mem: "r \<in> set ?ks \<longleftrightarrow> routes_of d (rs_neighbour r) = Some r" for r
      using slot_lookup_Some [OF d(1)] by (simp add: set slot_simps)
    moreover have "set ?ks = ran (routes_of d)"
    proof (intro set_eqI iffI)
      show "r \<in> ran (routes_of d)" if "r \<in> set ?ks" for r
        using that mem by (intro ranI) simp
      show "r \<in> set ?ks" if "r \<in> ran (routes_of d)" for r
        using that mem [of r] slot_lookup_key [OF d(1)] unfolding ran_def by blast
    qed
    ultimately show ?thesis
      using m(2) set(2) d(2) length_slot_items [of "ds_routes d"] unfolding k by simp
  qed
  then show "set (kept_routes t dest) = ran (route_of t dest)" "sorted (map rank_of (kept_routes t dest))"
    "distinct (map rs_neighbour (kept_routes t dest))" "length (kept_routes t dest) \<le> rt_max_routes t"
    "r \<in> set (kept_routes t dest) \<longleftrightarrow> route_of t dest (rs_neighbour r) = Some r"
    by blast+
qed

lemma find_sorted_least:
  fixes f :: "'a \<Rightarrow> 'b::linorder"
  assumes "sorted (map f xs)" "List.find P xs = Some x" "y \<in> set xs" "P y"
  shows "x \<in> set xs \<and> P x \<and> f x \<le> f y"
  using assms by (induction xs) (auto split: if_splits)

lemma best_route_excluding_spec:
  assumes "table_inv t"
  shows "case best_route_excluding t dest exclude of
      None \<Rightarrow> \<forall>nb. route_of t dest nb \<noteq> None \<longrightarrow> nb = exclude
    | Some nb \<Rightarrow> nb \<noteq> exclude \<and> (\<exists>r. route_of t dest nb = Some r \<and>
        (\<forall>nb' r'. route_of t dest nb' = Some r' \<and> nb' \<noteq> exclude \<longrightarrow> \<not> is_better r' r))"
proof (cases "List.find (\<lambda>r. rs_neighbour r \<noteq> exclude) (kept_routes t dest)")
  case None
  have key: "rs_neighbour r = nb" if "route_of t dest nb = Some r" for nb r
    using that table_invD(6) [OF assms] by (auto simp: route_of_def bind_eq_Some_conv dest: slot_lookup_key)
  have all: "rs_neighbour r = exclude" if "r \<in> set (kept_routes t dest)" for r
    using None that by (auto simp: find_None_iff)
  have "nb = exclude" if "route_of t dest nb = Some r" for nb r
    using all [of r] key [OF that] that kept_routes_spec(5) [OF assms, of r dest] by simp
  then have "\<forall>nb. route_of t dest nb \<noteq> None \<longrightarrow> nb = exclude"
    by blast
  then show ?thesis
    by (simp add: best_route_excluding_def None)
next
  case (Some r)
  have key: "rs_neighbour r' = nb" if "route_of t dest nb = Some r'" for nb r'
    using that table_invD(6) [OF assms] by (auto simp: route_of_def bind_eq_Some_conv dest: slot_lookup_key)
  have r: "r \<in> set (kept_routes t dest)" "rs_neighbour r \<noteq> exclude"
    using Some by (auto simp: find_Some_iff)
  have "rank_of r \<le> rank_of r'" if "route_of t dest nb' = Some r'" "nb' \<noteq> exclude" for nb' r'
    using find_sorted_least [OF kept_routes_spec(2) [OF assms] Some, of r'] key [OF that(1)] that
    by (simp add: kept_routes_spec(5) [OF assms])
  then have "\<forall>nb' r'. route_of t dest nb' = Some r' \<and> nb' \<noteq> exclude \<longrightarrow> \<not> is_better r' r"
    unfolding is_better_rank not_less by blast
  moreover have "route_of t dest (rs_neighbour r) = Some r"
    using r(1) kept_routes_spec(5) [OF assms] by simp
  ultimately show ?thesis
    using r(2) by (simp add: best_route_excluding_def Some)
qed

text \<open>
  C32: when a link fails, every route through that neighbour and its entry leave the table at once,
  no other route changes, and the next forwarding decision already falls back: the best next hop is
  then the best surviving route that does not lead back the way the datagram came, if there is one.
\<close>

theorem failover:
  assumes "table_inv t"
  shows "(\<forall>dest. route_of (fst (mark_neighbour_down nb t)) dest = (route_of t dest)(nb := None)) \<and>
    neighbour_entry (fst (mark_neighbour_down nb t)) nb = None \<and>
    (case best_route_excluding (fst (mark_neighbour_down nb t)) dest exclude of
       None \<Rightarrow> \<forall>k. route_of t dest k \<noteq> None \<longrightarrow> k = nb \<or> k = exclude
     | Some h \<Rightarrow> h \<noteq> nb \<and> h \<noteq> exclude \<and> (\<exists>r. route_of t dest h = Some r \<and>
         (\<forall>k r'. route_of t dest k = Some r' \<and> k \<noteq> nb \<and> k \<noteq> exclude \<longrightarrow> \<not> is_better r' r)))"
proof (intro conjI allI)
  show m: "route_of (fst (mark_neighbour_down nb t)) dest = (route_of t dest)(nb := None)" for dest
    by (rule route_of_mark [OF assms])
  obtain u where u: "fst (mark_neighbour_down nb t) = prune_orphan_neighbours u" "table_inv u"
    using mark_pruned [OF assms] by blast
  show "neighbour_entry (fst (mark_neighbour_down nb t)) nb = None"
  proof (rule ccontr)
    assume "neighbour_entry (fst (mark_neighbour_down nb t)) nb \<noteq> None"
    then have "in_use (fst (mark_neighbour_down nb t)) nb"
      using pruned_neighbour [OF u(2)] u(1) by simp
    then show False
      using in_use_iff [OF mark_inv [OF assms]] m by simp
  qed
  show "case best_route_excluding (fst (mark_neighbour_down nb t)) dest exclude of
       None \<Rightarrow> \<forall>k. route_of t dest k \<noteq> None \<longrightarrow> k = nb \<or> k = exclude
     | Some h \<Rightarrow> h \<noteq> nb \<and> h \<noteq> exclude \<and> (\<exists>r. route_of t dest h = Some r \<and>
         (\<forall>k r'. route_of t dest k = Some r' \<and> k \<noteq> nb \<and> k \<noteq> exclude \<longrightarrow> \<not> is_better r' r))"
    using best_route_excluding_spec [OF mark_inv [OF assms], of nb dest exclude] m [of dest]
    by (cases "best_route_excluding (fst (mark_neighbour_down nb t)) dest exclude") (auto split: if_splits)
qed

theorem failover_witness:
  "route_of (fst (mark_neighbour_down (sample [66]) sample_table)) (sample [67]) = Map.empty \<and>
   neighbour_entry (fst (mark_neighbour_down (sample [66]) sample_table)) (sample [66]) = None"
  using failover [OF sample_table(1), of "sample [66]"] sample_table(2) by simp

end
