(* ===== verification/Netrom_Inp3_Props.thy ===== *)
theory Netrom_Inp3_Props
  imports Netrom_Routing_Props
begin

text \<open>
  Measured times between two nodes: what a frame announces, what its receiver learns from it, and which
  losses are announced. The times a node learns from a neighbour are above the neighbour's own, and a
  neighbour never learns a time for a destination that is reached through itself.
\<close>

section \<open>The advertised frame\<close>

lemma unat_quantise: "unat (quantise10 w) = min (unat w div 10 * 10) 599990"
proof -
  have "unat (w div 10 * 10) = unat w div 10 * 10"
  proof -
    have "unat w < 2 ^ LENGTH(32)"
      by (rule unsigned_less)
    then have "unat w div 10 * 10 < 2 ^ LENGTH(32)"
      using div_times_less_eq_dividend [of "unat w" 10] by linarith
    then show ?thesis
      by (simp only: unat_word_ariths unat_div) simp
  qed
  moreover have "unat (HORIZON_MS - 10) = 599990"
    by (simp add: HORIZON_MS_def HORIZON_UNITS_def)
  ultimately show ?thesis
    by (simp add: quantise10_def min_def word_le_nat_alt)
qed

definition time_of :: "route_state \<Rightarrow> u32 option" where
  "time_of r = map_option im_target_time_ms (rs_inp3 r)"

lemma best_time_scan:
  defines "f \<equiv> (\<lambda>rt best. case rs_inp3 rt of None \<Rightarrow> best
    | Some m \<Rightarrow> (case best of None \<Rightarrow> Some m
         | Some b \<Rightarrow> if im_target_time_ms m < im_target_time_ms b then Some m else Some b))"
  shows "(fold f rts best = None \<longleftrightarrow> best = None \<and> (\<forall>rt \<in> set rts. rs_inp3 rt = None)) \<and>
    (\<forall>m. fold f rts best = Some m \<longrightarrow>
       (best = Some m \<or> (\<exists>rt \<in> set rts. rs_inp3 rt = Some m)) \<and>
       (\<forall>rt m'. rt \<in> set rts \<and> rs_inp3 rt = Some m' \<longrightarrow> im_target_time_ms m \<le> im_target_time_ms m') \<and>
       (\<forall>b. best = Some b \<longrightarrow> im_target_time_ms m \<le> im_target_time_ms b))"
proof (induction rts arbitrary: best)
  case (Cons rt rts)
  show ?case
    using Cons.IH [of "f rt best"]
    by (cases "rs_inp3 rt"; cases best) (auto simp: f_def split: if_splits dest: order.trans less_imp_le)
qed simp

lemma best_time_spec:
  "(best_time d = None \<longleftrightarrow> \<not> has_inp3 d)"
  "best_time d = Some m \<Longrightarrow> (\<exists>rt \<in> set (slot_items (ds_routes d)). rs_inp3 rt = Some m) \<and>
     (\<forall>rt m'. rt \<in> set (slot_items (ds_routes d)) \<and> rs_inp3 rt = Some m' \<longrightarrow> im_target_time_ms m \<le> im_target_time_ms m')"
  using best_time_scan [of "slot_items (ds_routes d)" None] by (auto simp: best_time_def has_inp3_def)

lemma poisoned_iff:
  assumes "slots_distinct rs_neighbour (ds_routes d)"
  shows "poisoned nb d \<longleftrightarrow> routes_of d nb \<noteq> None"
  using slot_lookup_Some [OF assms] slot_lookup_key [OF assms] by (fastforce simp: poisoned_def slot_simps)

text \<open>The entry for a destination with a measured time.\<close>

definition time_entry :: "callsign \<Rightarrow> callsign \<Rightarrow> bool \<Rightarrow> inp3_metric \<Rightarrow> rip" where
  "time_entry D nb poison m = \<lparr>rip_destination = D, rip_hop_count = im_hop_count m,
     rip_target_time_ms = (if poison then HORIZON_MS else quantise10 (im_target_time_ms m)), rip_tlvs = []\<rparr>"

lemma advertise_time_eq:
  "advertise_time me nb d = (if ds_destination d = me then None
     else map_option (\<lambda>m. (time_entry (ds_destination d) nb (poisoned nb d) m, im_target_time_ms m)) (best_time d))"
  by (simp add: advertise_time_def time_entry_def split: option.splits)

lemma advertised_destinations:
  "map (rip_destination \<circ> fst) (List.map_filter (advertise_time me nb) ds) =
    map ds_destination (filter (\<lambda>d. ds_destination d \<noteq> me \<and> has_inp3 d) ds)"
proof -
  have "has_inp3 d \<longleftrightarrow> (\<exists>m. best_time d = Some m)" for d
    using best_time_spec(1) [of d] by auto
  then show ?thesis
    by (induction ds) (auto simp: List.map_filter_def advertise_time_eq time_entry_def)
qed

definition advertised :: "callsign \<Rightarrow> callsign \<Rightarrow> table \<Rightarrow> (rip \<times> u32) list" where
  "advertised me nb t = sort_key (\<lambda>(r, time). (time, callsign_key (rip_destination r)))
     (List.map_filter (advertise_time me nb) (slot_items (rt_destinations t)))"

definition horizon_entry :: "callsign \<Rightarrow> rip" where
  "horizon_entry D = \<lparr>rip_destination = D, rip_hop_count = 0, rip_target_time_ms = HORIZON_MS, rip_tlvs = []\<rparr>"

lemma build_rif_eq:
  "rif_rips (build_rif me nb wd t) =
     \<lparr>rip_destination = me, rip_hop_count = 0, rip_target_time_ms = 0, rip_tlvs = []\<rparr> #
     map fst (advertised me nb t) @
     map horizon_entry (filter (\<lambda>w. w \<noteq> me \<and> w \<notin> (rip_destination \<circ> fst) ` set (advertised me nb t))
       (sort_key callsign_key wd))"
proof -
  let ?L = "advertised me nb t"
  have "(\<lambda>wd. \<not> (wd = me \<or> (\<exists>r \<in> set ?L. rip_destination (fst r) = wd))) =
      (\<lambda>w. w \<noteq> me \<and> w \<notin> (rip_destination \<circ> fst) ` set ?L)"
    by (auto simp: fun_eq_iff image_iff)
  then show ?thesis
    by (simp only: build_rif_def Let_def advertised_def [symmetric] horizon_entry_def [abs_def] rif.select_convs)
      simp
qed

lemma advertised_distinct:
  assumes "table_inv t"
  shows "distinct (map (rip_destination \<circ> fst) (advertised me nb t))"
    and "x \<in> set (advertised me nb t) \<longleftrightarrow> (\<exists>D d m. D \<noteq> me \<and> dest_of t D = Some d \<and> best_time d = Some m \<and>
      x = (time_entry D nb (poisoned nb d) m, im_target_time_ms m))"
proof -
  let ?ds = "slot_items (rt_destinations t)"
  have "mset (map (rip_destination \<circ> fst) (advertised me nb t)) =
      mset (map ds_destination (filter (\<lambda>d. ds_destination d \<noteq> me \<and> has_inp3 d) ?ds))"
    unfolding advertised_destinations [of me nb ?ds, symmetric] by (simp add: advertised_def)
  moreover have "distinct (map ds_destination (filter (\<lambda>d. ds_destination d \<noteq> me \<and> has_inp3 d) ?ds))"
    using table_invD(2) [OF assms] by (simp add: slots_distinct_def distinct_map_filter)
  ultimately show "distinct (map (rip_destination \<circ> fst) (advertised me nb t))"
    by (metis mset_eq_imp_distinct_iff)
  have mem: "d \<in> set ?ds \<longleftrightarrow> dest_of t (ds_destination d) = Some d" for d
    using slot_lookup_Some [OF table_invD(2) [OF assms]] by (auto simp: dest_of_def slot_simps)
  have key: "dest_of t D = Some d \<Longrightarrow> ds_destination d = D" for D d
    by (rule dest_of_key [OF table_invD(2) [OF assms]])
  have x: "x \<in> set (advertised me nb t) \<longleftrightarrow> (\<exists>d \<in> set ?ds. advertise_time me nb d = Some x)"
    unfolding advertised_def set_sort set_map_filter by blast
  have y: "advertise_time me nb d = Some x \<longleftrightarrow> ds_destination d \<noteq> me \<and>
      (\<exists>m. best_time d = Some m \<and> x = (time_entry (ds_destination d) nb (poisoned nb d) m, im_target_time_ms m))" for d
    by (auto simp: advertise_time_eq)
  show "x \<in> set (advertised me nb t) \<longleftrightarrow> (\<exists>D d m. D \<noteq> me \<and> dest_of t D = Some d \<and> best_time d = Some m \<and>
      x = (time_entry D nb (poisoned nb d) m, im_target_time_ms m))"
    unfolding x y Bex_def mem using key by blast
qed

text \<open>A destination with a measured time has one entry in the frame.\<close>

lemma rif_entry:
  assumes "table_inv t" "D \<noteq> me" "dest_of t D = Some d" "best_time d = Some m"
  obtains xs ys where "rif_rips (build_rif me nb wd t) = xs @ time_entry D nb (poisoned nb d) m # ys"
    "\<And>r. r \<in> set xs \<union> set ys \<Longrightarrow> rip_destination r \<noteq> D"
proof -
  let ?x = "(time_entry D nb (poisoned nb d) m, im_target_time_ms m)"
  have "?x \<in> set (advertised me nb t)"
    using advertised_distinct(2) [OF assms(1)] assms(2-4) by blast
  then obtain us vs where uv: "advertised me nb t = us @ ?x # vs"
    by (meson split_list)
  have dest: "rip_destination (fst ?x) = D"
    by (simp add: time_entry_def)
  have "distinct (map (rip_destination \<circ> fst) us @ D # map (rip_destination \<circ> fst) vs)"
    using advertised_distinct(1) [OF assms(1), of me nb] uv dest by simp
  then have other: "rip_destination (fst r) \<noteq> D" if "r \<in> set us \<union> set vs" for r
    using that by (force simp: image_iff)
  let ?ws = "map horizon_entry (filter (\<lambda>w. w \<noteq> me \<and> w \<notin> (rip_destination \<circ> fst) ` set (advertised me nb t))
       (sort_key callsign_key wd))"
  show ?thesis
  proof
    show "rif_rips (build_rif me nb wd t) =
      (\<lparr>rip_destination = me, rip_hop_count = 0, rip_target_time_ms = 0, rip_tlvs = []\<rparr> # map fst us) @
        time_entry D nb (poisoned nb d) m # (map fst vs @ ?ws)"
      by (simp add: build_rif_eq uv)
    show "rip_destination r \<noteq> D"
      if "r \<in> set (\<lparr>rip_destination = me, rip_hop_count = 0, rip_target_time_ms = 0, rip_tlvs = []\<rparr> # map fst us)
          \<union> set (map fst vs @ ?ws)" for r
      using that other assms(2) dest by (auto simp: horizon_entry_def uv)
  qed
qed

section \<open>What one entry changes\<close>

lemma route_of_ingest_other:
  assumes "table_inv t" "D \<noteq> rip_destination r"
  shows "route_of (ingest_rip nb me sn l r t) D = route_of t D"
  using withdraw_dest_of(1) [OF assms(1), of "rip_destination r" nb]
    upsert_inp3_dest_of [OF assms(1), of "rip_destination r" "rip_alias r" nb "learned_metric r sn"] assms(2)
  by (auto simp: ingest_rip_eq route_of_def fun_eq_iff split: option.splits)

lemma route_of_withdraw:
  assumes "table_inv t"
  shows "route_of (withdraw_inp3 D nb t) D =
    (route_of t D)(nb := Option.bind (route_of t D nb)
      (\<lambda>r. if rs_inp3 r = None then Some r else untimed (rt_options t) r))"
proof (cases "dest_of t D")
  case None
  then show ?thesis
    using withdraw_dest_of(1) [OF assms, of D nb] by (simp add: route_of_None)
next
  case (Some d)
  note dist = table_invD(6) [OF assms Some]
  have r: "route_of t D = routes_of d"
    using Some by (rule route_of_dest)
  show ?thesis
  proof (cases "removed_inp3 nb d")
    case True
    then obtain rt m where rt: "routes_of d nb = Some rt" "rs_inp3 rt = Some m"
      using removed_inp3_iff [OF dist] by blast
    have "dest_of (withdraw_inp3 D nb t) D = prune_destination (forget_time (rt_options t) nb d)"
      using withdraw_dest_of(1) [OF assms, of D nb] Some True by simp
    then have "route_of (withdraw_inp3 D nb t) D = routes_of (forget_time (rt_options t) nb d)"
      by (auto simp: route_of_def fun_eq_iff prune_destination_def route_count_zero)
    then show ?thesis
      using forget_time_spec(2) [OF dist] rt r by simp
  next
    case False
    then have "routes_of d nb = Some rt \<Longrightarrow> rs_inp3 rt = None" for rt
      using removed_inp3_iff [OF dist] by (cases "rs_inp3 rt") auto
    moreover have "route_of (withdraw_inp3 D nb t) D = route_of t D"
      using withdraw_dest_of(1) [OF assms, of D nb] Some False by (simp add: route_of_def fun_eq_iff)
    ultimately show ?thesis
      by (cases "routes_of d nb") (auto simp: r fun_eq_iff)
  qed
qed

lemma withdrawn_has_no_time:
  assumes "table_inv t" "route_of (withdraw_inp3 D nb t) D nb = Some r"
  shows "rs_inp3 r = None"
  using assms(2) by (auto simp: route_of_withdraw [OF assms(1)] bind_eq_Some_conv untimed_def split: if_splits
      dest: arg_cong [where f = rs_inp3])

lemma learned_time:
  assumes "table_inv t" "route_of (upsert_inp3_route D al nb m t) D nb = Some r" "rs_inp3 r = Some m'"
  shows "m' = m"
proof -
  have known: "m' = m" if d: "slots_distinct rs_neighbour (ds_routes d)" "0 < length (ds_routes d)"
    "routes_of (learn_time (rt_options t) nb m d) nb = Some r" for d
  proof (cases "routes_of d nb")
    case None
    then show ?thesis
      using learn_time_kept(2) [OF d] assms(3) by (auto simp: time_route_def)
  next
    case (Some rt)
    then show ?thesis
      using learn_time_known(2) [OF d(1) Some, of "rt_options t" m] d(3) assms(3) by (auto simp: timed_def)
  qed
  show ?thesis
  proof (cases "dest_of t D")
    case None
    then show ?thesis
      using upsert_inp3_dest_of [OF assms(1), of D al nb m] assms(2) known [of "fresh_dest t D al"]
        table_invD(1) [OF assms(1)]
      by (auto simp: route_of_def split: if_splits)
  next
    case (Some d)
    then show ?thesis
      using upsert_inp3_dest_of [OF assms(1), of D al nb m] assms(2) known [of "refresh_alias al d"]
        table_invD(1) [OF assms(1)] table_invD(6,7) [OF assms(1) Some]
      by (auto simp: route_of_def)
  qed
qed

text \<open>After a frame: what the receiver holds for one destination via the sender.\<close>

lemma ingest_others:
  assumes "table_inv t" "\<And>r. r \<in> set rs \<Longrightarrow> rip_destination r \<noteq> D"
  shows "route_of (fold (ingest_rip nb me sn l) rs t) D = route_of t D"
  using assms
proof (induction rs arbitrary: t)
  case (Cons r rs)
  have "D \<noteq> rip_destination r"
    using Cons.prems(2) [of r] by auto
  then show ?case
    using Cons.IH [of "ingest_rip nb me sn l r t"] route_of_ingest_other [OF Cons.prems(1)] Cons.prems
    by (simp add: ingest_rip_inv)
qed simp

lemma ingest_entry_effect:
  assumes "table_inv t" "rif_rips f = xs @ r # ys" "rip_destination r = D"
    and "\<And>x. x \<in> set xs \<union> set ys \<Longrightarrow> rip_destination x \<noteq> D"
    and "route_of (ingest_rif nb me sn f hops t) D nb = Some x" "rs_inp3 x = Some m"
  shows "\<not> withdraws sn r" and "teaches me sn (max hops 1) r \<Longrightarrow> m = learned_metric r sn"
proof -
  define u where "u = fold (ingest_rip nb me sn (max hops 1)) xs t"
  have u: "table_inv u"
    unfolding u_def by (rule timing.run_inv [OF assms(1)])
  have "ingest_rif nb me sn f hops t =
      fold (ingest_rip nb me sn (max hops 1)) ys (ingest_rip nb me sn (max hops 1) r u)"
    by (simp add: ingest_rif_def assms(2) u_def)
  then have at: "route_of (ingest_rip nb me sn (max hops 1) r u) D nb = Some x"
    using assms(4,5) ingest_others [OF ingest_rip_inv [OF u], of ys D] by simp
  show "\<not> withdraws sn r"
    using at withdrawn_has_no_time [OF u, of D nb x] assms(3,6) by (auto simp: ingest_rip_eq)
  then show "m = learned_metric r sn" if "teaches me sn (max hops 1) r"
    using at learned_time [OF u, of D "rip_alias r" nb "learned_metric r sn" x m] assms(3,6) that
    by (simp add: ingest_rip_eq teaches_def)
qed

section \<open>Properties\<close>

text \<open>
  C9: two neighbours exchanging measured times. Node \<open>a\<close> holds a time route to \<open>D\<close> and sends its frame
  to its neighbour \<open>b\<close>, which ingests it whatever it knew before. If \<open>a\<close> reaches \<open>D\<close> through \<open>b\<close> by any of
  its routes, \<open>b\<close> ends up with no time for \<open>D\<close> via \<open>a\<close>: no two-hop loop. Otherwise, on a measured link and
  within the hop limit, any time that \<open>b\<close> holds via \<open>a\<close> is the best time of \<open>a\<close> in whole 10 ms, plus the
  link's time, plus the increment; it is above the time of \<open>a\<close>, and the hop count is one more.
\<close>

theorem rif_exchange:
  assumes "table_inv tA" "table_inv tB" "D \<noteq> a"
    and "route_of tA D nb = Some r" "rs_inp3 r = Some m"
    and tB': "tB' = ingest_rif a b sn (build_rif a b wd tA) hops tB"
  shows "(route_of tA D b \<noteq> None \<longrightarrow> (\<forall>x. route_of tB' D a = Some x \<longrightarrow> rs_inp3 x = None)) \<and>
    (\<exists>nb0 r0 m0. route_of tA D nb0 = Some r0 \<and> rs_inp3 r0 = Some m0 \<and>
       (\<forall>nb1 r1 m1. route_of tA D nb1 = Some r1 \<and> rs_inp3 r1 = Some m1 \<longrightarrow> im_target_time_ms m0 \<le> im_target_time_ms m1) \<and>
       (D \<noteq> b \<and> sn \<noteq> SNTT_UNSET \<and> unat (im_hop_count m0) + 1 \<le> unat hops \<longrightarrow>
         (\<forall>x m'. route_of tB' D a = Some x \<and> rs_inp3 x = Some m' \<longrightarrow>
            unat (im_target_time_ms m') = unat (im_target_time_ms m0) div 10 * 10 + unat sn + 10 \<and>
            im_target_time_ms m0 < im_target_time_ms m' \<and>
            unat (im_hop_count m') = min (unat (im_hop_count m0) + 1) 255)))"
proof -
  obtain d where d: "dest_of tA D = Some d" "route_of tA D = routes_of d"
    using assms(4) route_of_dest by (cases "dest_of tA D") (auto simp: route_of_def)
  note dist = table_invD(6) [OF assms(1) d(1)]
  have "has_inp3 d"
    using assms(4,5) d(2) has_inp3_iff [OF dist] by fastforce
  then obtain m0 where m0: "best_time d = Some m0"
    using best_time_spec(1) [of d] by auto
  obtain r0 where r0: "routes_of d (rs_neighbour r0) = Some r0" "rs_inp3 r0 = Some m0"
    using best_time_spec(2) [OF m0] slot_lookup_Some [OF dist] by (auto simp: slot_simps)
  have least: "im_target_time_ms m0 \<le> im_target_time_ms m1" if "routes_of d nb1 = Some r1" "rs_inp3 r1 = Some m1" for nb1 r1 m1
    using best_time_spec(2) [OF m0] slot_lookup_Some [OF dist] that by (auto simp: slot_simps)
  have "metric_ok m0"
    using r0 table_invD(5) [OF assms(1) d(1)] by (auto simp: dest_inv_iff route_ok_def)
  then have below: "unat (im_target_time_ms m0) < 600000"
    by (simp add: metric_ok_def word_less_nat_alt unat_HORIZON)
  obtain xs ys where f: "rif_rips (build_rif a b wd tA) = xs @ time_entry D b (poisoned b d) m0 # ys"
    "\<And>r. r \<in> set xs \<union> set ys \<Longrightarrow> rip_destination r \<noteq> D"
    using rif_entry [OF assms(1,3) d(1) m0] by metis
  let ?e = "time_entry D b (poisoned b d) m0"
  have e: "rip_destination ?e = D" "rip_hop_count ?e = im_hop_count m0"
    by (simp_all add: time_entry_def)
  have got: "\<not> withdraws sn ?e" "teaches b sn (max hops 1) ?e \<Longrightarrow> m' = learned_metric ?e sn"
    if "route_of tB' D a = Some x" "rs_inp3 x = Some m'" for x m'
    using ingest_entry_effect [OF assms(2) f(1) e(1) f(2)] that unfolding tB' by blast+
  have "rs_inp3 x = None" if "route_of tA D b \<noteq> None" "route_of tB' D a = Some x" for x
  proof (rule ccontr)
    assume "rs_inp3 x \<noteq> None"
    then have "\<not> withdraws sn ?e"
      using got(1) [OF that(2)] by auto
    moreover have "poisoned b d"
      using that(1) poisoned_iff [OF dist] d(2) by simp
    ultimately show False
      by (simp add: withdraws_def is_horizon_def time_entry_def)
  qed
  moreover have "unat (im_target_time_ms m') = unat (im_target_time_ms m0) div 10 * 10 + unat sn + 10 \<and>
      im_target_time_ms m0 < im_target_time_ms m' \<and> unat (im_hop_count m') = min (unat (im_hop_count m0) + 1) 255"
    if "D \<noteq> b" "sn \<noteq> SNTT_UNSET" "unat (im_hop_count m0) + 1 \<le> unat hops" "route_of tB' D a = Some x" "rs_inp3 x = Some m'"
    for x m'
  proof -
    note w = got(1) [OF that(4,5)]
    have "unat (im_hop_count m0) + 1 \<le> unat (max hops 1)"
      using that(3) by (simp add: max_def word_le_nat_alt)
    then have t: "teaches b sn (max hops 1) ?e"
      using w that(1,2) e by (simp add: teaches_def)
    have "\<not> poisoned b d"
      using w by (auto simp: withdraws_def is_horizon_def time_entry_def)
    then have time: "unat (rip_target_time_ms ?e) = unat (im_target_time_ms m0) div 10 * 10"
      using below by (simp add: time_entry_def unat_quantise)
    show ?thesis
      using got(2) [OF that(4,5) t] learned_metric_ok(2) [OF t] learned_metric_nat [of ?e sn] time e(2)
        div_mod_decomp [of "unat (im_target_time_ms m0)" 10] mod_less_divisor [of 10 "unat (im_target_time_ms m0)"]
      by (simp add: word_less_nat_alt)
  qed
  moreover have "route_of tA D (rs_neighbour r0) = Some r0" "routes_of d = route_of tA D"
    using r0 d(2) by simp_all
  ultimately show ?thesis
    using r0(2) least
    by (intro conjI exI [of _ "rs_neighbour r0"] exI [of _ r0] exI [of _ m0]) auto
qed

text \<open>A table whose only time route is to \<open>C\<close> via \<open>B\<close>.\<close>

definition sample_time :: inp3_metric where
  "sample_time = \<lparr>im_target_time_ms = 55, im_hop_count = 1\<rparr>"

definition sample_times :: table where
  "sample_times = upsert_inp3_route (sample [67]) alias_EMPTY (sample [66]) sample_time (table_new 8 3 4 ROUTING_DEFAULT)"

lemma sample_times:
  "table_inv sample_times" "route_of sample_times (sample [67]) (sample [66]) = Some (time_route ROUTING_DEFAULT (sample [66]) sample_time)"
proof -
  let ?t = "table_new 8 3 4 ROUTING_DEFAULT"
  have inv: "table_inv ?t" and ok: "metric_ok sample_time"
    by (simp_all add: table_new_inv metric_ok_def sample_time_def HORIZON_MS_def HORIZON_UNITS_def)
  then show "table_inv sample_times"
    by (simp add: sample_times_def upsert_inp3_inv)
  let ?f = "fresh_dest ?t (sample [67]) alias_EMPTY"
  have none: "dest_of ?t (sample [67]) = None" and room: "destination_count ?t < length (rt_destinations ?t)"
    by (simp_all add: table_new_def dest_of_def destination_count_def slot_simps)
  have "routes_of (learn_time ROUTING_DEFAULT (sample [66]) sample_time ?f) (sample [66]) =
      Some (time_route ROUTING_DEFAULT (sample [66]) sample_time)"
    using keep_route_fits [of ?f "time_route ROUTING_DEFAULT (sample [66]) sample_time"]
    by (simp add: learn_time_new time_route_def table_new_def)
  then show "route_of sample_times (sample [67]) (sample [66]) = Some (time_route ROUTING_DEFAULT (sample [66]) sample_time)"
    using upsert_inp3_dest_of [OF inv, of "sample [67]" alias_EMPTY "sample [66]" sample_time] none room
    by (simp add: sample_times_def route_of_def) (simp add: table_new_def)
qed

theorem rif_exchange_witness:
  "Option.bind (route_of (ingest_rif (sample [65]) (sample [66]) 40 (build_rif (sample [65]) (sample [66]) [] sample_times) 30
     (table_new 8 3 4 ROUTING_DEFAULT)) (sample [67]) (sample [65])) rs_inp3 = None"
proof -
  have "sample [67] \<noteq> sample [65]"
    by (simp add: sample_def padded_def)
  moreover have "table_inv (table_new 8 3 4 ROUTING_DEFAULT)"
    by (simp add: table_new_inv)
  moreover have "rs_inp3 (time_route ROUTING_DEFAULT (sample [66]) sample_time) = Some sample_time"
    by (simp add: time_route_def)
  ultimately have "\<forall>x. route_of (ingest_rif (sample [65]) (sample [66]) 40 (build_rif (sample [65]) (sample [66]) [] sample_times) 30
     (table_new 8 3 4 ROUTING_DEFAULT)) (sample [67]) (sample [65]) = Some x \<longrightarrow> rs_inp3 x = None"
    using rif_exchange [OF sample_times(1) _ _ sample_times(2) _ refl, of "table_new 8 3 4 ROUTING_DEFAULT" "sample [65]"
        sample_time "sample [66]" 40 "[]" 30] sample_times(2) by blast
  then show ?thesis
    by (simp add: bind_eq_None_conv) (metis option.exhaust_sel)
qed

definition lowest_time :: "table \<Rightarrow> callsign \<Rightarrow> inp3_metric option" where
  "lowest_time t D = Option.bind (dest_of t D) best_time"

lemma time_entry_wf:
  assumes "callsign_wf D"
  shows "rip_wf (time_entry D nb p m)" "rip_wf (horizon_entry D)"
proof -
  have q: "quantise10 w div 10 \<le> 0xFFFF \<and> quantise10 w mod 10 = 0" for w
  proof -
    have "unat (quantise10 w) mod 10 = 0" "unat (quantise10 w) \<le> 599990"
      by (simp_all add: unat_quantise min_def)
    then show ?thesis
      by (simp add: word_le_nat_alt word_unat_eq_iff unat_div unat_mod)
  qed
  have h: "HORIZON_MS div 10 \<le> 0xFFFF \<and> HORIZON_MS mod 10 = 0"
    by (simp add: HORIZON_MS_def HORIZON_UNITS_def)
  show "rip_wf (time_entry D nb p m)" "rip_wf (horizon_entry D)"
    using assms q [of "im_target_time_ms m"] h
    by (simp_all add: rip_wf_def encodable_def time_entry_def horizon_entry_def)
qed

text \<open>
  C10: what a frame says. It opens with the node itself at time 0, then has one entry for every other
  destination with a measured time, in the order of the lowest times held, at the horizon exactly if the
  frame's neighbour is one of its next hops and else at that lowest time in whole 10 ms, and closes with
  one horizon entry per drained withdrawal that has no time now. All of it can be encoded.
\<close>

theorem rif_announces:
  assumes "table_inv t"
  shows "\<exists>ds ws. rif_rips (build_rif me nb wd t) =
      \<lparr>rip_destination = me, rip_hop_count = 0, rip_target_time_ms = 0, rip_tlvs = []\<rparr> # ds @ map horizon_entry ws \<and>
    (\<forall>r. r \<in> set ds \<longleftrightarrow> (\<exists>D m. D \<noteq> me \<and> lowest_time t D = Some m \<and> r = time_entry D nb (route_of t D nb \<noteq> None) m)) \<and>
    distinct (map rip_destination ds) \<and>
    sorted (map (\<lambda>r. im_target_time_ms (the (lowest_time t (rip_destination r)))) ds) \<and>
    set ws = {w \<in> set wd. w \<noteq> me \<and> lowest_time t w = None} \<and>
    (callsign_wf me \<and> (\<forall>D. dest_of t D \<noteq> None \<longrightarrow> callsign_wf D) \<and> list_all callsign_wf wd \<longrightarrow>
       list_all rip_wf (rif_rips (build_rif me nb wd t)))"
proof -
  let ?L = "advertised me nb t"
  let ?ws = "filter (\<lambda>w. w \<noteq> me \<and> w \<notin> (rip_destination \<circ> fst) ` set ?L) (sort_key callsign_key wd)"
  note mem = advertised_distinct(2) [OF assms, of _ me nb]
  have route: "poisoned nb d \<longleftrightarrow> route_of t D nb \<noteq> None" if "dest_of t D = Some d" for D d
    using poisoned_iff [OF table_invD(6) [OF assms that]] that by (simp add: route_of_dest)
  have entry: "x \<in> set ?L \<longleftrightarrow> (\<exists>D m. D \<noteq> me \<and> lowest_time t D = Some m \<and>
      x = (time_entry D nb (route_of t D nb \<noteq> None) m, im_target_time_ms m))" for x
    unfolding mem lowest_time_def using route by (auto simp: bind_eq_Some_conv)
  have ds: "r \<in> set (map fst ?L) \<longleftrightarrow> (\<exists>D m. D \<noteq> me \<and> lowest_time t D = Some m \<and>
      r = time_entry D nb (route_of t D nb \<noteq> None) m)" for r
    using entry by (force simp: image_iff)
  have dest: "rip_destination (time_entry D nb p m) = D" for D p m
    by (simp add: time_entry_def)
  have time: "im_target_time_ms (the (lowest_time t (rip_destination (fst x)))) = snd x" if "x \<in> set ?L" for x
    using that entry [of x] dest by auto
  have "sorted (map (\<lambda>(r, time). (time, callsign_key (rip_destination r))) ?L)"
    by (simp add: advertised_def)
  then have "sorted (map fst (map (\<lambda>(r, time). (time, callsign_key (rip_destination r))) ?L))"
    by (rule sorted_map_mono) (auto intro!: mono_onI simp: less_eq_prod_def)
  then have "sorted (map snd ?L)"
    by (simp add: comp_def case_prod_unfold)
  then have "sorted (map (\<lambda>r. im_target_time_ms (the (lowest_time t (rip_destination r)))) (map fst ?L))"
    using time by (simp add: comp_def cong: map_cong)
  moreover have "set ?ws = {w \<in> set wd. w \<noteq> me \<and> lowest_time t w = None}"
  proof -
    have "w \<in> (rip_destination \<circ> fst) ` set ?L \<longleftrightarrow> w \<noteq> me \<and> lowest_time t w \<noteq> None" for w
    proof
      assume "w \<in> (rip_destination \<circ> fst) ` set ?L"
      then obtain x where "x \<in> set ?L" "w = rip_destination (fst x)"
        by auto
      then show "w \<noteq> me \<and> lowest_time t w \<noteq> None"
        using entry [of x] dest by auto
    next
      assume "w \<noteq> me \<and> lowest_time t w \<noteq> None"
      then obtain m where "w \<noteq> me" "lowest_time t w = Some m"
        by auto
      then have "(time_entry w nb (route_of t w nb \<noteq> None) m, im_target_time_ms m) \<in> set ?L"
        using entry by blast
      then show "w \<in> (rip_destination \<circ> fst) ` set ?L"
        by (rule rev_image_eqI) (simp add: dest)
    qed
    then show ?thesis
      by auto
  qed
  moreover have "list_all rip_wf (rif_rips (build_rif me nb wd t))"
    if "callsign_wf me" "\<forall>D. dest_of t D \<noteq> None \<longrightarrow> callsign_wf D" "list_all callsign_wf wd"
  proof -
    have "rip_wf r" if "r \<in> set (map fst ?L)" for r
      using that ds [of r] \<open>\<forall>D. dest_of t D \<noteq> None \<longrightarrow> callsign_wf D\<close> time_entry_wf(1)
      by (auto simp: lowest_time_def bind_eq_Some_conv)
    moreover have "rip_wf \<lparr>rip_destination = me, rip_hop_count = 0, rip_target_time_ms = 0, rip_tlvs = []\<rparr>"
      using that(1) by (simp add: rip_wf_def encodable_def)
    ultimately show ?thesis
      using that(3) time_entry_wf(2) by (auto simp: build_rif_eq list_all_iff)
  qed
  ultimately show ?thesis
    using ds advertised_distinct(1) [OF assms, of me nb]
    by (intro exI [of _ "map fst ?L"] exI [of _ ?ws]) (simp add: build_rif_eq)
qed

theorem rif_announces_witness:
  "length (rif_rips (build_rif (sample [65]) (sample [66]) [] (table_new 8 3 4 ROUTING_DEFAULT))) = 1"
proof -
  have "table_inv (table_new 8 3 4 ROUTING_DEFAULT)"
    by (simp add: table_new_inv)
  from rif_announces [OF this, of "sample [65]" "sample [66]" "[]"] obtain ds where
    "rif_rips (build_rif (sample [65]) (sample [66]) [] (table_new 8 3 4 ROUTING_DEFAULT)) =
      \<lparr>rip_destination = sample [65], rip_hop_count = 0, rip_target_time_ms = 0, rip_tlvs = []\<rparr> # ds"
    "\<forall>r. r \<in> set ds \<longleftrightarrow> (\<exists>D m. D \<noteq> sample [65] \<and> lowest_time (table_new 8 3 4 ROUTING_DEFAULT) D = Some m \<and>
       r = time_entry D (sample [66]) (route_of (table_new 8 3 4 ROUTING_DEFAULT) D (sample [66]) \<noteq> None) m)"
    by auto
  then show ?thesis
    by (cases ds) (auto simp: lowest_time_def dest_of_def table_new_def)
qed

section \<open>Which losses are announced\<close>

lemma has_any_eq:
  assumes "table_inv t"
  shows "has_any_inp3_route t D \<longleftrightarrow> (\<exists>nb r. route_of t D nb = Some r \<and> rs_inp3 r \<noteq> None)"
proof (cases "dest_of t D")
  case None
  then show ?thesis
    using has_any_inp3_iff [OF table_invD(2) [OF assms]] by (simp add: route_of_None)
next
  case (Some d)
  then show ?thesis
    using has_any_inp3_iff [OF table_invD(2) [OF assms]] has_inp3_iff [OF table_invD(6) [OF assms Some]]
    by (simp add: route_of_dest)
qed

lemma learn_keeps_a_time:
  assumes "slots_distinct rs_neighbour (ds_routes d)" "0 < length (ds_routes d)" "has_inp3 d"
  shows "has_inp3 (learn_time options via m d)"
proof -
  let ?d' = "learn_time options via m d"
  note dist = learn_time_kept(1) [OF assms(1,2), of options via m]
  have "\<exists>nb r. routes_of ?d' nb = Some r \<and> rs_inp3 r \<noteq> None"
  proof (cases "routes_of d via")
    case None
    let ?n = "time_route options via m"
    have n: "rs_neighbour ?n = via" "rs_inp3 ?n \<noteq> None"
      by (simp_all add: time_route_def)
    show ?thesis
    proof (cases "has_room d")
      case True
      then have "routes_of ?d' via = Some ?n"
        using keep_route_fits [OF assms(1), of ?n] None n(1) by (simp add: learn_time_new)
      then show ?thesis
        using n(2) by blast
    next
      case False
      then obtain w where "routes_of ?d' =
         (if is_better ?n w then (routes_of d)(rs_neighbour w := None, via \<mapsto> ?n) else routes_of d)"
        using keep_route_full [OF assms(1,2), of ?n] None n(1) by (metis learn_time_new)
      then have "routes_of ?d' via = Some ?n \<or> routes_of ?d' = routes_of d"
        by (cases "is_better ?n w") simp_all
      then show ?thesis
        using n(2) assms(3) has_inp3_iff [OF assms(1)] by metis
    qed
  next
    case (Some rt)
    then show ?thesis
      using learn_time_known(2) [OF assms(1) Some, of options m] by (auto simp: timed_def)
  qed
  then show ?thesis
    using has_inp3_iff [OF dist] by simp
qed

lemma upsert_keeps_times:
  assumes "table_inv t" "metric_ok m" "has_any_inp3_route t D"
  shows "has_any_inp3_route (upsert_inp3_route dest al via m t) D"
proof -
  obtain d where d: "dest_of t D = Some d" "has_inp3 d"
    using assms(3) has_any_inp3_iff [OF table_invD(2) [OF assms(1)]] by blast
  have "has_inp3 (refresh_alias al d)"
    using d(2) by (simp add: has_inp3_def)
  then have "has_inp3 (learn_time (rt_options t) via m (refresh_alias al d))"
    using table_invD(1) [OF assms(1)] table_invD(6,7) [OF assms(1) d(1)] by (intro learn_keeps_a_time) simp_all
  then show ?thesis
    using d upsert_inp3_dest_of [OF assms(1), of dest al via m]
      has_any_inp3_iff [OF table_invD(2) [OF upsert_inp3_inv [OF assms(1,2)]], of dest al via D]
    by (cases "dest = D") (auto split: option.splits)
qed

lemma ingest_rip_announces:
  assumes "table_inv t" "has_any_inp3_route t D \<or> D \<in> set (rt_recently_withdrawn t)"
  shows "has_any_inp3_route (ingest_rip nb me sn l r t) D \<or> D \<in> set (rt_recently_withdrawn (ingest_rip nb me sn l r t))"
proof -
  have other: "has_any_inp3_route (withdraw_inp3 (rip_destination r) nb t) D" if "has_any_inp3_route t D" "D \<noteq> rip_destination r"
    using that route_of_ingest_other [OF assms(1) that(2)]
      withdraw_dest_of(1) [OF assms(1), of "rip_destination r" nb] has_any_inp3_iff [OF table_invD(2) [OF assms(1)]]
      has_any_inp3_iff [OF table_invD(2) [OF withdraw_inv [OF assms(1)]]]
    by (auto split: option.splits)
  show ?thesis
    using assms other withdraw_dest_of(3) [OF assms(1), of "rip_destination r" nb]
      upsert_keeps_times [OF assms(1) learned_metric_ok(1)]
    by (cases "D = rip_destination r") (auto simp: ingest_rip_eq)
qed

lemma ingest_rif_announces:
  assumes "table_inv t" "has_any_inp3_route t D"
  shows "has_any_inp3_route (ingest_rif nb me sn f hops t) D \<or> D \<in> set (rt_recently_withdrawn (ingest_rif nb me sn f hops t))"
proof -
  have "table_inv t \<Longrightarrow> has_any_inp3_route t D \<or> D \<in> set (rt_recently_withdrawn t) \<Longrightarrow>
      has_any_inp3_route (fold (ingest_rip nb me sn l) rs t) D \<or>
      D \<in> set (rt_recently_withdrawn (fold (ingest_rip nb me sn l) rs t))" for l rs t
    by (induction rs arbitrary: t) (simp_all add: ingest_rip_inv ingest_rip_announces)
  then show ?thesis
    using assms by (simp add: ingest_rif_def)
qed

lemma pass_announces:
  assumes "table_inv t" "has_any_inp3_route t D" "\<not> has_any_inp3_route t' D"
    and t': "rt_destinations t' = rt_destinations (map_destinations g t)"
    and g: "\<And>d. ds_destination (g d) = ds_destination d"
  shows "\<exists>d \<in> set (slot_items (rt_destinations t)). ds_destination d = D \<and> has_inp3 d \<and> \<not> has_inp3 (g d) \<and>
    slots_distinct rs_neighbour (ds_routes d)"
proof -
  note m = map_destinations_spec [OF table_invD(2) [OF assms(1)] g]
  obtain d where d: "dest_of t D = Some d" "has_inp3 d"
    using assms(2) has_any_inp3_iff [OF table_invD(2) [OF assms(1)]] by blast
  have "has_any_inp3_route t' D \<longleftrightarrow> (\<exists>d. dest_of (map_destinations g t) D = Some d \<and> has_inp3 d)"
    using has_any_inp3_iff [of t' D] m by (simp add: t' dest_of_def)
  moreover have "dest_of (map_destinations g t) D = prune_destination (g d)"
    using m d(1) by simp
  moreover have "has_inp3 (g d) \<Longrightarrow> prune_destination (g d) = Some (g d)"
    by (auto simp: has_inp3_def prune_destination_def route_count_def)
  ultimately have "\<not> has_inp3 (g d)"
    using assms(3) by auto
  moreover have "Some d \<in> set (rt_destinations t)" "ds_destination d = D"
    using d(1) slot_lookup_Some [OF table_invD(2) [OF assms(1)]] by (auto simp: dest_of_def)
  ultimately show ?thesis
    using d(2) table_invD(6) [OF assms(1) d(1)] by (auto simp: slot_simps)
qed

lemma sweep_announces:
  assumes "table_inv t" "has_any_inp3_route t D" "\<not> has_any_inp3_route (fst (sweep t)) D"
  shows "D \<in> set (rt_recently_withdrawn (fst (sweep t)))"
proof -
  have "rt_destinations (fst (sweep t)) = rt_destinations (map_destinations age_destination t)"
    by (simp add: sweep_def Let_def)
  from pass_announces [OF assms this] obtain d where "d \<in> set (slot_items (rt_destinations t))"
    "ds_destination d = D" "has_inp3 d" "\<not> has_inp3 (age_destination d)"
    by auto
  then show ?thesis
    using record_withdrawn_set [of "map_destinations age_destination t"] table_invD(4) [OF assms(1)]
    by (auto simp: sweep_def Let_def)
qed

lemma mark_announces:
  assumes "table_inv t" "has_any_inp3_route t D" "\<not> has_any_inp3_route (fst (mark_neighbour_down nb t)) D"
  shows "D \<in> set (rt_recently_withdrawn (fst (mark_neighbour_down nb t)))"
proof -
  have "rt_destinations (fst (mark_neighbour_down nb t)) = rt_destinations (map_destinations (unroute nb) t)"
    by (simp add: mark_neighbour_down_def Let_def)
  from pass_announces [OF assms this] obtain d where d: "d \<in> set (slot_items (rt_destinations t))"
    "ds_destination d = D" "has_inp3 d" "\<not> has_inp3 (unroute nb d)" "slots_distinct rs_neighbour (ds_routes d)"
    by auto
  have "removed_inp3 nb d"
    using d(3,4) has_inp3_iff [OF d(5)] has_inp3_iff [OF unroute_spec(1) [OF d(5)], of nb]
      unroute_spec(2) [OF d(5), of nb] removed_inp3_iff [OF d(5), of nb]
    by (metis fun_upd_other not_Some_eq)
  then show ?thesis
    using d record_withdrawn_set [of "map_destinations (unroute nb) t"] table_invD(4) [OF assms(1)]
    by (auto simp: mark_neighbour_down_def Let_def)
qed

text \<open>
  C11: a destination that loses its last measured time in a sweep, a link failure or a received frame is
  recorded for announcement, and taking the records for a round of frames loses none. A NODES broadcast is
  the exception that the table does not record: a better quality route can push out the only time route
  of a full destination.
\<close>

theorem lost_times_are_recorded:
  assumes "table_inv t" "has_any_inp3_route t D" "\<not> has_any_inp3_route (table_step e t) D"
  shows "(D \<in> set (rt_recently_withdrawn (table_step e t)) \<or> (\<exists>originator my port b now. e = Heard originator my port b now)) \<and>
    snd (drain_recently_withdrawn (table_step e t)) = sort_key callsign_key (rt_recently_withdrawn (table_step e t)) \<and>
    rt_recently_withdrawn (fst (drain_recently_withdrawn (table_step e t))) = []"
proof -
  have "D \<in> set (rt_recently_withdrawn (table_step e t))" if "\<nexists>originator my port b now. e = Heard originator my port b now"
  proof (cases e)
    case (Timed nb me sn f hops)
    then show ?thesis
      using assms(3) ingest_rif_announces [OF assms(1,2), of nb me sn f hops] by auto
  next
    case WithdrawalsTaken
    then show ?thesis
      using assms(2,3) by (simp add: has_any_inp3_route_def destination_index_def drain_recently_withdrawn_def
          split: option.splits)
  qed (use that assms sweep_announces mark_announces in auto)
  then show ?thesis
    by (auto simp: drain_recently_withdrawn_def)
qed

theorem lost_times_are_recorded_witness:
  "sample [67] \<in> set (rt_recently_withdrawn (table_step (LinkDown (sample [66])) sample_times))"
proof -
  have t: "route_of sample_times (sample [67]) (sample [66]) = Some (time_route ROUTING_DEFAULT (sample [66]) sample_time)"
    by (rule sample_times(2))
  have "rs_inp3 (time_route ROUTING_DEFAULT (sample [66]) sample_time) \<noteq> None"
    by (simp add: time_route_def)
  then have "has_any_inp3_route sample_times (sample [67])"
    using t has_any_eq [OF sample_times(1)] by blast
  moreover have "\<not> has_any_inp3_route (table_step (LinkDown (sample [66])) sample_times) (sample [67])"
    by code_simp
  ultimately show ?thesis
    using lost_times_are_recorded [OF sample_times(1)] by blast
qed

text \<open>The exception: one slot per destination, taken by a better quality route from elsewhere.\<close>

lemma broadcast_loses_time_silently:
  "let t = upsert_inp3_route (sample [67]) alias_EMPTY (sample [66]) sample_time (table_new 2 1 2 ROUTING_DEFAULT);
       t' = table_step (Heard (sample [68]) (sample [65]) [] \<lparr>nb_sender_alias = alias_EMPTY,
         nb_entries = [Some \<lparr>ne_destination = sample [67], ne_destination_alias = alias_EMPTY,
           ne_best_neighbour = sample [69], ne_best_quality = 200\<rparr>], nb_count = 1\<rparr> 0) t
   in has_any_inp3_route t (sample [67]) \<and> \<not> has_any_inp3_route t' (sample [67]) \<and>
      sample [67] \<notin> set (rt_recently_withdrawn t')"
  by code_simp

end
