(* ===== verification/Netrom_Names.thy ===== *)
theory Netrom_Names
  imports Netrom_Routing_Props
begin

text \<open>
  The type invariant of the names in the routing table: the source admits only the callsigns and
  aliases that their constructors build, in destinations, routes, neighbours and withdrawals. Here it is
  a predicate on the table, kept by every operation that is fed what the parsers deliver.
\<close>

section \<open>Well-formed names\<close>

definition dest_named :: "dest_state \<Rightarrow> bool" where
  "dest_named d \<longleftrightarrow> callsign_wf (ds_destination d) \<and> alias_wf (ds_alias d) \<and>
     (\<forall>r. Some r \<in> set (ds_routes d) \<longrightarrow> callsign_wf (rs_neighbour r))"

definition dests_named :: "table \<Rightarrow> bool" where
  "dests_named t \<longleftrightarrow> (\<forall>d. Some d \<in> set (rt_destinations t) \<longrightarrow> dest_named d)"

definition neighbours_named :: "table \<Rightarrow> bool" where
  "neighbours_named t \<longleftrightarrow>
     (\<forall>n. Some n \<in> set (rt_neighbours t) \<longrightarrow> callsign_wf (ns_neighbour n) \<and> alias_wf (ns_alias n))"

definition named :: "table \<Rightarrow> bool" where
  "named t \<longleftrightarrow> dests_named t \<and> neighbours_named t \<and> list_all callsign_wf (rt_recently_withdrawn t)"

lemma set_updateD: "Some x \<in> set (xs[i := v]) \<Longrightarrow> v = Some x \<or> Some x \<in> set xs"
  using set_update_subset_insert [of xs i v] by auto

lemma alias_EMPTY_wf: "alias_wf alias_EMPTY"
  by (auto simp: alias_wf_def alias_EMPTY_def alias_of_def trim_spaces_def intro!: exI [of _ "[]"])

section \<open>One destination\<close>

lemma dest_named_update:
  "dest_named d \<Longrightarrow> (\<And>r. s = Some r \<Longrightarrow> callsign_wf (rs_neighbour r)) \<Longrightarrow>
    dest_named (d\<lparr>ds_routes := (ds_routes d)[i := s]\<rparr>)"
  by (auto simp: dest_named_def dest!: set_updateD)

lemma dest_named_none: "dest_named d \<Longrightarrow> dest_named (d\<lparr>ds_routes := (ds_routes d)[i := None]\<rparr>)"
  by (rule dest_named_update) simp_all

lemma keep_route_named:
  "dest_named d \<Longrightarrow> callsign_wf (rs_neighbour r) \<Longrightarrow> dest_named (keep_route d r)"
  by (auto simp: keep_route_def intro!: dest_named_update split: option.splits)

lemma drop_route_named: "dest_named d \<Longrightarrow> dest_named (drop_route via d)"
  by (auto simp: drop_route_def dest_named_none split: option.splits)

lemma refresh_alias_named: "dest_named d \<Longrightarrow> alias_wf al \<Longrightarrow> dest_named (refresh_alias al d)"
  by (auto simp: refresh_alias_def dest_named_def)

lemma new_dest_named:
  "callsign_wf dest \<Longrightarrow> alias_wf al \<Longrightarrow>
    dest_named \<lparr>ds_destination = dest, ds_alias = al, ds_routes = replicate n None\<rparr>"
  by (simp add: dest_named_def)

lemma route_index_in: "route_index d nb = Some i \<Longrightarrow> \<exists>r. ds_routes d ! i = Some r \<and> Some r \<in> set (ds_routes d) \<and> rs_neighbour r = nb"
  unfolding route_index_def by (auto dest!: slot_position_Some) (metis nth_mem)

lemma learn_time_named:
  assumes "dest_named d" "callsign_wf via"
  shows "dest_named (learn_time options via m d)"
  using assms route_index_in [of d via] keep_route_named [OF assms(1)]
  by (auto simp: learn_time_def intro!: dest_named_update split: option.splits)

lemma forget_time_named:
  assumes "dest_named d" "callsign_wf via"
  shows "dest_named (forget_time options via d)"
  using assms route_index_in [of d via]
  by (auto simp: forget_time_def intro!: dest_named_update split: option.splits if_splits)

lemma age_named: "dest_named d \<Longrightarrow> dest_named (age_destination d)"
  by (auto simp: age_destination_def dest_named_def age_route_def Let_def split: option.splits if_splits)

lemma unroute_named: "dest_named d \<Longrightarrow> dest_named (unroute nb d)"
  by (auto simp: unroute_def dest_named_def split: option.splits if_splits)

section \<open>The table\<close>

lemma set_destination_named:
  "dests_named t \<Longrightarrow> (\<And>d. s = Some d \<Longrightarrow> dest_named d) \<Longrightarrow> dests_named (set_destination t i s)"
  by (auto simp: dests_named_def set_destination_def dest!: set_updateD)

lemma map_destinations_named:
  "dests_named t \<Longrightarrow> (\<And>d. dest_named d \<Longrightarrow> dest_named (g d)) \<Longrightarrow> dests_named (map_destinations g t)"
  by (auto simp: dests_named_def map_destinations_def prune_destination_def split: bind_splits if_splits)

lemma destination_index_in:
  "destination_index t dest = Some i \<Longrightarrow>
    \<exists>d. rt_destinations t ! i = Some d \<and> Some d \<in> set (rt_destinations t) \<and> ds_destination d = dest"
  unfolding destination_index_def by (auto dest!: slot_position_Some) (metis nth_mem)

lemma known_named:
  "dests_named t \<Longrightarrow> destination_index t dest = Some i \<Longrightarrow> rt_destinations t ! i = Some d \<Longrightarrow> dest_named d"
  using destination_index_in [of t dest i] by (auto simp: dests_named_def)

lemma upsert_named:
  assumes "dests_named t" "callsign_wf dest" "alias_wf al" "callsign_wf via"
  shows "dests_named (upsert_route dest al via q t)"
  using assms known_named [OF assms(1), of dest]
  by (auto simp: upsert_route_def Let_def refresh_alias_named new_dest_named keep_route_named drop_route_named
      intro!: set_destination_named split: option.splits if_splits)

lemma upsert_inp3_named:
  assumes "dests_named t" "callsign_wf dest" "alias_wf al" "callsign_wf via"
  shows "dests_named (upsert_inp3_route dest al via m t)"
  using assms known_named [OF assms(1), of dest]
  by (auto simp: upsert_inp3_route_def refresh_alias_named new_dest_named learn_time_named
      intro!: set_destination_named split: option.splits)

lemma record_named [simp]: "dests_named (record_recently_withdrawn c t) = dests_named t"
  by (simp add: record_recently_withdrawn_def dests_named_def)

lemma withdraw_named:
  assumes "dests_named t" "callsign_wf via"
  shows "dests_named (withdraw_inp3 dest via t)"
  using assms known_named [OF assms(1), of dest]
  by (auto simp: withdraw_inp3_def Let_def forget_time_named intro!: set_destination_named split: option.splits)

text \<open>The other parts of the table, which few operations write.\<close>

definition same_rest :: "table \<Rightarrow> table \<Rightarrow> bool" where
  "same_rest t u \<longleftrightarrow> rt_neighbours u = rt_neighbours t \<and> rt_recently_withdrawn u = rt_recently_withdrawn t"

lemma upsert_rest: "same_rest t (upsert_route dest al via q t)"
  by (simp add: same_rest_def)

lemma upsert_inp3_rest: "same_rest t (upsert_inp3_route dest al via m t)"
  by (simp add: same_rest_def)

lemma named_same_rest: "same_rest t u \<Longrightarrow> named t \<Longrightarrow> dests_named u \<Longrightarrow> named u"
  by (simp add: named_def same_rest_def neighbours_named_def)

lemma withdraw_keeps_named:
  assumes "named t" "callsign_wf via"
  shows "named (withdraw_inp3 dest via t)"
proof -
  have "rt_neighbours (withdraw_inp3 dest via t) = rt_neighbours t"
    by simp
  moreover have "rt_recently_withdrawn (withdraw_inp3 dest via t) = rt_recently_withdrawn t \<or>
      callsign_wf dest \<and> rt_recently_withdrawn (withdraw_inp3 dest via t) = rt_recently_withdrawn t @ [dest]"
    using destination_index_in [of t dest] assms(1)
    by (auto simp: withdraw_inp3_def Let_def record_recently_withdrawn_def set_destination_def named_def dests_named_def
        dest_named_def split: option.splits)
  ultimately show ?thesis
    using assms withdraw_named [of t via dest] by (auto simp: named_def neighbours_named_def)
qed

lemma ingest_neighbour_named:
  assumes "named t" "callsign_wf originator" "alias_wf al"
  shows "named (fst (ingest_neighbour originator port al now t))"
  using assms
  by (auto simp: named_def neighbours_named_def dests_named_def ingest_neighbour_def Let_def neighbour_index_def
      dest!: set_updateD slot_position_Some split: option.splits)

lemma ingest_named:
  assumes "named t" "callsign_wf originator" "alias_wf (nb_sender_alias b)" "list_all entry_wf (broadcast_entries b)"
  shows "named (ingest originator my_call port b now t)"
proof -
  have up: "callsign_wf c \<Longrightarrow> alias_wf al \<Longrightarrow> named t \<Longrightarrow> named (upsert_route c al originator q t)" for c al q t
    using named_same_rest [OF upsert_rest] upsert_named assms(2) by (simp add: named_def)
  have "list_all entry_wf es \<Longrightarrow> named t \<Longrightarrow> named (fold (ingest_entry my_call originator pq) es t)" for es pq t
    by (induction es arbitrary: t) (auto simp: ingest_entry_def entry_wf_def intro: up)
  then show ?thesis
    using assms up ingest_neighbour_named [OF assms(1-3), of port now]
    by (cases "ingest_neighbour originator port (nb_sender_alias b) now t") (simp add: ingest_def)
qed

lemma rip_alias_wf: "alias_wf (rip_alias r)"
  by (auto simp: rip_alias_def alias_EMPTY_wf from_str_lossy_wf split: option.splits)

lemma ingest_rif_named:
  assumes "named t" "callsign_wf nb" "list_all (\<lambda>r. callsign_wf (rip_destination r)) (rif_rips f)"
  shows "named (ingest_rif nb my_call sn f limit t)"
proof -
  have up: "callsign_wf c \<Longrightarrow> named t \<Longrightarrow> named (upsert_inp3_route c (rip_alias r) nb m t)" for c r m t
    using named_same_rest [OF upsert_inp3_rest] upsert_inp3_named rip_alias_wf assms(2) by (simp add: named_def)
  have "list_all (\<lambda>r. callsign_wf (rip_destination r)) rs \<Longrightarrow> named t \<Longrightarrow>
      named (fold (ingest_rip nb my_call sn l) rs t)" for rs l t
    by (induction rs arbitrary: t) (auto simp: ingest_rip_def Let_def intro: up withdraw_keeps_named assms(2))
  then show ?thesis
    using assms by (simp add: ingest_rif_def)
qed

lemma record_all_named:
  "list_all callsign_wf cs \<Longrightarrow> named t \<Longrightarrow> named (fold record_recently_withdrawn cs t)"
  by (induction cs arbitrary: t)
    (auto simp: record_recently_withdrawn_def named_def dests_named_def neighbours_named_def)

lemma prune_named: "named t \<Longrightarrow> named (prune_orphan_neighbours t)"
  by (auto simp: named_def dests_named_def neighbours_named_def prune_orphan_neighbours_def split: option.splits if_splits)

lemma slot_dests_wf: "named t \<Longrightarrow> d \<in> set (slot_items (rt_destinations t)) \<Longrightarrow> callsign_wf (ds_destination d)"
  by (simp add: named_def dests_named_def dest_named_def slot_simps)

lemma map_keeps_named:
  "named t \<Longrightarrow> (\<And>d. dest_named d \<Longrightarrow> dest_named (g d)) \<Longrightarrow> named (map_destinations g t)"
  using map_destinations_named [of t g] by (simp add: named_def neighbours_named_def)

lemma sweep_named: "named t \<Longrightarrow> named (fst (sweep t))"
  by (auto simp: sweep_def Let_def list_all_iff slot_dests_wf
      intro!: prune_named record_all_named map_keeps_named age_named)

lemma drop_neighbour_named:
  "named t \<Longrightarrow> rt_neighbours t = ns \<Longrightarrow> named (t\<lparr>rt_neighbours := map (\<lambda>s. case s of None \<Rightarrow> None
            | Some n \<Rightarrow> if ns_neighbour n = nb then None else Some n) ns\<rparr>)"
  by (auto simp: named_def dests_named_def neighbours_named_def split: option.splits if_splits)

lemma mark_named: "named t \<Longrightarrow> named (fst (mark_neighbour_down nb t))"
  by (auto simp: mark_neighbour_down_def Let_def list_all_iff slot_dests_wf
      intro!: prune_named drop_neighbour_named record_all_named map_keeps_named unroute_named)

section \<open>Histories\<close>

text \<open>What the parsers deliver is well formed; so is an event built of it.\<close>

fun event_wf :: "table_event \<Rightarrow> bool" where
  "event_wf (Heard originator _ _ b _) \<longleftrightarrow>
     callsign_wf originator \<and> alias_wf (nb_sender_alias b) \<and> list_all entry_wf (broadcast_entries b)"
| "event_wf (Timed nb _ _ f _) \<longleftrightarrow> callsign_wf nb \<and> list_all (\<lambda>r. callsign_wf (rip_destination r)) (rif_rips f)"
| "event_wf _ \<longleftrightarrow> True"

lemma step_named: "event_wf e \<Longrightarrow> named t \<Longrightarrow> named (table_step e t)"
  by (cases e) (simp_all add: ingest_named ingest_rif_named sweep_named mark_named,
      simp add: drain_recently_withdrawn_def named_def dests_named_def neighbours_named_def)

lemma new_named: "named (table_new max_dests max_routes max_nbrs options)"
  by (simp add: table_new_def named_def dests_named_def neighbours_named_def)

lemma parse_rips_wf:
  "parse_rips opts i offset rips = Some rs \<Longrightarrow> list_all (\<lambda>r. callsign_wf (rip_destination r)) rips \<Longrightarrow>
    list_all (\<lambda>r. callsign_wf (rip_destination r)) rs"
proof (induction opts i offset rips arbitrary: rs rule: parse_rips.induct)
  case (1 opts i offset rips)
  have "rip_try_parse src = Some (r, n) \<Longrightarrow> callsign_wf (rip_destination r)" for src r n
    by (auto simp: rip_try_parse_def Let_def dest!: try_read_shifted_wf split: if_splits option.splits)
  then show ?case
    using 1 by (auto simp: parse_rips.simps [of opts i offset rips] split: if_splits option.splits prod.splits)
qed

text \<open>Events as a node has them: parsed from what a neighbour sent.\<close>

fun received :: "table_event \<Rightarrow> bool" where
  "received (Heard originator _ _ b _) \<longleftrightarrow> callsign_wf originator \<and> (\<exists>i opts. nodes_parse_with i opts = Some b)"
| "received (Timed nb _ _ f _) \<longleftrightarrow> callsign_wf nb \<and> (\<exists>i opts. rif_try_parse_with i opts = Some f)"
| "received _ \<longleftrightarrow> True"

lemma received_wf: "received e \<Longrightarrow> event_wf e"
proof (cases e)
  case (Heard originator my_call port b now)
  then show "received e \<Longrightarrow> event_wf e"
    using nodes_parse_named by auto
next
  case (Timed nb my_call sn f limit)
  then show "received e \<Longrightarrow> event_wf e"
    using parse_rips_wf [of _ _ 1 "[]"] by (auto simp: rif_try_parse_with_def split: if_splits option.splits)
qed simp_all

lemma run_named: "list_all received es \<Longrightarrow> named t \<Longrightarrow> named (fold table_step es t)"
  by (induction es arbitrary: t) (simp_all add: step_named received_wf)

section \<open>Property\<close>

text \<open>
  C22: whatever octets a node receives and parses, strictly or not, and however its links fail and its
  routes age, every callsign and alias that its routing table holds is one that the constructors of the
  source can build: of at most six upper case letters and digits with an SSID up to fifteen, and of at
  most six printable characters. That is what the rest of the node prints and encodes without loss.
\<close>

theorem table_names_wf:
  assumes "list_all received es" and t_def: "t = fold table_step es (table_new max_dests max_routes max_nbrs options)"
  shows "(\<forall>d \<in> set (slot_items (rt_destinations t)). callsign_wf (ds_destination d) \<and> alias_wf (ds_alias d) \<and>
      (\<forall>r \<in> set (slot_items (ds_routes d)). callsign_wf (rs_neighbour r))) \<and>
    (\<forall>n \<in> set (slot_items (rt_neighbours t)). callsign_wf (ns_neighbour n) \<and> alias_wf (ns_alias n)) \<and>
    list_all callsign_wf (rt_recently_withdrawn t)"
  using run_named [OF assms(1) new_named, of max_dests max_routes max_nbrs options]
  unfolding t_def [symmetric] by (auto simp: named_def dests_named_def neighbours_named_def dest_named_def slot_simps)

theorem table_names_wf_witness:
  "\<exists>b. nodes_parse (SIGNATURE # replicate 6 32) = Some b \<and>
    list_all callsign_wf (rt_recently_withdrawn (fold table_step
      [Heard (sample [66]) (sample [65]) [] b 0, LinkDown (sample [66])] (table_new 8 3 4 ROUTING_DEFAULT)))"
proof -
  have "nodes_octets alias_EMPTY [] = SIGNATURE # replicate 6 32"
    by (simp add: nodes_octets_def) code_simp
  then obtain b where "nodes_parse_with (SIGNATURE # replicate 6 32) NODES_LENIENT = Some b"
    using nodes_parse_octets [OF alias_EMPTY_wf, of "[]" NODES_LENIENT] by (auto simp: NODES_LENIENT_def)
  then have "nodes_parse (SIGNATURE # replicate 6 32) = Some b"
    "list_all received [Heard (sample [66]) (sample [65]) [] b 0, LinkDown (sample [66])]"
    using sample_wf [of "[66]"] by (auto simp: nodes_parse_def MAX_BASE_LEN_def is_base_byte_def ascii_defs)
  then show ?thesis
    using table_names_wf [OF _ refl] by blast
qed

end
