(* ===== verification/Netrom_Views.thy ===== *)
theory Netrom_Views
  imports Netrom_Names
begin

text \<open>
  The read side of the routing table (\<open>netrom/routing/table.rs\<close>) and what is built on it: the
  snapshots of destinations and neighbours in display order, the resolution of a connect target, the
  advertisement of the table, and the NODES frames that carry it (\<open>netrom/originator.rs\<close>).
\<close>

section \<open>Snapshots\<close>

text \<open>A \<open>NetRomRoute\<close> has the fields of \<open>route_state\<close>, and a \<open>NetRomNeighbour\<close> those of \<open>neighbour_state\<close>.\<close>

record destination_view =
  dv_destination :: callsign
  dv_alias :: node_alias
  dv_best_route :: "route_state option"
  dv_route_count :: u8

definition view_of :: "dest_state \<Rightarrow> destination_view" where
  "view_of d = \<lparr>dv_destination = ds_destination d, dv_alias = ds_alias d, dv_best_route = best_route d,
     dv_route_count = of_nat (route_count d)\<rparr>"

datatype ordering = Less | Equal | Greater

fun cmp_ascii_ci :: "bytes \<Rightarrow> bytes \<Rightarrow> ordering" where
  "cmp_ascii_ci [] [] = Equal"
| "cmp_ascii_ci [] (b # bs) = Less"
| "cmp_ascii_ci (a # as) [] = Greater"
| "cmp_ascii_ci (a # as) (b # bs) =
     (if to_ascii_uppercase a < to_ascii_uppercase b then Less
      else if to_ascii_uppercase b < to_ascii_uppercase a then Greater
      else cmp_ascii_ci as bs)"

text \<open>\<open>sort_key\<close>: a buffer of eight bytes with its length, of which only the bytes in use are read.\<close>

definition sort_key_of :: "dest_state \<Rightarrow> bytes" where
  "sort_key_of d = take 8 (if alias_is_empty (ds_alias d) then base (ds_destination d) else as_bytes (ds_alias d))"

definition destination_lt :: "dest_state \<Rightarrow> dest_state \<Rightarrow> bool" where
  "destination_lt a b =
     (case cmp_ascii_ci (sort_key_of a) (sort_key_of b) of
        Less \<Rightarrow> True
      | Greater \<Rightarrow> False
      | Equal \<Rightarrow> callsign_lt (ds_destination a) (ds_destination b))"

text \<open>The values that \<open>for_each_destination\<close> and \<open>for_each_neighbour\<close> pass to their visitor, in order.\<close>

definition destinations :: "table \<Rightarrow> destination_view list" where
  "destinations t = map view_of (selection_sort_by destination_lt (slot_items (rt_destinations t)))"

definition neighbours :: "table \<Rightarrow> neighbour_state list" where
  "neighbours t =
     selection_sort_by (\<lambda>a b. callsign_lt (ns_neighbour a) (ns_neighbour b)) (slot_items (rt_neighbours t))"

definition destination_for :: "table \<Rightarrow> callsign \<Rightarrow> destination_view option" where
  "destination_for t dest =
     (case destination_index t dest of None \<Rightarrow> None | Some i \<Rightarrow> map_option view_of (rt_destinations t ! i))"

section \<open>Resolving a connect target\<close>

definition eq_ascii_ci :: "bytes \<Rightarrow> bytes \<Rightarrow> bool" where
  "eq_ascii_ci a b \<longleftrightarrow> length a = length b \<and>
     list_all (\<lambda>(x, y). to_ascii_uppercase x = to_ascii_uppercase y) (zip a b)"

text \<open>\<open>write_display\<close> into the buffer of sixteen bytes; what it writes is ASCII.\<close>

definition display_text :: "callsign \<Rightarrow> bytes option" where
  "display_text c =
     (let (buf, n) = write_display c (replicate 16 0) in map_option (\<lambda>k. take k buf) n)"

definition alias_matches :: "bytes \<Rightarrow> destination_view \<Rightarrow> bool" where
  "alias_matches needle d \<longleftrightarrow>
     \<not> alias_is_empty (dv_alias d) \<and> eq_ascii_ci (as_bytes (dv_alias d)) needle"

definition call_matches :: "bytes \<Rightarrow> destination_view \<Rightarrow> bool" where
  "call_matches needle d \<longleftrightarrow>
     (case display_text (dv_destination d) of None \<Rightarrow> False | Some text \<Rightarrow> eq_ascii_ci text needle)"

fun resolve_scan ::
  "bytes \<Rightarrow> destination_view list \<Rightarrow> destination_view option \<Rightarrow> destination_view option
     \<Rightarrow> destination_view option \<times> destination_view option" where
  "resolve_scan needle [] alias_hit call_hit = (alias_hit, call_hit)"
| "resolve_scan needle (d # ds) alias_hit call_hit =
     resolve_scan needle ds
       (if alias_hit = None \<and> alias_matches needle d then Some d else alias_hit)
       (if call_hit = None \<and> call_matches needle d then Some d else call_hit)"

definition resolve_destination :: "table \<Rightarrow> str \<Rightarrow> destination_view option" where
  "resolve_destination t target =
     (let needle = trim target in
      if needle = [] then None
      else case resolve_scan (utf8 needle) (destinations t) None None of
             (Some d, _) \<Rightarrow> Some d
           | (None, call_hit) \<Rightarrow> call_hit)"

section \<open>The advertisement\<close>

definition fresher :: "route_state \<Rightarrow> route_state \<Rightarrow> bool" where
  "fresher r b \<longleftrightarrow> rs_quality r > rs_quality b \<or>
     (rs_quality r = rs_quality b \<and> rs_obsolescence r > rs_obsolescence b)"

definition advertised_route :: "table \<Rightarrow> callsign \<Rightarrow> route_state option" where
  "advertised_route t dest = fold (\<lambda>r best. case best of None \<Rightarrow> Some r
      | Some b \<Rightarrow> if fresher r b then Some r else Some b) (kept_routes t dest) None"

definition advertise :: "table \<Rightarrow> u8 \<Rightarrow> destination_view \<Rightarrow> advertisement option" where
  "advertise t obsmin d =
     (case advertised_route t (dv_destination d) of
        None \<Rightarrow> None
      | Some best \<Rightarrow>
          if rs_quality best = quality_MIN then None
          else if rs_obsolescence best < obsmin then None
          else Some \<lparr>av_destination = dv_destination d, av_destination_alias = dv_alias d,
                     av_best_neighbour = rs_neighbour best, av_quality = rs_quality best\<rparr>)"

definition rank_of_entry :: "advertisement \<Rightarrow> route_rank" where
  "rank_of_entry e = Rank (av_quality e) (callsign_key (av_destination e))"

text \<open>The stable \<open>sort_by\<close> of the standard library, over the comparison that \<open>rank_of_entry\<close> states.\<close>

definition build_advertisement :: "table \<Rightarrow> u8 option \<Rightarrow> advertisement list" where
  "build_advertisement t obsolete_minimum =
     (let obsmin = (case obsolete_minimum of None \<Rightarrow> ro_obsolete_minimum (rt_options t) | Some m \<Rightarrow> m)
      in sort_key rank_of_entry (List.map_filter (advertise t obsmin) (destinations t)))"

section \<open>Origination (\<open>originator.rs\<close>)\<close>

record originator_options =
  oo_enabled :: bool
  oo_alias :: "node_alias option"
  oo_node_call :: "callsign option"
  oo_obsolete_minimum :: "u8 option"

record originator =
  og_enabled :: bool
  og_alias :: node_alias
  og_obsolete_minimum :: "u8 option"

definition alias_from_call_base :: "callsign \<Rightarrow> node_alias" where
  "alias_from_call_base c = from_str_lossy (base c)"

definition originator_new :: "originator_options \<Rightarrow> originator" where
  "originator_new options =
     \<lparr>og_enabled = oo_enabled options,
      og_alias =
        (case oo_alias options of
           Some a \<Rightarrow> if \<not> alias_is_empty a then a
                      else (case oo_node_call options of Some c \<Rightarrow> alias_from_call_base c | None \<Rightarrow> alias_EMPTY)
         | None \<Rightarrow> (case oo_node_call options of Some c \<Rightarrow> alias_from_call_base c | None \<Rightarrow> alias_EMPTY)),
      og_obsolete_minimum = oo_obsolete_minimum options\<rparr>"

definition MAX_NODES_FRAME_LEN :: nat where
  "MAX_NODES_FRAME_LEN = HEADER_LENGTH + MAX_ENTRIES_PER_FRAME * ENCODED_LENGTH"

text \<open>The loop over the chunks, with the one buffer that they share.\<close>

fun write_frames :: "node_alias \<Rightarrow> bytes \<Rightarrow> advertisement list list \<Rightarrow> bytes list panicking" where
  "write_frames al buf [] = Some []"
| "write_frames al buf (c # cs) =
     (case write_nodes_frame al c buf of
        None \<Rightarrow> None
      | Some (buf', None) \<Rightarrow> write_frames al buf' cs
      | Some (buf', Some n) \<Rightarrow> map_option ((#) (take n buf')) (write_frames al buf' cs))"

definition broadcast_nodes :: "originator \<Rightarrow> table \<Rightarrow> bytes list panicking" where
  "broadcast_nodes og t =
     (if \<not> og_enabled og then Some []
      else
        let entries = build_advertisement t (og_obsolete_minimum og);
            buf = replicate MAX_NODES_FRAME_LEN 0
        in if entries = [] then write_frames (og_alias og) buf [[]]
           else write_frames (og_alias og) buf (chunks MAX_ENTRIES_PER_FRAME entries))"

section \<open>The display order\<close>

definition shown_key :: "dest_state \<Rightarrow> bytes \<times> bytes \<times> u8" where
  "shown_key d = (map to_ascii_uppercase (sort_key_of d), callsign_key (ds_destination d))"

lemma cmp_ascii_ci_eq:
  "cmp_ascii_ci a b =
     (let x = map to_ascii_uppercase a; y = map to_ascii_uppercase b
      in if x < y then Less else if y < x then Greater else Equal)"
  by (induction a b rule: cmp_ascii_ci.induct) (auto simp: Let_def list_less_def)

lemma callsign_lt_key: "callsign_lt a b \<longleftrightarrow> callsign_key a < callsign_key b"
  by (auto simp: callsign_lt_def callsign_key_def)

lemma destination_lt_key: "destination_lt a b \<longleftrightarrow> shown_key a < shown_key b"
  by (auto simp: destination_lt_def cmp_ascii_ci_eq Let_def shown_key_def callsign_lt_key split: ordering.splits)

lemma shown_order:
  "mset (selection_sort_by destination_lt ds) = mset ds"
  "sorted (map shown_key (selection_sort_by destination_lt ds))"
proof -
  have "destination_lt = (\<lambda>a b. shown_key a < shown_key b)"
    by (intro ext) (simp add: destination_lt_key)
  then show "mset (selection_sort_by destination_lt ds) = mset ds"
    "sorted (map shown_key (selection_sort_by destination_lt ds))"
    using selection_sort_sorted [where f = shown_key and xs = ds] by simp_all
qed

lemma destinations_spec:
  assumes "table_inv t"
  shows "v \<in> set (destinations t) \<longleftrightarrow> (\<exists>d. dest_of t (dv_destination v) = Some d \<and> v = view_of d)"
    and "distinct (map dv_destination (destinations t))"
proof -
  let ?ds = "selection_sort_by destination_lt (slot_items (rt_destinations t))"
  note dist = table_invD(2) [OF assms]
  have "set ?ds = set (slot_items (rt_destinations t))"
    using shown_order(1) by (metis mset_eq_setD)
  then have mem: "d \<in> set ?ds \<longleftrightarrow> dest_of t (ds_destination d) = Some d" for d
    using slot_lookup_Some [OF dist] by (auto simp: dest_of_def slot_simps)
  have view: "dv_destination (view_of d) = ds_destination d" for d
    by (simp add: view_of_def)
  have key: "dest_of t D = Some d \<Longrightarrow> ds_destination d = D" for D d
    by (rule dest_of_key [OF dist])
  show "v \<in> set (destinations t) \<longleftrightarrow> (\<exists>d. dest_of t (dv_destination v) = Some d \<and> v = view_of d)"
    unfolding destinations_def set_map image_iff Bex_def mem using view key by metis
  have "mset (map ds_destination ?ds) = mset (map ds_destination (slot_items (rt_destinations t)))"
    using shown_order(1) by simp
  then have "distinct (map ds_destination ?ds)"
    using dist unfolding slots_distinct_def by (metis mset_eq_imp_distinct_iff)
  then show "distinct (map dv_destination (destinations t))"
    by (simp add: destinations_def comp_def view)
qed

section \<open>The advertised route\<close>

text \<open>Best quality, then freshest, then the smallest callsign: the first of the kept routes.\<close>

lemma fresher_key: "fresher r b \<longleftrightarrow> (rs_quality b, rs_obsolescence b) < (rs_quality r, rs_obsolescence r)"
  by (auto simp: fresher_def)

lemma fresher_fold:
  assumes "fold (\<lambda>r best. case best of None \<Rightarrow> Some r
      | Some b \<Rightarrow> if fresher r b then Some r else Some b) rs best = Some b'"
  shows "(best = Some b' \<or> b' \<in> set rs) \<and> (\<forall>r \<in> set rs. \<not> fresher r b') \<and> (\<forall>b. best = Some b \<longrightarrow> \<not> fresher b b')"
  using assms
proof (induction rs arbitrary: best)
  case Nil
  then show ?case
    by (simp add: fresher_def)
next
  case (Cons r rs)
  let ?n = "case best of None \<Rightarrow> Some r | Some b \<Rightarrow> if fresher r b then Some r else Some b"
  have ih: "(?n = Some b' \<or> b' \<in> set rs) \<and> (\<forall>r \<in> set rs. \<not> fresher r b') \<and> (\<forall>b. ?n = Some b \<longrightarrow> \<not> fresher b b')"
    using Cons.prems by (intro Cons.IH) simp
  have trans: "\<not> fresher x z" if "\<not> fresher x y" "\<not> fresher y z" for x y z
    using that unfolding fresher_key by order
  have asym: "\<not> fresher x y" if "fresher y x" for x y
    using that unfolding fresher_key by order
  show ?case
  proof (cases best)
    case None
    then show ?thesis
      using ih by auto
  next
    case (Some b)
    show ?thesis
    proof (cases "fresher r b")
      case True
      then have "\<not> fresher r b'" "b' = r \<or> b' \<in> set rs" "\<forall>x \<in> set rs. \<not> fresher x b'"
        using ih Some by auto
      then show ?thesis
        using trans [OF asym [OF True]] Some by auto
    next
      case False
      then have "\<not> fresher b b'" "b' = b \<or> b' \<in> set rs" "\<forall>x \<in> set rs. \<not> fresher x b'"
        using ih Some by auto
      then show ?thesis
        using trans [OF False] Some by auto
    qed
  qed
qed

lemma fresher_fold_None:
  "fold (\<lambda>r best. case best of None \<Rightarrow> Some r
      | Some b \<Rightarrow> if fresher r b then Some r else Some b) rs best = None \<longleftrightarrow> best = None \<and> rs = []"
  by (induction rs arbitrary: best) (auto split: option.splits)

lemma advertised_route_spec:
  assumes "table_inv t"
  shows "advertised_route t dest = None \<longleftrightarrow> route_of t dest = Map.empty"
    and "advertised_route t dest = Some b \<Longrightarrow> route_of t dest (rs_neighbour b) = Some b \<and>
      (\<forall>nb r. route_of t dest nb = Some r \<longrightarrow> \<not> fresher r b)"
proof -
  note k = kept_routes_spec [OF assms, where dest = dest]
  have "m = Map.empty \<longleftrightarrow> ran m = {}" for m :: "callsign \<Rightarrow> route_state option"
    by (auto simp: ran_def fun_eq_iff) (metis not_None_eq)
  then have "kept_routes t dest = [] \<longleftrightarrow> route_of t dest = Map.empty"
    by (simp only: set_empty [symmetric] k(1))
  then show "advertised_route t dest = None \<longleftrightarrow> route_of t dest = Map.empty"
    by (simp add: advertised_route_def fresher_fold_None)
  show "route_of t dest (rs_neighbour b) = Some b \<and> (\<forall>nb r. route_of t dest nb = Some r \<longrightarrow> \<not> fresher r b)"
    if "advertised_route t dest = Some b"
  proof -
    have b: "b \<in> set (kept_routes t dest)" "\<forall>r \<in> set (kept_routes t dest). \<not> fresher r b"
      using fresher_fold [OF that [unfolded advertised_route_def]] by auto
    have "r \<in> set (kept_routes t dest)" if "route_of t dest nb = Some r" for nb r
      using that unfolding k(1) by (rule ranI)
    then show ?thesis
      using b k(5) [of b] by blast
  qed
qed

lemma advertise_eq:
  "advertise t obsmin v = Some e \<longleftrightarrow> (\<exists>b. advertised_route t (dv_destination v) = Some b \<and>
     0 < rs_quality b \<and> obsmin \<le> rs_obsolescence b \<and>
     e = \<lparr>av_destination = dv_destination v, av_destination_alias = dv_alias v,
          av_best_neighbour = rs_neighbour b, av_quality = rs_quality b\<rparr>)"
  by (auto simp: advertise_def quality_MIN_def not_less word_neq_0_conv split: option.splits)

definition gate :: "table \<Rightarrow> u8 option \<Rightarrow> u8" where
  "gate t m = (case m of None \<Rightarrow> ro_obsolete_minimum (rt_options t) | Some m \<Rightarrow> m)"

lemma build_advertisement_set:
  assumes "table_inv t"
  shows "e \<in> set (build_advertisement t m) \<longleftrightarrow> (\<exists>d b. dest_of t (av_destination e) = Some d \<and>
    advertised_route t (av_destination e) = Some b \<and> 0 < rs_quality b \<and> gate t m \<le> rs_obsolescence b \<and>
    e = \<lparr>av_destination = av_destination e, av_destination_alias = ds_alias d,
         av_best_neighbour = rs_neighbour b, av_quality = rs_quality b\<rparr>)" (is "_ = ?R")
proof
  have view: "dv_destination (view_of d) = ds_destination d" "dv_alias (view_of d) = ds_alias d" for d
    by (simp_all add: view_of_def)
  note key = dest_of_key [OF table_invD(2) [OF assms]]
  have mem: "e \<in> set (build_advertisement t m) \<longleftrightarrow> (\<exists>v \<in> set (destinations t). advertise t (gate t m) v = Some e)"
    by (auto simp: build_advertisement_def gate_def Let_def set_map_filter)
  show ?R if e: "e \<in> set (build_advertisement t m)"
  proof -
    obtain v where v: "v \<in> set (destinations t)" "advertise t (gate t m) v = Some e"
      using e mem by blast
    then obtain d where "dest_of t (dv_destination v) = Some d" "v = view_of d"
      using destinations_spec(1) [OF assms] by blast
    then show ?thesis
      using v(2) view by (auto simp: advertise_eq)
  qed
  show "e \<in> set (build_advertisement t m)" if ?R
  proof -
    obtain d b where d: "dest_of t (av_destination e) = Some d" "advertised_route t (av_destination e) = Some b"
      "0 < rs_quality b" "gate t m \<le> rs_obsolescence b"
      "e = \<lparr>av_destination = av_destination e, av_destination_alias = ds_alias d,
         av_best_neighbour = rs_neighbour b, av_quality = rs_quality b\<rparr>"
      using \<open>?R\<close> by blast
    have "ds_destination d = av_destination e"
      using key [OF d(1)] .
    then have "view_of d \<in> set (destinations t)" "advertise t (gate t m) (view_of d) = Some e"
      using d destinations_spec(1) [OF assms, of "view_of d"] view by (simp_all add: advertise_eq)
    then show ?thesis
      using mem by blast
  qed
qed

lemma build_advertisement_order:
  assumes "table_inv t"
  shows "sorted (map rank_of_entry (build_advertisement t m))"
    and "distinct (map av_destination (build_advertisement t m))"
proof -
  show "sorted (map rank_of_entry (build_advertisement t m))"
    by (simp add: build_advertisement_def)
  have "distinct (map dv_destination vs) \<Longrightarrow> distinct (map av_destination (List.map_filter (advertise t g) vs))" for g vs
  proof (induction vs)
    case (Cons v vs)
    have "av_destination ` set (List.map_filter (advertise t g) vs) \<subseteq> dv_destination ` set vs"
      by (auto simp: set_map_filter advertise_eq)
    then have "advertise t g v = Some e \<Longrightarrow> av_destination e \<notin> av_destination ` set (List.map_filter (advertise t g) vs)" for e
      using Cons.prems by (auto simp: advertise_eq)
    then show ?case
      using Cons by (cases "advertise t g v") (simp_all add: map_filter_simps)
  qed (simp add: List.map_filter_def)
  then have "distinct (map av_destination (List.map_filter (advertise t (gate t m)) (destinations t)))"
    using destinations_spec(2) [OF assms] .
  moreover have same: "mset (map av_destination (build_advertisement t m)) =
      mset (map av_destination (List.map_filter (advertise t (gate t m)) (destinations t)))"
    by (simp add: build_advertisement_def gate_def)
  ultimately show "distinct (map av_destination (build_advertisement t m))"
    by (simp only: mset_eq_imp_distinct_iff [OF same])
qed

section \<open>Well-formed entries\<close>

lemma dest_of_in: "table_inv t \<Longrightarrow> dest_of t D = Some d \<Longrightarrow> Some d \<in> set (rt_destinations t) \<and> ds_destination d = D"
  using slot_lookup_Some [OF table_invD(2)] by (simp add: dest_of_def)

lemma named_destD:
  "table_inv t \<Longrightarrow> named t \<Longrightarrow> dest_of t D = Some d \<Longrightarrow> dest_named d \<and> ds_destination d = D"
  using dest_of_in by (auto simp: named_def dests_named_def)

lemma named_routeD:
  assumes "table_inv t" "named t" "route_of t D nb = Some r"
  shows "callsign_wf (rs_neighbour r)"
proof -
  obtain d where d: "dest_of t D = Some d" "routes_of d nb = Some r"
    using assms(3) by (auto simp: route_of_def bind_eq_Some_conv)
  then have "slots_distinct rs_neighbour (ds_routes d)"
    using table_invD(6) [OF assms(1)] by blast
  then have "Some r \<in> set (ds_routes d)"
    using d(2) by (simp add: slot_lookup_Some)
  then show ?thesis
    using named_destD [OF assms(1,2) d(1)] by (simp add: dest_named_def)
qed

lemma build_advertisement_wf:
  assumes "table_inv t" "named t"
  shows "list_all (entry_wf \<circ> entry_of) (build_advertisement t m)"
  unfolding list_all_iff
proof
  fix e
  assume "e \<in> set (build_advertisement t m)"
  then obtain d b where e: "dest_of t (av_destination e) = Some d" "advertised_route t (av_destination e) = Some b"
      "e = \<lparr>av_destination = av_destination e, av_destination_alias = ds_alias d,
         av_best_neighbour = rs_neighbour b, av_quality = rs_quality b\<rparr>"
    unfolding build_advertisement_set [OF assms(1)] by blast
  have "callsign_wf (rs_neighbour b)"
    using advertised_route_spec(2) [OF assms(1) e(2)] named_routeD [OF assms] by blast
  moreover have "callsign_wf (av_destination e)" "alias_wf (ds_alias d)"
    using named_destD [OF assms e(1)] by (auto simp: dest_named_def)
  ultimately show "(entry_wf \<circ> entry_of) e"
    using e(3) by (metis (no_types, lifting) advertisement.select_convs comp_apply entry_of_def entry_wf_def nodes_entry.select_convs)
qed

section \<open>Framing\<close>

lemma rounded_up_div:
  fixes k n :: nat
  assumes "0 < n" "0 < k"
  shows "(k + n - 1) div n = Suc ((k - n + n - 1) div n)"
proof (cases "k \<le> n")
  case True
  then have "k + n - 1 = n + (k - 1)" "k - 1 < n" "k - n + n - 1 < n"
    using assms by linarith+
  then show ?thesis
    using assms by (metis One_nat_def Suc_eq_plus1 add.commute div_add_self1 div_less less_not_refl)
next
  case False
  then have "k + n - 1 = n + (k - n + n - 1)"
    by linarith
  then show ?thesis
    using assms by (metis Suc_eq_plus1 add.commute div_add_self1 less_not_refl)
qed

lemma length_chunks: "0 < n \<Longrightarrow> length (chunks n xs) = (length xs + n - 1) div n"
proof (induction n xs rule: chunks.induct)
  case (1 n xs)
  show ?case
  proof (cases "xs = []")
    case True
    then show ?thesis
      using 1 by (simp add: chunks.simps)
  next
    case False
    then show ?thesis
      using 1 rounded_up_div [of n "length xs"] by (subst chunks.simps) (simp del: add_diff_assoc2)
  qed
qed

lemma write_frames_eq:
  assumes "\<And>c. c \<in> set cs \<Longrightarrow> length c \<le> 11" "length buf = MAX_NODES_FRAME_LEN"
  shows "write_frames al buf cs = Some (map (nodes_octets al) cs)"
  using assms
proof (induction cs arbitrary: buf)
  case (Cons c cs)
  have c: "length c \<le> 11"
    using Cons.prems(1) by simp
  have len: "length (nodes_octets al c) = 7 + 21 * length c" "7 + 21 * length c \<le> length buf"
    using c Cons.prems(2) by (simp_all add: length_nodes_octets MAX_NODES_FRAME_LEN_def nodes_consts)
  have "write_nodes_frame al c buf = Some (overwrite buf 0 (nodes_octets al c), Some (7 + 21 * length c))"
    using fillsD(1) [OF write_nodes_frame_fills, of al c buf] len c by (simp add: nodes_consts mult.commute min_def)
  moreover have "take (7 + 21 * length c) (overwrite buf 0 (nodes_octets al c)) = nodes_octets al c"
    using len(1) by (simp add: overwrite_def)
  ultimately show ?case
    using Cons.IH [of "overwrite buf 0 (nodes_octets al c)"] Cons.prems len by simp
qed simp

text \<open>The options decide whether a broadcast is accepted, never what it is read as.\<close>

lemma nodes_parse_same: "nodes_parse_with i o1 = Some a \<Longrightarrow> nodes_parse_with i o2 = Some b \<Longrightarrow> a = b"
  unfolding nodes_parse_with_eq Let_def by (simp only: option.inject option.distinct split: if_splits)

lemma originator_alias_wf:
  "(\<And>a. oo_alias options = Some a \<Longrightarrow> alias_wf a) \<Longrightarrow> alias_wf (og_alias (originator_new options))"
  by (auto simp: originator_new_def alias_from_call_base_def from_str_lossy_wf alias_EMPTY_wf split: option.splits)

section \<open>Resolving a target\<close>

lemma eq_ascii_ci_eq: "eq_ascii_ci a b \<longleftrightarrow> map to_ascii_uppercase a = map to_ascii_uppercase b"
  by (auto simp: eq_ascii_ci_def list_eq_iff_nth_eq list_all_length)

lemma resolve_scan_eq:
  "resolve_scan needle ds a c =
     ((case a of None \<Rightarrow> find (alias_matches needle) ds | Some v \<Rightarrow> Some v),
      (case c of None \<Rightarrow> find (call_matches needle) ds | Some v \<Rightarrow> Some v))"
  by (induction ds arbitrary: a c) (auto split: option.splits)

lemma display_upper:
  assumes "callsign_wf c"
  shows "map to_ascii_uppercase (display c) = display c" "length (display c) \<le> 9" "list_all (\<lambda>b. b < 128) (display c)"
proof -
  have b: "length (base c) \<le> 6" "list_all is_base_byte (base c)" "cs_ssid c \<le> 15"
    using assms base_wf [OF assms] by (auto simp: MAX_BASE_LEN_def callsign_wf_def)
  have "to_ascii_uppercase x = x \<and> x < 128" if "x \<in> set (ssid_suffix (cs_ssid c))" for x
  proof -
    have "list_all (\<lambda>s. list_all (\<lambda>y. to_ascii_uppercase y = y \<and> y < 128) (ssid_suffix s))
        [0, 1, 2, 3, 4, 5, 6, 7, 8, 9, 10, 11, 12, 13, 14, 15]"
      by code_simp
    moreover have "cs_ssid c \<in> set [0, 1, 2, 3, 4, 5, 6, 7, 8, 9, 10, 11, 12, 13, 14, 15]"
      using u8_le_15_cases [OF b(3)] by (simp only: list.set)
    ultimately show ?thesis
      using that unfolding list_all_iff by blast
  qed
  moreover have "to_ascii_uppercase x = x \<and> x < 128" if "x \<in> set (base c)" for x
    using b(2) that by (auto simp: list_all_iff base_byte_text word_less_nat_alt)
  ultimately have each: "to_ascii_uppercase x = x \<and> x < 128" if "x \<in> set (display c)" for x
    using that by (auto simp: display_def split: if_splits)
  show "map to_ascii_uppercase (display c) = display c"
    by (rule map_idI) (simp add: each)
  show "list_all (\<lambda>b. b < 128) (display c)"
    by (simp add: list_all_iff each)
  show "length (display c) \<le> 9"
    using b(1) by (simp add: display_def ssid_suffix_def)
qed

lemma display_text_eq: "callsign_wf c \<Longrightarrow> display_text c = Some (display c)"
  using write_display_eq [of c "replicate 16 0"] display_upper(2) [of c]
  by (simp add: display_text_def overwrite_def)

lemma display_inj:
  assumes "callsign_wf c" "callsign_wf c'" "base c \<noteq> []" "display c' = display c"
  shows "c' = c"
proof -
  have "takeWhile (\<lambda>b. b \<noteq> 45) (display d) = base d" if "callsign_wf d" for d
  proof -
    have "\<forall>x \<in> set (base d). x \<noteq> 45"
      using base_wf [OF that] by (auto simp: list_all_iff is_base_byte_def ascii_defs)
    then show ?thesis
      by (simp add: display_def takeWhile_append2 ssid_suffix_def)
  qed
  then have "base c' \<noteq> []"
    using assms by metis
  then have "Some c' = Some c"
    using callsign_parse_display [OF assms(1,3)] callsign_parse_display [OF assms(2)] assms(4) by simp
  then show ?thesis
    by (simp only: option.inject)
qed

definition alias_named :: "bytes \<Rightarrow> dest_state \<Rightarrow> bool" where
  "alias_named needle d \<longleftrightarrow> \<not> alias_is_empty (ds_alias d) \<and>
     map to_ascii_uppercase (as_bytes (ds_alias d)) = map to_ascii_uppercase needle"

lemma found_view:
  assumes "table_inv t" and eq: "\<And>D d. dest_of t D = Some d \<Longrightarrow> Q d \<longleftrightarrow> P (view_of d)"
  shows "find P (destinations t) = None \<longleftrightarrow> (\<forall>D d. dest_of t D = Some d \<longrightarrow> \<not> Q d)"
    and "find P (destinations t) = Some v \<Longrightarrow> \<exists>d. dest_of t (dv_destination v) = Some d \<and> v = view_of d \<and> Q d"
proof -
  have view: "dv_destination (view_of d) = ds_destination d" for d
    by (simp add: view_of_def)
  have "d \<in> ran (dest_of t) \<longleftrightarrow> dest_of t (ds_destination d) = Some d" for d
    using dest_of_in [OF assms(1)] by (auto simp: ran_def)
  then have mem: "view_of d \<in> set (destinations t)" if "dest_of t D = Some d" for D d
    using that destinations_spec(1) [OF assms(1), of "view_of d"] view by (metis ranI)
  have "find P (destinations t) = None \<longleftrightarrow> (\<forall>v \<in> set (destinations t). \<not> P v)"
    by (auto simp: find_None_iff)
  then show "find P (destinations t) = None \<longleftrightarrow> (\<forall>D d. dest_of t D = Some d \<longrightarrow> \<not> Q d)"
    using mem eq destinations_spec(1) [OF assms(1)] by metis
  show "\<exists>d. dest_of t (dv_destination v) = Some d \<and> v = view_of d \<and> Q d" if f: "find P (destinations t) = Some v"
  proof -
    have "v \<in> set (destinations t)" "P v"
      using f by (auto simp: find_Some_iff)
    then show ?thesis
      using destinations_spec(1) [OF assms(1), of v] eq by blast
  qed
qed

lemma alias_matches_view: "alias_named needle d \<longleftrightarrow> alias_matches needle (view_of d)"
  by (simp add: alias_named_def alias_matches_def eq_ascii_ci_eq view_of_def)

definition call_named :: "bytes \<Rightarrow> dest_state \<Rightarrow> bool" where
  "call_named needle d \<longleftrightarrow> display (ds_destination d) = map to_ascii_uppercase needle"

lemma resolve_eq:
  "resolve_destination t target =
     (let needle = utf8 (trim target)
      in if trim target = [] then None
         else case find (alias_matches needle) (destinations t) of
                Some v \<Rightarrow> Some v | None \<Rightarrow> find (call_matches needle) (destinations t))"
  by (simp add: resolve_destination_def resolve_scan_eq Let_def split: option.splits)

lemma call_matches_view: "callsign_wf (ds_destination d) \<Longrightarrow> call_named needle d \<longleftrightarrow> call_matches needle (view_of d)"
  by (simp add: call_named_def call_matches_def view_of_def display_text_eq eq_ascii_ci_eq display_upper(1))

lemma history:
  assumes "0 < max_routes" "list_all received es"
  shows "table_inv (fold table_step es (table_new max_dests max_routes max_nbrs options)) \<and>
    named (fold table_step es (table_new max_dests max_routes max_nbrs options))"
  using routing.run_inv [OF table_new_inv [OF assms(1)]] run_named [OF assms(2) new_named] by blast

section \<open>Properties\<close>

text \<open>
  C15: what is advertised. In the table of any history, the destinations of the advertisement are exactly
  those whose best route, by quality and then by freshness, has a quality above 0 and an obsolescence
  count of at least the minimum; each is named once, with its alias and such a route's neighbour and
  quality, in the order of falling quality and then of the callsigns.
\<close>

theorem advertisement_spec:
  assumes "0 < max_routes" "list_all received es"
    and t_def: "t = fold table_step es (table_new max_dests max_routes max_nbrs options)"
    and best_def: "best = (\<lambda>D b. route_of t D (rs_neighbour b) = Some b \<and>
      (\<forall>nb r. route_of t D nb = Some r \<longrightarrow> rs_quality r < rs_quality b \<or>
         rs_quality r = rs_quality b \<and> rs_obsolescence r \<le> rs_obsolescence b))"
    and floor_def: "floor = (case m of None \<Rightarrow> ro_obsolete_minimum (rt_options t) | Some x \<Rightarrow> x)"
  shows "(\<forall>e \<in> set (build_advertisement t m). \<exists>d b. dest_of t (av_destination e) = Some d \<and> best (av_destination e) b \<and>
      0 < rs_quality b \<and> floor \<le> rs_obsolescence b \<and> av_destination_alias e = ds_alias d \<and>
      av_best_neighbour e = rs_neighbour b \<and> av_quality e = rs_quality b) \<and>
    (\<forall>D. D \<notin> av_destination ` set (build_advertisement t m) \<longrightarrow>
      (\<forall>b. best D b \<longrightarrow> rs_quality b = 0 \<or> rs_obsolescence b < floor)) \<and>
    distinct (map av_destination (build_advertisement t m)) \<and>
    sorted_wrt (\<lambda>e f. av_quality f < av_quality e \<or>
      av_quality e = av_quality f \<and> \<not> callsign_lt (av_destination f) (av_destination e)) (build_advertisement t m)"
proof -
  have inv: "table_inv t"
    using history [OF assms(1,2)] by (simp add: t_def)
  have fl: "gate t m = floor"
    by (simp add: gate_def floor_def)
  have less: "\<not> fresher r b \<longleftrightarrow> rs_quality r < rs_quality b \<or> rs_quality r = rs_quality b \<and> rs_obsolescence r \<le> rs_obsolescence b" for r b
    by (auto simp: fresher_def not_less)
  have b: "best D b" if "advertised_route t D = Some b" for D b
    using advertised_route_spec(2) [OF inv that] unfolding best_def less by blast
  have entries: "\<exists>d b. dest_of t (av_destination e) = Some d \<and> best (av_destination e) b \<and>
      0 < rs_quality b \<and> floor \<le> rs_obsolescence b \<and> av_destination_alias e = ds_alias d \<and>
      av_best_neighbour e = rs_neighbour b \<and> av_quality e = rs_quality b"
    if mem: "e \<in> set (build_advertisement t m)" for e
  proof -
    obtain d b where e: "dest_of t (av_destination e) = Some d" "advertised_route t (av_destination e) = Some b"
      "0 < rs_quality b" "floor \<le> rs_obsolescence b"
      "e = \<lparr>av_destination = av_destination e, av_destination_alias = ds_alias d,
         av_best_neighbour = rs_neighbour b, av_quality = rs_quality b\<rparr>"
      using mem unfolding build_advertisement_set [OF inv] fl by blast
    then show ?thesis
      using b [OF e(2)] by (metis advertisement.select_convs)
  qed
  have missing: "rs_quality x = 0 \<or> rs_obsolescence x < floor"
    if "D \<notin> av_destination ` set (build_advertisement t m)" "best D x" for D x
  proof (rule ccontr)
    assume no: "\<not> ?thesis"
    have x: "route_of t D (rs_neighbour x) = Some x"
      using that(2) by (simp add: best_def)
    then obtain y where y: "advertised_route t D = Some y"
      using advertised_route_spec(1) [OF inv, of D] by (cases "advertised_route t D") auto
    have "rs_quality x = rs_quality y \<and> rs_obsolescence x = rs_obsolescence y"
      using that(2) b [OF y] unfolding best_def by (metis order_antisym order_less_asym)
    then have "0 < rs_quality y" "floor \<le> rs_obsolescence y"
      using no by (auto simp: word_gt_0)
    moreover obtain d where "dest_of t D = Some d"
      using x by (auto simp: route_of_def bind_eq_Some_conv)
    ultimately have "\<lparr>av_destination = D, av_destination_alias = ds_alias d,
        av_best_neighbour = rs_neighbour y, av_quality = rs_quality y\<rparr> \<in> set (build_advertisement t m)"
      using y unfolding build_advertisement_set [OF inv] fl by simp
    then show False
      using that(1) by force
  qed
  have "rank_of_entry e \<le> rank_of_entry f \<longleftrightarrow> av_quality f < av_quality e \<or>
      av_quality e = av_quality f \<and> \<not> callsign_lt (av_destination f) (av_destination e)" for e f
    by (simp add: rank_of_entry_def less_eq_route_rank_def callsign_lt_key not_less)
  then show ?thesis
    using entries missing build_advertisement_order [OF inv, of m] by (simp add: sorted_map)
qed

theorem advertisement_spec_witness:
  "distinct (map av_destination (build_advertisement (fold table_step [LinkDown (sample [66])]
     (table_new 8 3 4 ROUTING_DEFAULT)) None))"
  using advertisement_spec [OF _ _ refl refl refl, of 3 "[LinkDown (sample [66])]"] by simp

text \<open>
  Origination is the inverse of ingestion. The frames that a node broadcasts number one for every
  eleven entries or part of it, one with the header alone if there are none, and none at all when origination
  is off; each fits the frame size and parses, to the node's alias and, over all frames, to exactly the
  entries of the advertisement in their order. With entries, the strict parser accepts the frames too.
\<close>

lemma broadcast_frames:
  assumes "0 < max_routes" "list_all received es" "\<And>a. oo_alias options = Some a \<Longrightarrow> alias_wf a"
    and t_def: "t = fold table_step es (table_new max_dests max_routes max_nbrs ropts)"
    and og_def: "og = originator_new options"
    and adv_def: "adv = build_advertisement t (oo_obsolete_minimum options)"
  shows "\<exists>frames. broadcast_nodes og t = Some frames \<and>
    (\<not> oo_enabled options \<longrightarrow> frames = []) \<and>
    (oo_enabled options \<longrightarrow> length frames = max 1 ((length adv + 10) div 11) \<and>
      (\<forall>f \<in> set frames. length f \<le> 238) \<and>
      (\<exists>bs. map nodes_parse frames = map Some bs \<and> (\<forall>b \<in> set bs. nb_sender_alias b = og_alias og) \<and>
        concat (map broadcast_entries bs) = map entry_of adv \<and>
        (adv \<noteq> [] \<longrightarrow> map (\<lambda>f. nodes_parse_with f NODES_STRICT) frames = map Some bs)))"
proof -
  define cs where "cs = (if adv = [] then [[]] else chunks 11 adv)"
  have hist: "table_inv t" "named t"
    using history [OF assms(1,2)] by (simp_all add: t_def)
  have al: "alias_wf (og_alias og)"
    unfolding og_def by (rule originator_alias_wf) (rule assms(3))
  have c: "length c \<le> 11 \<and> set c \<subseteq> set adv \<and> (adv \<noteq> [] \<longrightarrow> c \<noteq> [])" if "c \<in> set cs" for c
    using that chunks_bounds [of c 11 adv] by (auto simp: cs_def split: if_splits)
  have "write_frames (og_alias og) (replicate MAX_NODES_FRAME_LEN 0) cs = Some (map (nodes_octets (og_alias og)) cs)"
    by (rule write_frames_eq) (use c in simp_all)
  moreover have "og_enabled og = oo_enabled options" "og_obsolete_minimum og = oo_obsolete_minimum options"
    by (simp_all add: og_def originator_new_def)
  ultimately have run: "broadcast_nodes og t =
      (if oo_enabled options then Some (map (nodes_octets (og_alias og)) cs) else Some [])"
    by (cases "adv = []"; cases "oo_enabled options")
      (simp_all add: broadcast_nodes_def nodes_consts cs_def flip: adv_def)
  define parsed where "parsed = (\<lambda>c. the (nodes_parse (nodes_octets (og_alias og) c)))"
  have parse: "nodes_parse_with (nodes_octets (og_alias og) c) opts = Some (parsed c) \<and>
      nb_sender_alias (parsed c) = og_alias og \<and> broadcast_entries (parsed c) = map entry_of c"
    if "c \<in> set cs" "allow_empty_destination_list opts \<or> adv \<noteq> []" for c opts
  proof -
    have ok: "list_all (entry_wf \<circ> entry_of) c" "length c \<le> 11" "c \<noteq> [] \<or> allow_empty_destination_list opts"
      using c [OF that(1)] that(2) build_advertisement_wf [OF hist, of "oo_obsolete_minimum options"]
      unfolding adv_def list_all_iff by auto
    obtain b where b: "nodes_parse_with (nodes_octets (og_alias og) c) opts = Some b"
        "nb_sender_alias b = og_alias og" "broadcast_entries b = map entry_of c"
      using nodes_parse_octets [OF al ok] by blast
    have "\<exists>a. nodes_parse (nodes_octets (og_alias og) c) = Some a"
      using nodes_parse_octets [OF al ok(1,2), of NODES_LENIENT] by (auto simp: nodes_parse_def NODES_LENIENT_def)
    then have "parsed c = b"
      using nodes_parse_same [OF b(1)] by (auto simp: parsed_def nodes_parse_def)
    then show ?thesis
      using b by simp
  qed
  have "length cs = max 1 ((length adv + 10) div 11)"
    using length_chunks [of 11 adv] by (cases adv) (auto simp: cs_def max_def)
  moreover have cat: "concat cs = adv"
    using concat_chunks [of 11 adv] by (simp add: cs_def)
  have "map (broadcast_entries \<circ> parsed) cs = map (map entry_of) cs"
    using parse [of _ NODES_LENIENT] by (auto simp: NODES_LENIENT_def)
  then have "concat (map (broadcast_entries \<circ> parsed) cs) = map entry_of adv"
    by (simp only: map_concat [symmetric] cat)
  moreover have "map nodes_parse (map (nodes_octets (og_alias og)) cs) = map Some (map parsed cs)"
    using parse [of _ NODES_LENIENT] by (auto simp: NODES_LENIENT_def nodes_parse_def)
  moreover have "\<forall>b \<in> set (map parsed cs). nb_sender_alias b = og_alias og"
    using parse [of _ NODES_LENIENT] by (auto simp: NODES_LENIENT_def)
  moreover have "adv \<noteq> [] \<longrightarrow> map (\<lambda>f. nodes_parse_with f NODES_STRICT) (map (nodes_octets (og_alias og)) cs) = map Some (map parsed cs)"
    using parse [of _ NODES_STRICT] by simp
  moreover have "\<forall>f \<in> set (map (nodes_octets (og_alias og)) cs). length f \<le> 238"
    using c by (auto simp: length_nodes_octets)
  ultimately show ?thesis
    unfolding run by (cases "oo_enabled options") (auto simp del: map_map simp: map_map [symmetric])
qed

definition sample_heard :: "table_event list" where
  "sample_heard = [Heard (sample [66]) (sample [65]) []
     \<lparr>nb_sender_alias = alias_EMPTY, nb_entries = replicate 11 None, nb_count = 0\<rparr> 0]"

lemma sample_heard: "list_all received sample_heard"
proof -
  have "nodes_parse_with (SIGNATURE # replicate 6 32) NODES_LENIENT =
      Some \<lparr>nb_sender_alias = alias_EMPTY, nb_entries = replicate 11 None, nb_count = 0\<rparr>"
    by code_simp
  then show ?thesis
    using sample_wf [of "[66]"] by (auto simp: sample_heard_def MAX_BASE_LEN_def is_base_byte_def ascii_defs)
qed

definition sample_options :: originator_options where
  "sample_options = \<lparr>oo_enabled = True, oo_alias = None, oo_node_call = Some (sample [65]), oo_obsolete_minimum = None\<rparr>"

text \<open>
  Resolving what a user types. In the table of any history, the answer is a destination whose alias is
  the trimmed target, letter case aside, or if there is none one whose printed callsign is; there is no
  answer exactly if the target is blank or neither exists. The printed callsign of a destination always
  leads to that destination, unless it is also somebody's alias.
\<close>

theorem resolve_destination_spec:
  assumes "0 < max_routes" "list_all received es"
    and t_def: "t = fold table_step es (table_new max_dests max_routes max_nbrs options)"
    and n_def: "n = utf8 (trim target)"
  shows "(\<forall>v. resolve_destination t target = Some v \<longrightarrow> (\<exists>d. dest_of t (dv_destination v) = Some d \<and> v = view_of d \<and>
      (alias_named n d \<or> (\<forall>D d'. dest_of t D = Some d' \<longrightarrow> \<not> alias_named n d') \<and> call_named n d))) \<and>
    (resolve_destination t target = None \<longleftrightarrow> trim target = [] \<or>
      (\<forall>D d. dest_of t D = Some d \<longrightarrow> \<not> alias_named n d \<and> \<not> call_named n d)) \<and>
    (\<forall>d. dest_of t D = Some d \<longrightarrow> base D \<noteq> [] \<longrightarrow>
      (\<forall>D' d'. dest_of t D' = Some d' \<longrightarrow> \<not> alias_named (display D) d') \<longrightarrow>
      resolve_destination t (ascii (display D)) = Some (view_of d))"
proof -
  have hist: "table_inv t" "named t"
    using history [OF assms(1,2)] by (simp_all add: t_def)
  have wf: "callsign_wf D \<and> ds_destination d = D" if "dest_of t D = Some d" for D d
    using named_destD [OF hist that] by (auto simp: dest_named_def)
  define as where "as = (\<lambda>n. find (alias_matches n) (destinations t))"
  define cs where "cs = (\<lambda>n. find (call_matches n) (destinations t))"
  have call_view: "call_named n d \<longleftrightarrow> call_matches n (view_of d)" if "dest_of t D = Some d" for D d n
    using wf [OF that] by (intro call_matches_view) simp
  have a: "as n = None \<longleftrightarrow> (\<forall>D d. dest_of t D = Some d \<longrightarrow> \<not> alias_named n d)"
    "as n = Some v \<Longrightarrow> \<exists>d. dest_of t (dv_destination v) = Some d \<and> v = view_of d \<and> alias_named n d" for n v
    unfolding as_def using found_view [where t = t and Q = "alias_named n" and P = "alias_matches n", OF hist(1) alias_matches_view] by blast+
  have c: "cs n = None \<longleftrightarrow> (\<forall>D d. dest_of t D = Some d \<longrightarrow> \<not> call_named n d)"
    "cs n = Some v \<Longrightarrow> \<exists>d. dest_of t (dv_destination v) = Some d \<and> v = view_of d \<and> call_named n d" for n v
    unfolding cs_def using found_view [where t = t and Q = "call_named n" and P = "call_matches n", OF hist(1)] call_view by blast+
  have res: "resolve_destination t x = (if trim x = [] then None else case as (utf8 (trim x)) of Some v \<Rightarrow> Some v | None \<Rightarrow> cs (utf8 (trim x)))" for x
    by (simp add: resolve_eq as_def cs_def Let_def split: option.split)
  have "\<exists>d. dest_of t (dv_destination v) = Some d \<and> v = view_of d \<and>
      (alias_named n d \<or> (\<forall>D d'. dest_of t D = Some d' \<longrightarrow> \<not> alias_named n d') \<and> call_named n d)"
    if "resolve_destination t target = Some v" for v
    using that a(2) [of n v] c(2) [of n v] a(1) [of n] unfolding res n_def [symmetric]
    by (auto split: if_splits option.splits)
  moreover have "resolve_destination t target = None \<longleftrightarrow> trim target = [] \<or>
      (\<forall>D d. dest_of t D = Some d \<longrightarrow> \<not> alias_named n d \<and> \<not> call_named n d)"
    using a(1) [of n] c(1) [of n] unfolding res n_def [symmetric] by (auto split: option.splits)
  moreover have "resolve_destination t (ascii (display D)) = Some (view_of d)"
    if d: "dest_of t D = Some d" "base D \<noteq> []" "\<forall>D' d'. dest_of t D' = Some d' \<longrightarrow> \<not> alias_named (display D) d'" for d
  proof -
    have D: "callsign_wf D" "ds_destination d = D"
      using wf [OF d(1)] by simp_all
    have x: "trim (ascii (display D)) = ascii (display D)" "utf8 (ascii (display D)) = display D" "display D \<noteq> []"
      using trim_display [OF D(1)] utf8_ascii [OF display_upper(3) [OF D(1)]] d(2) by (simp_all add: display_def)
    have "call_named (display D) d"
      using D display_upper(1) by (simp add: call_named_def)
    then obtain v where v: "cs (display D) = Some v"
      using c(1) d(1) by (cases "cs (display D)") auto
    then obtain d' where d': "dest_of t (dv_destination v) = Some d'" "v = view_of d'" "display (ds_destination d') = display D"
      using c(2) [OF v] display_upper(1) [OF D(1)] by (auto simp: call_named_def)
    have "ds_destination d' = D"
      using display_inj [OF D(1) _ d(2) d'(3)] wf [OF d'(1)] by simp
    then have "d' = d"
      using d(1) d'(1) wf [OF d'(1)] by simp
    moreover have "as (display D) = None"
      using a(1) d(3) by blast
    ultimately show ?thesis
      using v d'(2) x by (simp add: res)
  qed
  ultimately show ?thesis
    by blast
qed

theorem resolve_destination_spec_witness:
  "map_option dv_destination (resolve_destination (fold table_step sample_heard (table_new 8 3 4 ROUTING_DEFAULT)) (ascii [66])) =
     Some (sample [66])"
proof -
  define t where "t = fold table_step sample_heard (table_new 8 3 4 ROUTING_DEFAULT)"
  have c: "list_all (\<lambda>d. alias_is_empty (ds_alias d)) (slot_items (rt_destinations t)) \<and> dest_of t (sample [66]) \<noteq> None \<and>
      display (sample [66]) = [66] \<and> base (sample [66]) \<noteq> []"
    unfolding t_def by code_simp
  then obtain d where d: "dest_of t (sample [66]) = Some d"
    by blast
  have inv: "table_inv t"
    using history [OF _ sample_heard, of 3] by (simp add: t_def)
  have "\<not> alias_named n d'" if "dest_of t D = Some d'" for n D d'
    using c dest_of_in [OF inv that] by (auto simp: alias_named_def list_all_iff slot_simps)
  then have "resolve_destination t (ascii (display (sample [66]))) = Some (view_of d)"
    using resolve_destination_spec [OF _ sample_heard t_def refl, of "[]" "sample [66]"] c d by auto
  then show ?thesis
    using c dest_of_in [OF inv d] unfolding t_def [symmetric] by (simp add: view_of_def)
qed

end
