(* ===== verification/Netrom_Balance.thy ===== *)
theory Netrom_Balance
  imports Netrom_Routing_Props
begin

text \<open>
  The quality-weighted next-hop selection of the routing table (\<open>select_route_excluding\<close>): the shares
  of the flow hashes that each eligible route receives.
\<close>

section \<open>The selection on natural numbers\<close>

fun weight :: "callsign \<Rightarrow> route_state \<Rightarrow> nat" where
  "weight exclude r = (if eligible exclude r then unat (rs_quality r) else 0)"

definition total_weight :: "callsign \<Rightarrow> route_state list \<Rightarrow> nat" where
  "total_weight exclude rs = sum_list (map (weight exclude) rs)"

fun bucket :: "callsign \<Rightarrow> nat \<Rightarrow> route_state list \<Rightarrow> callsign option" where
  "bucket exclude target [] = None"
| "bucket exclude target (r # rs) =
     (if target < weight exclude r then Some (rs_neighbour r)
      else bucket exclude (target - weight exclude r) rs)"

lemma weight_fun: "weight exclude = (\<lambda>r. if eligible exclude r then unat (rs_quality r) else 0)"
  by (rule ext) simp

lemma weight_pos: "eligible exclude r \<Longrightarrow> 0 < weight exclude r"
  by (simp add: eligible_def word_less_nat_alt)

lemma unat_quality32: "unat (ucast (rs_quality r) :: u32) = unat (rs_quality r)"
  using unat_u8_le [of "rs_quality r"] by (simp add: unsigned_ucast_eq take_bit_eq_mod)

lemma pick_bucket_eq: "pick_bucket exclude target rs = bucket exclude (unat target) rs"
proof (induction exclude target rs rule: pick_bucket.induct)
  case (2 exclude target r rs)
  show ?case
  proof (cases "eligible exclude r \<and> \<not> target < ucast (rs_quality r)")
    case True
    then have "unat (target - ucast (rs_quality r)) = unat target - unat (rs_quality r)"
      by (simp add: unat_sub unat_quality32 word_le_nat_alt not_less)
    then show ?thesis
      using True "2.IH"(2) by (simp add: Let_def word_less_nat_alt unat_quality32)
  next
    case False
    then show ?thesis
      using "2.IH"(1) by (auto simp: Let_def word_less_nat_alt unat_quality32)
  qed
qed simp

lemma unat_total:
  assumes "unat acc + 255 * length rs < 2 ^ 32"
  shows "unat (fold (\<lambda>r a. if eligible exclude r then a + ucast (rs_quality r) else a) rs (acc :: u32))
    = unat acc + total_weight exclude rs"
  using assms
proof (induction rs arbitrary: acc)
  case (Cons r rs)
  have "unat (rs_quality r) \<le> 255"
    by (rule unat_u8_le)
  then have "unat (acc + ucast (rs_quality r)) = unat acc + unat (rs_quality r)"
    using Cons.prems by (simp add: unat_word_ariths unat_quality32)
  then show ?case
    using Cons \<open>unat (rs_quality r) \<le> 255\<close> by (simp add: total_weight_def)
qed (simp add: total_weight_def)

lemma bucket_Some:
  "bucket exclude k rs = Some nb \<Longrightarrow> \<exists>r \<in> set rs. eligible exclude r \<and> rs_neighbour r = nb"
  by (induction exclude k rs rule: bucket.induct) (auto split: if_splits)

lemma bucket_total: "k < total_weight exclude rs \<Longrightarrow> bucket exclude k rs \<noteq> None"
  by (induction exclude k rs rule: bucket.induct) (auto simp: total_weight_def)

lemma bucket_share:
  assumes "distinct (map rs_neighbour rs)" "r \<in> set rs"
  shows "card {k. k < total_weight exclude rs \<and> bucket exclude k rs = Some (rs_neighbour r)} = weight exclude r"
  using assms
proof (induction rs)
  case (Cons q rs)
  let ?w = "weight exclude q" and ?nb = "rs_neighbour r"
  have split: "{k. k < total_weight exclude (q # rs) \<and> bucket exclude k (q # rs) = Some ?nb} =
      {k. k < ?w \<and> rs_neighbour q = ?nb} \<union>
      (\<lambda>k. k + ?w) ` {k. k < total_weight exclude rs \<and> bucket exclude k rs = Some ?nb}" (is "?L = ?A \<union> ?B")
  proof (intro set_eqI iffI)
    show "k \<in> ?A \<union> ?B" if "k \<in> ?L" for k
    proof (cases "k < ?w")
      case False
      then have "k = (k - ?w) + ?w" "k - ?w < total_weight exclude rs" "bucket exclude (k - ?w) rs = Some ?nb"
        using that by (auto simp: total_weight_def simp del: weight.simps)
      then show ?thesis
        by blast
    qed (use that in simp)
    show "k \<in> ?L" if "k \<in> ?A \<union> ?B" for k
      using that by (auto simp: total_weight_def simp del: weight.simps)
  qed
  show ?case
  proof (cases "rs_neighbour q = ?nb")
    case True
    then have "r = q"
      using Cons.prems by (auto simp: image_iff)
    have "{k. k < total_weight exclude rs \<and> bucket exclude k rs = Some ?nb} = {}"
      using bucket_Some [of exclude _ rs ?nb] Cons.prems(1) True by (force simp: image_iff)
    then have "?L = {..<?w}"
      unfolding split using True by auto
    then show ?thesis
      using \<open>r = q\<close> by (simp only: card_lessThan)
  next
    case False
    then have "r \<in> set rs"
      using Cons.prems by auto
    then have "card ?B = weight exclude r"
      using Cons by (subst card_image) (auto simp: inj_on_def simp del: weight.simps)
    then show ?thesis
      unfolding split using False by (simp del: weight.simps)
  qed
qed simp

lemma select_route_eq:
  assumes "table_inv t" "rt_max_routes t < 2 ^ 24"
  shows "total_weight exclude (kept_routes t dest) < 2 ^ 32"
    and "select_route_excluding t dest exclude h =
      (if total_weight exclude (kept_routes t dest) = 0 then None
       else bucket exclude (unat h mod total_weight exclude (kept_routes t dest)) (kept_routes t dest))"
proof -
  let ?ks = "kept_routes t dest"
  have len: "length ?ks < 2 ^ 24"
    using kept_routes_spec(4) [OF assms(1), of dest] assms(2) by linarith
  define T :: u32 where "T = fold (\<lambda>r a. if eligible exclude r then a + ucast (rs_quality r) else a) ?ks 0"
  have tot: "unat T = total_weight exclude ?ks"
    using unat_total [of 0 ?ks exclude] len by (simp add: T_def)
  have zero: "T = 0 \<longleftrightarrow> total_weight exclude ?ks = 0"
    by (simp flip: tot add: unsigned_eq_0_iff)
  show "select_route_excluding t dest exclude h =
      (if total_weight exclude ?ks = 0 then None else bucket exclude (unat h mod total_weight exclude ?ks) ?ks)"
    using tot zero
    by (simp only: select_route_excluding_def Let_def pick_bucket_eq unat_mod T_def [symmetric])
  have "unat T < 2 ^ LENGTH(32)"
    by (rule unsigned_less)
  then show "total_weight exclude ?ks < 2 ^ 32"
    using tot by simp
qed

lemma select_route_elsewhere:
  assumes "table_inv t" "rt_max_routes t < 2 ^ 24"
  shows "select_route_excluding t dest exclude h = None \<longleftrightarrow> total_weight exclude (kept_routes t dest) = 0"
    and "select_route_excluding t dest exclude h = Some nb \<Longrightarrow>
      nb \<noteq> exclude \<and> (\<exists>r. route_of t dest nb = Some r \<and> rs_quality r > 0)"
proof -
  let ?ks = "kept_routes t dest"
  show "select_route_excluding t dest exclude h = None \<longleftrightarrow> total_weight exclude ?ks = 0"
    using bucket_total [of "unat h mod total_weight exclude ?ks" exclude ?ks] by (simp add: select_route_eq(2) [OF assms])
  show "nb \<noteq> exclude \<and> (\<exists>r. route_of t dest nb = Some r \<and> rs_quality r > 0)"
    if "select_route_excluding t dest exclude h = Some nb"
    using that bucket_Some kept_routes_spec(5) [OF assms(1)]
    by (fastforce simp: select_route_eq(2) [OF assms] eligible_def split: if_splits)
qed

lemma no_weight: "total_weight exclude rs = 0 \<longleftrightarrow> (\<forall>r \<in> set rs. \<not> eligible exclude r)"
  by (induction rs) (auto simp: total_weight_def eligible_def unsigned_eq_0_iff)

section \<open>Property\<close>

text \<open>
  Load balancing follows the qualities. A next hop is chosen whenever some route of positive quality
  leads elsewhere than back, it is always such a route's neighbour, the same flow hash always gets the
  same one, and of the flow hashes below the sum of those qualities exactly as many go to each route as
  its quality says.
\<close>

theorem select_route_balanced:
  assumes "table_inv t" "rt_max_routes t < 2 ^ 24"
    and "W = sum_list (map (\<lambda>r. unat (rs_quality r)) (filter (eligible exclude) (kept_routes t dest)))"
  shows "(select_route_excluding t dest exclude h = None \<longleftrightarrow> W = 0) \<and>
    (select_route_excluding t dest exclude h = Some nb \<longrightarrow> nb \<noteq> exclude \<and>
       (\<exists>r. route_of t dest nb = Some r \<and> rs_quality r > 0)) \<and>
    (route_of t dest nb = Some r \<and> nb \<noteq> exclude \<longrightarrow>
       card {k. k < W \<and> select_route_excluding t dest exclude (of_nat k) = Some nb} = unat (rs_quality r))"
proof -
  let ?ks = "kept_routes t dest"
  have W: "W = total_weight exclude ?ks"
    unfolding assms(3) total_weight_def weight_fun by (simp add: sum_list_map_filter')
  note sel = select_route_eq [OF assms(1,2), where exclude = exclude and dest = dest, folded W]
  have "card {k. k < W \<and> select_route_excluding t dest exclude (of_nat k) = Some nb} = unat (rs_quality r)"
    if r: "route_of t dest nb = Some r" "nb \<noteq> exclude"
  proof -
    have key: "rs_neighbour r = nb"
      using r(1) table_invD(6) [OF assms(1)] by (auto simp: route_of_def bind_eq_Some_conv dest: slot_lookup_key)
    then have mem: "r \<in> set ?ks"
      using r(1) kept_routes_spec(5) [OF assms(1)] by simp
    have "select_route_excluding t dest exclude (of_nat k) = bucket exclude k ?ks" if "k < W" for k
      using that sel(1) by (simp add: sel(2) unat_of_nat)
    then have "{k. k < W \<and> select_route_excluding t dest exclude (of_nat k) = Some nb} =
        {k. k < total_weight exclude ?ks \<and> bucket exclude k ?ks = Some (rs_neighbour r)}"
      using key W by auto
    moreover have "weight exclude r = unat (rs_quality r)"
      using r(2) key by (auto simp: eligible_def word_less_nat_alt)
    ultimately show ?thesis
      using bucket_share [OF kept_routes_spec(3) [OF assms(1)] mem] by metis
  qed
  then show ?thesis
    using select_route_elsewhere [OF assms(1,2), where exclude = exclude and dest = dest, folded W] by blast
qed

theorem select_route_balanced_witness:
  "card {k. k < 192 \<and> select_route_excluding sample_table (sample [67]) (sample [68]) (of_nat k) = Some (sample [66])} = 192"
proof -
  have ks: "kept_routes sample_table (sample [67]) = [sample_route]"
  proof -
    have "set (kept_routes sample_table (sample [67])) = {sample_route}"
      using kept_routes_spec(1) [OF sample_table(1), of "sample [67]"] sample_table(2) by simp
    moreover have "distinct (kept_routes sample_table (sample [67]))"
      using kept_routes_spec(3) [OF sample_table(1)] by (simp add: distinct_map)
    ultimately have "length (kept_routes sample_table (sample [67])) = 1"
      using distinct_card by fastforce
    then obtain r where "kept_routes sample_table (sample [67]) = [r]"
      by (auto simp: length_Suc_conv)
    then show ?thesis
      using \<open>set _ = {sample_route}\<close> by simp
  qed
  have ne: "sample [66] \<noteq> sample [68]"
    by (simp add: sample_def padded_def)
  then have "192 = sum_list (map (\<lambda>r. unat (rs_quality r)) (filter (eligible (sample [68])) (kept_routes sample_table (sample [67]))))"
    by (simp add: ks eligible_def sample_route_def)
  moreover have "rt_max_routes sample_table < 2 ^ 24"
    by (simp add: sample_table_def table_new_def)
  ultimately show ?thesis
    using select_route_balanced [OF sample_table(1), of 192 "sample [68]" "sample [67]" 0 "sample [66]" sample_route]
      sample_table(2) ne by (simp add: sample_route_def)
qed

end
