(* ===== verification/Netrom_Forward.thy ===== *)
theory Netrom_Forward
  imports Netrom_Views Netrom_Balance Netrom_Inp3_Props
begin

text \<open>
  The forwarding decision of a transit node (\<open>netrom/forwarding.rs\<close>), the view of the routing table
  that it reads (\<open>netrom/routing/mod.rs\<close>), and the choice of the active route
  (\<open>netrom/routing/inp3_route_selector.rs\<close>).
\<close>

section \<open>The routing view\<close>

text \<open>The trait \<open>NetRomRoutingView\<close> as a record of its methods, and its implementation by the table.\<close>

record routing_view =
  rv_resolve_destination :: "str \<Rightarrow> destination_view option"
  rv_destination_for :: "callsign \<Rightarrow> destination_view option"
  rv_neighbour_for :: "callsign \<Rightarrow> neighbour_state option"
  rv_best_route_excluding :: "callsign \<Rightarrow> callsign \<Rightarrow> callsign option"
  rv_select_route_excluding :: "callsign \<Rightarrow> callsign \<Rightarrow> u32 \<Rightarrow> callsign option"
  rv_inp3_next_hop_excluding :: "callsign \<Rightarrow> callsign \<Rightarrow> callsign option"

text \<open>The measured time of a route, then its hops, then its neighbour: the order of the time space.\<close>

definition better_time :: "inp3_metric \<Rightarrow> callsign \<Rightarrow> inp3_metric \<Rightarrow> callsign \<Rightarrow> bool" where
  "better_time m nb b nb' \<longleftrightarrow>
     im_target_time_ms m < im_target_time_ms b
     \<or> (im_target_time_ms m = im_target_time_ms b \<and> im_hop_count m < im_hop_count b)
     \<or> (im_target_time_ms m = im_target_time_ms b \<and> im_hop_count m = im_hop_count b \<and> callsign_lt nb nb')"

definition inp3_scan_step :: "callsign \<Rightarrow> route_state \<Rightarrow> route_state option \<Rightarrow> route_state option" where
  "inp3_scan_step exclude route best =
     (case rs_inp3 route of
        None \<Rightarrow> best
      | Some m \<Rightarrow>
          if rs_neighbour route = exclude then best
          else
            let better = (case Option.bind best rs_inp3 of
                None \<Rightarrow> True
              | Some b \<Rightarrow> better_time m (rs_neighbour route) b (rs_neighbour (the best)))
            in if better then Some route else best)"

definition select_inp3_next_hop :: "route_state list \<Rightarrow> callsign \<Rightarrow> callsign option" where
  "select_inp3_next_hop routes exclude =
     map_option rs_neighbour (fold (inp3_scan_step exclude) routes None)"

definition inp3_next_hop_excluding :: "table \<Rightarrow> callsign \<Rightarrow> callsign \<Rightarrow> callsign option" where
  "inp3_next_hop_excluding t dest exclude = select_inp3_next_hop (kept_routes t dest) exclude"

definition table_view :: "table \<Rightarrow> routing_view" where
  "table_view t =
     \<lparr>rv_resolve_destination = resolve_destination t, rv_destination_for = destination_for t,
      rv_neighbour_for = neighbour_entry t, rv_best_route_excluding = best_route_excluding t,
      rv_select_route_excluding = select_route_excluding t,
      rv_inp3_next_hop_excluding = inp3_next_hop_excluding t\<rparr>"

section \<open>The active route\<close>

text \<open>\<open>is_better_inp3\<close> with its \<open>expect\<close>s, and the scan, which calls it on measured routes only.\<close>

definition is_better_inp3 :: "route_state \<Rightarrow> route_state \<Rightarrow> bool panicking" where
  "is_better_inp3 candidate incumbent =
     (case rs_inp3 candidate of
        None \<Rightarrow> None
      | Some c \<Rightarrow>
          (case rs_inp3 incumbent of
            None \<Rightarrow> None
          | Some i \<Rightarrow>
              if im_target_time_ms c \<noteq> im_target_time_ms i then Some (im_target_time_ms c < im_target_time_ms i)
              else if im_hop_count c \<noteq> im_hop_count i then Some (im_hop_count c < im_hop_count i)
              else Some (callsign_lt (rs_neighbour candidate) (rs_neighbour incumbent))))"

fun scan_active :: "route_state list \<Rightarrow> route_state option \<Rightarrow> route_state option panicking" where
  "scan_active [] best = Some best"
| "scan_active (route # routes) best =
     (if rs_inp3 route = None then scan_active routes best
      else case best of
             None \<Rightarrow> scan_active routes (Some route)
           | Some incumbent \<Rightarrow>
               (case is_better_inp3 route incumbent of
                 None \<Rightarrow> None
               | Some replace \<Rightarrow> scan_active routes (if replace then Some route else best)))"

definition select_active_route :: "route_state list \<Rightarrow> route_state option \<Rightarrow> bool \<Rightarrow> route_state option panicking" where
  "select_active_route routes best_quality prefer_inp3_routes =
     (if \<not> prefer_inp3_routes then Some best_quality
      else case scan_active routes None of
             None \<Rightarrow> None
           | Some best_inp3 \<Rightarrow> Some (case best_inp3 of Some r \<Rightarrow> Some r | None \<Rightarrow> best_quality))"

section \<open>The decision\<close>

datatype forward_mode = BestRoute | PerFlow

datatype forward_outcome = ForwardTo | DropTtlExpired | DropLooped | DropNoRoute

record forward_decision =
  fd_outcome :: forward_outcome
  fd_next_hop :: "callsign option"
  fd_time_to_live :: u8

definition drop_decision :: "forward_outcome \<Rightarrow> forward_decision" where
  "drop_decision outcome = \<lparr>fd_outcome = outcome, fd_next_hop = None, fd_time_to_live = 0\<rparr>"

text \<open>The key is nine bytes; the origin fills the first seven, or none if it does not encode.\<close>

definition flow_key :: "packet \<Rightarrow> bytes" where
  "flow_key p =
     (let key = replicate (SHIFTED_LENGTH + 2) 0;
          key1 = (case write_shifted (nh_origin (pk_network p)) key of None \<Rightarrow> key | Some k \<Rightarrow> k)
      in (key1[SHIFTED_LENGTH := th_circuit_index (pk_transport p)])[SHIFTED_LENGTH + 1 := th_circuit_id (pk_transport p)])"

definition flow_hash :: "packet \<Rightarrow> u32" where
  "flow_hash p = fold (\<lambda>b hash. (hash XOR ucast b) * 0x01000193) (flow_key p) 0x811c9dc5"

definition decide_forward ::
  "packet \<Rightarrow> callsign \<Rightarrow> callsign \<Rightarrow> routing_view \<Rightarrow> u8 \<Rightarrow> forward_mode \<Rightarrow> bool \<Rightarrow> forward_decision" where
  "decide_forward p received_from node_call routing max_time_to_live mode prefer_inp3_routes =
     (let decr = saturating_sub (nh_time_to_live (pk_network p)) 1 in
      if decr = 0 then drop_decision DropTtlExpired
      else
        let capped = min decr max_time_to_live in
        if nh_origin (pk_network p) = node_call then drop_decision DropLooped
        else
          let dest = nh_destination (pk_network p);
              hop1 = (if prefer_inp3_routes then rv_inp3_next_hop_excluding routing dest received_from else None);
              next_hop = (if hop1 = None then
                  (case mode of
                     BestRoute \<Rightarrow> rv_best_route_excluding routing dest received_from
                   | PerFlow \<Rightarrow> rv_select_route_excluding routing dest received_from (flow_hash p))
                else hop1)
          in case next_hop of
               Some nh \<Rightarrow> \<lparr>fd_outcome = ForwardTo, fd_next_hop = Some nh, fd_time_to_live = capped\<rparr>
             | None \<Rightarrow> drop_decision DropNoRoute)"

section \<open>The order of the time space\<close>

definition time_key :: "inp3_metric \<Rightarrow> callsign \<Rightarrow> u32 \<times> u8 \<times> bytes \<times> u8" where
  "time_key m nb = (im_target_time_ms m, im_hop_count m, callsign_key nb)"

lemma better_time_key: "better_time m nb b nb' \<longleftrightarrow> time_key m nb < time_key b nb'"
  by (auto simp: better_time_def time_key_def callsign_lt_key)

lemma is_better_inp3_eq:
  "rs_inp3 c = Some m \<Longrightarrow> rs_inp3 i = Some b \<Longrightarrow>
    is_better_inp3 c i = Some (better_time m (rs_neighbour c) b (rs_neighbour i))"
  by (auto simp: is_better_inp3_def better_time_def)

text \<open>The best measured route elsewhere, as a value of the order.\<close>

definition best_timed :: "callsign \<Rightarrow> route_state list \<Rightarrow> route_state option \<Rightarrow> bool" where
  "best_timed exclude rs best \<longleftrightarrow>
     (case best of
        None \<Rightarrow> \<forall>r \<in> set rs. rs_inp3 r = None \<or> rs_neighbour r = exclude
      | Some b \<Rightarrow> b \<in> set rs \<and> rs_neighbour b \<noteq> exclude \<and> (\<exists>m. rs_inp3 b = Some m \<and>
          (\<forall>r \<in> set rs. \<forall>x. rs_inp3 r = Some x \<longrightarrow> rs_neighbour r \<noteq> exclude \<longrightarrow>
             \<not> better_time x (rs_neighbour r) m (rs_neighbour b))))"

lemma best_timed_step:
  assumes "best_timed exclude rs best"
  shows "best_timed exclude (rs @ [r]) (inp3_scan_step exclude r best)"
proof -
  have trans: "\<not> better_time x n y n'" if "better_time y n' z n''" "\<not> better_time x n z n''" for x n y n' z n''
    using that unfolding better_time_key by order
  show ?thesis
  proof (cases "rs_inp3 r = None \<or> rs_neighbour r = exclude")
    case True
    then show ?thesis
      using assms by (auto simp: best_timed_def inp3_scan_step_def split: option.splits)
  next
    case False
    then obtain m where m: "rs_inp3 r = Some m" "rs_neighbour r \<noteq> exclude"
      by auto
    show ?thesis
    proof (cases best)
      case None
      then show ?thesis
        using assms m by (auto simp: best_timed_def inp3_scan_step_def better_time_key)
    next
      case (Some b)
      then obtain x where "rs_inp3 b = Some x"
        using assms by (auto simp: best_timed_def)
      then show ?thesis
        using assms m Some trans [of m "rs_neighbour r" x "rs_neighbour b"]
        by (cases "better_time m (rs_neighbour r) x (rs_neighbour b)")
          (auto simp: best_timed_def inp3_scan_step_def better_time_key)
    qed
  qed
qed

lemma best_timed_fold: "best_timed exclude rs (fold (inp3_scan_step exclude) rs None)"
proof (induction rs rule: rev_induct)
  case (snoc r rs)
  then show ?case
    using best_timed_step by simp
qed (simp add: best_timed_def)

lemma scan_active_eq:
  assumes "\<forall>b. best = Some b \<longrightarrow> rs_inp3 b \<noteq> None" "\<forall>r \<in> set rs. rs_neighbour r \<noteq> exclude"
  shows "scan_active rs best = Some (fold (inp3_scan_step exclude) rs best)"
  using assms
proof (induction rs arbitrary: best)
  case (Cons r rs)
  show ?case
  proof (cases "rs_inp3 r")
    case None
    then show ?thesis
      using Cons by (simp add: inp3_scan_step_def)
  next
    case (Some m)
    then show ?thesis
      using Cons by (cases best) (auto simp: inp3_scan_step_def is_better_inp3_eq)
  qed
qed simp

section \<open>What the table offers\<close>

text \<open>A route of the table that does not lead back to where the datagram came from.\<close>

definition onward :: "table \<Rightarrow> callsign \<Rightarrow> callsign \<Rightarrow> callsign \<Rightarrow> route_state \<Rightarrow> bool" where
  "onward t dest received_from nb r \<longleftrightarrow> route_of t dest nb = Some r \<and> nb \<noteq> received_from"

definition timed_onward :: "table \<Rightarrow> callsign \<Rightarrow> callsign \<Rightarrow> bool" where
  "timed_onward t dest received_from \<longleftrightarrow> (\<exists>nb r. onward t dest received_from nb r \<and> rs_inp3 r \<noteq> None)"

lemma route_of_key: "table_inv t \<Longrightarrow> route_of t dest nb = Some r \<Longrightarrow> rs_neighbour r = nb"
  using table_invD(6) by (auto simp: route_of_def bind_eq_Some_conv dest: slot_lookup_key)

lemma kept_iff: "table_inv t \<Longrightarrow> r \<in> set (kept_routes t dest) \<longleftrightarrow> route_of t dest (rs_neighbour r) = Some r"
  by (rule kept_routes_spec(5))

lemma inp3_next_hop_cases:
  assumes "table_inv t"
  shows "case inp3_next_hop_excluding t dest exclude of
      None \<Rightarrow> \<not> timed_onward t dest exclude
    | Some nh \<Rightarrow> \<exists>r m. onward t dest exclude nh r \<and> rs_inp3 r = Some m \<and>
        (\<forall>nb r' m'. onward t dest exclude nb r' \<and> rs_inp3 r' = Some m' \<longrightarrow> \<not> better_time m' nb m nh)"
proof -
  have f: "best_timed exclude (kept_routes t dest) (fold (inp3_scan_step exclude) (kept_routes t dest) None)"
    by (rule best_timed_fold)
  have on: "onward t dest exclude nb r \<longleftrightarrow> r \<in> set (kept_routes t dest) \<and> rs_neighbour r = nb \<and> nb \<noteq> exclude" for nb r
    using route_of_key [OF assms] kept_iff [OF assms] by (auto simp: onward_def)
  show ?thesis
  proof (cases "fold (inp3_scan_step exclude) (kept_routes t dest) None")
    case None
    then show ?thesis
      using f by (auto simp: inp3_next_hop_excluding_def select_inp3_next_hop_def best_timed_def timed_onward_def on)
  next
    case (Some b)
    then show ?thesis
      using f by (auto simp: inp3_next_hop_excluding_def select_inp3_next_hop_def best_timed_def on)
  qed
qed

lemma best_route_cases:
  assumes "table_inv t"
  shows "case best_route_excluding t dest exclude of
      None \<Rightarrow> \<forall>nb r. \<not> onward t dest exclude nb r
    | Some nh \<Rightarrow> \<exists>r. onward t dest exclude nh r \<and> (\<forall>nb r'. onward t dest exclude nb r' \<longrightarrow> \<not> is_better r' r)"
  using best_route_excluding_spec [OF assms, of dest exclude]
  by (auto simp: onward_def split: option.splits)

lemma select_route_cases:
  assumes "table_inv t" "rt_max_routes t < 2 ^ 24"
  shows "case select_route_excluding t dest exclude h of
      None \<Rightarrow> \<forall>nb r. onward t dest exclude nb r \<longrightarrow> rs_quality r = 0
    | Some nh \<Rightarrow> \<exists>r. onward t dest exclude nh r \<and> rs_quality r > 0"
proof (cases "select_route_excluding t dest exclude h")
  case None
  then have "\<forall>r \<in> set (kept_routes t dest). \<not> eligible exclude r"
    using select_route_elsewhere(1) [OF assms] no_weight by blast
  then have "onward t dest exclude nb r \<Longrightarrow> rs_quality r = 0" for nb r
    using kept_iff [OF assms(1), of r dest] route_of_key [OF assms(1), of dest nb r]
    by (auto simp: onward_def eligible_def word_gt_0)
  then show ?thesis
    using None by simp
next
  case (Some nh)
  then show ?thesis
    using select_route_elsewhere(2) [OF assms Some] by (auto simp: onward_def)
qed

section \<open>Properties\<close>

text \<open>
  C12: the forwarding decision of a node over its routing table, on every branch. A datagram is dropped as
  expired exactly with a hop limit of at most 1, else as looped exactly if this node is its origin, else
  for want of a route exactly if none is usable: with the time preference a measured route elsewhere than
  back, otherwise in best-route mode any route elsewhere and in per-flow mode one of positive quality.
  It is forwarded with the hop limit one lower and capped, by an existing route and never back: the fastest
  measured one if times are preferred and there is one, else the best, or in per-flow mode one with a quality.
\<close>

theorem decide_forward_spec:
  assumes inv: "table_inv t" "rt_max_routes t < 2 ^ 24"
    and d_def: "d = decide_forward p src me (table_view t) max_ttl mode by_time"
    and ttl_def: "ttl = unat (nh_time_to_live (pk_network p))" and dest_def: "dest = nh_destination (pk_network p)"
    and fast_def: "fast = (by_time \<and> timed_onward t dest src)"
  shows "fd_outcome d =
      (if ttl \<le> 1 then DropTtlExpired
       else if nh_origin (pk_network p) = me then DropLooped
       else if fast \<or> (\<exists>nb r. onward t dest src nb r \<and> (mode = PerFlow \<longrightarrow> rs_quality r > 0)) then ForwardTo
       else DropNoRoute) \<and>
    (fd_outcome d \<noteq> ForwardTo \<longrightarrow> fd_next_hop d = None) \<and>
    (fd_outcome d = ForwardTo \<longrightarrow> (\<exists>nh r. fd_next_hop d = Some nh \<and> onward t dest src nh r \<and>
       unat (fd_time_to_live d) = min (ttl - 1) (unat max_ttl) \<and>
       (fast \<longrightarrow> (\<exists>m. rs_inp3 r = Some m \<and> (\<forall>nb r' m'. onward t dest src nb r' \<and> rs_inp3 r' = Some m' \<longrightarrow>
          \<not> better_time m' nb m nh))) \<and>
       (\<not> fast \<and> mode = BestRoute \<longrightarrow> (\<forall>nb r'. onward t dest src nb r' \<longrightarrow> \<not> is_better r' r)) \<and>
       (\<not> fast \<and> mode = PerFlow \<longrightarrow> rs_quality r > 0)))"
proof -
  let ?h = "nh_time_to_live (pk_network p)"
  have decr: "saturating_sub ?h 1 = 0 \<longleftrightarrow> ttl \<le> 1" "unat (saturating_sub ?h 1) = ttl - 1"
    by (simp_all add: ttl_def unat_saturating_sub unsigned_eq_0_iff [symmetric] unat_eq_zero [symmetric] del: unat_eq_zero)
  define hop where "hop = (if fast then inp3_next_hop_excluding t dest src
    else case mode of BestRoute \<Rightarrow> best_route_excluding t dest src | PerFlow \<Rightarrow> select_route_excluding t dest src (flow_hash p))"
  have slow: "by_time \<Longrightarrow> \<not> fast \<Longrightarrow> inp3_next_hop_excluding t dest src = None"
    using inp3_next_hop_cases [OF inv(1), of dest src] by (auto simp: fast_def timed_onward_def split: option.splits)
  have quick: "fast \<Longrightarrow> by_time \<and> inp3_next_hop_excluding t dest src \<noteq> None"
    using inp3_next_hop_cases [OF inv(1), of dest src] by (auto simp: fast_def split: option.splits)
  have d: "d = (if ttl \<le> 1 then drop_decision DropTtlExpired
      else if nh_origin (pk_network p) = me then drop_decision DropLooped
      else case hop of None \<Rightarrow> drop_decision DropNoRoute
        | Some nh \<Rightarrow> \<lparr>fd_outcome = ForwardTo, fd_next_hop = Some nh, fd_time_to_live = min (saturating_sub ?h 1) max_ttl\<rparr>)"
    using slow quick unfolding d_def decide_forward_def Let_def decr(1) table_view_def hop_def
    by (cases fast; cases by_time; cases mode) (auto simp: dest_def)
  have "case hop of
      None \<Rightarrow> \<not> fast \<and> (\<forall>nb r. onward t dest src nb r \<longrightarrow> mode = PerFlow \<and> rs_quality r = 0)
    | Some nh \<Rightarrow> \<exists>r. onward t dest src nh r \<and>
       (fast \<longrightarrow> (\<exists>m. rs_inp3 r = Some m \<and> (\<forall>nb r' m'. onward t dest src nb r' \<and> rs_inp3 r' = Some m' \<longrightarrow>
          \<not> better_time m' nb m nh))) \<and>
       (\<not> fast \<and> mode = BestRoute \<longrightarrow> (\<forall>nb r'. onward t dest src nb r' \<longrightarrow> \<not> is_better r' r)) \<and>
       (\<not> fast \<and> mode = PerFlow \<longrightarrow> rs_quality r > 0)"
  proof (cases fast)
    case True
    then show ?thesis
      using inp3_next_hop_cases [OF inv(1), of dest src] quick by (auto simp: hop_def split: option.splits)
  next
    case False
    then show ?thesis
      using best_route_cases [OF inv(1), of dest src] select_route_cases [OF inv, of dest src "flow_hash p"]
      by (cases mode) (auto simp: hop_def split: option.splits)
  qed
  moreover have "unat (min (saturating_sub ?h 1) max_ttl) = min (ttl - 1) (unat max_ttl)"
    by (simp add: min_def word_le_nat_alt decr(2))
  ultimately show ?thesis
    unfolding d by (cases hop) (auto simp: drop_decision_def word_gt_0)
qed

definition sample_datagram :: packet where
  "sample_datagram = \<lparr>pk_network = \<lparr>nh_origin = sample [68], nh_destination = sample [67], nh_time_to_live = 5\<rparr>,
     pk_transport = \<lparr>th_circuit_index = 1, th_circuit_id = 2, th_tx_sequence = 3, th_rx_sequence = 4,
       th_opcode = 5, th_flags = 0\<rparr>, pk_payload = []\<rparr>"

text \<open>
  A route known by its time alone has quality 0, yet the best-route mode follows it with the preference for
  times off, while the per-flow mode does not.
\<close>

lemma time_route_used_without_preference:
  "decide_forward sample_datagram (sample [69]) (sample [65]) (table_view sample_times) 25 BestRoute False =
     \<lparr>fd_outcome = ForwardTo, fd_next_hop = Some (sample [66]), fd_time_to_live = 4\<rparr> \<and>
   fd_outcome (decide_forward sample_datagram (sample [69]) (sample [65]) (table_view sample_times) 25 PerFlow False) = DropNoRoute"
  by code_simp

theorem decide_forward_spec_witness:
  "\<exists>nh r. fd_next_hop (decide_forward sample_datagram (sample [69]) (sample [65]) (table_view sample_times) 25 PerFlow True) = Some nh \<and>
     route_of sample_times (sample [67]) nh = Some r \<and> rs_inp3 r \<noteq> None"
proof -
  have ne: "sample [68] \<noteq> sample [65]" "sample [66] \<noteq> sample [69]"
    by (simp_all add: sample_def padded_def)
  have f: "nh_origin (pk_network sample_datagram) = sample [68]" "nh_destination (pk_network sample_datagram) = sample [67]"
    "unat (nh_time_to_live (pk_network sample_datagram)) = 5"
    by (simp_all add: sample_datagram_def)
  have "timed_onward sample_times (sample [67]) (sample [69])"
    unfolding timed_onward_def onward_def using sample_times(2) ne
    by (intro exI [of _ "sample [66]"] exI [of _ "time_route ROUTING_DEFAULT (sample [66]) sample_time"])
      (simp add: time_route_def)
  moreover have "rt_max_routes sample_times < 2 ^ 24"
    by (simp add: sample_times_def table_new_def)
  ultimately show ?thesis
    using decide_forward_spec [OF sample_times(1) _ refl refl refl refl, of sample_datagram "sample [69]" "sample [65]" 25 PerFlow True] ne
    unfolding f onward_def by (fastforce split: if_splits)
qed

end
