(* ===== verification/Netrom_Circuit.thy ===== *)
theory Netrom_Circuit
  imports Netrom_Wire
begin

text \<open>
  One end of a NET/ROM L4 circuit (\<open>netrom/transport/\<close>: \<open>circuit_options.rs\<close>, \<open>circuit_state.rs\<close>,
  \<open>circuit.rs\<close>, in the build without payload compression): its state, every entry point and every
  handler, each as a function from the circuit to the circuit. What the code pushes into the
  drainable queues is appended to the fields \<open>ck_outbox\<close> and \<open>ck_events\<close>.
\<close>

section \<open>Data\<close>

definition MAX_REASSEMBLY_BYTES :: nat where
  "MAX_REASSEMBLY_BYTES = 8192"

record circuit_options =
  co_window_size :: u8
  co_retransmit_timeout_ms :: u64
  co_max_retries :: u8
  co_time_to_live :: u8
  co_fragment_size :: nat
  co_choke_threshold :: nat

definition CIRCUIT_DEFAULT :: circuit_options where
  "CIRCUIT_DEFAULT = \<lparr>co_window_size = 4, co_retransmit_timeout_ms = 5000, co_max_retries = 3,
     co_time_to_live = DEFAULT_TIME_TO_LIVE, co_fragment_size = MAX_PAYLOAD, co_choke_threshold = 0\<rparr>"

datatype circuit_state = Disconnected | Connecting | Connected | Disconnecting

datatype close_reason = Normal | Refused | Timeout

datatype circuit_event = ConnectedEvent | DataReceived bytes | Closed close_reason

text \<open>An \<open>OutboundPacket\<close> has the fields of a packet.\<close>

type_synonym outbound = packet

record unacked =
  ua_sequence :: u8
  ua_payload :: bytes
  ua_more_follows :: bool
  ua_sent_at :: u64
  ua_retries :: u8

record fragment =
  fg_bytes :: bytes
  fg_more_follows :: bool

record circuit =
  ck_options :: circuit_options
  ck_local_index :: u8
  ck_local_id :: u8
  ck_remote_index :: u8
  ck_remote_id :: u8
  ck_local_node :: callsign
  ck_remote_node :: callsign
  ck_state :: circuit_state
  ck_window :: u8
  ck_vs :: u8
  ck_va :: u8
  ck_send_queue :: "fragment list"
  ck_unacked :: "unacked list"
  ck_vr :: u8
  ck_reassembly :: bytes
  ck_peer_choked :: bool
  ck_local_choked :: bool
  ck_pending_deliveries :: nat
  ck_control_deadline :: u64
  ck_control_timer_armed :: bool
  ck_control_retries :: u8
  ck_connect_user :: "callsign option"
  ck_outbox :: "outbound list"
  ck_events :: "circuit_event list"

definition circuit_new :: "u8 \<Rightarrow> u8 \<Rightarrow> callsign \<Rightarrow> callsign \<Rightarrow> circuit_options \<Rightarrow> circuit" where
  "circuit_new local_index local_id local_node remote_node options =
     \<lparr>ck_options = options, ck_local_index = local_index, ck_local_id = local_id,
      ck_remote_index = 0, ck_remote_id = 0, ck_local_node = local_node, ck_remote_node = remote_node,
      ck_state = Disconnected, ck_window = co_window_size options, ck_vs = 0, ck_va = 0,
      ck_send_queue = [], ck_unacked = [], ck_vr = 0, ck_reassembly = [], ck_peer_choked = False,
      ck_local_choked = False, ck_pending_deliveries = 0, ck_control_deadline = 0,
      ck_control_timer_armed = False, ck_control_retries = 0, ck_connect_user = None,
      ck_outbox = [], ck_events = []\<rparr>"

definition take_outbox :: "circuit \<Rightarrow> circuit \<times> outbound list" where
  "take_outbox c = (c\<lparr>ck_outbox := []\<rparr>, ck_outbox c)"

definition take_events :: "circuit \<Rightarrow> circuit \<times> circuit_event list" where
  "take_events c = (c\<lparr>ck_events := []\<rparr>, ck_events c)"

section \<open>Sequence arithmetic\<close>

definition seq_acked :: "u8 \<Rightarrow> u8 \<Rightarrow> bool" where
  "seq_acked seq expected = (let dist = expected - seq in 1 \<le> dist \<and> dist \<le> 128)"

definition mod256_after :: "u8 \<Rightarrow> u8 \<Rightarrow> bool" where
  "mod256_after a b = (let dist = a - b in 1 \<le> dist \<and> dist \<le> 128)"

definition clamp :: "u8 \<Rightarrow> u8 \<Rightarrow> u8 \<Rightarrow> u8" where
  "clamp w lo hi = (if w < lo then lo else if hi < w then hi else w)"

section \<open>Events, the control timer and closing\<close>

definition fire :: "circuit_event \<Rightarrow> circuit \<Rightarrow> circuit" where
  "fire e c = c\<lparr>ck_events := ck_events c @ [e]\<rparr>"

definition arm_control_timer :: "u64 \<Rightarrow> circuit \<Rightarrow> circuit" where
  "arm_control_timer now_ms c =
     c\<lparr>ck_control_deadline := now_ms + co_retransmit_timeout_ms (ck_options c),
       ck_control_timer_armed := True\<rparr>"

definition close :: "close_reason \<Rightarrow> circuit \<Rightarrow> circuit" where
  "close reason c =
     (if ck_state c = Disconnected then c
      else fire (Closed reason)
        (c\<lparr>ck_state := Disconnected, ck_control_timer_armed := False, ck_unacked := [],
           ck_send_queue := [], ck_reassembly := []\<rparr>))"

section \<open>Sending messages\<close>

definition emit :: "transport_header \<Rightarrow> bytes \<Rightarrow> circuit \<Rightarrow> circuit" where
  "emit transport payload c =
     c\<lparr>ck_outbox := ck_outbox c @
        [\<lparr>pk_network = \<lparr>nh_origin = ck_local_node c, nh_destination = ck_remote_node c,
            nh_time_to_live = co_time_to_live (ck_options c)\<rparr>,
          pk_transport = transport, pk_payload = payload\<rparr>]\<rparr>"

text \<open>
  The 15 bytes of the information field are those of the encoder, whose \<open>expect\<close> on a buffer of
  exactly that length succeeds (\<open>connect_request_encode_fills\<close>).
\<close>

definition send_connect_request :: "circuit \<Rightarrow> circuit" where
  "send_connect_request c =
     (let t = \<lparr>th_circuit_index = ck_local_index c, th_circuit_id = ck_local_id c, th_tx_sequence = 0,
               th_rx_sequence = 0, th_opcode = opcode_as_u8 ConnectRequest, th_flags = 0\<rparr>;
          user = (case ck_connect_user c of
              Some u \<Rightarrow> if base u \<noteq> [] then u else ck_local_node c
            | None \<Rightarrow> ck_local_node c);
          cri = \<lparr>cr_proposed_window = clamp (co_window_size (ck_options c)) 1 127,
                 cr_originating_user = user, cr_originating_node = ck_local_node c\<rparr>
      in emit t (connect_request_octets cri) c)"

definition send_connect_acknowledge :: "bool \<Rightarrow> circuit \<Rightarrow> circuit" where
  "send_connect_acknowledge refused c =
     (let t = \<lparr>th_circuit_index = ck_remote_index c, th_circuit_id = ck_remote_id c,
               th_tx_sequence = ck_local_index c, th_rx_sequence = ck_local_id c,
               th_opcode = opcode_as_u8 ConnectAcknowledge,
               th_flags = (if refused then FLAG_CHOKE else 0)\<rparr>
      in if refused then emit t [] c
         else case connect_ack_encode (ck_window c) (co_time_to_live (ck_options c)) False of
                (i, len) \<Rightarrow> emit t (take len i) c)"

definition send_plain :: "opcode \<Rightarrow> circuit \<Rightarrow> circuit" where
  "send_plain op c =
     emit \<lparr>th_circuit_index = ck_remote_index c, th_circuit_id = ck_remote_id c, th_tx_sequence = 0,
           th_rx_sequence = 0, th_opcode = opcode_as_u8 op, th_flags = 0\<rparr> [] c"

definition send_disconnect_request :: "circuit \<Rightarrow> circuit" where
  "send_disconnect_request c = send_plain DisconnectRequest c"

definition send_disconnect_acknowledge :: "circuit \<Rightarrow> circuit" where
  "send_disconnect_acknowledge c = send_plain DisconnectAcknowledge c"

definition information_header :: "u8 \<Rightarrow> bool \<Rightarrow> circuit \<Rightarrow> transport_header" where
  "information_header seq mf c =
     \<lparr>th_circuit_index = ck_remote_index c, th_circuit_id = ck_remote_id c, th_tx_sequence = seq,
      th_rx_sequence = ck_vr c, th_opcode = opcode_as_u8 Information,
      th_flags = (if mf then FLAG_MORE_FOLLOWS else 0) OR (if ck_local_choked c then FLAG_CHOKE else 0)\<rparr>"

definition send_information :: "u8 \<Rightarrow> bytes \<Rightarrow> bool \<Rightarrow> circuit \<Rightarrow> circuit" where
  "send_information seq payload mf c = emit (information_header seq mf c) payload c"

definition send_information_acknowledge :: "bool \<Rightarrow> circuit \<Rightarrow> circuit" where
  "send_information_acknowledge is_nak c =
     emit \<lparr>th_circuit_index = ck_remote_index c, th_circuit_id = ck_remote_id c, th_tx_sequence = 0,
           th_rx_sequence = ck_vr c, th_opcode = opcode_as_u8 InformationAcknowledge,
           th_flags = (if is_nak then FLAG_NAK else 0) OR (if ck_local_choked c then FLAG_CHOKE else 0)\<rparr>
       [] c"

section \<open>The window\<close>

text \<open>
  \<open>pump_send_queue\<close>: the loop takes fragments from the front of the queue while the in-flight list is
  shorter than the window; \<open>unacked.len() as u8\<close> keeps the low eight bits of the length.
\<close>

definition send_fragment :: "u64 \<Rightarrow> fragment \<Rightarrow> circuit \<Rightarrow> circuit" where
  "send_fragment now_ms fragment c =
     (let seq = ck_vs c;
          c1 = send_information seq (fg_bytes fragment) (fg_more_follows fragment) (c\<lparr>ck_vs := seq + 1\<rparr>)
      in c1\<lparr>ck_unacked := ck_unacked c1 @
           [\<lparr>ua_sequence = seq, ua_payload = fg_bytes fragment, ua_more_follows = fg_more_follows fragment,
             ua_sent_at = now_ms, ua_retries = 0\<rparr>]\<rparr>)"

fun pump_loop :: "u64 \<Rightarrow> fragment list \<Rightarrow> circuit \<Rightarrow> circuit" where
  "pump_loop now_ms [] c = c\<lparr>ck_send_queue := []\<rparr>"
| "pump_loop now_ms (f # fs) c =
     (if (of_nat (length (ck_unacked c)) :: u8) < ck_window c
      then pump_loop now_ms fs (send_fragment now_ms f c)
      else c\<lparr>ck_send_queue := f # fs\<rparr>)"

definition pump_send_queue :: "u64 \<Rightarrow> circuit \<Rightarrow> circuit" where
  "pump_send_queue now_ms c =
     (if ck_state c \<noteq> Connected \<or> ck_peer_choked c then c
      else pump_loop now_ms (ck_send_queue c) c)"

definition absorb_ack :: "u8 \<Rightarrow> circuit \<Rightarrow> circuit" where
  "absorb_ack expected c =
     (if ck_unacked c = [] then c\<lparr>ck_va := expected\<rparr>
      else c\<lparr>ck_unacked := filter (\<lambda>u. \<not> seq_acked (ua_sequence u) expected) (ck_unacked c),
             ck_va := expected\<rparr>)"

definition bump :: "u64 \<Rightarrow> unacked \<Rightarrow> unacked" where
  "bump now_ms u = u\<lparr>ua_sent_at := now_ms, ua_retries := saturating_add (ua_retries u) 1\<rparr>"

definition resend :: "unacked list \<Rightarrow> circuit \<Rightarrow> circuit" where
  "resend us c = fold (\<lambda>u. send_information (ua_sequence u) (ua_payload u) (ua_more_follows u)) us c"

definition from_seq :: "u8 \<Rightarrow> unacked \<Rightarrow> bool" where
  "from_seq seq u \<longleftrightarrow> ua_sequence u = seq \<or> mod256_after (ua_sequence u) seq"

definition retransmit_from :: "u8 \<Rightarrow> u64 \<Rightarrow> circuit \<Rightarrow> circuit" where
  "retransmit_from seq now_ms c =
     (if list_ex (\<lambda>u. from_seq seq u \<and> ua_retries u \<ge> co_max_retries (ck_options c)) (ck_unacked c)
      then close Timeout c
      else
        (resend (filter (from_seq seq) (ck_unacked c)) c)
          \<lparr>ck_unacked := map (\<lambda>u. if from_seq seq u then bump now_ms u else u) (ck_unacked c)\<rparr>)"

section \<open>Flow control\<close>

definition apply_peer_choke :: "bool \<Rightarrow> circuit \<Rightarrow> circuit" where
  "apply_peer_choke ch c = c\<lparr>ck_peer_choked := ch\<rparr>"

definition maybe_assert_choke :: "circuit \<Rightarrow> circuit" where
  "maybe_assert_choke c =
     (if co_choke_threshold (ck_options c) > 0
         \<and> ck_pending_deliveries c \<ge> co_choke_threshold (ck_options c) \<and> \<not> ck_local_choked c
      then c\<lparr>ck_local_choked := True\<rparr> else c)"

definition maybe_release_choke :: "circuit \<Rightarrow> circuit" where
  "maybe_release_choke c =
     (if ck_local_choked c \<and> ck_pending_deliveries c < co_choke_threshold (ck_options c)
      then let c1 = c\<lparr>ck_local_choked := False\<rparr> in
           if ck_state c1 = Connected then send_information_acknowledge False c1 else c1
      else c)"

definition on_delivery_drained :: "circuit \<Rightarrow> circuit" where
  "on_delivery_drained c =
     maybe_release_choke
       (if ck_pending_deliveries c > 0 then c\<lparr>ck_pending_deliveries := ck_pending_deliveries c - 1\<rparr> else c)"

section \<open>Entry points of the owner\<close>

definition connect :: "callsign \<Rightarrow> u64 \<Rightarrow> circuit \<Rightarrow> circuit" where
  "connect originating_user now_ms c =
     (if ck_state c \<noteq> Disconnected then c
      else arm_control_timer now_ms (send_connect_request
        (c\<lparr>ck_state := Connecting, ck_control_retries := 0, ck_connect_user := Some originating_user\<rparr>)))"

text \<open>The loop of \<open>send\<close> that cuts the data; the fragment size is at least one.\<close>

function fragments :: "nat \<Rightarrow> bytes \<Rightarrow> fragment list" where
  "fragments frag body =
     (if body = [] then []
      else \<lparr>fg_bytes = take (max frag 1) body, fg_more_follows = drop (max frag 1) body \<noteq> []\<rparr>
           # fragments frag (drop (max frag 1) body))"
  by pat_completeness auto
termination
  by (relation "measure (\<lambda>(_, body). length body)") auto

declare fragments.simps [simp del]

definition send :: "bytes \<Rightarrow> u64 \<Rightarrow> circuit \<Rightarrow> circuit" where
  "send data now_ms c =
     (if ck_state c \<noteq> Connected \<or> data = [] then c
      else pump_send_queue now_ms
        (c\<lparr>ck_send_queue := ck_send_queue c @ fragments (co_fragment_size (ck_options c)) data\<rparr>))"

definition disconnect :: "u64 \<Rightarrow> circuit \<Rightarrow> circuit" where
  "disconnect now_ms c =
     (case ck_state c of
        Disconnected \<Rightarrow> c
      | Disconnecting \<Rightarrow> c
      | Connecting \<Rightarrow> close Normal c
      | Connected \<Rightarrow> arm_control_timer now_ms (send_disconnect_request
          (c\<lparr>ck_state := Disconnecting, ck_control_retries := 0\<rparr>)))"

definition accept_inbound :: "u8 \<Rightarrow> u8 \<Rightarrow> u8 \<Rightarrow> circuit \<Rightarrow> circuit" where
  "accept_inbound peer_index peer_id proposed_window c =
     (let proposed = (if proposed_window = 0 then co_window_size (ck_options c) else proposed_window)
      in fire ConnectedEvent (send_connect_acknowledge False
        (c\<lparr>ck_remote_index := peer_index, ck_remote_id := peer_id,
           ck_window := clamp (min proposed (co_window_size (ck_options c))) 1 127,
           ck_state := Connected\<rparr>)))"

definition refuse_inbound :: "u8 \<Rightarrow> u8 \<Rightarrow> circuit \<Rightarrow> circuit" where
  "refuse_inbound peer_index peer_id c =
     (send_connect_acknowledge True (c\<lparr>ck_remote_index := peer_index, ck_remote_id := peer_id\<rparr>))
       \<lparr>ck_state := Disconnected\<rparr>"

definition tick_information :: "u64 \<Rightarrow> circuit \<Rightarrow> circuit" where
  "tick_information now_ms c =
     (case ck_unacked c of
        [] \<Rightarrow> c
      | u # _ \<Rightarrow>
          if ck_state c \<noteq> Connected then c
          else if now_ms < ua_sent_at u + co_retransmit_timeout_ms (ck_options c) then c
          else if ua_retries u \<ge> co_max_retries (ck_options c) then close Timeout c
          else (resend (ck_unacked c) c)\<lparr>ck_unacked := map (bump now_ms) (ck_unacked c)\<rparr>)"

definition tick :: "u64 \<Rightarrow> circuit \<Rightarrow> circuit" where
  "tick now_ms c =
     (if ck_control_timer_armed c \<and> now_ms \<ge> ck_control_deadline c then
        if ck_control_retries c \<ge> co_max_retries (ck_options c)
        then close Timeout (c\<lparr>ck_control_timer_armed := False\<rparr>)
        else
          let c1 = c\<lparr>ck_control_retries := ck_control_retries c + 1\<rparr>;
              c2 = (case ck_state c1 of
                  Connecting \<Rightarrow> send_connect_request c1
                | Disconnecting \<Rightarrow> send_disconnect_request c1
                | _ \<Rightarrow> c1)
          in tick_information now_ms (arm_control_timer now_ms c2)
      else tick_information now_ms c)"

section \<open>Inbound messages\<close>

definition on_connect_acknowledge :: "transport_header \<Rightarrow> bytes \<Rightarrow> u64 \<Rightarrow> circuit \<Rightarrow> circuit" where
  "on_connect_acknowledge t i now_ms c =
     (if ck_state c \<noteq> Connecting then c
      else
        let c1 = c\<lparr>ck_remote_index := th_tx_sequence t, ck_remote_id := th_rx_sequence t,
                   ck_control_timer_armed := False\<rparr>
        in if choke t then close Refused c1
           else
             let c2 = (case try_read_accepted_window i of
                 Some accepted \<Rightarrow> c1\<lparr>ck_window := min (ck_window c1) accepted\<rparr>
               | None \<Rightarrow> c1)
             in pump_send_queue now_ms (fire ConnectedEvent (c2\<lparr>ck_state := Connected\<rparr>)))"

definition on_connect_request :: "circuit \<Rightarrow> circuit" where
  "on_connect_request c = (if ck_state c = Connected then send_connect_acknowledge False c else c)"

definition on_disconnect_request :: "circuit \<Rightarrow> circuit" where
  "on_disconnect_request c =
     (let c1 = send_disconnect_acknowledge c in
      if ck_state c1 \<noteq> Disconnected then close Normal c1 else c1)"

definition on_disconnect_acknowledge :: "circuit \<Rightarrow> circuit" where
  "on_disconnect_acknowledge c =
     (if ck_state c = Disconnecting then close Normal (c\<lparr>ck_control_timer_armed := False\<rparr>) else c)"

text \<open>The end of a logical frame: deliver what has been reassembled.\<close>

definition deliver :: "circuit \<Rightarrow> circuit" where
  "deliver c =
     (let whole = ck_reassembly c;
          c1 = c\<lparr>ck_reassembly := []\<rparr>;
          c2 = (if co_choke_threshold (ck_options c1) > 0
                then c1\<lparr>ck_pending_deliveries := ck_pending_deliveries c1 + 1\<rparr> else c1)
      in maybe_assert_choke (fire (DataReceived whole) c2))"

definition on_information :: "transport_header \<Rightarrow> bytes \<Rightarrow> u64 \<Rightarrow> circuit \<Rightarrow> circuit" where
  "on_information t payload now_ms c =
     (if ck_state c \<noteq> Connected then c
      else
        let c1 = apply_peer_choke (choke t) (absorb_ack (th_rx_sequence t) c) in
        if th_tx_sequence t = ck_vr c1 then
          let c2 = c1\<lparr>ck_vr := ck_vr c1 + 1\<rparr> in
          if payload \<noteq> [] \<and> length (ck_reassembly c2) + length payload > MAX_REASSEMBLY_BYTES
          then disconnect now_ms (c2\<lparr>ck_reassembly := []\<rparr>)
          else
            let c3 = c2\<lparr>ck_reassembly := ck_reassembly c2 @ payload\<rparr>;
                c4 = (if \<not> more_follows t \<and> ck_reassembly c3 \<noteq> [] then deliver c3 else c3)
            in pump_send_queue now_ms (send_information_acknowledge False c4)
        else
          pump_send_queue now_ms
            (send_information_acknowledge (mod256_after (th_tx_sequence t) (ck_vr c1)) c1))"

definition on_information_acknowledge :: "transport_header \<Rightarrow> u64 \<Rightarrow> circuit \<Rightarrow> circuit" where
  "on_information_acknowledge t now_ms c =
     (if ck_state c \<noteq> Connected then c
      else
        let c1 = absorb_ack (th_rx_sequence t) (apply_peer_choke (choke t) c)
        in pump_send_queue now_ms
             (if nak t then retransmit_from (th_rx_sequence t) now_ms c1 else c1))"

definition on_packet :: "packet \<Rightarrow> u64 \<Rightarrow> circuit \<Rightarrow> circuit" where
  "on_packet p now_ms c =
     (let t = pk_transport p in
      case from_nibble (th_opcode t) of
        Some ConnectRequest \<Rightarrow> on_connect_request c
      | Some ConnectAcknowledge \<Rightarrow> on_connect_acknowledge t (pk_payload p) now_ms c
      | Some DisconnectRequest \<Rightarrow> on_disconnect_request c
      | Some DisconnectAcknowledge \<Rightarrow> on_disconnect_acknowledge c
      | Some Information \<Rightarrow> on_information t (pk_payload p) now_ms c
      | Some InformationAcknowledge \<Rightarrow> on_information_acknowledge t now_ms c
      | None \<Rightarrow> c)"

end
