(* ===== verification/Netrom_Circuit_Inv.thy ===== *)
theory Netrom_Circuit_Inv
  imports Netrom_Circuit
begin

text \<open>
  The invariant of a circuit, over every sequence of calls and packets whatever the far end sends:
  window, reassembly and retry bounds, the control timer runs exactly while an answer is awaited,
  choke is asserted exactly while the backlog is at its threshold.
\<close>

section \<open>The invariant\<close>

definition options_ok :: "circuit_options \<Rightarrow> bool" where
  "options_ok opts \<longleftrightarrow> 1 \<le> unat (co_window_size opts) \<and> unat (co_window_size opts) \<le> 127"

definition piece_ok :: "circuit_options \<Rightarrow> bytes \<Rightarrow> bool" where
  "piece_ok opts b \<longleftrightarrow> b \<noteq> [] \<and> length b \<le> max (co_fragment_size opts) 1"

definition core_inv :: "circuit \<Rightarrow> bool" where
  "core_inv c \<longleftrightarrow> options_ok (ck_options c) \<and> 1 \<le> unat (ck_window c) \<and>
     unat (ck_window c) \<le> unat (co_window_size (ck_options c)) \<and>
     length (ck_unacked c) \<le> unat (ck_window c) \<and>
     length (ck_reassembly c) \<le> MAX_REASSEMBLY_BYTES \<and>
     (\<forall>u \<in> set (ck_unacked c). piece_ok (ck_options c) (ua_payload u)) \<and>
     (\<forall>f \<in> set (ck_send_queue c). piece_ok (ck_options c) (fg_bytes f)) \<and>
     ck_control_retries c \<le> co_max_retries (ck_options c) \<and>
     (ck_local_choked c \<longleftrightarrow> 0 < co_choke_threshold (ck_options c) \<and>
        co_choke_threshold (ck_options c) \<le> ck_pending_deliveries c)"

definition life_inv :: "circuit \<Rightarrow> bool" where
  "life_inv c \<longleftrightarrow> (ck_control_timer_armed c \<longleftrightarrow> ck_state c \<in> {Connecting, Disconnecting}) \<and>
     (ck_state c \<in> {Disconnected, Connecting} \<longrightarrow>
        ck_unacked c = [] \<and> ck_send_queue c = [] \<and> ck_reassembly c = [])"

definition circuit_inv :: "circuit \<Rightarrow> bool" where
  "circuit_inv c \<longleftrightarrow> core_inv c \<and> life_inv c"

lemmas inv_defs = circuit_inv_def core_inv_def life_inv_def

section \<open>Messages change nothing but the outbox\<close>

definition datagram :: "circuit \<Rightarrow> transport_header \<Rightarrow> bytes \<Rightarrow> outbound" where
  "datagram c t payload =
     \<lparr>pk_network = \<lparr>nh_origin = ck_local_node c, nh_destination = ck_remote_node c,
        nh_time_to_live = co_time_to_live (ck_options c)\<rparr>, pk_transport = t, pk_payload = payload\<rparr>"

lemma emit_eq: "emit t payload c = c\<lparr>ck_outbox := ck_outbox c @ [datagram c t payload]\<rparr>"
  by (simp add: emit_def datagram_def)

lemma core_inv_outbox [simp]: "core_inv (c\<lparr>ck_outbox := os\<rparr>) = core_inv c"
  and life_inv_outbox [simp]: "life_inv (c\<lparr>ck_outbox := os\<rparr>) = life_inv c"
  and core_inv_events [simp]: "core_inv (c\<lparr>ck_events := es\<rparr>) = core_inv c"
  and life_inv_events [simp]: "life_inv (c\<lparr>ck_events := es\<rparr>) = life_inv c"
  and core_inv_timer [simp]: "core_inv (c\<lparr>ck_control_timer_armed := b\<rparr>) = core_inv c"
  by (simp_all add: core_inv_def life_inv_def)

definition info_datagram :: "circuit \<Rightarrow> unacked \<Rightarrow> outbound" where
  "info_datagram c u = datagram c (information_header (ua_sequence u) (ua_more_follows u) c) (ua_payload u)"

lemma resend_eq: "resend us c = c\<lparr>ck_outbox := ck_outbox c @ map (info_datagram c) us\<rparr>"
proof (induction us arbitrary: c)
  case (Cons u us)
  have "info_datagram (send_information (ua_sequence u) (ua_payload u) (ua_more_follows u) c) = info_datagram c"
    by (rule ext) (simp add: info_datagram_def datagram_def information_header_def send_information_def emit_eq)
  then show ?case
    using Cons.IH by (simp add: resend_def) (simp add: send_information_def emit_eq info_datagram_def)
qed (simp add: resend_def)

lemmas send_defs = send_information_def send_information_acknowledge_def send_plain_def
  send_disconnect_request_def send_disconnect_acknowledge_def emit_eq

lemma send_connect_request_eq: "\<exists>p. send_connect_request c = c\<lparr>ck_outbox := ck_outbox c @ [p]\<rparr>"
  by (auto simp: send_connect_request_def Let_def emit_eq)

lemma send_connect_acknowledge_eq:
  "\<exists>p. send_connect_acknowledge r c = c\<lparr>ck_outbox := ck_outbox c @ [p]\<rparr>"
  by (cases r) (auto simp: send_connect_acknowledge_def Let_def emit_eq split_beta)

lemma connect_messages_inv [simp]:
  "circuit_inv (send_connect_request c) = circuit_inv c"
  "circuit_inv (send_connect_acknowledge r c) = circuit_inv c"
  using send_connect_request_eq [of c] send_connect_acknowledge_eq [of r c]
  by (auto simp: circuit_inv_def)

lemma plain_messages_inv [simp]:
  "circuit_inv (send_plain op c) = circuit_inv c"
  "circuit_inv (send_disconnect_request c) = circuit_inv c"
  "circuit_inv (send_disconnect_acknowledge c) = circuit_inv c"
  "circuit_inv (send_information_acknowledge n c) = circuit_inv c"
  "circuit_inv (fire e c) = circuit_inv c"
  by (simp_all add: send_defs fire_def circuit_inv_def)

lemma messages_state [simp]:
  "ck_state (send_connect_request c) = ck_state c" "ck_state (send_disconnect_request c) = ck_state c"
  by (simp_all add: send_connect_request_def Let_def send_defs)

section \<open>Each operation preserves it\<close>

lemma close_core_inv:
  assumes "core_inv c" "ck_state c = Disconnected \<Longrightarrow> life_inv c"
  shows "circuit_inv (close reason c)"
  using assms by (cases "ck_state c") (simp_all add: close_def fire_def inv_defs)

lemma close_inv: "circuit_inv c \<Longrightarrow> circuit_inv (close reason c)"
  by (rule close_core_inv) (simp_all add: circuit_inv_def)

lemma pump_loop_core:
  assumes "core_inv c" "\<forall>f \<in> set fs. piece_ok (ck_options c) (fg_bytes f)"
  shows "core_inv (pump_loop now_ms fs c) \<and> ck_state (pump_loop now_ms fs c) = ck_state c \<and>
    ck_control_timer_armed (pump_loop now_ms fs c) = ck_control_timer_armed c"
  using assms
proof (induction now_ms fs c rule: pump_loop.induct)
  case (1 now_ms c)
  then show ?case
    by (simp add: core_inv_def)
next
  case (2 now_ms f fs c)
  show ?case
  proof (cases "(of_nat (length (ck_unacked c)) :: u8) < ck_window c")
    case True
    have "length (ck_unacked c) < 256"
      using "2.prems"(1) unat_u8_le [of "ck_window c"] by (simp add: core_inv_def)
    then have "length (ck_unacked c) < unat (ck_window c)"
      using True by (simp add: word_less_nat_alt unat_of_nat)
    then have "core_inv (send_fragment now_ms f c)"
      using "2.prems" by (simp add: send_fragment_def Let_def send_defs core_inv_def)
    moreover have "ck_options (send_fragment now_ms f c) = ck_options c" "ck_state (send_fragment now_ms f c) = ck_state c"
      "ck_control_timer_armed (send_fragment now_ms f c) = ck_control_timer_armed c"
      by (simp_all add: send_fragment_def Let_def send_defs)
    ultimately show ?thesis
      using "2.IH" [OF True] "2.prems" True by simp
  next
    case False
    then show ?thesis
      using "2.prems" by (simp add: core_inv_def)
  qed
qed

lemma pump_inv: "circuit_inv c \<Longrightarrow> circuit_inv (pump_send_queue now_ms c)"
  using pump_loop_core [of c "ck_send_queue c" now_ms]
  by (auto simp: pump_send_queue_def circuit_inv_def life_inv_def core_inv_def)

lemma absorb_inv: "circuit_inv c \<Longrightarrow> circuit_inv (absorb_ack expected c)"
  by (auto simp: absorb_ack_def inv_defs intro: le_trans [OF length_filter_le])

lemma resent_inv: "circuit_inv c \<Longrightarrow>
    circuit_inv ((resend us c)\<lparr>ck_unacked := map (\<lambda>u. if P u then bump now_ms u else u) (ck_unacked c)\<rparr>)"
  by (auto simp: resend_eq inv_defs bump_def)

lemma retransmit_inv: "circuit_inv c \<Longrightarrow> circuit_inv (retransmit_from seq now_ms c)"
  using resent_inv [where P = "from_seq seq"] by (simp add: retransmit_from_def close_inv)

lemma choke_inv: "circuit_inv c \<Longrightarrow> circuit_inv (apply_peer_choke ch c)"
  by (simp add: apply_peer_choke_def inv_defs)

lemma drained_inv: "circuit_inv c \<Longrightarrow> circuit_inv (on_delivery_drained c)"
  by (auto simp: on_delivery_drained_def maybe_release_choke_def Let_def send_defs inv_defs)

lemma connect_inv: "circuit_inv c \<Longrightarrow> circuit_inv (connect user now_ms c)"
  by (auto simp: connect_def arm_control_timer_def send_connect_request_def Let_def emit_eq inv_defs)

lemma fragments_ok:
  "\<forall>f \<in> set (fragments n data). fg_bytes f \<noteq> [] \<and> length (fg_bytes f) \<le> max n 1"
proof (induction n data rule: fragments.induct)
  case (1 n data)
  show ?case
    using "1.IH" by (subst fragments.simps) auto
qed

lemma send_inv: "circuit_inv c \<Longrightarrow> circuit_inv (send data now_ms c)"
proof -
  assume c: "circuit_inv c"
  have "\<forall>f \<in> set (fragments (co_fragment_size (ck_options c)) data). piece_ok (ck_options c) (fg_bytes f)"
    using fragments_ok by (simp add: piece_ok_def)
  then have "ck_state c = Connected \<Longrightarrow>
      circuit_inv (c\<lparr>ck_send_queue := ck_send_queue c @ fragments (co_fragment_size (ck_options c)) data\<rparr>)"
    using c by (auto simp: inv_defs)
  then show ?thesis
    using c by (simp add: send_def pump_inv)
qed

lemma disconnect_inv: "circuit_inv c \<Longrightarrow> circuit_inv (disconnect now_ms c)"
  using close_inv [of c Normal]
  by (cases "ck_state c") (auto simp: disconnect_def arm_control_timer_def send_defs inv_defs)

lemma clamp_bounds:
  "unat lo \<le> unat hi \<Longrightarrow> unat lo \<le> unat (clamp w lo hi) \<and> unat (clamp w lo hi) \<le> unat hi"
  by (auto simp: clamp_def word_less_nat_alt)

lemma accept_inv:
  assumes "circuit_inv c" "ck_state c = Disconnected"
  shows "circuit_inv (accept_inbound i d w c)"
proof -
  let ?p = "if w = 0 then co_window_size (ck_options c) else w"
  let ?w = "clamp (min ?p (co_window_size (ck_options c))) 1 127"
  have "unat ?w \<le> unat (co_window_size (ck_options c))" "1 \<le> unat ?w"
    using assms(1) by (auto simp: clamp_def word_less_nat_alt word_le_nat_alt min_def inv_defs options_ok_def)
  then have "circuit_inv (c\<lparr>ck_remote_index := i, ck_remote_id := d, ck_window := ?w, ck_state := Connected\<rparr>)"
    using assms by (simp add: inv_defs)
  then show ?thesis
    by (simp add: accept_inbound_def Let_def)
qed

lemma refuse_inv:
  assumes "circuit_inv c" "ck_state c = Disconnected"
  shows "circuit_inv (refuse_inbound i d c)"
  using assms by (simp add: refuse_inbound_def send_connect_acknowledge_def Let_def emit_eq inv_defs)

lemma tick_information_inv: "circuit_inv c \<Longrightarrow> circuit_inv (tick_information now_ms c)"
  using resent_inv [where P = "\<lambda>_. True"]
  by (auto simp: tick_information_def close_inv split: list.split)

lemma rearm_inv:
  assumes "circuit_inv c" "ck_state c \<in> {Connecting, Disconnecting}"
  shows "circuit_inv (arm_control_timer now_ms c)"
  using assms by (simp add: arm_control_timer_def inv_defs)

lemma tick_inv:
  assumes "circuit_inv c"
  shows "circuit_inv (tick now_ms c)"
proof (cases "ck_control_timer_armed c \<and> now_ms \<ge> ck_control_deadline c")
  case False
  then show ?thesis
    using assms by (auto simp: tick_def tick_information_inv)
next
  case True
  have st: "ck_state c \<in> {Connecting, Disconnecting}"
    using True assms by (simp add: inv_defs)
  show ?thesis
  proof (cases "ck_control_retries c \<ge> co_max_retries (ck_options c)")
    case True
    have "circuit_inv (close Timeout (c\<lparr>ck_control_timer_armed := False\<rparr>))"
      using assms st by (intro close_core_inv) (auto simp: inv_defs)
    then show ?thesis
      using True \<open>_ \<and> _\<close> by (simp add: tick_def)
  next
    case False
    let ?c = "c\<lparr>ck_control_retries := ck_control_retries c + 1\<rparr>"
    have "ck_control_retries c < co_max_retries (ck_options c)"
      using False by simp
    then have "ck_control_retries c + 1 \<le> co_max_retries (ck_options c)"
      by (rule inc_le)
    then have "circuit_inv ?c"
      using assms by (simp add: inv_defs)
    then have "circuit_inv (arm_control_timer now_ms (case ck_state ?c of
        Connecting \<Rightarrow> send_connect_request ?c | Disconnecting \<Rightarrow> send_disconnect_request ?c | _ \<Rightarrow> ?c))"
      using st by (intro rearm_inv) auto
    then show ?thesis
      using False True by (simp add: tick_def tick_information_inv Let_def)
  qed
qed

lemma connect_acknowledge_inv:
  assumes "circuit_inv c"
  shows "circuit_inv (on_connect_acknowledge t i now_ms c)"
proof (cases "ck_state c = Connecting")
  case False
  then show ?thesis
    using assms by (simp add: on_connect_acknowledge_def)
next
  case True
  let ?c = "c\<lparr>ck_remote_index := th_tx_sequence t, ck_remote_id := th_rx_sequence t, ck_control_timer_armed := False\<rparr>"
  have core: "core_inv ?c"
    using assms by (simp add: inv_defs)
  have "circuit_inv (close Refused ?c)"
    using core True by (intro close_core_inv) auto
  moreover have "circuit_inv (?c\<lparr>ck_window := w, ck_state := Connected\<rparr>)"
    if "1 \<le> unat w" "unat w \<le> unat (ck_window c)" for w
    using assms True that by (auto simp: inv_defs)
  moreover have "circuit_inv (?c\<lparr>ck_state := Connected\<rparr>)"
    using assms True by (auto simp: inv_defs)
  moreover have "1 \<le> unat (ck_window c)"
    using assms by (simp add: inv_defs)
  moreover have "1 \<le> unat (min (ck_window c) a) \<and> unat (min (ck_window c) a) \<le> unat (ck_window c)"
    if "try_read_accepted_window i = Some a" for a
  proof -
    have "a \<noteq> 0"
      using that by (auto simp: try_read_accepted_window_def split: list.splits if_splits)
    then have "unat a \<noteq> 0"
      by (simp add: unsigned_eq_0_iff)
    then show ?thesis
      using \<open>1 \<le> unat (ck_window c)\<close> by (simp add: min_def word_le_nat_alt)
  qed
  ultimately show ?thesis
    using True by (auto simp: on_connect_acknowledge_def Let_def pump_inv split: option.split)
qed

lemma reconnect_inv: "circuit_inv c \<Longrightarrow> circuit_inv (on_connect_request c)"
  by (simp add: on_connect_request_def)

lemma disconnect_request_inv: "circuit_inv c \<Longrightarrow> circuit_inv (on_disconnect_request c)"
  by (simp add: on_disconnect_request_def Let_def close_inv)

lemma disconnect_acknowledge_inv:
  "circuit_inv c \<Longrightarrow> circuit_inv (on_disconnect_acknowledge c)"
  using close_core_inv [of "c\<lparr>ck_control_timer_armed := False\<rparr>" Normal]
  by (cases "ck_state c") (simp_all add: on_disconnect_acknowledge_def circuit_inv_def)

lemma deliver_inv:
  "circuit_inv c \<Longrightarrow> ck_state c = Connected \<Longrightarrow> circuit_inv (deliver c)"
  by (auto simp: deliver_def maybe_assert_choke_def fire_def Let_def inv_defs)

lemma deliver_state [simp]: "ck_state (deliver c) = ck_state c"
  by (simp add: deliver_def maybe_assert_choke_def fire_def Let_def)

lemma absorb_state [simp]:
  "ck_state (absorb_ack n c) = ck_state c" "ck_state (apply_peer_choke ch c) = ck_state c"
  by (simp_all add: absorb_ack_def apply_peer_choke_def)

lemma information_inv:
  assumes "circuit_inv c"
  shows "circuit_inv (on_information t payload now_ms c)"
proof (cases "ck_state c = Connected")
  case False
  then show ?thesis
    using assms by (simp add: on_information_def)
next
  case True
  define c1 where "c1 = apply_peer_choke (choke t) (absorb_ack (th_rx_sequence t) c)"
  have c1: "circuit_inv c1" "ck_state c1 = Connected"
    using assms True by (simp_all add: c1_def choke_inv absorb_inv)
  define c2 where "c2 = c1\<lparr>ck_vr := ck_vr c1 + 1\<rparr>"
  have c2: "circuit_inv (c2\<lparr>ck_reassembly := bs\<rparr>)" if "length bs \<le> MAX_REASSEMBLY_BYTES" for bs
    using c1 that by (auto simp: c2_def inv_defs)
  have big: "circuit_inv (disconnect now_ms (c2\<lparr>ck_reassembly := []\<rparr>))"
    using c2 [of "[]"] by (simp add: disconnect_inv)
  define c3 where "c3 = c2\<lparr>ck_reassembly := ck_reassembly c2 @ payload\<rparr>"
  have small: "circuit_inv c3 \<and> circuit_inv (deliver c3)"
    if "\<not> (payload \<noteq> [] \<and> length (ck_reassembly c2) + length payload > MAX_REASSEMBLY_BYTES)"
  proof -
    have "length (ck_reassembly c2) \<le> MAX_REASSEMBLY_BYTES"
      using c1 by (simp add: c2_def inv_defs)
    then have "circuit_inv c3"
      using that c2 [of "ck_reassembly c2 @ payload"] by (cases "payload = []") (simp_all add: c3_def)
    moreover have "ck_state c3 = Connected"
      using c1 by (simp add: c3_def c2_def)
    ultimately show ?thesis
      by (simp add: deliver_inv)
  qed
  show ?thesis
    using True c1 big small
    by (simp add: on_information_def Let_def pump_inv flip: c1_def c2_def c3_def)
qed

lemma information_acknowledge_inv:
  "circuit_inv c \<Longrightarrow> circuit_inv (on_information_acknowledge t now_ms c)"
  by (simp add: on_information_acknowledge_def Let_def pump_inv retransmit_inv absorb_inv choke_inv)

lemma packet_inv: "circuit_inv c \<Longrightarrow> circuit_inv (on_packet p now_ms c)"
  by (simp add: on_packet_def Let_def reconnect_inv connect_acknowledge_inv disconnect_request_inv
      disconnect_acknowledge_inv information_inv information_acknowledge_inv
      split: option.split opcode.split)

section \<open>Every history\<close>

text \<open>
  The calls an owner makes. The manager accepts or refuses an inbound circuit only when it has just
  created it, hence the guards of the last two.
\<close>

datatype circuit_call =
    Connect callsign u64 | Send bytes u64 | Disconnect u64 | Packet packet u64 | Tick u64
  | Drained | TakeOutbox | TakeEvents | Accept u8 u8 u8 | Refuse u8 u8

fun circuit_step :: "circuit_call \<Rightarrow> circuit \<Rightarrow> circuit" where
  "circuit_step (Connect user now_ms) c = connect user now_ms c"
| "circuit_step (Send data now_ms) c = send data now_ms c"
| "circuit_step (Disconnect now_ms) c = disconnect now_ms c"
| "circuit_step (Packet p now_ms) c = on_packet p now_ms c"
| "circuit_step (Tick now_ms) c = tick now_ms c"
| "circuit_step Drained c = on_delivery_drained c"
| "circuit_step TakeOutbox c = fst (take_outbox c)"
| "circuit_step TakeEvents c = fst (take_events c)"
| "circuit_step (Accept i d w) c = (if ck_state c = Disconnected then accept_inbound i d w c else c)"
| "circuit_step (Refuse i d) c = (if ck_state c = Disconnected then refuse_inbound i d c else c)"

lemma take_inv [simp]:
  "circuit_inv (fst (take_outbox c)) = circuit_inv c" "circuit_inv (fst (take_events c)) = circuit_inv c"
  by (simp_all add: take_outbox_def take_events_def circuit_inv_def)

lemma circuit_step_inv: "circuit_inv c \<Longrightarrow> circuit_inv (circuit_step e c)"
  by (cases e) (simp_all add: connect_inv send_inv disconnect_inv packet_inv tick_inv drained_inv
      accept_inv refuse_inv)

lemma pump_loop_options: "ck_options (pump_loop now_ms fs c) = ck_options c"
  by (induction now_ms fs c rule: pump_loop.induct) (simp_all add: send_fragment_def send_information_def emit_def Let_def)

lemma options_simps [simp]:
  "ck_options (pump_send_queue now_ms c) = ck_options c"
  "ck_options (close r c) = ck_options c"
  "ck_options (resend us c) = ck_options c"
  "ck_options (send_connect_request c) = ck_options c"
  "ck_options (send_connect_acknowledge b c) = ck_options c"
  "ck_options (send_plain op c) = ck_options c"
  "ck_options (send_information_acknowledge n c) = ck_options c"
  "ck_options (arm_control_timer now_ms c) = ck_options c"
  "ck_options (absorb_ack x c) = ck_options c"
  "ck_options (apply_peer_choke b c) = ck_options c"
  "ck_options (fire e c) = ck_options c"
  "ck_options (deliver c) = ck_options c"
  using send_connect_acknowledge_eq [of b c]
  by (auto simp: pump_send_queue_def pump_loop_options close_def fire_def resend_eq
      send_connect_request_def send_defs arm_control_timer_def absorb_ack_def apply_peer_choke_def
      deliver_def maybe_assert_choke_def Let_def)

lemma circuit_step_options: "ck_options (circuit_step e c) = ck_options c"
  by (cases e) (auto simp: connect_def send_def disconnect_def on_packet_def tick_def tick_information_def
      send_disconnect_request_def send_disconnect_acknowledge_def
      on_delivery_drained_def maybe_release_choke_def take_outbox_def take_events_def accept_inbound_def
      refuse_inbound_def on_connect_request_def on_connect_acknowledge_def on_disconnect_request_def
      on_disconnect_acknowledge_def on_information_def on_information_acknowledge_def retransmit_from_def Let_def
      split: circuit_state.split option.split opcode.split list.split)

interpretation circuit: state_machine circuit_step circuit_inv
  by unfold_locales (rule circuit_step_inv)

lemma circuit_new_inv: "options_ok options \<Longrightarrow> circuit_inv (circuit_new i d l r options)"
  by (auto simp: circuit_new_def inv_defs options_ok_def)



end
