(* ===== verification/Netrom_Manager.thy ===== *)
theory Netrom_Manager
  imports Netrom_Circuit_Inv
begin

text \<open>
  The node's circuit table (\<open>netrom/transport/circuit_manager.rs\<close>, in the build without payload
  compression): minting keys, demultiplexing datagrams to circuits, inbound connects, timers, and the
  queues the owner drains. A circuit handed out by \<open>circuit_mut\<close> is driven in place.
\<close>

section \<open>State\<close>

type_synonym circuit_key = "u8 \<times> u8"

record incoming =
  ic_key :: circuit_key
  ic_remote_node :: callsign
  ic_originating_user :: callsign
  ic_peer_index :: u8
  ic_peer_id :: u8
  ic_proposed_window :: u8

record managed =
  mg_circuit :: circuit
  mg_peer_key :: "(callsign \<times> u8 \<times> u8) option"

record manager =
  cm_local_node :: callsign
  cm_options :: circuit_options
  cm_circuits :: "managed list"
  cm_next_index :: u8
  cm_next_id :: u8
  cm_outbox :: "outbound list"
  cm_events :: "(circuit_key \<times> circuit_event) list"
  cm_incoming :: "incoming list"

definition MAX_LIVE_CIRCUITS :: nat where
  "MAX_LIVE_CIRCUITS = 16"

definition manager_new :: "callsign \<Rightarrow> circuit_options \<Rightarrow> manager" where
  "manager_new local_node options =
     \<lparr>cm_local_node = local_node, cm_options = options, cm_circuits = [], cm_next_index = 0, cm_next_id = 0,
      cm_outbox = [], cm_events = [], cm_incoming = []\<rparr>"

definition set_local_node :: "callsign \<Rightarrow> manager \<Rightarrow> manager" where
  "set_local_node node m = m\<lparr>cm_local_node := node\<rparr>"

definition circuit_count :: "manager \<Rightarrow> nat" where
  "circuit_count m = length (cm_circuits m)"

definition key_of :: "circuit \<Rightarrow> circuit_key" where
  "key_of c = (ck_local_index c, ck_local_id c)"

definition has_key :: "circuit_key \<Rightarrow> managed \<Rightarrow> bool" where
  "has_key key x \<longleftrightarrow> key_of (mg_circuit x) = key"

definition circuit_of :: "manager \<Rightarrow> circuit_key \<Rightarrow> circuit option" where
  "circuit_of m key = map_option mg_circuit (List.find (has_key key) (cm_circuits m))"

definition circuit_state_of :: "manager \<Rightarrow> circuit_key \<Rightarrow> circuit_state option" where
  "circuit_state_of m key = map_option ck_state (circuit_of m key)"

definition circuit_window :: "manager \<Rightarrow> circuit_key \<Rightarrow> u8 option" where
  "circuit_window m key = map_option ck_window (circuit_of m key)"

definition circuit_peer_choked :: "manager \<Rightarrow> circuit_key \<Rightarrow> bool option" where
  "circuit_peer_choked m key = map_option ck_peer_choked (circuit_of m key)"

text \<open>The first entry that satisfies \<open>p\<close>, changed in place: \<open>iter_mut().find(p)\<close>.\<close>

fun update_first :: "('a \<Rightarrow> bool) \<Rightarrow> ('a \<Rightarrow> 'a) \<Rightarrow> 'a list \<Rightarrow> 'a list" where
  "update_first p f [] = []"
| "update_first p f (x # xs) = (if p x then f x # xs else x # update_first p f xs)"

definition drive :: "(circuit \<Rightarrow> circuit) \<Rightarrow> managed \<Rightarrow> managed" where
  "drive f x = x\<lparr>mg_circuit := f (mg_circuit x)\<rparr>"

definition circuit_mut :: "circuit_key \<Rightarrow> (circuit \<Rightarrow> circuit) \<Rightarrow> manager \<Rightarrow> manager" where
  "circuit_mut key f m = m\<lparr>cm_circuits := update_first (has_key key) (drive f) (cm_circuits m)\<rparr>"

section \<open>Minting\<close>

text \<open>The loop of \<open>allocate_key\<close>: the key found, and the counters after it.\<close>

fun probe :: "nat \<Rightarrow> circuit_key list \<Rightarrow> u8 \<Rightarrow> u8 \<Rightarrow> circuit_key option \<times> u8 \<times> u8" where
  "probe 0 used next_index next_id = (None, next_index, next_id)"
| "probe (Suc n) used next_index next_id =
     (let next_index' = next_index + 1;
          next_id' = (if next_index' = 0 then next_id + 1 else next_id)
      in if (next_index, next_id) \<notin> set used then (Some (next_index, next_id), next_index', next_id')
         else probe n used next_index' next_id')"

definition allocate_key :: "manager \<Rightarrow> manager \<times> circuit_key option" where
  "allocate_key m =
     (if length (cm_circuits m) \<ge> MAX_LIVE_CIRCUITS then (m, None)
      else case probe 65536 (map (key_of \<circ> mg_circuit) (cm_circuits m)) (cm_next_index m) (cm_next_id m) of
             (key, next_index, next_id) \<Rightarrow> (m\<lparr>cm_next_index := next_index, cm_next_id := next_id\<rparr>, key))"

definition mint :: "circuit_key \<Rightarrow> callsign \<Rightarrow> (callsign \<times> u8 \<times> u8) option \<Rightarrow> manager \<Rightarrow> manager" where
  "mint key remote_node peer_key m =
     m\<lparr>cm_circuits := cm_circuits m @
        [\<lparr>mg_circuit = circuit_new (fst key) (snd key) (cm_local_node m) remote_node (cm_options m),
          mg_peer_key = peer_key\<rparr>]\<rparr>"

definition open_circuit :: "callsign \<Rightarrow> manager \<Rightarrow> manager \<times> circuit_key option" where
  "open_circuit remote_node m =
     (case allocate_key m of
        (m1, None) \<Rightarrow> (m1, None)
      | (m1, Some key) \<Rightarrow> (mint key remote_node None m1, Some key))"

definition reply :: "packet \<Rightarrow> opcode \<Rightarrow> u8 \<Rightarrow> manager \<Rightarrow> manager" where
  "reply request op flags m =
     (let t = pk_transport request in
      m\<lparr>cm_outbox := cm_outbox m @
        [\<lparr>pk_network = \<lparr>nh_origin = cm_local_node m, nh_destination = nh_origin (pk_network request),
            nh_time_to_live = co_time_to_live (cm_options m)\<rparr>,
          pk_transport = \<lparr>th_circuit_index = th_circuit_index t, th_circuit_id = th_circuit_id t,
            th_tx_sequence = 0, th_rx_sequence = 0, th_opcode = opcode_as_u8 op, th_flags = flags\<rparr>,
          pk_payload = []\<rparr>]\<rparr>)"

definition refuse_connect_request :: "packet \<Rightarrow> manager \<Rightarrow> manager" where
  "refuse_connect_request request m = reply request ConnectAcknowledge FLAG_CHOKE m"

definition peer_key_of :: "packet \<Rightarrow> callsign \<times> u8 \<times> u8" where
  "peer_key_of p = (nh_origin (pk_network p), th_circuit_index (pk_transport p), th_circuit_id (pk_transport p))"

definition mint_inbound :: "packet \<Rightarrow> manager \<Rightarrow> manager" where
  "mint_inbound request m =
     (let t = pk_transport request; remote_node = nh_origin (pk_network request) in
      case allocate_key m of
        (m1, None) \<Rightarrow> refuse_connect_request request m1
      | (m1, Some key) \<Rightarrow>
          let (proposed_window, originating_user) =
                (case connect_request_decode (pk_payload request) of
                   Some i \<Rightarrow> (cr_proposed_window i, cr_originating_user i)
                 | None \<Rightarrow> (0, remote_node));
              m2 = mint key remote_node (Some (peer_key_of request)) m1
          in m2\<lparr>cm_incoming := cm_incoming m2 @
               [\<lparr>ic_key = key, ic_remote_node = remote_node, ic_originating_user = originating_user,
                 ic_peer_index = th_circuit_index t, ic_peer_id = th_circuit_id t,
                 ic_proposed_window = proposed_window\<rparr>]\<rparr>)"

section \<open>Datagrams\<close>

definition has_peer :: "callsign \<times> u8 \<times> u8 \<Rightarrow> managed \<Rightarrow> bool" where
  "has_peer k x \<longleftrightarrow> mg_peer_key x = Some k"

definition header_key :: "packet \<Rightarrow> circuit_key" where
  "header_key p = (th_circuit_index (pk_transport p), th_circuit_id (pk_transport p))"

definition manager_on_packet :: "packet \<Rightarrow> u64 \<Rightarrow> manager \<Rightarrow> manager" where
  "manager_on_packet p now_ms m =
     (if from_nibble (th_opcode (pk_transport p)) = Some ConnectRequest then
        if list_ex (has_peer (peer_key_of p)) (cm_circuits m)
        then m\<lparr>cm_circuits := update_first (has_peer (peer_key_of p)) (drive (on_packet p now_ms)) (cm_circuits m)\<rparr>
        else mint_inbound p m
      else if list_ex (has_key (header_key p)) (cm_circuits m)
      then m\<lparr>cm_circuits := update_first (has_key (header_key p)) (drive (on_packet p now_ms)) (cm_circuits m)\<rparr>
      else if from_nibble (th_opcode (pk_transport p)) = Some DisconnectRequest
      then reply p DisconnectAcknowledge 0 m
      else m)"

section \<open>The owner's side\<close>

definition manager_accept :: "incoming \<Rightarrow> manager \<Rightarrow> manager" where
  "manager_accept i m = circuit_mut (ic_key i) (accept_inbound (ic_peer_index i) (ic_peer_id i) (ic_proposed_window i)) m"

definition manager_refuse :: "incoming \<Rightarrow> manager \<Rightarrow> manager" where
  "manager_refuse i m =
     (let refusal = (case circuit_of m (ic_key i) of
            None \<Rightarrow> []
          | Some c \<Rightarrow> snd (take_outbox (refuse_inbound (ic_peer_index i) (ic_peer_id i) c)))
      in m\<lparr>cm_outbox := cm_outbox m @ refusal,
           cm_circuits := filter (\<lambda>x. \<not> has_key (ic_key i) x) (cm_circuits m)\<rparr>)"

definition manager_tick :: "u64 \<Rightarrow> manager \<Rightarrow> manager" where
  "manager_tick now_ms m = m\<lparr>cm_circuits := map (drive (tick now_ms)) (cm_circuits m)\<rparr>"

fun is_closed :: "circuit_event \<Rightarrow> bool" where
  "is_closed (Closed _) = True"
| "is_closed _ = False"

definition tagged :: "managed \<Rightarrow> (circuit_key \<times> circuit_event) list" where
  "tagged x = map (Pair (key_of (mg_circuit x))) (ck_events (mg_circuit x))"

definition collect :: "manager \<Rightarrow> manager" where
  "collect m =
     (let new_out = concat (map (ck_outbox \<circ> mg_circuit) (cm_circuits m));
          new_events = concat (map tagged (cm_circuits m));
          closed = map fst (filter (is_closed \<circ> snd) new_events);
          drained = map (drive (\<lambda>c. fst (take_events (fst (take_outbox c))))) (cm_circuits m)
      in m\<lparr>cm_outbox := cm_outbox m @ new_out, cm_events := cm_events m @ new_events,
           cm_circuits := filter (\<lambda>x. key_of (mg_circuit x) \<notin> set closed) drained\<rparr>)"

definition manager_take_outbox :: "manager \<Rightarrow> manager \<times> outbound list" where
  "manager_take_outbox m = (let m1 = collect m in (m1\<lparr>cm_outbox := []\<rparr>, cm_outbox m1))"

definition manager_take_events :: "manager \<Rightarrow> manager \<times> (circuit_key \<times> circuit_event) list" where
  "manager_take_events m = (let m1 = collect m in (m1\<lparr>cm_events := []\<rparr>, cm_events m1))"

definition take_incoming :: "manager \<Rightarrow> manager \<times> incoming list" where
  "take_incoming m = (m\<lparr>cm_incoming := []\<rparr>, cm_incoming m)"

end
