(* ===== verification/Netrom_Manager_Props.thy ===== *)
theory Netrom_Manager_Props
  imports Netrom_Manager
begin

text \<open>
  The circuit table as a finite map from keys to circuits (\<open>circuit_of\<close>): keys are fresh and distinct,
  at most sixteen circuits live, each packet reaches the one circuit it is for, and draining the queues
  loses nothing. The table's invariant holds in every history.
\<close>

section \<open>Circuits keep their keys\<close>

definition names :: "circuit \<Rightarrow> u8 \<times> u8 \<times> callsign \<times> callsign" where
  "names c = (ck_local_index c, ck_local_id c, ck_local_node c, ck_remote_node c)"

lemma pump_loop_names: "names (pump_loop now_ms fs c) = names c"
  by (induction now_ms fs c rule: pump_loop.induct) (simp_all add: names_def send_fragment_def send_information_def emit_def Let_def)

lemma names_simps [simp]:
  "names (pump_send_queue now_ms c) = names c" "names (close r c) = names c" "names (resend us c) = names c"
  "names (send_connect_request c) = names c" "names (send_connect_acknowledge b c) = names c"
  "names (send_plain op c) = names c" "names (send_information_acknowledge n c) = names c"
  "names (arm_control_timer now_ms c) = names c" "names (absorb_ack x c) = names c"
  "names (apply_peer_choke b c) = names c" "names (fire e c) = names c" "names (deliver c) = names c"
  using send_connect_acknowledge_eq [of b c]
  by (auto simp: pump_send_queue_def pump_loop_names) (auto simp: names_def close_def fire_def resend_eq
      send_connect_request_def send_defs arm_control_timer_def absorb_ack_def apply_peer_choke_def
      deliver_def maybe_assert_choke_def Let_def)

lemma names_updates [simp]:
  "names (c\<lparr>ck_state := s\<rparr>) = names c" "names (c\<lparr>ck_control_retries := n\<rparr>) = names c"
  "names (c\<lparr>ck_connect_user := u\<rparr>) = names c" "names (c\<lparr>ck_send_queue := q\<rparr>) = names c"
  "names (c\<lparr>ck_unacked := us\<rparr>) = names c" "names (c\<lparr>ck_control_timer_armed := b\<rparr>) = names c"
  "names (c\<lparr>ck_remote_index := i\<rparr>) = names c" "names (c\<lparr>ck_remote_id := i\<rparr>) = names c"
  "names (c\<lparr>ck_window := i\<rparr>) = names c" "names (c\<lparr>ck_vr := i\<rparr>) = names c"
  "names (c\<lparr>ck_reassembly := bs\<rparr>) = names c" "names (c\<lparr>ck_pending_deliveries := n'\<rparr>) = names c"
  "names (c\<lparr>ck_local_choked := b\<rparr>) = names c" "names (c\<lparr>ck_outbox := os\<rparr>) = names c"
  "names (c\<lparr>ck_events := es\<rparr>) = names c"
  by (simp_all add: names_def)

lemma circuit_step_names [simp]: "names (circuit_step e c) = names c"
  by (cases e) (auto simp: connect_def send_def disconnect_def on_packet_def tick_def tick_information_def
      send_disconnect_request_def send_disconnect_acknowledge_def
      on_delivery_drained_def maybe_release_choke_def take_outbox_def take_events_def accept_inbound_def
      refuse_inbound_def on_connect_request_def on_connect_acknowledge_def on_disconnect_request_def
      on_disconnect_acknowledge_def on_information_def on_information_acknowledge_def retransmit_from_def Let_def
      split: circuit_state.split option.split opcode.split list.split)

lemma accept_names [simp]: "names (accept_inbound i d w c) = names c"
  by (simp add: accept_inbound_def Let_def)

lemma accept_options [simp]: "ck_options (accept_inbound i d w c) = ck_options c"
  by (simp add: accept_inbound_def Let_def)

lemma key_of_names: "names c = names c' \<Longrightarrow> key_of c = key_of c'"
  by (simp add: names_def key_of_def)

section \<open>The table as a map\<close>

lemma update_first_absent: "\<not> list_ex p xs \<Longrightarrow> update_first p f xs = xs"
  by (induction xs) auto

lemma map_update_first: "(\<And>x. g (f x) = g x) \<Longrightarrow> map g (update_first p f xs) = map g xs"
  by (induction xs) simp_all

lemma length_update_first [simp]: "length (update_first p f xs) = length xs"
  by (induction xs) simp_all

lemma set_update_first: "x \<in> set (update_first p f xs) \<Longrightarrow> x \<in> set xs \<or> (\<exists>y \<in> set xs. p y \<and> x = f y)"
  by (induction xs) (auto split: if_splits)

abbreviation keys :: "managed list \<Rightarrow> circuit_key list" where
  "keys xs \<equiv> map (key_of \<circ> mg_circuit) xs"

definition lookup :: "managed list \<Rightarrow> circuit_key \<Rightarrow> circuit option" where
  "lookup xs k = map_option mg_circuit (List.find (has_key k) xs)"

lemma lookup_simps [simp]:
  "lookup [] = Map.empty"
  "lookup (x # xs) = (lookup xs)(key_of (mg_circuit x) \<mapsto> mg_circuit x)"
  by (auto simp: lookup_def has_key_def)

lemma circuit_of_lookup: "circuit_of m = lookup (cm_circuits m)"
  by (simp add: fun_eq_iff circuit_of_def lookup_def)

lemma lookup_None: "lookup xs k = None \<longleftrightarrow> k \<notin> set (keys xs)"
  by (induction xs) (auto simp: comp_def)

lemma lookup_in: "distinct (keys xs) \<Longrightarrow> lookup xs k = Some c \<longleftrightarrow> (\<exists>x \<in> set xs. mg_circuit x = c \<and> key_of c = k)"
  by (induction xs) (auto simp: lookup_None image_iff)

lemma lookup_update:
  assumes "distinct (keys xs)" "\<And>c. key_of (f c) = key_of c"
  shows "lookup (update_first p (drive f) xs) =
    (case List.find p xs of None \<Rightarrow> lookup xs | Some x \<Rightarrow> (lookup xs)(key_of (mg_circuit x) \<mapsto> f (mg_circuit x)))"
  using assms
proof (induction xs)
  case (Cons x xs)
  show ?case
  proof (cases "p x")
    case True
    then show ?thesis
      using Cons.prems by (simp add: drive_def)
  next
    case False
    have "key_of (mg_circuit y) \<noteq> key_of (mg_circuit x)" if "List.find p xs = Some y" for y
      using that Cons.prems(1) by (auto simp: find_Some_iff image_iff) (metis nth_mem)
    then show ?thesis
      using False Cons by (auto split: option.split)
  qed
qed simp

section \<open>Fresh keys\<close>

definition key_at :: "nat \<Rightarrow> circuit_key" where
  "key_at s = (of_nat s, of_nat (s div 256))"

lemma key_at_Suc:
  "key_at (Suc s) = (fst (key_at s) + 1, if fst (key_at s) + 1 = 0 then snd (key_at s) + 1 else snd (key_at s))"
proof -
  have "(of_nat s :: u8) + 1 = of_nat (Suc s)"
    by simp
  moreover have "(of_nat (Suc s) :: u8) = 0 \<longleftrightarrow> Suc s mod 256 = 0"
    by (simp add: word_of_nat_eq_0_iff mod_eq_0_iff_dvd del: of_nat_Suc)
  ultimately show ?thesis
    by (simp add: key_at_def div_Suc del: of_nat_Suc) (simp add: algebra_simps)
qed

lemma key_at_surj: "\<exists>s. key_at s = (i, d)"
proof -
  define s where "s = unat d * 256 + unat i"
  have "unat i < 256"
    using unat_u8_le [of i] by simp
  then have s: "s mod 256 = unat i" "s div 256 = unat d"
    by (simp_all add: s_def)
  then have "unat (of_nat s :: u8) = unat i"
    by (simp only: unat_of_nat) simp
  then have "(of_nat s :: u8) = i"
    by (simp only: word_unat_eq_iff)
  then have "key_at s = (i, d)"
    by (simp add: key_at_def s)
  then show ?thesis ..
qed

lemma key_at_inj:
  assumes "key_at s = key_at t" "s \<le> t" "t < s + 65536"
  shows "s = t"
proof -
  have "unat (of_nat s :: u8) = unat (of_nat t :: u8)" "unat (of_nat (s div 256) :: u8) = unat (of_nat (t div 256) :: u8)"
    using assms(1) by (simp_all add: key_at_def)
  then have "s mod 256 = t mod 256" "s div 256 mod 256 = t div 256 mod 256"
    by (simp_all only: unat_of_nat) simp_all
  then have "s mod 65536 = t mod 65536"
    using mod_mult2_eq [of s 256 256] mod_mult2_eq [of t 256 256] by simp
  then obtain k l where "s + 65536 * k = t + 65536 * l"
    by (auto simp: nat_mod_eq_iff)
  then show ?thesis
  proof (cases "k \<le> l")
    case True
    then have "65536 * k \<le> 65536 * l"
      by simp
    then show ?thesis
      using \<open>s + 65536 * k = t + 65536 * l\<close> assms(2) by linarith
  next
    case False
    then have "65536 * Suc l \<le> 65536 * k"
      by simp
    then show ?thesis
      using \<open>s + 65536 * k = t + 65536 * l\<close> assms(3) unfolding mult_Suc_right by linarith
  qed
qed

lemma probe_spec:
  "probe n used (fst (key_at s)) (snd (key_at s)) = (r, i, d) \<Longrightarrow>
    (\<exists>j \<le> n. (i, d) = key_at (s + j) \<and> (\<forall>t. t + (case r of None \<Rightarrow> 0 | Some _ \<Rightarrow> 1) < j \<longrightarrow> key_at (s + t) \<in> set used) \<and>
      (case r of None \<Rightarrow> j = n | Some k \<Rightarrow> k \<notin> set used \<and> 0 < j \<and> k = key_at (s + j - 1)))"
proof (induction n arbitrary: s)
  case 0
  then show ?case
    by auto
next
  case (Suc n)
  show ?case
  proof (cases "key_at s \<in> set used")
    case False
    then show ?thesis
      using Suc.prems key_at_Suc [of s] by (intro exI [of _ 1]) (auto simp: Let_def)
  next
    case True
    then have "probe n used (fst (key_at (Suc s))) (snd (key_at (Suc s))) = (r, i, d)"
      using Suc.prems by (simp add: key_at_Suc Let_def)
    from Suc.IH [OF this] obtain j where j: "j \<le> n" "(i, d) = key_at (Suc s + j)"
      "\<forall>t. t + (case r of None \<Rightarrow> 0 | Some _ \<Rightarrow> 1) < j \<longrightarrow> key_at (Suc s + t) \<in> set used"
      "case r of None \<Rightarrow> j = n | Some k \<Rightarrow> k \<notin> set used \<and> 0 < j \<and> k = key_at (Suc s + j - 1)"
      by blast
    have "key_at (s + t) \<in> set used" if "t + (case r of None \<Rightarrow> 0 | Some _ \<Rightarrow> 1) < Suc j" for t
    proof (cases t)
      case 0
      then show ?thesis
        using True by simp
    next
      case (Suc t')
      then show ?thesis
        using j(3) that by auto
    qed
    then show ?thesis
      using j by (intro exI [of _ "Suc j"]) (auto split: option.splits)
  qed
qed

lemma allocate_spec:
  assumes "length (cm_circuits m) < 16" and s: "(cm_next_index m, cm_next_id m) = key_at s"
  shows "\<exists>j < 16. allocate_key m = (m\<lparr>cm_next_index := fst (key_at (s + Suc j)), cm_next_id := snd (key_at (s + Suc j))\<rparr>,
      Some (key_at (s + j))) \<and> key_at (s + j) \<notin> set (keys (cm_circuits m))"
proof -
  let ?used = "keys (cm_circuits m)"
  obtain r i d where p: "probe 65536 ?used (fst (key_at s)) (snd (key_at s)) = (r, i, d)"
    by (metis prod_cases3)
  from probe_spec [OF this] obtain j where j: "(i, d) = key_at (s + j)" "j \<le> 65536"
      "\<forall>t. t + (case r of None \<Rightarrow> 0 | Some _ \<Rightarrow> 1) < j \<longrightarrow> key_at (s + t) \<in> set ?used"
      "case r of None \<Rightarrow> j = 65536 | Some k \<Rightarrow> k \<notin> set ?used \<and> 0 < j \<and> k = key_at (s + j - 1)"
    by blast
  have used: "card (set ?used) < 16"
    using assms(1) card_length [of ?used] by simp
  have run: "n < 16" if "n \<le> 65536" "\<forall>t < n. key_at (s + t) \<in> set ?used" for n
  proof -
    have "inj_on (\<lambda>t. key_at (s + t)) {..<n}"
    proof (rule linorder_inj_onI)
      fix x y
      assume "x < y" "x \<in> {..<n}" "y \<in> {..<n}"
      then show "key_at (s + x) \<noteq> key_at (s + y)"
        using key_at_inj [of "s + x" "s + y"] that(1) by auto
    qed auto
    then have "n \<le> card (set ?used)"
      using card_inj_on_le [of "\<lambda>t. key_at (s + t)" "{..<n}" "set ?used"] that(2) by auto
    then show ?thesis
      using used by simp
  qed
  show ?thesis
  proof (cases r)
    case None
    then show ?thesis
      using run [of 65536] j(3,4) by simp
  next
    case (Some k)
    then have k: "k \<notin> set ?used" "k = key_at (s + (j - 1))" "0 < j" "j - 1 < 16"
      using j run [of "j - 1"] by auto
    have id: "i = fst (key_at (s + Suc (j - 1)))" "d = snd (key_at (s + Suc (j - 1)))"
      using j(1) k(3) by (simp_all flip: j(1))
    have "cm_next_index m = fst (key_at s)" "cm_next_id m = snd (key_at s)"
      by (simp_all flip: s)
    then have "allocate_key m = (m\<lparr>cm_next_index := i, cm_next_id := d\<rparr>, Some k)"
      using assms(1) p Some by (simp add: allocate_key_def MAX_LIVE_CIRCUITS_def)
    then show ?thesis
      using k unfolding id by blast
  qed
qed

section \<open>The invariant\<close>

fun peers :: "managed list \<Rightarrow> (callsign \<times> u8 \<times> u8) list" where
  "peers [] = []"
| "peers (x # xs) = (case mg_peer_key x of None \<Rightarrow> peers xs | Some k \<Rightarrow> k # peers xs)"

lemma set_peers: "k \<in> set (peers xs) \<longleftrightarrow> (\<exists>x \<in> set xs. mg_peer_key x = Some k)"
  by (induction xs) (auto split: option.splits)

lemma peers_append: "peers (xs @ ys) = peers xs @ peers ys"
  by (induction xs) (auto split: option.splits)

lemma distinct_peers_filter: "distinct (peers xs) \<Longrightarrow> distinct (peers (filter P xs))"
  by (induction xs) (auto simp: set_peers split: option.splits)

definition manager_inv :: "manager \<Rightarrow> bool" where
  "manager_inv m \<longleftrightarrow> options_ok (cm_options m) \<and> length (cm_circuits m) \<le> 16 \<and>
     distinct (keys (cm_circuits m)) \<and> distinct (peers (cm_circuits m)) \<and>
     (\<forall>x \<in> set (cm_circuits m). circuit_inv (mg_circuit x) \<and> ck_options (mg_circuit x) = cm_options m)"

lemma drive_fields [simp]: "mg_circuit (drive f x) = f (mg_circuit x)" "mg_peer_key (drive f x) = mg_peer_key x"
  by (simp_all add: drive_def)

lemma peers_update: "(\<And>x. mg_peer_key (f x) = mg_peer_key x) \<Longrightarrow> peers (update_first p f xs) = peers xs"
  by (induction xs) (auto split: option.splits)

lemma drive_inv:
  assumes "manager_inv m" "\<And>c. key_of (f c) = key_of c" "\<And>c. ck_options (f c) = ck_options c"
    and "\<And>x. x \<in> set (cm_circuits m) \<Longrightarrow> p x \<Longrightarrow> circuit_inv (f (mg_circuit x))"
  shows "manager_inv (m\<lparr>cm_circuits := update_first p (drive f) (cm_circuits m)\<rparr>)"
proof -
  have "keys (update_first p (drive f) (cm_circuits m)) = keys (cm_circuits m)"
    using assms(2) by (intro map_update_first) simp
  then show ?thesis
    using assms by (auto simp: manager_inv_def peers_update dest!: set_update_first)
qed

lemma step_key [simp]: "key_of (circuit_step e c) = key_of c"
  by (rule key_of_names) simp

lemma step_inv: "manager_inv m \<Longrightarrow>
    manager_inv (m\<lparr>cm_circuits := update_first p (drive (circuit_step e)) (cm_circuits m)\<rparr>)"
  by (rule drive_inv) (auto simp: circuit_step_options manager_inv_def intro: circuit_step_inv)

lemma packet_step: "on_packet p now_ms = circuit_step (Packet p now_ms)"
  and tick_step: "tick now_ms = circuit_step (Tick now_ms)"
  by (rule ext, simp)+

lemma filter_inv:
  assumes "manager_inv m"
  shows "manager_inv (m\<lparr>cm_circuits := filter P (cm_circuits m)\<rparr>)"
  using assms le_trans [OF length_filter_le]
  by (auto simp: manager_inv_def distinct_map_filter distinct_peers_filter)

lemma queues_inv [simp]:
  "manager_inv (m\<lparr>cm_outbox := os\<rparr>) = manager_inv m" "manager_inv (m\<lparr>cm_events := es\<rparr>) = manager_inv m"
  "manager_inv (m\<lparr>cm_incoming := is\<rparr>) = manager_inv m" "manager_inv (m\<lparr>cm_local_node := n\<rparr>) = manager_inv m"
  "manager_inv (m\<lparr>cm_next_index := i, cm_next_id := d\<rparr>) = manager_inv m"
  by (simp_all add: manager_inv_def)

lemma allocate_cases:
  obtains (full) "length (cm_circuits m) \<ge> 16" "allocate_key m = (m, None)"
    | (fresh) i d k where "length (cm_circuits m) < 16" "k \<notin> set (keys (cm_circuits m))"
        "allocate_key m = (m\<lparr>cm_next_index := i, cm_next_id := d\<rparr>, Some k)"
proof (cases "length (cm_circuits m) < 16")
  case True
  obtain s where "(cm_next_index m, cm_next_id m) = key_at s"
    using key_at_surj by metis
  from allocate_spec [OF True this] show ?thesis
    using fresh True by blast
next
  case False
  then show ?thesis
    using full by (simp add: allocate_key_def MAX_LIVE_CIRCUITS_def)
qed

lemma mint_inv:
  assumes "manager_inv m" "length (cm_circuits m) < 16" "key \<notin> set (keys (cm_circuits m))"
    and "\<And>k. pk = Some k \<Longrightarrow> k \<notin> set (peers (cm_circuits m))"
  shows "manager_inv (mint key node pk m)"
  using assms circuit_new_inv [of "cm_options m" "fst key" "snd key" "cm_local_node m" node]
  by (cases pk) (auto simp: manager_inv_def mint_def peers_append circuit_new_def key_of_def)

lemma peers_map: "peers (map (drive f) xs) = peers xs"
  by (induction xs) (auto split: option.splits)

lemma map_drive_inv:
  "manager_inv m \<Longrightarrow> manager_inv (m\<lparr>cm_circuits := map (drive (circuit_step e)) (cm_circuits m)\<rparr>)"
  by (auto simp: manager_inv_def peers_map comp_def circuit_step_options intro: circuit_step_inv)

lemma reply_inv [simp]: "manager_inv (reply p op fl m) = manager_inv m"
  by (simp add: reply_def Let_def)

lemma mint_inbound_inv:
  assumes "manager_inv m" "\<not> list_ex (has_peer (peer_key_of p)) (cm_circuits m)"
  shows "manager_inv (mint_inbound p m)"
proof (cases rule: allocate_cases [of m])
  case full
  then show ?thesis
    using assms(1) by (simp add: mint_inbound_def refuse_connect_request_def)
next
  case (fresh i d k)
  have "peer_key_of p \<notin> set (peers (cm_circuits m))"
    using assms(2) by (auto simp: list_ex_iff has_peer_def set_peers)
  then have "manager_inv (mint k (nh_origin (pk_network p)) (Some (peer_key_of p))
      (m\<lparr>cm_next_index := i, cm_next_id := d\<rparr>))"
    using fresh assms(1) by (intro mint_inv) auto
  then show ?thesis
    using fresh by (simp add: mint_inbound_def Let_def split_beta)
qed

lemma manager_packet_inv: "manager_inv m \<Longrightarrow> manager_inv (manager_on_packet p now_ms m)"
  by (auto simp: manager_on_packet_def mint_inbound_inv packet_step step_inv simp del: circuit_step.simps)

lemma open_inv:
  assumes "manager_inv m"
  shows "manager_inv (fst (open_circuit node m))"
proof (cases rule: allocate_cases [of m])
  case full
  then show ?thesis
    using assms by (simp add: open_circuit_def)
next
  case (fresh i d k)
  then have "manager_inv (mint k node None (m\<lparr>cm_next_index := i, cm_next_id := d\<rparr>))"
    using assms by (intro mint_inv) auto
  then show ?thesis
    using fresh by (simp add: open_circuit_def)
qed

lemma circuit_of_iff:
  assumes "manager_inv m"
  shows "circuit_of m key = Some c \<longleftrightarrow> (\<exists>x \<in> set (cm_circuits m). mg_circuit x = c \<and> key_of c = key)"
  using assms by (simp add: circuit_of_lookup lookup_in manager_inv_def)

lemma manager_accept_inv:
  assumes "manager_inv m" "circuit_state_of m (ic_key i) = Some Disconnected"
  shows "manager_inv (manager_accept i m)"
  unfolding manager_accept_def circuit_mut_def
proof (rule drive_inv [OF assms(1)])
  fix x
  assume x: "x \<in> set (cm_circuits m)" "has_key (ic_key i) x"
  then have "circuit_of m (ic_key i) = Some (mg_circuit x)"
    using circuit_of_iff [OF assms(1)] by (auto simp: has_key_def)
  then show "circuit_inv (accept_inbound (ic_peer_index i) (ic_peer_id i) (ic_proposed_window i) (mg_circuit x))"
    using assms x(1) by (auto simp: circuit_state_of_def manager_inv_def intro: accept_inv)
qed (auto intro: key_of_names)

lemma manager_refuse_inv: "manager_inv m \<Longrightarrow> manager_inv (manager_refuse i m)"
  unfolding manager_refuse_def Let_def
  using filter_inv [of "m\<lparr>cm_outbox := os\<rparr>" "\<lambda>x. \<not> has_key (ic_key i) x" for os] by simp

lemma manager_tick_inv: "manager_inv m \<Longrightarrow> manager_inv (manager_tick now_ms m)"
  by (simp only: manager_tick_def tick_step map_drive_inv)

lemma collect_inv:
  assumes "manager_inv m"
  shows "manager_inv (collect m)"
proof -
  have "manager_inv (m\<lparr>cm_circuits := map (drive (circuit_step TakeEvents)) (map (drive (circuit_step TakeOutbox)) (cm_circuits m))\<rparr>)"
    using map_drive_inv [OF map_drive_inv [OF assms, of TakeOutbox], of TakeEvents] by simp
  then have "manager_inv (m\<lparr>cm_circuits := map (drive (\<lambda>c. fst (take_events (fst (take_outbox c))))) (cm_circuits m)\<rparr>)"
    by (simp add: comp_def drive_def [abs_def])
  then have "manager_inv (m\<lparr>cm_outbox := os, cm_events := es,
      cm_circuits := map (drive (\<lambda>c. fst (take_events (fst (take_outbox c))))) (cm_circuits m)\<rparr>)" for os es
    by (simp add: manager_inv_def)
  from filter_inv [OF this] show ?thesis
    by (simp add: collect_def Let_def)
qed

section \<open>Every history\<close>

datatype manager_call =
    SetNode callsign | Open callsign | PacketIn packet u64 | AcceptIn incoming | RefuseIn incoming
  | TickAll u64 | Drive circuit_key circuit_call | DrainOutbox | DrainEvents | DrainIncoming

text \<open>
  What the owner does with a manager. It accepts an inbound circuit only while that circuit is still
  closed, as minting left it.
\<close>

fun manager_step :: "manager_call \<Rightarrow> manager \<Rightarrow> manager" where
  "manager_step (SetNode node) m = set_local_node node m"
| "manager_step (Open node) m = fst (open_circuit node m)"
| "manager_step (PacketIn p now_ms) m = manager_on_packet p now_ms m"
| "manager_step (AcceptIn i) m = (if circuit_state_of m (ic_key i) = Some Disconnected then manager_accept i m else m)"
| "manager_step (RefuseIn i) m = manager_refuse i m"
| "manager_step (TickAll now_ms) m = manager_tick now_ms m"
| "manager_step (Drive key e) m = circuit_mut key (circuit_step e) m"
| "manager_step DrainOutbox m = fst (manager_take_outbox m)"
| "manager_step DrainEvents m = fst (manager_take_events m)"
| "manager_step DrainIncoming m = fst (take_incoming m)"

lemma manager_step_inv: "manager_inv m \<Longrightarrow> manager_inv (manager_step e m)"
  by (cases e) (simp_all add: set_local_node_def open_inv manager_packet_inv manager_accept_inv manager_refuse_inv
      manager_tick_inv circuit_mut_def step_inv manager_take_outbox_def manager_take_events_def take_incoming_def
      collect_inv Let_def del: circuit_step.simps)

interpretation circuits: state_machine manager_step manager_inv
  by unfold_locales (rule manager_step_inv)

lemma manager_new_inv: "options_ok options \<Longrightarrow> manager_inv (manager_new node options)"
  by (simp add: manager_new_def manager_inv_def)

lemma manager_step_options: "cm_options (manager_step e m) = cm_options m"
  by (cases e) (auto simp: set_local_node_def open_circuit_def manager_on_packet_def mint_inbound_def
      refuse_connect_request_def reply_def manager_accept_def manager_refuse_def manager_tick_def circuit_mut_def
      manager_take_outbox_def manager_take_events_def take_incoming_def collect_def mint_def allocate_key_def Let_def
      split: option.split prod.split)



section \<open>Demultiplexing\<close>

lemma find_list_ex: "List.find p xs = None \<longleftrightarrow> \<not> list_ex p xs"
  by (auto simp: find_None_iff list_ex_iff)

lemma circuit_of_incoming [simp]:
  "circuit_of (m\<lparr>cm_incoming := is\<rparr>) = circuit_of m" "circuit_of (m\<lparr>cm_outbox := os\<rparr>) = circuit_of m"
  "circuit_of (m\<lparr>cm_events := es\<rparr>) = circuit_of m"
  by (simp_all add: circuit_of_lookup)

lemma lookup_has_key: "lookup xs k \<noteq> None \<longleftrightarrow> list_ex (has_key k) xs"
  by (simp add: lookup_def find_list_ex)

definition peer_circuit :: "manager \<Rightarrow> packet \<Rightarrow> circuit option" where
  "peer_circuit m p = map_option mg_circuit (List.find (has_peer (peer_key_of p)) (cm_circuits m))"

lemma drive_lookup:
  assumes "manager_inv m" "List.find P (cm_circuits m) = Some x"
  shows "circuit_of (m\<lparr>cm_circuits := update_first P (drive (on_packet p now_ms)) (cm_circuits m)\<rparr>) =
    (circuit_of m)(key_of (mg_circuit x) \<mapsto> on_packet p now_ms (mg_circuit x))"
  using assms lookup_update [of "cm_circuits m" "on_packet p now_ms" P]
  by (simp add: circuit_of_lookup manager_inv_def packet_step del: circuit_step.simps)

lemma mint_lookup:
  "k \<notin> set (keys (cm_circuits m)) \<Longrightarrow>
    circuit_of (mint k node pk m) = (circuit_of m)(k \<mapsto> circuit_new (fst k) (snd k) (cm_local_node m) node (cm_options m))"
proof -
  have "lookup (xs @ [y]) = (lookup xs)(key_of (mg_circuit y) \<mapsto> mg_circuit y)"
    if "key_of (mg_circuit y) \<notin> set (keys xs)" for xs y
    using that by (induction xs) (auto simp: fun_upd_twist)
  then show "k \<notin> set (keys (cm_circuits m)) \<Longrightarrow>
    circuit_of (mint k node pk m) = (circuit_of m)(k \<mapsto> circuit_new (fst k) (snd k) (cm_local_node m) node (cm_options m))"
    by (simp add: mint_def circuit_of_lookup key_of_def circuit_new_def)
qed

definition proposal :: "packet \<Rightarrow> circuit_key \<Rightarrow> incoming" where
  "proposal p k = \<lparr>ic_key = k, ic_remote_node = nh_origin (pk_network p),
     ic_originating_user = (case connect_request_decode (pk_payload p) of Some i \<Rightarrow> cr_originating_user i
       | None \<Rightarrow> nh_origin (pk_network p)),
     ic_peer_index = th_circuit_index (pk_transport p), ic_peer_id = th_circuit_id (pk_transport p),
     ic_proposed_window = (case connect_request_decode (pk_payload p) of Some i \<Rightarrow> cr_proposed_window i | None \<Rightarrow> 0)\<rparr>"

lemma mint_inbound_fresh:
  assumes "length (cm_circuits m) < 16"
  shows "\<exists>k. circuit_of m k = None \<and>
    circuit_of (mint_inbound p m) = (circuit_of m)(k \<mapsto> circuit_new (fst k) (snd k) (cm_local_node m)
      (nh_origin (pk_network p)) (cm_options m)) \<and>
    cm_incoming (mint_inbound p m) = cm_incoming m @ [proposal p k] \<and> cm_outbox (mint_inbound p m) = cm_outbox m"
proof (cases rule: allocate_cases [of m])
  case full
  then show ?thesis
    using assms by simp
next
  case (fresh i d k)
  then have "circuit_of (mint k node pk (m\<lparr>cm_next_index := i, cm_next_id := d\<rparr>)) =
      (circuit_of m)(k \<mapsto> circuit_new (fst k) (snd k) (cm_local_node m) node (cm_options m))" for node pk
    using mint_lookup [of k "m\<lparr>cm_next_index := i, cm_next_id := d\<rparr>"] by (simp add: circuit_of_lookup)
  then have "circuit_of (mint_inbound p m) = (circuit_of m)(k \<mapsto> circuit_new (fst k) (snd k) (cm_local_node m)
      (nh_origin (pk_network p)) (cm_options m))"
    using fresh(3) by (simp add: mint_inbound_def Let_def split_beta circuit_of_def)
  moreover have "cm_incoming (mint_inbound p m) = cm_incoming m @ [proposal p k]" "cm_outbox (mint_inbound p m) = cm_outbox m"
    using fresh(3) by (auto simp: mint_inbound_def mint_def proposal_def Let_def split: option.split)
  moreover have "circuit_of m k = None"
    using fresh(2) by (simp add: circuit_of_lookup lookup_None)
  ultimately show ?thesis
    by blast
qed

text \<open>
  C5: every datagram reaches the one circuit it is for and touches no other. A connect request is matched
  by the caller's identity, never by our keys: a repeated one goes to the circuit already made for it, a
  new one makes a closed circuit under a fresh key and is raised to the owner, and is refused when the
  table is full. Everything else goes by our key; what matches no circuit is dropped, a disconnect
  request being acknowledged.
\<close>

theorem packets_reach_their_circuit:
  assumes "manager_inv m" and m'_def: "m' = manager_on_packet p now_ms m"
    and is_connect: "calls = (from_nibble (th_opcode (pk_transport p)) = Some ConnectRequest)"
  shows "(\<not> calls \<longrightarrow> (case circuit_of m (header_key p) of
      Some c \<Rightarrow> circuit_of m' = (circuit_of m)(header_key p \<mapsto> on_packet p now_ms c) \<and>
        cm_outbox m' = cm_outbox m \<and> cm_incoming m' = cm_incoming m
    | None \<Rightarrow> m' = (if from_nibble (th_opcode (pk_transport p)) = Some DisconnectRequest
        then reply p DisconnectAcknowledge 0 m else m))) \<and>
   (calls \<longrightarrow> (case peer_circuit m p of
      Some c \<Rightarrow> circuit_of m' = (circuit_of m)(key_of c \<mapsto> on_packet p now_ms c) \<and>
        cm_outbox m' = cm_outbox m \<and> cm_incoming m' = cm_incoming m
    | None \<Rightarrow> if circuit_count m < 16
        then \<exists>k. circuit_of m k = None \<and>
          circuit_of m' = (circuit_of m)(k \<mapsto> circuit_new (fst k) (snd k) (cm_local_node m)
            (nh_origin (pk_network p)) (cm_options m)) \<and>
          cm_incoming m' = cm_incoming m @ [proposal p k] \<and> cm_outbox m' = cm_outbox m
        else m' = reply p ConnectAcknowledge FLAG_CHOKE m))"
proof (cases calls)
  case True
  show ?thesis
  proof (cases "List.find (has_peer (peer_key_of p)) (cm_circuits m)")
    case None
    have "mint_inbound p m = reply p ConnectAcknowledge FLAG_CHOKE m" if "\<not> circuit_count m < 16"
      using that by (simp add: mint_inbound_def allocate_key_def MAX_LIVE_CIRCUITS_def circuit_count_def
          refuse_connect_request_def)
    moreover have "\<not> list_ex (has_peer (peer_key_of p)) (cm_circuits m)"
      using None by (simp add: find_list_ex)
    ultimately show ?thesis
      using True None mint_inbound_fresh [of m p]
      by (simp add: m'_def is_connect manager_on_packet_def peer_circuit_def circuit_count_def)
  next
    case (Some x)
    then have "list_ex (has_peer (peer_key_of p)) (cm_circuits m)"
      using find_list_ex [of "has_peer (peer_key_of p)" "cm_circuits m"] by simp
    then show ?thesis
      using True Some drive_lookup [OF assms(1) Some]
      by (simp add: m'_def is_connect manager_on_packet_def peer_circuit_def)
  qed
next
  case False
  show ?thesis
  proof (cases "List.find (has_key (header_key p)) (cm_circuits m)")
    case None
    then have "\<not> list_ex (has_key (header_key p)) (cm_circuits m)" "circuit_of m (header_key p) = None"
      by (simp_all add: find_list_ex circuit_of_def)
    then show ?thesis
      using False by (simp add: m'_def is_connect manager_on_packet_def)
  next
    case (Some x)
    then have "list_ex (has_key (header_key p)) (cm_circuits m)" "circuit_of m (header_key p) = Some (mg_circuit x)"
      using find_list_ex [of "has_key (header_key p)" "cm_circuits m"] by (simp_all add: circuit_of_def)
    moreover have "key_of (mg_circuit x) = header_key p"
      using Some by (auto simp: find_Some_iff has_key_def)
    ultimately show ?thesis
      using False drive_lookup [OF assms(1) Some] by (simp add: m'_def is_connect manager_on_packet_def)
  qed
qed

definition sample_request :: "u8 \<Rightarrow> packet" where
  "sample_request i = \<lparr>pk_network = \<lparr>nh_origin = sample [66], nh_destination = sample [65], nh_time_to_live = 25\<rparr>,
     pk_transport = \<lparr>th_circuit_index = i, th_circuit_id = 9, th_tx_sequence = 0, th_rx_sequence = 0,
       th_opcode = 1, th_flags = 0\<rparr>, pk_payload = []\<rparr>"

theorem packets_reach_their_circuit_witness:
  "\<exists>k. cm_incoming (manager_on_packet (sample_request 3) 0 (manager_new (sample [65]) CIRCUIT_DEFAULT)) =
     [\<lparr>ic_key = k, ic_remote_node = sample [66], ic_originating_user = sample [66], ic_peer_index = 3, ic_peer_id = 9,
       ic_proposed_window = 0\<rparr>]"
proof -
  have "manager_inv (manager_new (sample [65]) CIRCUIT_DEFAULT)"
    by (rule manager_new_inv) (simp add: options_ok_def CIRCUIT_DEFAULT_def)
  moreover have "from_nibble (th_opcode (pk_transport (sample_request 3))) = Some ConnectRequest"
    using nibble_opcode [of ConnectRequest] by (simp add: sample_request_def)
  moreover have "connect_request_decode [] = None"
    by (simp add: connect_request.dec_short CONNECT_REQUEST_INFO_LEN_def)
  ultimately show ?thesis
    using packets_reach_their_circuit [OF _ refl refl, of "manager_new (sample [65]) CIRCUIT_DEFAULT" "sample_request 3" 0]
    by (auto simp: manager_new_def circuit_count_def peer_circuit_def proposal_def sample_request_def)
qed

section \<open>Draining\<close>

definition emptied :: "circuit \<Rightarrow> circuit" where
  "emptied c = c\<lparr>ck_outbox := [], ck_events := []\<rparr>"

lemma lookup_map_filter:
  assumes "distinct (keys xs)" "\<And>c. key_of (f c) = key_of c"
  shows "lookup (filter (\<lambda>x. P (key_of (mg_circuit x))) (map (drive f) xs)) =
    (\<lambda>k. if P k then map_option f (lookup xs k) else None)"
  using assms by (induction xs) (auto simp: fun_eq_iff lookup_None)

lemma closed_keys:
  assumes "distinct (keys xs)" "lookup xs k = Some c"
  shows "k \<in> fst ` {e \<in> set (concat (map tagged xs)). is_closed (snd e)} \<longleftrightarrow> (\<exists>e \<in> set (ck_events c). is_closed e)"
proof
  assume "k \<in> fst ` {e \<in> set (concat (map tagged xs)). is_closed (snd e)}"
  then obtain x e where x: "x \<in> set xs" "e \<in> set (ck_events (mg_circuit x))" "is_closed e" "key_of (mg_circuit x) = k"
    by (auto simp: tagged_def)
  then have "lookup xs k = Some (mg_circuit x)"
    using lookup_in [OF assms(1)] by blast
  then show "\<exists>e \<in> set (ck_events c). is_closed e"
    using x assms(2) by auto
next
  assume "\<exists>e \<in> set (ck_events c). is_closed e"
  moreover obtain x where "x \<in> set xs" "mg_circuit x = c" "key_of c = k"
    using assms lookup_in by blast
  ultimately show "k \<in> fst ` {e \<in> set (concat (map tagged xs)). is_closed (snd e)}"
    by (force simp: tagged_def)
qed

text \<open>
  C8: draining is exact. \<open>take_events\<close> hands over what was pending and then the events of every circuit
  under its key, each once, while every datagram waits for \<open>take_outbox\<close>; afterwards a circuit is gone
  exactly if it reported its closing, and every other is unchanged but for its emptied queues.
\<close>

theorem draining_is_exact:
  assumes "manager_inv m" and d: "manager_take_events m = (m', evs)"
  shows "evs = cm_events m @ concat (map tagged (cm_circuits m)) \<and> cm_events m' = [] \<and>
    cm_outbox m' = cm_outbox m @ concat (map (ck_outbox \<circ> mg_circuit) (cm_circuits m)) \<and>
    (\<forall>k. circuit_of m' k = (case circuit_of m k of None \<Rightarrow> None
      | Some c \<Rightarrow> if \<exists>e \<in> set (ck_events c). is_closed e then None else Some (emptied c))) \<and>
    snd (manager_take_events m') = [] \<and> cm_outbox (fst (manager_take_events m')) = cm_outbox m'"
proof -
  let ?xs = "cm_circuits m" and ?drain = "\<lambda>c. fst (take_events (fst (take_outbox c)))"
  let ?P = "\<lambda>k. k \<notin> fst ` {e \<in> set (concat (map tagged ?xs)). is_closed (snd e)}"
  have keys: "distinct (keys ?xs)"
    using assms(1) by (simp add: manager_inv_def)
  have drain: "?drain = emptied"
    by (simp add: fun_eq_iff take_outbox_def take_events_def emptied_def)
  have m': "cm_circuits m' = filter (\<lambda>x. ?P (key_of (mg_circuit x))) (map (drive emptied) ?xs)"
    and evs: "evs = cm_events m @ concat (map tagged ?xs)" "cm_events m' = []"
      "cm_outbox m' = cm_outbox m @ concat (map (ck_outbox \<circ> mg_circuit) ?xs)"
    using d by (auto simp: manager_take_events_def collect_def Let_def drain comp_def)
  have "circuit_of m' k = (if ?P k then map_option emptied (lookup ?xs k) else None)" for k
    unfolding circuit_of_lookup m' using keys
    by (subst lookup_map_filter) (simp_all add: emptied_def key_of_def)
  then have "circuit_of m' k = (case circuit_of m k of None \<Rightarrow> None
      | Some c \<Rightarrow> if \<exists>e \<in> set (ck_events c). is_closed e then None else Some (emptied c))" for k
    using closed_keys [OF keys] by (simp add: circuit_of_lookup split: option.split)
  moreover have "ck_events (mg_circuit x) = [] \<and> ck_outbox (mg_circuit x) = []" if "x \<in> set (cm_circuits m')" for x
    using that by (auto simp: m' emptied_def)
  then have "concat (map tagged (cm_circuits m')) = []" "concat (map (ck_outbox \<circ> mg_circuit) (cm_circuits m')) = []"
    by (simp_all add: tagged_def)
  ultimately show ?thesis
    using evs by (simp add: manager_take_events_def collect_def Let_def)
qed

definition sample_calls :: "manager_call list" where
  "sample_calls = [Open (sample [66]), Drive (0, 0) (Connect (sample [65]) 0), Drive (0, 0) (Disconnect 0)]"

lemma first_key: "allocate_key (manager_new node options) =
    ((manager_new node options)\<lparr>cm_next_index := 1\<rparr>, Some (0, 0))"
  using probe.simps(2) [of 65535 "[]" 0 0]
  by (simp add: allocate_key_def manager_new_def MAX_LIVE_CIRCUITS_def Let_def)

theorem draining_is_exact_witness:
  "snd (manager_take_events (fold manager_step sample_calls (manager_new (sample [65]) CIRCUIT_DEFAULT))) =
     [((0, 0), Closed Normal)]"
proof -
  let ?m = "fold manager_step sample_calls (manager_new (sample [65]) CIRCUIT_DEFAULT)"
  have "manager_inv ?m"
    by (intro circuits.run_inv manager_new_inv) (simp add: options_ok_def CIRCUIT_DEFAULT_def)
  moreover have "cm_events ?m = []" "concat (map tagged (cm_circuits ?m)) = [((0, 0), Closed Normal)]"
    by (simp_all add: sample_calls_def open_circuit_def first_key [unfolded manager_new_def] mint_def circuit_mut_def has_key_def key_of_def drive_def
        manager_new_def circuit_new_def connect_def disconnect_def send_connect_request_def emit_def
        arm_control_timer_def close_def fire_def tagged_def Let_def)
  ultimately show ?thesis
    using draining_is_exact [of ?m "fst (manager_take_events ?m)" "snd (manager_take_events ?m)"] by simp
qed

end
