(* ===== verification/Netrom_Connector.thy ===== *)
theory Netrom_Connector
  imports Netrom_Forward Netrom_Manager_Props
begin

text \<open>
  The connector of a node (\<open>netrom/connector.rs\<close>): opening circuits by name, terminating and forwarding
  the datagrams of the interlinks, and moving what the circuits produce into queues for the host. The
  routing view is passed to every operation, as in the code.
\<close>

section \<open>State\<close>

record interlink_send =
  il_neighbour :: callsign
  il_datagram :: bytes

record connection =
  cn_key :: circuit_key
  cn_peer :: callsign
  cn_user :: callsign

record connector_options =
  no_enabled :: bool
  no_forward :: bool
  no_forward_mode :: forward_mode
  no_circuit :: circuit_options

definition CONNECTOR_DEFAULT :: connector_options where
  "CONNECTOR_DEFAULT = \<lparr>no_enabled = False, no_forward = True, no_forward_mode = PerFlow, no_circuit = CIRCUIT_DEFAULT\<rparr>"

record connector =
  nc_enabled :: bool
  nc_forward_enabled :: bool
  nc_forward_mode :: forward_mode
  nc_prefer_inp3_routes :: bool
  nc_max_ttl :: u8
  nc_node_call :: callsign
  nc_manager :: manager
  nc_interlinks :: "callsign list"
  nc_outbound :: "interlink_send list"
  nc_events :: "(circuit_key \<times> circuit_event) list"
  nc_incoming :: "connection list"

definition connector_new :: "callsign \<Rightarrow> connector_options \<Rightarrow> connector" where
  "connector_new node_call options =
     \<lparr>nc_enabled = no_enabled options, nc_forward_enabled = no_enabled options \<and> no_forward options,
      nc_forward_mode = no_forward_mode options, nc_prefer_inp3_routes = False,
      nc_max_ttl = co_time_to_live (no_circuit options), nc_node_call = node_call,
      nc_manager = manager_new node_call (no_circuit options), nc_interlinks = [], nc_outbound = [],
      nc_events = [], nc_incoming = []\<rparr>"

definition set_prefer_inp3_routes :: "bool \<Rightarrow> connector \<Rightarrow> connector" where
  "set_prefer_inp3_routes by_time n = n\<lparr>nc_prefer_inp3_routes := by_time\<rparr>"

definition connection_closed :: "connector \<Rightarrow> connection \<Rightarrow> bool" where
  "connection_closed n c \<longleftrightarrow>
     circuit_state_of (nc_manager n) (cn_key c) \<notin> {Some Connecting, Some Connected, Some Disconnecting}"

section \<open>Sending\<close>

definition ensure_interlink :: "callsign \<Rightarrow> connector \<Rightarrow> connector" where
  "ensure_interlink neighbour n =
     (if neighbour \<in> set (nc_interlinks n) then n else n\<lparr>nc_interlinks := nc_interlinks n @ [neighbour]\<rparr>)"

text \<open>
  A datagram written into a buffer of the largest size. The encoder does not panic on it, and what the
  buffer held before does not show (\<open>encoded_datagram_eq\<close>): sharing one buffer makes no difference.
\<close>

definition encoded_datagram :: "packet \<Rightarrow> bytes option" where
  "encoded_datagram p =
     (case packet_encode p (replicate (PACKET_HEADER_LEN + MAX_PAYLOAD) 0) of
        Some (buf, Some n) \<Rightarrow> Some (take n buf)
      | _ \<Rightarrow> None)"

definition push_send :: "callsign \<Rightarrow> packet \<Rightarrow> connector \<Rightarrow> connector" where
  "push_send neighbour p n =
     (case encoded_datagram p of
        None \<Rightarrow> n
      | Some bs \<Rightarrow> n\<lparr>nc_outbound := nc_outbound n @ [\<lparr>il_neighbour = neighbour, il_datagram = bs\<rparr>]\<rparr>)"

definition next_hop :: "routing_view \<Rightarrow> connector \<Rightarrow> callsign \<Rightarrow> callsign option" where
  "next_hop routing n dest =
     (if dest \<in> set (nc_interlinks n) then Some dest
      else case Option.bind (rv_destination_for routing dest) dv_best_route of
             Some best \<Rightarrow> Some (rs_neighbour best)
           | None \<Rightarrow> if rv_neighbour_for routing dest \<noteq> None then Some dest else None)"

definition send_outbound :: "routing_view \<Rightarrow> packet \<Rightarrow> connector \<Rightarrow> connector" where
  "send_outbound routing p n =
     (case next_hop routing n (nh_destination (pk_network p)) of
        None \<Rightarrow> n
      | Some neighbour \<Rightarrow> push_send neighbour p n)"

definition pump_outbound :: "routing_view \<Rightarrow> connector \<Rightarrow> connector" where
  "pump_outbound routing n =
     (let (m, packets) = manager_take_outbox (nc_manager n)
      in fold (send_outbound routing) packets (n\<lparr>nc_manager := m\<rparr>))"

section \<open>After the manager\<close>

definition accept_connection :: "incoming \<Rightarrow> connector \<Rightarrow> connector" where
  "accept_connection i n =
     n\<lparr>nc_manager := manager_accept i (nc_manager n),
       nc_incoming := nc_incoming n @
         [\<lparr>cn_key = ic_key i, cn_peer = ic_remote_node i, cn_user = ic_originating_user i\<rparr>]\<rparr>"

fun is_data :: "circuit_event \<Rightarrow> bool" where
  "is_data (DataReceived _) = True"
| "is_data _ = False"

definition surface_event :: "circuit_key \<times> circuit_event \<Rightarrow> connector \<Rightarrow> connector" where
  "surface_event e n =
     n\<lparr>nc_manager := (if is_data (snd e) then circuit_mut (fst e) on_delivery_drained (nc_manager n) else nc_manager n),
       nc_events := nc_events n @ [e]\<rparr>"

definition after_manager :: "routing_view \<Rightarrow> connector \<Rightarrow> connector" where
  "after_manager routing n =
     (let (m1, incoming) = take_incoming (nc_manager n);
          n1 = fold accept_connection incoming (n\<lparr>nc_manager := m1\<rparr>);
          (m2, events) = manager_take_events (nc_manager n1);
          n2 = fold surface_event events (n1\<lparr>nc_manager := m2\<rparr>)
      in pump_outbound routing n2)"

section \<open>Operations\<close>

definition connect_to :: "routing_view \<Rightarrow> str \<Rightarrow> callsign \<Rightarrow> u64 \<Rightarrow> connector \<Rightarrow> connector \<times> (str + connection)" where
  "connect_to routing target originating_user now_ms n =
     (if \<not> nc_enabled n then (n, Inl target)
      else case rv_resolve_destination routing target of
             None \<Rightarrow> (n, Inl target)
           | Some destination \<Rightarrow>
               (case dv_best_route destination of
                  None \<Rightarrow> (n, Inl target)
                | Some best \<Rightarrow>
                    let n1 = ensure_interlink (rs_neighbour best) n in
                    (case open_circuit (dv_destination destination) (nc_manager n1) of
                      (m, None) \<Rightarrow> (n1\<lparr>nc_manager := m\<rparr>, Inl target)
                    | (m, Some key) \<Rightarrow>
                        (after_manager routing
                           (n1\<lparr>nc_manager := circuit_mut key (connect originating_user now_ms) m\<rparr>),
                         Inr \<lparr>cn_key = key, cn_peer = dv_destination destination, cn_user = originating_user\<rparr>))))"

definition write_to :: "routing_view \<Rightarrow> connection \<Rightarrow> bytes \<Rightarrow> u64 \<Rightarrow> connector \<Rightarrow> connector" where
  "write_to routing c data now_ms n =
     after_manager routing (n\<lparr>nc_manager := circuit_mut (cn_key c) (send data now_ms) (nc_manager n)\<rparr>)"

definition disconnect_from :: "routing_view \<Rightarrow> connection \<Rightarrow> u64 \<Rightarrow> connector \<Rightarrow> connector" where
  "disconnect_from routing c now_ms n =
     after_manager routing (n\<lparr>nc_manager := circuit_mut (cn_key c) (disconnect now_ms) (nc_manager n)\<rparr>)"

text \<open>The hop limit rewritten, the rest of the datagram as received.\<close>

definition with_ttl :: "packet \<Rightarrow> u8 \<Rightarrow> packet" where
  "with_ttl p ttl =
     \<lparr>pk_network = \<lparr>nh_origin = nh_origin (pk_network p), nh_destination = nh_destination (pk_network p),
        nh_time_to_live = ttl\<rparr>, pk_transport = pk_transport p, pk_payload = pk_payload p\<rparr>"

definition forward_datagram :: "routing_view \<Rightarrow> packet \<Rightarrow> callsign \<Rightarrow> connector \<Rightarrow> connector" where
  "forward_datagram routing p received_from n =
     (let decision = decide_forward p received_from (nc_node_call n) routing (nc_max_ttl n) (nc_forward_mode n)
            (nc_prefer_inp3_routes n)
      in case fd_next_hop decision of
           None \<Rightarrow> n
         | Some neighbour \<Rightarrow>
             push_send neighbour (with_ttl p (fd_time_to_live decision)) (ensure_interlink neighbour n))"

definition on_interlink_data :: "routing_view \<Rightarrow> callsign \<Rightarrow> bytes \<Rightarrow> u64 \<Rightarrow> connector \<Rightarrow> connector" where
  "on_interlink_data routing received_from info now_ms n =
     (if \<not> nc_enabled n then n
      else
        let n1 = ensure_interlink received_from n;
            n2 = (case packet_decode info of
                None \<Rightarrow> n1
              | Some p \<Rightarrow>
                  if nh_destination (pk_network p) = nc_node_call n1
                  then n1\<lparr>nc_manager := manager_on_packet p now_ms (nc_manager n1)\<rparr>
                  else if nc_forward_enabled n1 then forward_datagram routing p received_from n1
                  else n1)
        in after_manager routing n2)"

definition connector_tick :: "routing_view \<Rightarrow> u64 \<Rightarrow> connector \<Rightarrow> connector" where
  "connector_tick routing now_ms n =
     after_manager routing (n\<lparr>nc_manager := manager_tick now_ms (nc_manager n)\<rparr>)"

definition take_interlink_sends :: "connector \<Rightarrow> connector \<times> interlink_send list" where
  "take_interlink_sends n = (n\<lparr>nc_outbound := []\<rparr>, nc_outbound n)"

definition connector_take_events :: "connector \<Rightarrow> connector \<times> (circuit_key \<times> circuit_event) list" where
  "connector_take_events n = (n\<lparr>nc_events := []\<rparr>, nc_events n)"

definition take_incoming_connections :: "connector \<Rightarrow> connector \<times> connection list" where
  "take_incoming_connections n = (n\<lparr>nc_incoming := []\<rparr>, nc_incoming n)"

section \<open>Datagrams\<close>

lemma encoded_datagram_eq: "encoded_datagram p = (if length (pk_payload p) \<le> MAX_PAYLOAD then Some (packet_octets p) else None)"
proof -
  have len: "length (packet_octets p) = PACKET_HEADER_LEN + length (pk_payload p)"
    by (simp add: packet_octets_def wire_lengths PACKET_HEADER_LEN_def)
  show ?thesis
    using fillsD [OF packet_encode_fills [of p], of "replicate (PACKET_HEADER_LEN + MAX_PAYLOAD) 0"] len
    by (auto simp: encoded_datagram_def overwrite_def)
qed

lemma ensure_interlink_fields [simp]:
  "nc_manager (ensure_interlink nb n) = nc_manager n" "nc_node_call (ensure_interlink nb n) = nc_node_call n"
  "nc_enabled (ensure_interlink nb n) = nc_enabled n" "nc_forward_enabled (ensure_interlink nb n) = nc_forward_enabled n"
  "nc_outbound (ensure_interlink nb n) = nc_outbound n" "nc_events (ensure_interlink nb n) = nc_events n"
  "nc_incoming (ensure_interlink nb n) = nc_incoming n"
  by (simp_all add: ensure_interlink_def)

lemma push_send_manager [simp]: "nc_manager (push_send nb p n) = nc_manager n"
  by (simp add: push_send_def split: option.split)

lemma send_outbound_manager [simp]: "nc_manager (send_outbound routing p n) = nc_manager n"
  by (simp add: send_outbound_def split: option.split)

lemma send_all_manager [simp]: "nc_manager (fold (send_outbound routing) ps n) = nc_manager n"
  by (induction ps arbitrary: n) simp_all

lemma packet_octets_decode: "packet_wf p \<Longrightarrow> packet_decode (packet_octets p) = Some p"
  by (simp add: packet_decode_iff packet_octets_def packet_wf_def network.dec_enc)

lemma packet_decode_wf: "packet_decode bs = Some p \<Longrightarrow> packet_wf p"
  by (auto simp: packet_decode_iff packet_wf_def network_decode_wf)

lemma with_ttl_wf: "packet_wf p \<Longrightarrow> packet_wf (with_ttl p ttl)"
  by (simp add: packet_wf_def with_ttl_def network_wf_def)

lemma with_ttl_fields [simp]:
  "pk_payload (with_ttl p ttl) = pk_payload p" "pk_transport (with_ttl p ttl) = pk_transport p"
  "nh_origin (pk_network (with_ttl p ttl)) = nh_origin (pk_network p)"
  "nh_destination (pk_network (with_ttl p ttl)) = nh_destination (pk_network p)"
  "nh_time_to_live (pk_network (with_ttl p ttl)) = ttl" "with_ttl (with_ttl p ttl') ttl = with_ttl p ttl"
  by (simp_all add: with_ttl_def)

section \<open>Quiet managers\<close>

text \<open>A manager without anything to hand over, as every operation of the connector leaves it.\<close>

definition silent :: "managed \<Rightarrow> bool" where
  "silent x \<longleftrightarrow> ck_outbox (mg_circuit x) = [] \<and> ck_events (mg_circuit x) = []"

definition quiet :: "manager \<Rightarrow> bool" where
  "quiet m \<longleftrightarrow> cm_incoming m = [] \<and> cm_events m = [] \<and> cm_outbox m = [] \<and> list_all silent (cm_circuits m)"

lemma collect_silent:
  assumes "list_all silent (cm_circuits m)"
  shows "collect m = m"
proof -
  have "concat (map (ck_outbox \<circ> mg_circuit) (cm_circuits m)) = []" "concat (map tagged (cm_circuits m)) = []"
    using assms by (auto simp: list_all_iff silent_def tagged_def)
  moreover have "drive (\<lambda>c. fst (take_events (fst (take_outbox c)))) x = x" if "silent x" for x
    using that by (simp add: silent_def drive_def take_events_def take_outbox_def)
  then have "map (drive (\<lambda>c. fst (take_events (fst (take_outbox c))))) (cm_circuits m) = cm_circuits m"
    using assms by (intro map_idI) (simp add: list_all_iff)
  ultimately show ?thesis
    unfolding collect_def Let_def by simp
qed

lemma after_quiet:
  assumes "quiet (nc_manager n)"
  shows "after_manager routing n = n"
proof -
  have m: "cm_incoming (nc_manager n) = []" "cm_events (nc_manager n) = []" "cm_outbox (nc_manager n) = []"
    "list_all silent (cm_circuits (nc_manager n))"
    using assms by (simp_all add: quiet_def)
  have same: "nc_manager n\<lparr>cm_incoming := []\<rparr> = nc_manager n" "nc_manager n\<lparr>cm_events := []\<rparr> = nc_manager n"
    "nc_manager n\<lparr>cm_outbox := []\<rparr> = nc_manager n"
    using m by simp_all
  show ?thesis
    using m by (simp add: after_manager_def take_incoming_def manager_take_events_def manager_take_outbox_def
        pump_outbound_def collect_silent same Let_def)
qed

lemma collect_drains: "list_all silent (cm_circuits (collect m))"
  by (auto simp: collect_def Let_def list_all_iff silent_def take_events_def take_outbox_def)

lemma drained_events: "ck_events (on_delivery_drained c) = ck_events c"
  by (simp add: on_delivery_drained_def maybe_release_choke_def send_information_acknowledge_def emit_def Let_def)

definition uneventful :: "manager \<Rightarrow> bool" where
  "uneventful m \<longleftrightarrow> cm_incoming m = [] \<and> cm_events m = [] \<and> (\<forall>x \<in> set (cm_circuits m). ck_events (mg_circuit x) = [])"

lemma surface_one: "uneventful (nc_manager n) \<Longrightarrow> uneventful (nc_manager (surface_event e n))"
  by (auto simp: surface_event_def uneventful_def circuit_mut_def drained_events dest!: set_update_first)

lemma surface_uneventful:
  "uneventful (nc_manager n) \<Longrightarrow> uneventful (nc_manager (fold surface_event es n))"
  by (induction es arbitrary: n) (simp_all add: surface_one)

lemma pump_quiet:
  assumes "uneventful (nc_manager n)"
  shows "quiet (nc_manager (pump_outbound routing n))"
proof -
  have "concat (map tagged (cm_circuits (nc_manager n))) = []"
    using assms by (simp add: uneventful_def tagged_def)
  then show ?thesis
    using assms collect_drains [of "nc_manager n"]
    by (simp add: pump_outbound_def manager_take_outbox_def quiet_def uneventful_def Let_def collect_def)
qed

lemma accept_fields:
  "cm_incoming (nc_manager (fold accept_connection is n)) = cm_incoming (nc_manager n)"
  by (induction "is" arbitrary: n) (simp_all add: accept_connection_def manager_accept_def circuit_mut_def)

lemma after_quiets: "quiet (nc_manager (after_manager routing n))"
proof -
  let ?n1 = "fold accept_connection (cm_incoming (nc_manager n)) (n\<lparr>nc_manager := nc_manager n\<lparr>cm_incoming := []\<rparr>\<rparr>)"
  have "cm_incoming (nc_manager ?n1) = []"
    by (simp add: accept_fields)
  then have "uneventful (collect (nc_manager ?n1)\<lparr>cm_events := []\<rparr>)"
    using collect_drains [of "nc_manager ?n1"] by (auto simp: uneventful_def list_all_iff silent_def collect_def Let_def)
  then show ?thesis
    unfolding after_manager_def take_incoming_def manager_take_events_def Let_def prod.case
    by (intro pump_quiet surface_uneventful) simp
qed

section \<open>The invariant\<close>

text \<open>Every connect that is raised belongs to a circuit that has not been answered yet.\<close>

definition acceptable_incoming :: "manager \<Rightarrow> bool" where
  "acceptable_incoming m \<longleftrightarrow> cm_incoming m = [] \<or>
     (\<exists>i. cm_incoming m = [i] \<and> circuit_state_of m (ic_key i) = Some Disconnected)"

lemma call_steps:
  "circuit_step Drained = on_delivery_drained" "circuit_step (Connect user now_ms) = connect user now_ms"
  "circuit_step (Send data now_ms) = send data now_ms" "circuit_step (Disconnect now_ms) = disconnect now_ms"
  by (simp_all add: fun_eq_iff)

lemma circuit_mut_inv:
  assumes "manager_inv m"
  shows "manager_inv (circuit_mut key on_delivery_drained m)" "manager_inv (circuit_mut key (connect user now_ms) m)"
    "manager_inv (circuit_mut key (send data now_ms) m)" "manager_inv (circuit_mut key (disconnect now_ms) m)"
  unfolding call_steps [symmetric] circuit_mut_def by (rule step_inv [OF assms])+

lemma circuit_mut_incoming [simp]: "cm_incoming (circuit_mut key f m) = cm_incoming m"
  by (simp add: circuit_mut_def)

lemma surface_inv: "manager_inv (nc_manager n) \<Longrightarrow> manager_inv (nc_manager (fold surface_event es n))"
  by (induction es arbitrary: n) (simp_all add: surface_event_def circuit_mut_inv)

lemma answer_taken_inv:
  "manager_inv m \<Longrightarrow> manager_inv (fst (manager_take_outbox m))"
  "manager_inv m \<Longrightarrow> manager_inv (fst (manager_take_events m))"
  by (simp_all add: manager_take_outbox_def manager_take_events_def Let_def collect_inv)

lemma after_inv:
  assumes "manager_inv (nc_manager n)" "acceptable_incoming (nc_manager n)"
  shows "manager_inv (nc_manager (after_manager routing n))"
proof -
  let ?n1 = "fold accept_connection (cm_incoming (nc_manager n)) (n\<lparr>nc_manager := nc_manager n\<lparr>cm_incoming := []\<rparr>\<rparr>)"
  have "manager_inv (nc_manager ?n1)"
  proof (cases "cm_incoming (nc_manager n)")
    case Nil
    then show ?thesis
      using assms(1) by simp
  next
    case (Cons i l)
    then have "l = []" "circuit_state_of (nc_manager n) (ic_key i) = Some Disconnected"
      using assms(2) by (auto simp: acceptable_incoming_def)
    then show ?thesis
      using Cons assms(1) manager_accept_inv [of "nc_manager n\<lparr>cm_incoming := []\<rparr>" i]
      by (simp add: accept_connection_def circuit_state_of_def)
  qed
  then have "manager_inv (collect (nc_manager ?n1)\<lparr>cm_events := []\<rparr>)"
    by (simp add: collect_inv)
  then have "manager_inv (nc_manager (fold surface_event es (?n1\<lparr>nc_manager := collect (nc_manager ?n1)\<lparr>cm_events := []\<rparr>\<rparr>)))" for es
    by (intro surface_inv) simp
  then show ?thesis
    unfolding after_manager_def take_incoming_def manager_take_events_def Let_def prod.case
    by (simp add: pump_outbound_def manager_take_outbox_def Let_def collect_inv)
qed

lemma update_state_incoming:
  "cm_incoming m = [] \<Longrightarrow> acceptable_incoming (m\<lparr>cm_circuits := xs\<rparr>)" "cm_incoming m = [] \<Longrightarrow> acceptable_incoming m"
  by (simp_all add: acceptable_incoming_def)

lemma packet_acceptable:
  assumes "manager_inv m" "cm_incoming m = []"
  shows "acceptable_incoming (manager_on_packet p now_ms m)"
proof (cases "length (cm_circuits m) < 16")
  case True
  from mint_inbound_fresh [OF this, of p] show ?thesis
    using assms(2)
    by (auto simp: manager_on_packet_def acceptable_incoming_def circuit_state_of_def proposal_def circuit_new_def reply_def Let_def)
next
  case False
  then show ?thesis
    using assms(2) by (auto simp: manager_on_packet_def acceptable_incoming_def mint_inbound_def allocate_key_def
        MAX_LIVE_CIRCUITS_def refuse_connect_request_def reply_def Let_def)
qed

lemma open_incoming: "cm_incoming (fst (open_circuit node m)) = cm_incoming m"
  by (auto simp: open_circuit_def allocate_key_def mint_def split: prod.split option.split)

datatype connector_call =
    PreferTimes bool
  | ConnectTo routing_view str callsign u64
  | WriteTo routing_view connection bytes u64
  | DisconnectFrom routing_view connection u64
  | InterlinkData routing_view callsign bytes u64
  | ConnectorTick routing_view u64
  | TakeSends | TakeConnectorEvents | TakeConnections

fun connector_step :: "connector_call \<Rightarrow> connector \<Rightarrow> connector" where
  "connector_step (PreferTimes b) n = set_prefer_inp3_routes b n"
| "connector_step (ConnectTo routing target user now_ms) n = fst (connect_to routing target user now_ms n)"
| "connector_step (WriteTo routing c data now_ms) n = write_to routing c data now_ms n"
| "connector_step (DisconnectFrom routing c now_ms) n = disconnect_from routing c now_ms n"
| "connector_step (InterlinkData routing received_from info now_ms) n = on_interlink_data routing received_from info now_ms n"
| "connector_step (ConnectorTick routing now_ms) n = connector_tick routing now_ms n"
| "connector_step TakeSends n = fst (take_interlink_sends n)"
| "connector_step TakeConnectorEvents n = fst (connector_take_events n)"
| "connector_step TakeConnections n = fst (take_incoming_connections n)"

definition connector_inv :: "connector \<Rightarrow> bool" where
  "connector_inv n \<longleftrightarrow> manager_inv (nc_manager n) \<and> quiet (nc_manager n)"

lemma after_connector_inv:
  "manager_inv m \<Longrightarrow> acceptable_incoming m \<Longrightarrow> connector_inv (after_manager routing (n\<lparr>nc_manager := m\<rparr>))"
  using after_inv [of "n\<lparr>nc_manager := m\<rparr>"] by (simp add: connector_inv_def after_quiets)

lemma open_full: "open_circuit node m = (m', None) \<Longrightarrow> m' = m"
  by (cases rule: allocate_cases [of m]) (auto simp: open_circuit_def)

lemma forward_manager [simp]: "nc_manager (forward_datagram routing p src n) = nc_manager n"
  by (simp add: forward_datagram_def Let_def split: option.split)

lemma connector_step_inv:
  assumes "connector_inv n"
  shows "connector_inv (connector_step e n)"
proof -
  have m: "manager_inv (nc_manager n)" "cm_incoming (nc_manager n) = []"
    using assms by (simp_all add: connector_inv_def quiet_def)
  show ?thesis
  proof (cases e)
    case (ConnectTo routing target user now_ms)
    have nb: "connector_inv (ensure_interlink nb n)" for nb
      using assms by (simp add: connector_inv_def)
    have op: "manager_inv m'" "cm_incoming m' = []" if "open_circuit node (nc_manager n) = (m', k)" for node m' k
      using open_inv [OF m(1), of node] open_incoming [of node "nc_manager n"] m(2) that by simp_all
    have "connector_inv (ensure_interlink nb n\<lparr>nc_manager := m'\<rparr>)" if "open_circuit node (nc_manager n) = (m', None)" for nb node m'
      using assms open_full [OF that] by (simp add: connector_inv_def)
    moreover have "connector_inv (after_manager routing (ensure_interlink nb n\<lparr>nc_manager := circuit_mut key (connect u t) m'\<rparr>))"
      if "open_circuit node (nc_manager n) = (m', Some key)" for nb node m' key u t
      using op [OF that] by (intro after_connector_inv circuit_mut_inv) (simp_all add: acceptable_incoming_def)
    ultimately show ?thesis
      using assms by (auto simp: ConnectTo connect_to_def Let_def split: option.split prod.split)
  next
    case (InterlinkData routing src info now_ms)
    let ?n1 = "ensure_interlink src n"
    have q: "quiet (nc_manager n)"
      using assms by (simp add: connector_inv_def)
    show ?thesis
      using assms m manager_packet_inv [OF m(1)] packet_acceptable [OF m]
      by (auto simp: InterlinkData on_interlink_data_def Let_def after_quiet q after_quiets connector_inv_def
          intro!: after_inv split: option.split)
  qed (use assms m manager_tick_inv in \<open>auto simp: set_prefer_inp3_routes_def write_to_def disconnect_from_def
      connector_tick_def take_interlink_sends_def connector_take_events_def take_incoming_connections_def
      connector_inv_def manager_tick_def acceptable_incoming_def after_quiets intro!: after_inv circuit_mut_inv\<close>)
qed

interpretation connectors: state_machine connector_step connector_inv
  by unfold_locales (rule connector_step_inv)

lemma connector_new_inv: "options_ok (no_circuit options) \<Longrightarrow> connector_inv (connector_new node options)"
  by (simp add: connector_new_def connector_inv_def manager_new_inv) (simp add: manager_new_def quiet_def)

section \<open>A disabled connector\<close>

definition idle :: "connector \<Rightarrow> bool" where
  "idle n \<longleftrightarrow> \<not> nc_enabled n \<and> cm_circuits (nc_manager n) = [] \<and> quiet (nc_manager n) \<and> nc_interlinks n = [] \<and>
     nc_outbound n = [] \<and> nc_events n = [] \<and> nc_incoming n = []"

lemma idle_step: "idle n \<Longrightarrow> idle (connector_step e n)"
proof -
  assume i: "idle n"
  have "circuit_mut key f (nc_manager n) = nc_manager n" "manager_tick t (nc_manager n) = nc_manager n" for key f t
    using i by (simp_all add: idle_def circuit_mut_def manager_tick_def)
  then have same: "n\<lparr>nc_manager := circuit_mut key f (nc_manager n)\<rparr> = n" "n\<lparr>nc_manager := manager_tick t (nc_manager n)\<rparr> = n" for key f t
    by simp_all
  have "after_manager routing n = n" for routing
    using i by (intro after_quiet) (simp add: idle_def)
  then show ?thesis
    using i by (cases e) (simp_all add: same set_prefer_inp3_routes_def connect_to_def write_to_def disconnect_from_def
        on_interlink_data_def connector_tick_def take_interlink_sends_def connector_take_events_def
        take_incoming_connections_def idle_def)
qed

interpretation disabled: state_machine connector_step idle
  by unfold_locales (rule idle_step)

section \<open>Transit\<close>

lemma ensure_interlink_more [simp]:
  "nc_max_ttl (ensure_interlink nb n) = nc_max_ttl n" "nc_forward_mode (ensure_interlink nb n) = nc_forward_mode n"
  "nc_prefer_inp3_routes (ensure_interlink nb n) = nc_prefer_inp3_routes n"
  "set (nc_interlinks (ensure_interlink nb n)) = insert nb (set (nc_interlinks n))"
  by (auto simp: ensure_interlink_def)

lemma push_send_fields [simp]:
  "nc_interlinks (push_send nb p n) = nc_interlinks n" "nc_events (push_send nb p n) = nc_events n"
  "nc_incoming (push_send nb p n) = nc_incoming n"
  by (simp_all add: push_send_def split: option.split)

definition decision_of :: "routing_view \<Rightarrow> packet \<Rightarrow> callsign \<Rightarrow> connector \<Rightarrow> forward_decision" where
  "decision_of routing p src n =
     decide_forward p src (nc_node_call n) routing (nc_max_ttl n) (nc_forward_mode n) (nc_prefer_inp3_routes n)"

lemma forward_outbound:
  "nc_outbound (forward_datagram routing p src n) = nc_outbound n @
     (case fd_next_hop (decision_of routing p src n) of
        None \<Rightarrow> []
      | Some nh \<Rightarrow> if length (pk_payload p) \<le> MAX_PAYLOAD
          then [\<lparr>il_neighbour = nh,
                 il_datagram = packet_octets (with_ttl p (fd_time_to_live (decision_of routing p src n)))\<rparr>] else [])"
  by (simp add: forward_datagram_def push_send_def encoded_datagram_eq decision_of_def Let_def split: option.split)

lemma decide_ttl:
  assumes "fd_next_hop (decide_forward p src me routing max_ttl mode by_time) = Some nh"
  shows "unat (fd_time_to_live (decide_forward p src me routing max_ttl mode by_time)) < unat (nh_time_to_live (pk_network p)) \<and>
    1 < unat (nh_time_to_live (pk_network p)) \<and> nh_origin (pk_network p) \<noteq> me"
proof -
  let ?ttl = "nh_time_to_live (pk_network p)"
  have "unat (saturating_sub ?ttl 1) = unat ?ttl - 1"
    by (simp add: unat_saturating_sub)
  moreover have "saturating_sub ?ttl 1 \<noteq> 0 \<Longrightarrow> unat (saturating_sub ?ttl 1) \<noteq> 0"
    by (simp add: unsigned_eq_0_iff)
  ultimately have "saturating_sub ?ttl 1 \<noteq> 0 \<Longrightarrow> unat (saturating_sub ?ttl 1) < unat ?ttl \<and> 1 < unat ?ttl"
    by linarith
  then show ?thesis
    using assms by (auto simp: decide_forward_def drop_decision_def Let_def min_def word_le_nat_alt split: if_splits option.splits)
qed

lemma interlink_elsewhere:
  assumes "connector_inv n" "nc_enabled n" "packet_decode bs = Some p" "nh_destination (pk_network p) \<noteq> nc_node_call n"
  shows "on_interlink_data routing src bs now_ms n =
    (if nc_forward_enabled n then forward_datagram routing p src (ensure_interlink src n) else ensure_interlink src n)"
  using assms by (simp add: on_interlink_data_def Let_def after_quiet connector_inv_def)

text \<open>
  A datagram on its way: the neighbour it came from, the node it is at, and its bytes. One hop is whatever
  a connector at that node queues for a datagram that is not addressed to it: the connector may be in any
  state that its operations reach, its routing may have changed since the last datagram, at any time.
\<close>

type_synonym leg = "callsign \<times> callsign \<times> bytes"

inductive transit_hop :: "leg \<Rightarrow> leg \<Rightarrow> bool" where
  "connector_inv n \<Longrightarrow> nc_node_call n = at \<Longrightarrow> packet_decode bs = Some p \<Longrightarrow> nh_destination (pk_network p) \<noteq> at \<Longrightarrow>
   nc_outbound (on_interlink_data routing src bs now_ms n) = nc_outbound n @ sends \<Longrightarrow> s \<in> set sends \<Longrightarrow>
   transit_hop (src, at, bs) (at, il_neighbour s, il_datagram s)"

inductive_cases transit_hopE: "transit_hop (src, at, bs) leg"

lemma transit_hop_ttl:
  assumes "transit_hop (src, at, bs) (src', at', bs')" "packet_decode bs = Some p"
  shows "src' = at \<and> at \<noteq> nh_origin (pk_network p) \<and> 1 < unat (nh_time_to_live (pk_network p)) \<and>
    (\<exists>ttl. packet_decode bs' = Some (with_ttl p ttl) \<and> unat ttl < unat (nh_time_to_live (pk_network p)))"
proof -
  obtain n q routing now_ms sends s where hop: "src' = at" "at' = il_neighbour s" "bs' = il_datagram s" "connector_inv n"
      "nc_node_call n = at" "packet_decode bs = Some q" "nh_destination (pk_network q) \<noteq> at"
      "nc_outbound (on_interlink_data routing src bs now_ms n) = nc_outbound n @ sends" "s \<in> set sends"
    using assms(1) by (auto elim!: transit_hopE)
  then have q: "q = p" "packet_wf p"
    using assms(2) packet_decode_wf by auto
  have en: "nc_enabled n"
    using hop(8,9) by (auto simp: on_interlink_data_def split: if_splits)
  let ?n1 = "ensure_interlink src n"
  obtain nh where nh: "fd_next_hop (decision_of routing p src ?n1) = Some nh"
      "s = \<lparr>il_neighbour = nh, il_datagram = packet_octets (with_ttl p (fd_time_to_live (decision_of routing p src ?n1)))\<rparr>"
    using hop q en interlink_elsewhere [of n bs p routing src now_ms]
    by (auto simp: forward_outbound split: if_splits option.splits)
  then show ?thesis
    using hop(1,3,5) decide_ttl [OF nh(1) [unfolded decision_of_def]] packet_octets_decode [OF with_ttl_wf [OF q(2)]]
    by (auto simp: decision_of_def)
qed

lemma transit_chain:
  assumes "(transit_hop ^^ k) (src, at, bs) (src', at', bs')" "packet_decode bs = Some p"
  shows "k \<le> unat (nh_time_to_live (pk_network p)) - 1 \<and> (0 < k \<longrightarrow> src' \<noteq> nh_origin (pk_network p)) \<and>
    (\<exists>ttl. packet_decode bs' = Some (with_ttl p ttl) \<and> unat ttl + k \<le> unat (nh_time_to_live (pk_network p)))"
  using assms(1)
proof (induction k arbitrary: src' at' bs')
  case 0
  then show ?case
    using assms(2) by (auto simp: with_ttl_def intro!: exI [of _ "nh_time_to_live (pk_network p)"])
next
  case (Suc k)
  obtain s a b where c: "(transit_hop ^^ k) (src, at, bs) (s, a, b)" "transit_hop (s, a, b) (src', at', bs')"
    using Suc.prems by (auto elim: relpowp_Suc_E)
  obtain ttl where t: "packet_decode b = Some (with_ttl p ttl)" "unat ttl + k \<le> unat (nh_time_to_live (pk_network p))"
    using Suc.IH [OF c(1)] by blast
  show ?case
    using transit_hop_ttl [OF c(2) t(1)] t(2) by auto
qed

section \<open>Properties\<close>



text \<open>
  C13: transit ends. However the routing tables and connectors of the network change while a datagram is on
  its way, it makes fewer hops than the hop limit that it starts with (or none), never runs on forever, is
  never forwarded by its own origin, and arrives everywhere with the same origin, destination, transport
  header and payload, only the hop limit lowered by at least one for each hop.
\<close>

theorem transit_terminates:
  assumes "packet_decode bs = Some p"
  shows "((transit_hop ^^ k) (src, at, bs) (src', at', bs') \<longrightarrow>
      k \<le> unat (nh_time_to_live (pk_network p)) - 1 \<and> (0 < k \<longrightarrow> src' \<noteq> nh_origin (pk_network p)) \<and>
      (\<exists>ttl. packet_decode bs' = Some (with_ttl p ttl) \<and> unat ttl + k \<le> unat (nh_time_to_live (pk_network p)))) \<and>
    \<not> (\<exists>f. f 0 = (src, at, bs) \<and> (\<forall>i. transit_hop (f i) (f (Suc i))))"
proof -
  have "False" if f: "f 0 = (src, at, bs)" "\<And>i. transit_hop (f i) (f (Suc i))" for f
  proof -
    let ?k = "unat (nh_time_to_live (pk_network p))"
    have "(transit_hop ^^ Suc ?k) (f 0) (f (Suc ?k))"
      using f(2) by (metis relpowp_fun_conv)
    then show False
      using transit_chain [of "Suc ?k" src at bs _ _ _ p] assms f(1) by (cases "f (Suc ?k)") auto
  qed
  then show ?thesis
    using transit_chain [OF _ assms] by blast
qed

definition sample_transit :: "u8 \<Rightarrow> packet" where
  "sample_transit ttl = \<lparr>pk_network = \<lparr>nh_origin = sample [66], nh_destination = sample [67], nh_time_to_live = ttl\<rparr>,
     pk_transport = \<lparr>th_circuit_index = 1, th_circuit_id = 2, th_tx_sequence = 3, th_rx_sequence = 4,
       th_opcode = 5, th_flags = 0\<rparr>, pk_payload = [104, 105]\<rparr>"

definition sample_view :: routing_view where
  "sample_view = (table_view (table_new 8 3 4 ROUTING_DEFAULT))\<lparr>rv_select_route_excluding := \<lambda>_ _ _. Some (sample [68])\<rparr>"

definition sample_connector :: connector where
  "sample_connector = connector_new (sample [65]) (CONNECTOR_DEFAULT\<lparr>no_enabled := True\<rparr>)"

lemma sample_transit_decode: "packet_decode (packet_octets (sample_transit ttl)) = Some (sample_transit ttl)"
  using sample_wf [of "[66]"] sample_wf [of "[67]"]
  by (intro packet_octets_decode)
    (simp add: sample_transit_def packet_wf_def network_wf_def transport_wf_def transport_consts MAX_BASE_LEN_def
      is_base_byte_def ascii_defs)

lemma sample_hop: "transit_hop (sample [66], sample [65], packet_octets (sample_transit 5))
    (sample [65], sample [68], packet_octets (sample_transit 4))"
proof -
  let ?n = "sample_connector" and ?p = "sample_transit 5" and ?n1 = "ensure_interlink (sample [66]) sample_connector"
  have n: "connector_inv ?n"
    unfolding sample_connector_def
    by (rule connector_new_inv) (simp add: CONNECTOR_DEFAULT_def CIRCUIT_DEFAULT_def options_ok_def)
  have f: "nc_enabled ?n" "nc_forward_enabled ?n" "nc_node_call ?n = sample [65]" "nc_max_ttl ?n = 25"
      "nc_forward_mode ?n = PerFlow" "\<not> nc_prefer_inp3_routes ?n"
    by (simp_all add: sample_connector_def connector_new_def CONNECTOR_DEFAULT_def CIRCUIT_DEFAULT_def DEFAULT_TIME_TO_LIVE_def)
  have ne: "sample [67] \<noteq> sample [65]" "sample [66] \<noteq> sample [65]"
    by (simp_all add: sample_def padded_def)
  have p: "nh_destination (pk_network ?p) = sample [67]" "length (pk_payload ?p) \<le> MAX_PAYLOAD"
    by (simp_all add: sample_transit_def MAX_PAYLOAD_def)
  have d: "fd_next_hop (decision_of sample_view ?p (sample [66]) ?n1) = Some (sample [68])"
    "fd_time_to_live (decision_of sample_view ?p (sample [66]) ?n1) = 4"
    using ne by (simp_all add: decision_of_def f decide_forward_def sample_transit_def sample_view_def saturating_sub_def
        drop_decision_def min_def)
  have "on_interlink_data sample_view (sample [66]) (packet_octets ?p) 0 ?n = forward_datagram sample_view ?p (sample [66]) ?n1"
    using interlink_elsewhere [OF n f(1) sample_transit_decode] ne f p by simp
  then have o: "nc_outbound (on_interlink_data sample_view (sample [66]) (packet_octets ?p) 0 ?n) = nc_outbound ?n @
      [\<lparr>il_neighbour = sample [68], il_datagram = packet_octets (with_ttl ?p 4)\<rparr>]"
    using p by (simp add: forward_outbound d)
  have "nh_destination (pk_network ?p) \<noteq> sample [65]"
    using ne p by simp
  moreover have "with_ttl ?p 4 = sample_transit 4"
    by (simp add: with_ttl_def sample_transit_def)
  ultimately show ?thesis
    using transit_hop.intros [OF n f(3) sample_transit_decode _ o] by simp
qed

theorem transit_terminates_witness:
  "(transit_hop ^^ 1) (sample [66], sample [65], packet_octets (sample_transit 5))
     (sample [65], sample [68], packet_octets (sample_transit 4)) \<and>
   (\<exists>ttl. packet_decode (packet_octets (sample_transit 4)) = Some (with_ttl (sample_transit 5) ttl) \<and> unat ttl + 1 \<le> 5)"
proof -
  have "(transit_hop ^^ 1) (sample [66], sample [65], packet_octets (sample_transit 5))
     (sample [65], sample [68], packet_octets (sample_transit 4))"
    using sample_hop unfolding relpowp_1 .
  moreover have "unat (nh_time_to_live (pk_network (sample_transit 5))) = 5"
    by (simp add: sample_transit_def)
  ultimately show ?thesis
    using transit_terminates [OF sample_transit_decode] by metis
qed

end
