(* ===== verification/Netrom_Link.thy ===== *)
theory Netrom_Link
  imports Netrom_Circuit_Inv "HOL-Library.Sublist"
begin

text \<open>
  Two circuits and the two channels between them, which may lose any datagram at any time. The
  abstract specification is a pair of message queues: what an end's owner receives is a prefix of what
  the other end's owner sent. One direction is described by \<open>sends\<close> (the sending end) and \<open>receives\<close>
  (the receiving end), over the stream of all fragments ever queued and three positions in it: up to
  \<open>na\<close> acknowledged, up to \<open>nr\<close> received, up to \<open>ns\<close> sent. The code keeps these modulo 256.
\<close>

section \<open>Messages and fragments\<close>

fun assemble_step :: "fragment \<Rightarrow> bytes list \<times> bytes \<Rightarrow> bytes list \<times> bytes" where
  "assemble_step f (done, buf) =
     (let buf' = buf @ fg_bytes f
      in if \<not> fg_more_follows f \<and> buf' \<noteq> [] then (done @ [buf'], []) else (done, buf'))"

definition assemble :: "fragment list \<Rightarrow> bytes list \<times> bytes" where
  "assemble fs = fold assemble_step fs ([], [])"

lemma assemble_snoc: "assemble (fs @ [f]) = assemble_step f (assemble fs)"
  by (simp add: assemble_def)

lemma assemble_fragments:
  "data \<noteq> [] \<Longrightarrow> fold assemble_step (fragments n data) (ms, buf) = (ms @ [buf @ data], [])"
proof (induction n data arbitrary: buf rule: fragments.induct)
  case (1 n data)
  show ?case
  proof (cases "drop (max n 1) data = []")
    case True
    then show ?thesis
      using "1.prems" by (subst fragments.simps) (simp add: fragments.simps Let_def)
  next
    case False
    then show ?thesis
      using "1.IH" [of "buf @ take (max n 1) data"] "1.prems"
      by (subst fragments.simps) (simp add: Let_def)
  qed
qed

definition stream :: "nat \<Rightarrow> bytes list \<Rightarrow> fragment list" where
  "stream n sent = concat (map (fragments n) sent)"

lemma assemble_stream:
  assumes "[] \<notin> set sent"
  shows "assemble (stream n sent) = (sent, [])"
proof -
  have "fold assemble_step (stream n sent) (ms, []) = (ms @ sent, [])" for ms
    using assms
  proof (induction sent arbitrary: ms)
    case (Cons d sent)
    then show ?case
      using assemble_fragments [of d n ms "[]"] by (auto simp: stream_def)
  qed (simp add: stream_def)
  then show ?thesis
    by (simp add: assemble_def)
qed

lemma assemble_step_prefix: "prefix (fst st) (fst (fold assemble_step gs st))"
proof (induction gs arbitrary: st)
  case (Cons g gs)
  have "prefix (fst st) (fst (assemble_step g st))"
    by (cases st) (simp add: Let_def)
  then show ?case
    unfolding fold_simps(2) using Cons.IH by (rule prefix_order.trans)
qed simp

lemma assemble_prefix: "prefix (fst (assemble (take k fs))) (fst (assemble fs))"
proof -
  have "assemble fs = fold assemble_step (drop k fs) (assemble (take k fs))"
    by (metis append_take_drop_id assemble_def comp_apply fold_append)
  then show ?thesis
    by (simp only: assemble_step_prefix)
qed

section \<open>The sending end\<close>

definition is_information :: "packet \<Rightarrow> bool" where
  "is_information q \<longleftrightarrow> from_nibble (th_opcode (pk_transport q)) = Some Information"

definition is_acknowledgement :: "packet \<Rightarrow> bool" where
  "is_acknowledgement q \<longleftrightarrow> from_nibble (th_opcode (pk_transport q)) = Some InformationAcknowledge"

definition carries :: "fragment list \<Rightarrow> nat \<Rightarrow> packet \<Rightarrow> bool" where
  "carries S i q \<longleftrightarrow> th_tx_sequence (pk_transport q) = of_nat i \<and> pk_payload q = fg_bytes (S ! i) \<and>
     more_follows (pk_transport q) = fg_more_follows (S ! i)"

definition frame_of :: "unacked \<Rightarrow> u8 \<times> bytes \<times> bool" where
  "frame_of u = (ua_sequence u, ua_payload u, ua_more_follows u)"

definition frame_at :: "fragment list \<Rightarrow> nat \<Rightarrow> u8 \<times> bytes \<times> bool" where
  "frame_at S i = (of_nat i, fg_bytes (S ! i), fg_more_follows (S ! i))"

definition outgoing :: "fragment list \<Rightarrow> nat \<Rightarrow> nat \<Rightarrow> packet list \<Rightarrow> bool" where
  "outgoing S na ns qs \<longleftrightarrow> (\<forall>q \<in> set qs. is_information q \<longrightarrow> (\<exists>i. na \<le> i \<and> i < ns \<and> carries S i q))"

definition sends :: "fragment list \<Rightarrow> nat \<Rightarrow> nat \<Rightarrow> circuit \<Rightarrow> bool" where
  "sends S na ns c \<longleftrightarrow> na \<le> ns \<and> ns \<le> length S \<and> ns \<le> na + 127 \<and> outgoing S na ns (ck_outbox c) \<and>
     (ck_state c = Connected \<longrightarrow> ck_vs c = of_nat ns \<and> ck_send_queue c = drop ns S \<and>
        map frame_of (ck_unacked c) = map (frame_at S) [na..<ns] \<and> unat (ck_window c) \<le> 127)"

lemma outgoing_mono: "outgoing S na ns qs \<Longrightarrow> na' \<le> na \<Longrightarrow> ns \<le> ns' \<Longrightarrow> outgoing S na' ns' qs"
  unfolding outgoing_def by (meson le_trans less_le_trans)

lemma outgoing_append [simp]: "outgoing S na ns (ps @ qs) \<longleftrightarrow> outgoing S na ns ps \<and> outgoing S na ns qs"
  by (auto simp: outgoing_def)

lemma outgoing_simps [simp]:
  "outgoing S na ns []" "\<not> is_information q \<Longrightarrow> outgoing S na ns (q # qs) = outgoing S na ns qs"
  by (auto simp: outgoing_def)

lemma sends_close: "sends S na ns c \<Longrightarrow> sends S na ns (close r c)"
  by (auto simp: sends_def close_def fire_def)

lemma information_flags:
  "more_follows (information_header seq mf c) = mf"
  by (simp add: information_header_def more_follows_def FLAG_MORE_FOLLOWS_def FLAG_CHOKE_def)

lemma datagram_fields [simp]:
  "pk_transport (datagram c t payload) = t" "pk_payload (datagram c t payload) = payload"
  by (simp_all add: datagram_def)

lemma carries_datagram:
  assumes "frame_of u = frame_at S i"
  shows "carries S i (datagram c (information_header (ua_sequence u) (ua_more_follows u) c) (ua_payload u))"
  using assms by (simp add: carries_def information_flags frame_of_def frame_at_def)
    (simp add: information_header_def)

lemma sends_length:
  assumes "sends S na ns c" "ck_state c = Connected"
  shows "length (ck_unacked c) = ns - na \<and> length (ck_unacked c) \<le> 127"
proof -
  have "length (map frame_of (ck_unacked c)) = length (map (frame_at S) [na..<ns])"
    using assms by (simp add: sends_def)
  moreover have "ns - na \<le> 127"
    using assms(1) by (auto simp: sends_def)
  ultimately show ?thesis
    by simp
qed

lemma sends_send_fragment:
  assumes "sends S na ns c" "ck_state c = Connected" "length (ck_unacked c) < unat (ck_window c)"
    and "ck_send_queue c = f # fs"
  shows "sends S na (Suc ns) ((send_fragment now_ms f c)\<lparr>ck_send_queue := fs\<rparr>)"
proof -
  have f: "f = S ! ns" "fs = drop (Suc ns) S" and ns: "ns < length S"
    using assms by (auto simp: sends_def) (metis nth_via_drop drop_Suc_Cons drop_eq_Nil2 leI list.distinct(1) list.sel(3) tl_drop drop_Suc)+
  have "ns - na < unat (ck_window c)"
    using sends_length [OF assms(1,2)] assms(3) by simp
  moreover have "unat (ck_window c) \<le> 127" "na \<le> ns"
    using assms(1,2) by (auto simp: sends_def)
  ultimately have "Suc ns \<le> na + 127"
    by linarith
  moreover have "outgoing S na (Suc ns) (ck_outbox c)"
    using assms(1) by (auto simp: sends_def intro: outgoing_mono)
  moreover have "carries S ns (datagram (c\<lparr>ck_vs := ck_vs c + 1\<rparr>)
      (information_header (of_nat ns) (fg_more_follows f) (c\<lparr>ck_vs := ck_vs c + 1\<rparr>)) (fg_bytes f))"
    by (simp add: carries_def information_flags f) (simp add: information_header_def)
  ultimately show ?thesis
    using assms ns f
    by (auto simp: sends_def send_fragment_def send_defs Let_def frame_of_def frame_at_def outgoing_def)
qed

lemma pump_loop_queue: "pump_loop now_ms fs (c\<lparr>ck_send_queue := gs\<rparr>) = pump_loop now_ms fs c"
proof (induction now_ms fs c rule: pump_loop.induct)
  case (2 now_ms f fs c)
  have "send_fragment now_ms f (c\<lparr>ck_send_queue := gs\<rparr>) = (send_fragment now_ms f c)\<lparr>ck_send_queue := gs\<rparr>"
    by (simp add: send_fragment_def send_information_def information_header_def emit_def Let_def)
  then show ?case
    using "2.IH" by simp
qed simp

lemma sends_pump_loop:
  assumes "sends S na ns c" "ck_state c = Connected" "ck_send_queue c = fs"
  shows "\<exists>ns' \<ge> ns. sends S na ns' (pump_loop now_ms fs c)"
  using assms
proof (induction fs arbitrary: c ns)
  case Nil
  then show ?case
    by (auto simp: sends_def)
next
  case (Cons f fs)
  show ?case
  proof (cases "(of_nat (length (ck_unacked c)) :: u8) < ck_window c")
    case True
    have "length (ck_unacked c) \<le> 127"
      using sends_length Cons.prems by blast
    then have "length (ck_unacked c) < unat (ck_window c)"
      using True by (simp add: word_less_nat_alt unat_of_nat)
    then have s: "sends S na (Suc ns) ((send_fragment now_ms f c)\<lparr>ck_send_queue := fs\<rparr>)"
      using Cons.prems by (intro sends_send_fragment) auto
    obtain ns' where "ns' \<ge> Suc ns" "sends S na ns' (pump_loop now_ms fs ((send_fragment now_ms f c)\<lparr>ck_send_queue := fs\<rparr>))"
      using Cons.IH [OF s] Cons.prems(2) by (auto simp: send_fragment_def send_defs Let_def)
    then show ?thesis
      using True pump_loop_queue [where c = "send_fragment now_ms f c" and gs = fs]
      by (auto intro: exI [of _ ns'])
  next
    case False
    then have "pump_loop now_ms (f # fs) c = c"
      using Cons.prems(3) by simp
    then show ?thesis
      using Cons.prems(1) by auto
  qed
qed

lemma sends_pump: "sends S na ns c \<Longrightarrow> \<exists>ns' \<ge> ns. sends S na ns' (pump_send_queue now_ms c)"
  using sends_pump_loop [OF _ _ refl] by (auto simp: pump_send_queue_def)

lemma sends_resend:
  assumes "sends S na ns c" "ck_state c = Connected" "set us \<subseteq> set (ck_unacked c)"
  shows "sends S na ns ((resend us c)\<lparr>ck_unacked := map (\<lambda>u. if P u then bump now_ms u else u) (ck_unacked c)\<rparr>)"
proof -
  have frames: "map frame_of (ck_unacked c) = map (frame_at S) [na..<ns]"
    using assms by (simp add: sends_def)
  have "\<exists>i. na \<le> i \<and> i < ns \<and> carries S i (info_datagram c u)" if "u \<in> set us" for u
  proof -
    have "frame_of u \<in> set (map (frame_at S) [na..<ns])"
      using that assms(3) by (metis frames image_eqI list.set_map subsetD)
    then obtain i where "na \<le> i" "i < ns" "frame_of u = frame_at S i"
      by auto
    then show ?thesis
      using carries_datagram [of u S i c] by (auto simp: info_datagram_def)
  qed
  then have "outgoing S na ns (map (info_datagram c) us)"
    by (auto simp: outgoing_def)
  moreover have "map frame_of (map (\<lambda>u. if P u then bump now_ms u else u) us') = map frame_of us'" for us'
    by (simp add: frame_of_def bump_def)
  ultimately show ?thesis
    using assms by (simp add: sends_def resend_eq del: map_map)
qed

lemma acked_iff:
  assumes "i < ns" "na \<le> i" "na \<le> r" "r \<le> ns" "ns \<le> na + 127"
  shows "seq_acked (of_nat i) (of_nat r) \<longleftrightarrow> i < r"
proof (cases "i < r")
  case True
  then have "(of_nat r :: u8) - of_nat i = of_nat (r - i)"
    by (simp add: of_nat_diff)
  then have "unat ((of_nat r :: u8) - of_nat i) = (r - i) mod 256"
    by (simp only: unat_of_nat) simp
  then show ?thesis
    using True assms by (simp add: seq_acked_def Let_def word_le_nat_alt) linarith
next
  case False
  then have "(of_nat r :: u8) - of_nat i = of_nat (256 + r - i)"
    using assms by (simp add: of_nat_diff)
  then have u: "unat ((of_nat r :: u8) - of_nat i) = (256 + r - i) mod 256"
    by (simp only: unat_of_nat) simp
  have "unat ((of_nat r :: u8) - of_nat i) = 0 \<or> 128 < unat ((of_nat r :: u8) - of_nat i)"
  proof (cases "i = r")
    case True
    then show ?thesis
      by simp
  next
    case ne: False
    then have "256 + r - i < 256" "128 < 256 + r - i"
      using False assms by linarith+
    then show ?thesis
      by (simp add: u)
  qed
  then show ?thesis
    using False by (auto simp: seq_acked_def Let_def word_le_nat_alt)
qed

lemma filter_upto: "na \<le> r \<Longrightarrow> r \<le> ns \<Longrightarrow> filter (\<lambda>i. r \<le> i) [na..<ns] = [r..<ns]"
  using upt_add_eq_append [of na r "ns - r"] by simp

lemma sends_absorb:
  assumes s: "sends S na ns c" and c: "ck_state c = Connected" "ck_outbox c = []" and r: "na \<le> r" "r \<le> ns"
  shows "sends S r ns (absorb_ack (of_nat r) c)"
proof -
  have ns: "ns \<le> na + 127" and frames: "map frame_of (ck_unacked c) = map (frame_at S) [na..<ns]"
    using s c by (auto simp: sends_def)
  have "map frame_of (filter (\<lambda>u. \<not> seq_acked (ua_sequence u) (of_nat r)) (ck_unacked c)) =
      filter (\<lambda>f. \<not> seq_acked (fst f) (of_nat r)) (map frame_of (ck_unacked c))"
    by (simp add: filter_map comp_def frame_of_def)
  also have "\<dots> = map (frame_at S) (filter (\<lambda>i. \<not> seq_acked (of_nat i) (of_nat r)) [na..<ns])"
    by (simp add: frames filter_map comp_def frame_at_def)
  also have "filter (\<lambda>i. \<not> seq_acked (of_nat i) (of_nat r)) [na..<ns] = filter (\<lambda>i. r \<le> i) [na..<ns]"
    using acked_iff ns r by (intro filter_cong) (auto simp: not_less)
  also have "\<dots> = [r..<ns]"
    using r by (simp add: filter_upto)
  finally show ?thesis
    using assms by (auto simp: sends_def absorb_ack_def)
qed

section \<open>The receiving end\<close>

fun received :: "circuit_event list \<Rightarrow> bytes list" where
  "received [] = []"
| "received (DataReceived bs # es) = bs # received es"
| "received (_ # es) = received es"

lemma received_append [simp]: "received (xs @ ys) = received xs @ received ys"
  by (induction xs rule: received.induct) simp_all

definition answers :: "nat \<Rightarrow> packet list \<Rightarrow> bool" where
  "answers nr qs \<longleftrightarrow> (\<forall>q \<in> set qs. is_information q \<or> is_acknowledgement q \<longrightarrow>
     th_rx_sequence (pk_transport q) = of_nat nr)"

lemma answers_simps [simp]:
  "answers nr []" "answers nr (ps @ qs) \<longleftrightarrow> answers nr ps \<and> answers nr qs"
  "\<not> is_information q \<Longrightarrow> \<not> is_acknowledgement q \<Longrightarrow> answers nr (q # qs) = answers nr qs"
  by (auto simp: answers_def)

definition receives :: "fragment list \<Rightarrow> nat \<Rightarrow> bytes list \<Rightarrow> circuit \<Rightarrow> bool" where
  "receives S nr log c \<longleftrightarrow> nr \<le> length S \<and> answers nr (ck_outbox c) \<and>
     log @ received (ck_events c) = fst (assemble (take nr S)) \<and>
     (ck_state c = Connected \<longrightarrow> ck_vr c = of_nat nr \<and> ck_reassembly c = snd (assemble (take nr S)))"

lemma receives_close: "receives S nr log c \<Longrightarrow> receives S nr log (close r c)"
  by (simp add: receives_def close_def fire_def)

lemma receives_send_fragment:
  assumes "receives S nr log c" "ck_state c = Connected"
  shows "receives S nr log (send_fragment now_ms f c)"
  using assms by (simp add: receives_def send_fragment_def send_defs Let_def answers_def)
    (simp add: information_header_def)

lemma receives_pump_loop:
  "receives S nr log c \<Longrightarrow> ck_state c = Connected \<Longrightarrow> receives S nr log (pump_loop now_ms fs c)"
proof (induction now_ms fs c rule: pump_loop.induct)
  case (1 now_ms c)
  then show ?case
    by (simp add: receives_def)
next
  case (2 now_ms f fs c)
  have "ck_state (send_fragment now_ms f c) = Connected"
    using "2.prems" by (simp add: send_fragment_def send_defs Let_def)
  moreover have "receives S nr log (c\<lparr>ck_send_queue := f # fs\<rparr>)"
    using "2.prems" by (simp add: receives_def)
  ultimately show ?case
    using "2.IH" receives_send_fragment [OF "2.prems"] by simp
qed

lemma receives_pump: "receives S nr log c \<Longrightarrow> receives S nr log (pump_send_queue now_ms c)"
  by (simp add: pump_send_queue_def receives_pump_loop)

lemma receives_resend:
  assumes "receives S nr log c" "ck_state c = Connected"
  shows "receives S nr log ((resend us c)\<lparr>ck_unacked := vs\<rparr>)"
  using assms by (simp add: receives_def resend_eq answers_def info_datagram_def)
    (auto simp: information_header_def)

lemma receives_absorb: "receives S nr log (absorb_ack r c) = receives S nr log c"
  and receives_choke: "receives S nr log (apply_peer_choke b c) = receives S nr log c"
  by (simp_all add: receives_def absorb_ack_def apply_peer_choke_def)

lemma acknowledgement_kind:
  "is_acknowledgement (datagram c \<lparr>th_circuit_index = a, th_circuit_id = b, th_tx_sequence = x, th_rx_sequence = y,
     th_opcode = opcode_as_u8 op, th_flags = fl\<rparr> ps) \<longleftrightarrow> op = InformationAcknowledge"
  "is_information (datagram c \<lparr>th_circuit_index = a, th_circuit_id = b, th_tx_sequence = x, th_rx_sequence = y,
     th_opcode = opcode_as_u8 op, th_flags = fl\<rparr> ps) \<longleftrightarrow> op = Information"
  by (simp_all add: is_acknowledgement_def is_information_def nibble_opcode del: opcode_as_u8.simps)

section \<open>What each operation does at both ends\<close>

text \<open>An end past the handshake. Its control timer runs only while it disconnects.\<close>

definition established :: "circuit \<Rightarrow> bool" where
  "established c \<longleftrightarrow> ck_state c \<noteq> Connecting \<and> (ck_control_timer_armed c \<longrightarrow> ck_state c = Disconnecting)"

lemma acknowledgement_datagram:
  "is_acknowledgement (datagram c (information_header s m c') ps) = False"
  "is_information (datagram c (information_header s m c') ps) = True"
  by (simp_all add: information_header_def acknowledgement_kind del: opcode_as_u8.simps)

definition speaks :: "fragment list \<Rightarrow> nat \<Rightarrow> nat \<Rightarrow> fragment list \<Rightarrow> nat \<Rightarrow> bytes list \<Rightarrow> circuit \<Rightarrow> bool" where
  "speaks S na ns R nr log c \<longleftrightarrow> sends S na ns c \<and> receives R nr log c \<and> established c"

lemma speaks_close: "speaks S na ns R nr log c \<Longrightarrow> speaks S na ns R nr log (close r c)"
  by (simp add: speaks_def sends_close receives_close) (auto simp: established_def close_def fire_def)

lemma pump_loop_control:
  "ck_state (pump_loop now_ms fs c) = ck_state c \<and> ck_control_timer_armed (pump_loop now_ms fs c) = ck_control_timer_armed c"
  by (induction now_ms fs c rule: pump_loop.induct) (simp_all add: send_fragment_def send_defs Let_def)

lemma speaks_pump:
  "speaks S na ns R nr log c \<Longrightarrow> \<exists>ns' \<ge> ns. speaks S na ns' R nr log (pump_send_queue now_ms c)"
proof -
  assume c: "speaks S na ns R nr log c"
  then have "established (pump_send_queue now_ms c)"
    by (auto simp: speaks_def established_def pump_send_queue_def pump_loop_control)
  then show ?thesis
    using c sends_pump [of S na ns c now_ms] by (auto simp: speaks_def receives_pump)
qed

lemma speaks_resend:
  assumes "speaks S na ns R nr log c" "ck_state c = Connected" "set us \<subseteq> set (ck_unacked c)"
  shows "speaks S na ns R nr log ((resend us c)\<lparr>ck_unacked := map (\<lambda>u. if P u then bump now_ms u else u) (ck_unacked c)\<rparr>)"
  using assms sends_resend [of S na ns c us P now_ms] receives_resend [where us = us]
  by (simp add: speaks_def established_def) (simp add: resend_eq)

lemma speaks_retransmit:
  assumes "speaks S na ns R nr log c" "ck_state c = Connected"
  shows "speaks S na ns R nr log (retransmit_from seq now_ms c)"
  using speaks_resend [OF assms, of "filter (from_seq seq) (ck_unacked c)" "from_seq seq"] speaks_close [OF assms(1)]
  by (simp add: retransmit_from_def)

lemma speaks_tick_information:
  assumes "speaks S na ns R nr log c"
  shows "speaks S na ns R nr log (tick_information now_ms c)"
  using speaks_resend [OF assms _ subset_refl, where P = "\<lambda>_. True"] speaks_close [OF assms] assms
  by (auto simp: tick_information_def split: list.split)

lemma speaks_acknowledge:
  assumes "speaks S na ns R nr log c" "ck_state c = Connected"
  shows "speaks S na ns R nr log (send_information_acknowledge n c)"
  using assms by (auto simp: speaks_def sends_def receives_def established_def send_information_acknowledge_def
      emit_eq acknowledgement_kind answers_def outgoing_def simp del: opcode_as_u8.simps)

lemma speaks_plain:
  assumes "speaks S na ns R nr log c" "op \<noteq> Information" "op \<noteq> InformationAcknowledge"
  shows "speaks S na ns R nr log (send_plain op c)"
  using assms by (auto simp: speaks_def sends_def receives_def established_def send_plain_def
      emit_eq acknowledgement_kind simp del: opcode_as_u8.simps)

lemma speaks_connect_acknowledge:
  "speaks S na ns R nr log c \<Longrightarrow> speaks S na ns R nr log (send_connect_acknowledge b c)"
  by (cases b) (auto simp: speaks_def sends_def receives_def established_def send_connect_acknowledge_def
      emit_eq acknowledgement_kind Let_def split_beta simp del: opcode_as_u8.simps)

lemma speaks_disconnect:
  assumes "speaks S na ns R nr log c"
  shows "speaks S na ns R nr log (disconnect now_ms c)"
proof (cases "ck_state c = Connected")
  case True
  have "speaks S na ns R nr log (c\<lparr>ck_state := Disconnecting, ck_control_retries := 0\<rparr>)"
    using assms True by (simp add: speaks_def sends_def receives_def established_def)
  then have "speaks S na ns R nr log (send_disconnect_request (c\<lparr>ck_state := Disconnecting, ck_control_retries := 0\<rparr>))"
    by (simp add: send_disconnect_request_def speaks_plain)
  then show ?thesis
    using True by (simp add: disconnect_def arm_control_timer_def speaks_def sends_def receives_def established_def)
next
  case False
  then show ?thesis
    using assms by (cases "ck_state c") (simp_all add: disconnect_def speaks_close)
qed

lemma speaks_tick:
  assumes "speaks S na ns R nr log c"
  shows "speaks S na ns R nr log (tick now_ms c)"
proof (cases "ck_control_timer_armed c \<and> now_ms \<ge> ck_control_deadline c")
  case False
  then show ?thesis
    using speaks_tick_information [OF assms] by (auto simp: tick_def)
next
  case True
  then have st: "ck_state c = Disconnecting"
    using assms by (simp add: speaks_def established_def)
  have unarm: "speaks S na ns R nr log (c\<lparr>ck_control_timer_armed := False\<rparr>)"
    using assms by (simp add: speaks_def sends_def receives_def established_def)
  have "speaks S na ns R nr log (c\<lparr>ck_control_retries := n\<rparr>)" for n
    using assms by (simp add: speaks_def sends_def receives_def established_def)
  then have "speaks S na ns R nr log (send_disconnect_request (c\<lparr>ck_control_retries := n\<rparr>))" for n
    by (simp add: send_disconnect_request_def speaks_plain)
  then have "speaks S na ns R nr log (arm_control_timer now_ms (send_disconnect_request (c\<lparr>ck_control_retries := n\<rparr>)))" for n
    using st by (simp add: arm_control_timer_def speaks_def sends_def receives_def established_def)
  then show ?thesis
    using True st speaks_close [OF unarm] speaks_tick_information by (simp add: tick_def Let_def)
qed

lemma speaks_backlog:
  "speaks S na ns R nr log (c\<lparr>ck_pending_deliveries := n\<rparr>) = speaks S na ns R nr log c"
  "speaks S na ns R nr log (c\<lparr>ck_local_choked := b\<rparr>) = speaks S na ns R nr log c"
  by (simp_all add: speaks_def sends_def receives_def established_def)

lemma speaks_drained:
  assumes "speaks S na ns R nr log c"
  shows "speaks S na ns R nr log (on_delivery_drained c)"
proof -
  have "speaks S na ns R nr log (maybe_release_choke c')" if "speaks S na ns R nr log c'" for c'
    using that speaks_acknowledge [of S na ns R nr log "c'\<lparr>ck_local_choked := False\<rparr>"]
    by (simp add: maybe_release_choke_def Let_def speaks_backlog)
  then show ?thesis
    using assms by (simp add: on_delivery_drained_def speaks_backlog)
qed

lemma drop_append_queue: "ns \<le> length S \<Longrightarrow> drop ns (S @ T) = drop ns S @ T"
  by simp

lemma frame_at_append: "ns \<le> length S \<Longrightarrow> map (frame_at (S @ T)) [na..<ns] = map (frame_at S) [na..<ns]"
  by (auto simp: frame_at_def nth_append)

lemma carries_append: "i < length S \<Longrightarrow> carries (S @ T) i q = carries S i q"
  by (simp add: carries_def nth_append)

lemma outgoing_extend: "outgoing S na ns qs \<Longrightarrow> ns \<le> length S \<Longrightarrow> outgoing (S @ T) na ns qs"
  unfolding outgoing_def using carries_append by (meson less_le_trans)

lemma speaks_send:
  assumes "speaks S na ns R nr log c" "ck_state c = Connected" "data \<noteq> []"
  shows "\<exists>ns' \<ge> ns. speaks (S @ fragments (co_fragment_size (ck_options c)) data) na ns' R nr log (send data now_ms c)"
proof -
  let ?T = "fragments (co_fragment_size (ck_options c)) data"
  have "ns \<le> length S" "outgoing S na ns (ck_outbox c)"
    using assms(1) by (simp_all add: speaks_def sends_def)
  then have "speaks (S @ ?T) na ns R nr log (c\<lparr>ck_send_queue := ck_send_queue c @ ?T\<rparr>)"
    using assms(1,2) by (auto simp: speaks_def sends_def receives_def established_def frame_at_append
        intro: outgoing_extend)
  then show ?thesis
    using assms(2,3) speaks_pump by (simp add: send_def)
qed

section \<open>What each packet does\<close>

lemma speaks_packet_other:
  assumes c: "speaks S na ns R nr log c" and q: "\<not> is_information q" "\<not> is_acknowledgement q"
  shows "speaks S na ns R nr log (on_packet q now_ms c)"
proof -
  have "speaks S na ns R nr log (c\<lparr>ck_control_timer_armed := False\<rparr>)"
    using c by (simp add: speaks_def sends_def receives_def established_def)
  then have "speaks S na ns R nr log (on_disconnect_acknowledge c)"
    using c by (simp add: on_disconnect_acknowledge_def speaks_close)
  moreover have "ck_state c \<noteq> Connecting"
    using c by (simp add: speaks_def established_def)
  moreover have "speaks S na ns R nr log (send_disconnect_acknowledge c)"
    using c by (simp add: send_disconnect_acknowledge_def speaks_plain)
  ultimately show ?thesis
    using c q by (auto simp: on_packet_def Let_def is_information_def is_acknowledgement_def
        on_connect_request_def on_connect_acknowledge_def on_disconnect_request_def
        speaks_connect_acknowledge speaks_close split: option.splits opcode.splits)
qed

lemma packet_ignored:
  assumes "is_information q \<or> is_acknowledgement q" "ck_state c \<noteq> Connected"
  shows "on_packet q now_ms c = c"
  using assms by (auto simp: on_packet_def Let_def is_information_def is_acknowledgement_def
      on_information_def on_information_acknowledge_def)

lemma speaks_absorb:
  assumes "speaks S na ns R nr log c" "ck_state c = Connected" "ck_outbox c = []" "na \<le> r" "r \<le> ns"
  shows "speaks S r ns R nr log (apply_peer_choke b (absorb_ack (of_nat r) c))"
proof -
  have "sends S r ns (absorb_ack (of_nat r) c)"
    using assms by (intro sends_absorb) (auto simp: speaks_def)
  then show ?thesis
    using assms by (simp add: speaks_def receives_absorb receives_choke)
      (simp add: sends_def apply_peer_choke_def established_def absorb_ack_def)
qed

lemma absorb_choke_commute:
  "absorb_ack r (apply_peer_choke b c) = apply_peer_choke b (absorb_ack r c)"
  by (simp add: absorb_ack_def apply_peer_choke_def)

lemma speaks_information_acknowledge:
  assumes "speaks S na ns R nr log c" "ck_state c = Connected" "ck_outbox c = []"
    and "is_acknowledgement q" "th_rx_sequence (pk_transport q) = of_nat r" "na \<le> r" "r \<le> ns"
  shows "\<exists>ns' \<ge> ns. speaks S r ns' R nr log (on_packet q now_ms c)"
proof -
  define c1 where "c1 = absorb_ack (of_nat r) (apply_peer_choke (choke (pk_transport q)) c)"
  have c1: "speaks S r ns R nr log c1" "ck_state c1 = Connected"
    using speaks_absorb [OF assms(1,2,3,6,7)] assms(2) by (simp_all add: c1_def absorb_choke_commute)
  have "speaks S r ns R nr log (if nak (pk_transport q) then retransmit_from (of_nat r) now_ms c1 else c1)"
    using c1 speaks_retransmit by simp
  moreover have "on_packet q now_ms c =
      pump_send_queue now_ms (if nak (pk_transport q) then retransmit_from (of_nat r) now_ms c1 else c1)"
    using assms(2,4,5)
    by (simp add: on_packet_def Let_def is_acknowledgement_def on_information_acknowledge_def c1_def)
  ultimately show ?thesis
    using speaks_pump by simp
qed

lemma of_nat_u8_eq:
  assumes "i \<le> j + 127" "j \<le> i + 127"
  shows "(of_nat i :: u8) = of_nat j \<longleftrightarrow> i = j"
proof
  assume "(of_nat i :: u8) = of_nat j"
  then have "unat (of_nat i :: u8) = unat (of_nat j :: u8)"
    by simp
  then have "i mod 256 = j mod 256"
    by (simp only: unat_of_nat) simp
  then obtain k l where "i + 256 * k = j + 256 * l"
    by (auto simp: nat_mod_eq_iff)
  then show "i = j"
    using assms by presburger
qed simp

definition take_in :: "bytes \<Rightarrow> bool \<Rightarrow> circuit \<Rightarrow> circuit" where
  "take_in payload mf c =
     (let c3 = c\<lparr>ck_vr := ck_vr c + 1, ck_reassembly := ck_reassembly c @ payload\<rparr>
      in if \<not> mf \<and> ck_reassembly c3 \<noteq> [] then deliver c3 else c3)"

lemma take_in_frame:
  "ck_state (take_in payload mf c) = ck_state c" "ck_control_timer_armed (take_in payload mf c) = ck_control_timer_armed c"
  "ck_outbox (take_in payload mf c) = ck_outbox c" "sends S na ns (take_in payload mf c) = sends S na ns c"
  by (simp_all add: take_in_def deliver_def maybe_assert_choke_def fire_def sends_def Let_def)

lemma receives_take_in:
  assumes "receives R nr log c" "ck_state c = Connected" "nr < length R" "ck_outbox c = []"
  shows "receives R (Suc nr) log (take_in (fg_bytes (R ! nr)) (fg_more_follows (R ! nr)) c)"
proof -
  obtain ms buf where a: "assemble (take nr R) = (ms, buf)"
    by (cases "assemble (take nr R)")
  have "assemble (take (Suc nr) R) = assemble_step (R ! nr) (ms, buf)"
    using assms(3) by (simp add: take_Suc_conv_app_nth assemble_snoc a del: assemble_step.simps)
  then show ?thesis
    using assms a by (auto simp: receives_def take_in_def deliver_def maybe_assert_choke_def fire_def Let_def)
qed

lemma speaks_abandon:
  assumes "sends S na ns c" "receives R nr log c" "established c" "ck_state c = Connected"
  shows "speaks S na ns R nr log (disconnect now_ms (c\<lparr>ck_vr := v, ck_reassembly := bs\<rparr>))"
proof -
  have "speaks S na ns R nr log (c\<lparr>ck_vr := v, ck_reassembly := bs, ck_state := Disconnecting, ck_control_retries := 0\<rparr>)"
    using assms by (simp add: speaks_def sends_def receives_def established_def)
  then have "speaks S na ns R nr log (send_disconnect_request
      (c\<lparr>ck_vr := v, ck_reassembly := bs, ck_state := Disconnecting, ck_control_retries := 0\<rparr>))"
    by (simp add: send_disconnect_request_def speaks_plain)
  then show ?thesis
    using assms(4) by (simp add: disconnect_def arm_control_timer_def speaks_def sends_def receives_def established_def)
qed

lemma speaks_information:
  assumes c: "speaks S na ns R nr log c" "ck_state c = Connected" "ck_outbox c = []"
    and q: "is_information q" "th_rx_sequence (pk_transport q) = of_nat r" "na \<le> r" "r \<le> ns"
    and i: "carries R i q" "i < length R" "i \<le> nr + 127" "nr \<le> i + 127"
  shows "\<exists>ns' \<ge> ns. \<exists>nr'. (nr' = nr \<or> nr' = Suc nr \<and> i = nr) \<and> speaks S r ns' R nr' log (on_packet q now_ms c)"
proof -
  let ?t = "pk_transport q"
  define c1 where "c1 = apply_peer_choke (choke ?t) (absorb_ack (of_nat r) c)"
  have c1: "speaks S r ns R nr log c1" "ck_state c1 = Connected" "ck_outbox c1 = []" "ck_vr c1 = of_nat nr"
    using speaks_absorb [OF c q(3,4)] c
    by (simp_all add: c1_def absorb_ack_def apply_peer_choke_def speaks_def receives_def)
  have pkt: "on_packet q now_ms c = on_information ?t (pk_payload q) now_ms c"
    using q(1) by (simp add: on_packet_def is_information_def Let_def)
  have tx: "th_tx_sequence ?t = of_nat i" "more_follows ?t = fg_more_follows (R ! i)" "pk_payload q = fg_bytes (R ! i)"
    using i(1) by (simp_all add: carries_def)
  show ?thesis
  proof (cases "i = nr")
    case False
    then have "th_tx_sequence ?t \<noteq> ck_vr c1"
      using of_nat_u8_eq [OF i(3,4)] by (simp add: tx c1)
    then have "on_packet q now_ms c = pump_send_queue now_ms
        (send_information_acknowledge (mod256_after (th_tx_sequence ?t) (ck_vr c1)) c1)"
      using c(2) by (simp add: pkt on_information_def Let_def c1_def q(2))
    moreover have "speaks S r ns R nr log (send_information_acknowledge b c1)" for b
      using c1 by (simp add: speaks_acknowledge)
    ultimately show ?thesis
      using speaks_pump by metis
  next
    case True
    let ?over = "pk_payload q \<noteq> [] \<and> length (ck_reassembly c1) + length (pk_payload q) > MAX_REASSEMBLY_BYTES"
    have next': "on_packet q now_ms c = (if ?over then disconnect now_ms (c1\<lparr>ck_vr := ck_vr c1 + 1, ck_reassembly := []\<rparr>)
        else pump_send_queue now_ms (send_information_acknowledge False (take_in (pk_payload q) (more_follows ?t) c1)))"
      using c(2) True tx(1) c1(4) by (simp add: pkt on_information_def Let_def c1_def q(2) take_in_def)
    have "speaks S r ns R (Suc nr) log (take_in (pk_payload q) (more_follows ?t) c1)"
      using c1 i(2) True receives_take_in [of R nr log c1]
      by (simp add: speaks_def take_in_frame established_def tx)
    then have "speaks S r ns R (Suc nr) log (send_information_acknowledge False (take_in (pk_payload q) (more_follows ?t) c1))"
      using c1(2) by (simp add: speaks_acknowledge take_in_frame)
    then obtain ns' where "ns' \<ge> ns" "speaks S r ns' R (Suc nr) log
        (pump_send_queue now_ms (send_information_acknowledge False (take_in (pk_payload q) (more_follows ?t) c1)))"
      using speaks_pump by blast
    moreover have "speaks S r ns R nr log (disconnect now_ms (c1\<lparr>ck_vr := ck_vr c1 + 1, ck_reassembly := []\<rparr>))"
      using c1 by (intro speaks_abandon) (simp_all add: speaks_def)
    ultimately show ?thesis
      using True unfolding next' by (cases ?over) auto
  qed
qed

end
