(* ===== verification/Netrom_Transfer.thy ===== *)
theory Netrom_Transfer
  imports Netrom_Link
begin

text \<open>
  The whole link: two owners and their circuits, the calls the owners make, the datagrams the channels
  deliver in order or lose, and the invariant of each direction. From it: whatever is lost, whatever
  the clocks say and however often frames are retransmitted, each side receives a prefix of the
  messages the other sent, whole, in order and once.
\<close>

section \<open>Datagrams under way\<close>

text \<open>
  \<open>flight\<close>: the information frames on their way to a receiver that has taken in \<open>h\<close> fragments, or will
  have when they arrive. \<open>acks\<close>: the acknowledgements on their way back; \<open>lo\<close> is what the sender knows.
\<close>

fun flight :: "fragment list \<Rightarrow> nat \<Rightarrow> nat \<Rightarrow> packet list \<Rightarrow> bool" where
  "flight S ns h [] \<longleftrightarrow> h \<le> ns"
| "flight S ns h (q # qs) \<longleftrightarrow>
     (if is_information q then \<exists>i. i < ns \<and> h \<le> i + 127 \<and> carries S i q \<and> flight S ns (max h (Suc i)) qs
      else flight S ns h qs)"

fun acks :: "nat \<Rightarrow> nat \<Rightarrow> packet list \<Rightarrow> bool" where
  "acks lo hi [] \<longleftrightarrow> lo \<le> hi"
| "acks lo hi (q # qs) \<longleftrightarrow>
     (if is_information q \<or> is_acknowledgement q
      then \<exists>r. lo \<le> r \<and> th_rx_sequence (pk_transport q) = of_nat r \<and> acks r hi qs
      else acks lo hi qs)"

lemma flight_lower: "flight S ns h qs \<Longrightarrow> h' \<le> h \<Longrightarrow> flight S ns h' qs"
proof (induction qs arbitrary: h h')
  case (Cons q qs)
  show ?case
  proof (cases "is_information q")
    case True
    then obtain i where i: "i < ns" "h \<le> i + 127" "carries S i q" "flight S ns (max h (Suc i)) qs"
      using Cons.prems by auto
    have "flight S ns (max h' (Suc i)) qs"
      using Cons.prems(2) by (intro Cons.IH [OF i(4)]) auto
    then show ?thesis
      using i Cons.prems(2) True by auto
  next
    case False
    then show ?thesis
      using Cons by simp
  qed
qed simp

lemma flight_le: "flight S ns h qs \<Longrightarrow> h \<le> ns"
proof (induction qs arbitrary: h)
  case (Cons q qs)
  show ?case
  proof (cases "is_information q")
    case True
    then obtain i where "flight S ns (max h (Suc i)) qs"
      using Cons.prems by auto
    then show ?thesis
      using Cons.IH [of "max h (Suc i)"] by simp
  next
    case False
    then show ?thesis
      using Cons by simp
  qed
qed simp

lemma flight_extend:
  assumes "flight S ns h qs" "ns \<le> ns'" "ns \<le> length S"
  shows "flight (S @ T) ns' h qs"
  using assms(1)
proof (induction qs arbitrary: h)
  case (Cons q qs)
  show ?case
  proof (cases "is_information q")
    case True
    then obtain i where i: "i < ns" "h \<le> i + 127" "carries S i q" "flight S ns (max h (Suc i)) qs"
      using Cons.prems by auto
    have "i < ns'" "carries (S @ T) i q" "flight (S @ T) ns' (max h (Suc i)) qs"
      using i assms(2,3) Cons.IH by (simp_all add: carries_append)
    then show ?thesis
      using i(2) True by auto
  next
    case False
    then show ?thesis
      using Cons by simp
  qed
qed (use assms in simp)

lemmas flight_sent = flight_extend [where T = "[]", simplified]

lemma flight_outgoing: "outgoing S na ns qs \<Longrightarrow> h \<le> ns \<Longrightarrow> ns \<le> na + 127 \<Longrightarrow> flight S ns h qs"
proof (induction qs arbitrary: h)
  case (Cons q qs)
  have qs: "outgoing S na ns qs"
    using Cons.prems(1) by (simp add: outgoing_def)
  show ?case
  proof (cases "is_information q")
    case True
    then obtain i where i: "na \<le> i" "i < ns" "carries S i q"
      using Cons.prems(1) by (auto simp: outgoing_def)
    then have "flight S ns (max h (Suc i)) qs"
      using Cons.prems by (intro Cons.IH [OF qs]) auto
    then show ?thesis
      using i True Cons.prems by (auto intro!: exI [of _ i])
  next
    case False
    then show ?thesis
      using Cons qs by simp
  qed
qed simp

lemma flight_append:
  "flight S ns h ps \<Longrightarrow> outgoing S na ns qs \<Longrightarrow> ns \<le> na + 127 \<Longrightarrow> flight S ns h (ps @ qs)"
proof (induction ps arbitrary: h)
  case Nil
  then show ?case
    by (auto intro: flight_outgoing)
next
  case (Cons p ps)
  then show ?case
    by (auto split: if_splits)
qed

lemma flight_tl: "flight S ns h (q # qs) \<Longrightarrow> flight S ns h qs"
  by (auto split: if_splits intro: flight_lower)

lemma flight_lose: "flight S ns h (ps @ q # qs) \<Longrightarrow> flight S ns h (ps @ qs)"
  by (induction ps arbitrary: h) (auto simp del: flight.simps(2) intro: flight_tl, auto split: if_splits)

lemma acks_le: "acks lo hi qs \<Longrightarrow> lo \<le> hi"
proof (induction qs arbitrary: lo)
  case (Cons q qs)
  then show ?case
    by (auto split: if_splits intro: order_trans)
qed simp

lemma acks_raise: "acks lo hi qs \<Longrightarrow> hi \<le> hi' \<Longrightarrow> acks lo hi' qs"
  by (induction qs arbitrary: lo) (auto split: if_splits)

lemma acks_lower: "acks lo hi qs \<Longrightarrow> lo' \<le> lo \<Longrightarrow> acks lo' hi qs"
  by (induction qs arbitrary: lo lo') (auto split: if_splits intro: order_trans)

lemma acks_tl: "acks lo hi (q # qs) \<Longrightarrow> acks lo hi qs"
  by (auto split: if_splits intro: acks_lower)

lemma acks_lose: "acks lo hi (ps @ q # qs) \<Longrightarrow> acks lo hi (ps @ qs)"
  by (induction ps arbitrary: lo) (auto simp del: acks.simps(2) intro: acks_tl, auto split: if_splits)

lemma acks_answers: "answers hi qs \<Longrightarrow> lo \<le> hi \<Longrightarrow> acks lo hi qs"
  by (induction qs arbitrary: lo) (auto simp: answers_def)

lemma acks_append: "acks lo hi ps \<Longrightarrow> answers hi qs \<Longrightarrow> acks lo hi (ps @ qs)"
  by (induction ps arbitrary: lo) (auto intro: acks_answers split: if_splits)

section \<open>The link\<close>

text \<open>
  An owner with its circuit: the messages it has submitted (those the circuit took) and received. After
  every operation the owner drains the circuit's queues, as the code prescribes.
\<close>

record peer =
  pr_circuit :: circuit
  pr_sent :: "bytes list"
  pr_received :: "bytes list"

definition drain :: "circuit \<Rightarrow> peer \<Rightarrow> peer \<times> outbound list" where
  "drain c p =
     (let (c1, out) = take_outbox c; (c2, es) = take_events c1
      in (p\<lparr>pr_circuit := c2, pr_received := pr_received p @ received es\<rparr>, out))"

datatype owner_call = Submit bytes u64 | HangUp u64 | Timer u64 | Consumed

fun perform :: "owner_call \<Rightarrow> circuit \<Rightarrow> circuit" where
  "perform (Submit data now_ms) c = send data now_ms c"
| "perform (HangUp now_ms) c = disconnect now_ms c"
| "perform (Timer now_ms) c = tick now_ms c"
| "perform Consumed c = on_delivery_drained c"

fun taken :: "owner_call \<Rightarrow> circuit \<Rightarrow> bytes list" where
  "taken (Submit data now_ms) c = (if ck_state c = Connected \<and> data \<noteq> [] then [data] else [])"
| "taken _ c = []"

definition call_peer :: "owner_call \<Rightarrow> peer \<Rightarrow> peer \<times> outbound list" where
  "call_peer e p = drain (perform e (pr_circuit p)) (p\<lparr>pr_sent := pr_sent p @ taken e (pr_circuit p)\<rparr>)"

definition hear :: "packet \<Rightarrow> u64 \<Rightarrow> peer \<Rightarrow> peer \<times> outbound list" where
  "hear q now_ms p = drain (on_packet q now_ms (pr_circuit p)) p"

record link =
  lk_a :: peer
  lk_b :: peer
  lk_ab :: "outbound list"
  lk_ba :: "outbound list"

definition flip :: "link \<Rightarrow> link" where
  "flip l = \<lparr>lk_a = lk_b l, lk_b = lk_a l, lk_ab = lk_ba l, lk_ba = lk_ab l\<rparr>"

definition at_a :: "peer \<times> outbound list \<Rightarrow> link \<Rightarrow> link" where
  "at_a r l = l\<lparr>lk_a := fst r, lk_ab := lk_ab l @ snd r\<rparr>"

datatype end_event = Call owner_call | Arrive u64 | Lose nat

text \<open>An event at the first end: a call of its owner, the arrival or the loss of a datagram for it.\<close>

fun end_step :: "end_event \<Rightarrow> link \<Rightarrow> link" where
  "end_step (Call e) l = at_a (call_peer e (lk_a l)) l"
| "end_step (Arrive now_ms) l =
     (case lk_ba l of [] \<Rightarrow> l | q # qs \<Rightarrow> at_a (hear q now_ms (lk_a l)) (l\<lparr>lk_ba := qs\<rparr>))"
| "end_step (Lose k) l = l\<lparr>lk_ba := take k (lk_ba l) @ drop (Suc k) (lk_ba l)\<rparr>"

datatype link_event = AtA end_event | AtB end_event

fun link_step :: "link_event \<Rightarrow> link \<Rightarrow> link" where
  "link_step (AtA e) l = end_step e l"
| "link_step (AtB e) l = flip (end_step e (flip l))"

section \<open>Its invariant\<close>

definition fragments_of :: "peer \<Rightarrow> fragment list" where
  "fragments_of p = stream (co_fragment_size (ck_options (pr_circuit p))) (pr_sent p)"

definition quiet :: "peer \<Rightarrow> bool" where
  "quiet p \<longleftrightarrow> ck_outbox (pr_circuit p) = [] \<and> ck_events (pr_circuit p) = [] \<and> [] \<notin> set (pr_sent p)"

definition positions :: "link \<Rightarrow> nat \<Rightarrow> nat \<Rightarrow> nat \<Rightarrow> nat \<Rightarrow> nat \<Rightarrow> nat \<Rightarrow> bool" where
  "positions l na nr ns mb mr ms \<longleftrightarrow>
     speaks (fragments_of (lk_a l)) na ns (fragments_of (lk_b l)) mr (pr_received (lk_a l)) (pr_circuit (lk_a l)) \<and>
     speaks (fragments_of (lk_b l)) mb ms (fragments_of (lk_a l)) nr (pr_received (lk_b l)) (pr_circuit (lk_b l)) \<and>
     flight (fragments_of (lk_a l)) ns nr (lk_ab l) \<and> acks na nr (lk_ba l) \<and>
     flight (fragments_of (lk_b l)) ms mr (lk_ba l) \<and> acks mb mr (lk_ab l)"

definition link_inv :: "link \<Rightarrow> bool" where
  "link_inv l \<longleftrightarrow> quiet (lk_a l) \<and> quiet (lk_b l) \<and> (\<exists>na nr ns mb mr ms. positions l na nr ns mb mr ms)"

lemma link_invI:
  "positions l na nr ns mb mr ms \<Longrightarrow> quiet (lk_a l) \<Longrightarrow> quiet (lk_b l) \<Longrightarrow> link_inv l"
  unfolding link_inv_def by blast

lemma flip_flip [simp]: "flip (flip l) = l"
  by (simp add: flip_def)

lemma link_inv_flip: "link_inv l \<Longrightarrow> link_inv (flip l)"
  by (simp add: link_inv_def positions_def flip_def) blast

lemma drain_eq: "drain c p =
    (p\<lparr>pr_circuit := c\<lparr>ck_outbox := [], ck_events := []\<rparr>, pr_received := pr_received p @ received (ck_events c)\<rparr>,
     ck_outbox c)"
  by (simp add: drain_def take_outbox_def take_events_def)

lemma speaks_drained_queues:
  "speaks S na ns R nr log c \<Longrightarrow>
    speaks S na ns R nr (log @ received (ck_events c)) (c\<lparr>ck_outbox := [], ck_events := []\<rparr>)"
  by (simp add: speaks_def sends_def receives_def established_def)

lemma speaks_extend:
  "speaks R mb ms S nr log c \<Longrightarrow> speaks R mb ms (S @ T) nr log c"
  by (simp add: speaks_def receives_def)

text \<open>What the first end puts on its channel keeps both directions in order.\<close>

lemma settle:
  assumes l: "speaks R mb ms S nr (pr_received (lk_b l)) (pr_circuit (lk_b l))"
      "flight S ns nr (lk_ab l)" "acks mb mr (lk_ab l)" "ns \<le> length S"
    and q: "quiet p" "quiet (lk_b l)"
    and R: "R = fragments_of (lk_b l)" and T: "S @ T = stream (co_fragment_size (ck_options c)) (pr_sent p)"
    and c: "speaks (S @ T) na ns' R mr' (pr_received p) c" "ns \<le> ns'" "mr \<le> mr'"
    and ba: "acks na nr (lk_ba l)" "flight R ms mr' (lk_ba l)"
  shows "link_inv (at_a (drain c p) l)"
proof -
  have ab: "flight (S @ T) ns' nr (lk_ab l)"
    using flight_extend [OF l(2) c(2) l(4)] .
  have "outgoing (S @ T) na ns' (ck_outbox c)" "ns' \<le> na + 127" "answers mr' (ck_outbox c)"
    using c(1) by (simp_all add: speaks_def sends_def receives_def)
  then have "flight (S @ T) ns' nr (lk_ab l @ ck_outbox c)" "acks mb mr' (lk_ab l @ ck_outbox c)"
    using ab acks_raise [OF l(3) c(3)] by (auto intro: flight_append acks_append)
  then have "positions (at_a (drain c p) l) na nr ns' mb mr' ms"
    using speaks_drained_queues [OF c(1)] speaks_extend [OF l(1), of T] ba R T
    by (simp add: positions_def at_a_def drain_eq fragments_of_def)
  moreover have "quiet (fst (drain c p))"
    using q by (simp add: quiet_def drain_eq)
  ultimately show ?thesis
    using q(2) by (intro link_invI) (simp_all add: at_a_def)
qed

section \<open>Every event keeps it\<close>

lemma perform_options: "ck_options (perform e c) = ck_options c"
  using circuit_step_options [of "case e of Submit d n \<Rightarrow> Send d n | HangUp n \<Rightarrow> Disconnect n
      | Timer n \<Rightarrow> Tick n | Consumed \<Rightarrow> Drained" c] by (cases e) simp_all

lemma packet_options: "ck_options (on_packet q now_ms c) = ck_options c"
  using circuit_step_options [of "Packet q now_ms" c] by simp

lemma stream_append: "stream n (xs @ ys) = stream n xs @ stream n ys"
  by (simp add: stream_def)

lemma speaks_perform:
  assumes "speaks S na ns R nr log c"
  shows "\<exists>ns' \<ge> ns. speaks (S @ stream (co_fragment_size (ck_options c)) (taken e c)) na ns' R nr log (perform e c)"
proof (cases e)
  case (Submit data now_ms)
  show ?thesis
  proof (cases "ck_state c = Connected \<and> data \<noteq> []")
    case True
    then show ?thesis
      using speaks_send [OF assms, of data now_ms] Submit by (simp add: stream_def)
  next
    case False
    then have "perform e c = c" "taken e c = []"
      using Submit by (auto simp: send_def)
    then show ?thesis
      using assms by (auto simp: stream_def)
  qed
qed (use assms in \<open>auto simp: stream_def speaks_disconnect speaks_tick speaks_drained intro!: exI [of _ ns]\<close>)

lemma call_inv:
  assumes "link_inv l"
  shows "link_inv (at_a (call_peer e (lk_a l)) l)"
proof -
  let ?p = "lk_a l" and ?c = "pr_circuit (lk_a l)"
  let ?S = "fragments_of (lk_a l)"
  let ?T = "stream (co_fragment_size (ck_options ?c)) (taken e ?c)"
  obtain na nr ns mb mr ms where l: "positions l na nr ns mb mr ms" and q: "quiet ?p" "quiet (lk_b l)"
    using assms by (auto simp: link_inv_def)
  obtain ns' where c: "ns \<le> ns'" "speaks (?S @ ?T) na ns' (fragments_of (lk_b l)) mr (pr_received ?p) (perform e ?c)"
    using l speaks_perform unfolding positions_def by blast
  have "[] \<notin> set (taken e ?c)"
    by (cases e) auto
  then have "quiet (?p\<lparr>pr_sent := pr_sent ?p @ taken e ?c\<rparr>)"
    using q by (simp add: quiet_def)
  moreover have "ns \<le> length ?S"
    using l by (simp add: positions_def speaks_def sends_def)
  moreover have "?S @ ?T = stream (co_fragment_size (ck_options (perform e ?c))) (pr_sent ?p @ taken e ?c)"
    by (simp add: fragments_of_def perform_options stream_append)
  ultimately show ?thesis
    unfolding call_peer_def using l q(2) c
    by (intro settle [where S = ?S and T = ?T and mr = mr and mr' = mr and R = "fragments_of (lk_b l)"
        and mb = mb and ms = ms and na = na and nr = nr and ns = ns and ns' = ns'])
      (simp_all add: positions_def)
qed

text \<open>The state in which the first end hears a datagram: it has left the channel.\<close>

lemma hear_settle:
  assumes l: "positions l na nr ns mb mr ms" and q: "quiet (lk_a l)" "quiet (lk_b l)"
    and c: "speaks (fragments_of (lk_a l)) na' ns' (fragments_of (lk_b l)) mr' (pr_received (lk_a l))
        (on_packet p now_ms (pr_circuit (lk_a l)))" "ns \<le> ns'" "mr \<le> mr'"
    and ba: "acks na' nr qs" "flight (fragments_of (lk_b l)) ms mr' qs"
  shows "link_inv (at_a (hear p now_ms (lk_a l)) (l\<lparr>lk_ba := qs\<rparr>))"
proof -
  have "ns \<le> length (fragments_of (lk_a l))"
    using l by (simp add: positions_def speaks_def sends_def)
  moreover have "fragments_of (lk_a l) @ [] = stream (co_fragment_size
      (ck_options (on_packet p now_ms (pr_circuit (lk_a l))))) (pr_sent (lk_a l))"
    by (simp add: fragments_of_def packet_options)
  ultimately show ?thesis
    unfolding hear_def using l q c ba
    by (intro settle [where S = "fragments_of (lk_a l)" and T = "[]" and mr = mr and mr' = mr'
        and R = "fragments_of (lk_b l)" and mb = mb and ms = ms and na = na' and nr = nr and ns = ns and ns' = ns'])
      (simp_all add: positions_def)
qed

lemma hear_inv:
  assumes "link_inv l" "lk_ba l = p # qs"
  shows "link_inv (at_a (hear p now_ms (lk_a l)) (l\<lparr>lk_ba := qs\<rparr>))"
proof -
  let ?c = "pr_circuit (lk_a l)" and ?S = "fragments_of (lk_a l)" and ?R = "fragments_of (lk_b l)"
  obtain na nr ns mb mr ms where l: "positions l na nr ns mb mr ms" and q: "quiet (lk_a l)" "quiet (lk_b l)"
    using assms(1) by (auto simp: link_inv_def)
  have c: "speaks ?S na ns ?R mr (pr_received (lk_a l)) ?c" "ck_outbox ?c = []"
    using l q by (simp_all add: positions_def quiet_def)
  have ch: "acks na nr (p # qs)" "flight ?R ms mr (p # qs)"
    using l assms(2) by (simp_all add: positions_def)
  note rest = acks_tl [OF ch(1)] flight_tl [OF ch(2)]
  have nr: "nr \<le> ns" "ms \<le> mr + 127" "ms \<le> length ?R"
    using l flight_le acks_le [of mb mr "lk_ab l"] by (auto simp: positions_def speaks_def sends_def)
  consider "\<not> is_information p \<and> \<not> is_acknowledgement p"
    | "is_information p \<or> is_acknowledgement p" "ck_state ?c \<noteq> Connected"
    | "is_acknowledgement p" "ck_state ?c = Connected" | "is_information p" "ck_state ?c = Connected"
    by blast
  then show ?thesis
  proof cases
    case 1
    then show ?thesis
      using speaks_packet_other [OF c(1)] rest by (intro hear_settle [OF l q]) auto
  next
    case 2
    then show ?thesis
      using c(1) rest by (intro hear_settle [OF l q]) (auto simp: packet_ignored)
  next
    case 3
    then obtain r where r: "na \<le> r" "th_rx_sequence (pk_transport p) = of_nat r" "acks r nr qs"
      using ch(1) by auto
    moreover have "r \<le> ns"
      using acks_le [OF r(3)] nr(1) by simp
    ultimately obtain ns' where "ns' \<ge> ns"
        "speaks ?S r ns' ?R mr (pr_received (lk_a l)) (on_packet p now_ms ?c)"
      using speaks_information_acknowledge [OF c(1) 3(2) c(2) 3(1) r(2)] by blast
    then show ?thesis
      using r(3) rest(2) by (intro hear_settle [OF l q]) auto
  next
    case 4
    then obtain r where r: "na \<le> r" "th_rx_sequence (pk_transport p) = of_nat r" "acks r nr qs"
      using ch(1) by auto
    obtain i where i: "i < ms" "mr \<le> i + 127" "carries ?R i p" "flight ?R ms (max mr (Suc i)) qs"
      using ch(2) 4(1) by auto
    have "r \<le> ns" "i < length ?R" "i \<le> mr + 127"
      using acks_le [OF r(3)] nr i(1) by simp_all
    then obtain ns' mr' where c': "ns' \<ge> ns" "mr' = mr \<or> mr' = Suc mr \<and> i = mr"
        "speaks ?S r ns' ?R mr' (pr_received (lk_a l)) (on_packet p now_ms ?c)"
      using speaks_information [OF c(1) 4(2) c(2) 4(1) r(2,1)] i by blast
    have "flight ?R ms mr' qs"
      using i(4) c'(2) by (auto intro: flight_lower)
    then show ?thesis
      using c' r(3) by (intro hear_settle [OF l q]) auto
  qed
qed

lemma lose_inv:
  assumes "link_inv l"
  shows "link_inv (l\<lparr>lk_ba := take k (lk_ba l) @ drop (Suc k) (lk_ba l)\<rparr>)"
proof (cases "k < length (lk_ba l)")
  case True
  then have "lk_ba l = take k (lk_ba l) @ lk_ba l ! k # drop (Suc k) (lk_ba l)"
    by (rule id_take_nth_drop)
  then obtain ps q qs where l: "lk_ba l = ps @ q # qs"
      "take k (lk_ba l) @ drop (Suc k) (lk_ba l) = ps @ qs"
    by blast
  obtain na nr ns mb mr ms where p: "positions l na nr ns mb mr ms" and q: "quiet (lk_a l)" "quiet (lk_b l)"
    using assms by (auto simp: link_inv_def)
  have "acks na nr (ps @ qs)" "flight (fragments_of (lk_b l)) ms mr (ps @ qs)"
    using p l(1) acks_lose flight_lose by (auto simp: positions_def)
  then have "positions (l\<lparr>lk_ba := ps @ qs\<rparr>) na nr ns mb mr ms"
    using p by (simp add: positions_def)
  then show ?thesis
    unfolding l(2) using q by (intro link_invI) simp_all
next
  case False
  then show ?thesis
    using assms by simp
qed

lemma end_step_inv: "link_inv l \<Longrightarrow> link_inv (end_step e l)"
  by (cases e) (auto simp: call_inv hear_inv lose_inv split: list.split)

lemma link_step_inv: "link_inv l \<Longrightarrow> link_inv (link_step e l)"
  by (cases e) (simp_all add: end_step_inv link_inv_flip)

interpretation link: state_machine link_step link_inv
  by unfold_locales (rule link_step_inv)

lemma direction_delivers:
  assumes "link_inv l"
  shows "prefix (pr_received (lk_b l)) (pr_sent (lk_a l))"
    and "ck_state (pr_circuit (lk_a l)) = Connected \<Longrightarrow> ck_unacked (pr_circuit (lk_a l)) = [] \<Longrightarrow>
      ck_send_queue (pr_circuit (lk_a l)) = [] \<Longrightarrow> pr_received (lk_b l) = pr_sent (lk_a l)"
proof -
  let ?S = "fragments_of (lk_a l)"
  obtain na nr ns mb mr ms where l: "positions l na nr ns mb mr ms" and q: "quiet (lk_a l)" "quiet (lk_b l)"
    using assms by (auto simp: link_inv_def)
  have sent: "fst (assemble ?S) = pr_sent (lk_a l)"
    using q(1) by (simp add: fragments_of_def assemble_stream quiet_def)
  have got: "pr_received (lk_b l) = fst (assemble (take nr ?S))" "nr \<le> length ?S"
    using l q(2) by (simp_all add: positions_def speaks_def receives_def quiet_def)
  show "prefix (pr_received (lk_b l)) (pr_sent (lk_a l))"
    using assemble_prefix [of nr ?S] by (simp add: sent got)
  assume "ck_state (pr_circuit (lk_a l)) = Connected" "ck_unacked (pr_circuit (lk_a l)) = []"
    "ck_send_queue (pr_circuit (lk_a l)) = []"
  then have "ns \<le> na" "length ?S \<le> ns"
    using l by (auto simp: positions_def speaks_def sends_def)
  moreover have "na \<le> nr"
    using l acks_le by (auto simp: positions_def)
  ultimately show "pr_received (lk_b l) = pr_sent (lk_a l)"
    by (simp add: got sent)
qed

section \<open>The handshake\<close>

definition idle_peer :: "circuit \<Rightarrow> peer" where
  "idle_peer c = \<lparr>pr_circuit = c, pr_sent = [], pr_received = []\<rparr>"

definition proposed_window :: "packet \<Rightarrow> u8" where
  "proposed_window q = (case connect_request_decode (pk_payload q) of
     Some cri \<Rightarrow> cr_proposed_window cri | None \<Rightarrow> 0)"

text \<open>The first end calls; the second accepts what the request says; the first hears the answer.\<close>

definition link_open ::
  "callsign \<Rightarrow> u64 \<Rightarrow> u8 \<times> u8 \<Rightarrow> callsign \<Rightarrow> circuit_options \<Rightarrow> u8 \<times> u8 \<Rightarrow> callsign \<Rightarrow> circuit_options \<Rightarrow> link" where
  "link_open user now_ms ka node_a oa kb node_b ob =
     (let ca = circuit_new (fst ka) (snd ka) node_a node_b oa;
          cb = circuit_new (fst kb) (snd kb) node_b node_a ob;
          (a1, requests) = drain (connect user now_ms ca) (idle_peer ca);
          q = hd requests;
          (b1, replies) = drain (accept_inbound (th_circuit_index (pk_transport q)) (th_circuit_id (pk_transport q))
            (proposed_window q) cb) (idle_peer cb);
          (a2, out) = hear (hd replies) now_ms a1
      in \<lparr>lk_a = a2, lk_b = b1, lk_ab = out, lk_ba = []\<rparr>)"

lemma clamp_range: "1 \<le> unat (clamp w 1 127)" "unat (clamp w 1 127) \<le> 127"
  by (auto simp: clamp_def word_less_nat_alt not_less)

lemma unat_clamp: "unat (clamp w 1 127) = (if unat w = 0 then 1 else min (unat w) 127)"
  by (auto simp: clamp_def word_less_nat_alt min_def)

lemma accepted_clamp: "try_read_accepted_window [clamp w 1 127] = Some (clamp w 1 127)"
proof -
  have "clamp w 1 127 \<noteq> 0"
    using clamp_range(1) [of w] by auto
  moreover have "clamp w 1 127 \<le> 127"
    using clamp_range(2) [of w] by (simp add: word_le_nat_alt)
  ultimately show ?thesis
    by (simp add: try_read_accepted_window_def CONNECT_ACK_MAX_WINDOW_def)
qed

definition opened_a :: "callsign \<Rightarrow> u64 \<Rightarrow> u8 \<times> u8 \<Rightarrow> callsign \<Rightarrow> circuit_options \<Rightarrow> u8 \<times> u8 \<Rightarrow> callsign \<Rightarrow> u8 \<Rightarrow> circuit" where
  "opened_a user now_ms ka node_a oa kb node_b w =
     (circuit_new (fst ka) (snd ka) node_a node_b oa)
       \<lparr>ck_remote_index := fst kb, ck_remote_id := snd kb, ck_state := Connected, ck_window := min (co_window_size oa) w,
        ck_control_deadline := now_ms + co_retransmit_timeout_ms oa, ck_connect_user := Some user\<rparr>"

definition opened_b :: "u8 \<times> u8 \<Rightarrow> callsign \<Rightarrow> u8 \<times> u8 \<Rightarrow> callsign \<Rightarrow> circuit_options \<Rightarrow> u8 \<Rightarrow> circuit" where
  "opened_b ka node_a kb node_b ob w =
     (circuit_new (fst kb) (snd kb) node_b node_a ob)
       \<lparr>ck_remote_index := fst ka, ck_remote_id := snd ka, ck_state := Connected, ck_window := w\<rparr>"

lemma call_out:
  assumes "callsign_wf user" "callsign_wf node_a" and c: "c = circuit_new (fst ka) (snd ka) node_a node_b oa"
  shows "\<exists>q. drain (connect user now_ms c) (idle_peer c) =
      (idle_peer (c\<lparr>ck_state := Connecting, ck_connect_user := Some user, ck_control_timer_armed := True,
         ck_control_deadline := now_ms + co_retransmit_timeout_ms oa\<rparr>), [q]) \<and>
    th_circuit_index (pk_transport q) = fst ka \<and> th_circuit_id (pk_transport q) = snd ka \<and>
    proposed_window q = clamp (co_window_size oa) 1 127"
proof -
  let ?u = "if base user \<noteq> [] then user else node_a"
  let ?cri = "\<lparr>cr_proposed_window = clamp (co_window_size oa) 1 127, cr_originating_user = ?u, cr_originating_node = node_a\<rparr>"
  have dec: "connect_request_decode (connect_request_octets ?cri) = Some ?cri"
    using assms by (intro connect_request.dec_enc_exact) (simp add: connect_request_wf_def)
  show ?thesis
    using dec by (cases "base user = []") (simp_all add: c connect_def send_connect_request_def emit_def
        arm_control_timer_def circuit_new_def drain_eq idle_peer_def proposed_window_def Let_def)
qed

lemma call_in:
  assumes "p \<noteq> 0" and c: "c = circuit_new (fst kb) (snd kb) node_b node_a ob"
    and w: "w = clamp (min p (co_window_size ob)) 1 127"
  shows "\<exists>q. drain (accept_inbound i d p c) (idle_peer c) =
      (idle_peer (c\<lparr>ck_remote_index := i, ck_remote_id := d, ck_window := w, ck_state := Connected\<rparr>), [q]) \<and>
    pk_payload q = [w] \<and> th_opcode (pk_transport q) = 2 \<and> th_flags (pk_transport q) = 0 \<and>
    th_tx_sequence (pk_transport q) = fst kb \<and> th_rx_sequence (pk_transport q) = snd kb"
  using assms(1) by (simp add: c w accept_inbound_def send_connect_acknowledge_def emit_def circuit_new_def
      connect_ack_encode_def fire_def drain_eq idle_peer_def Let_def)

lemma answer_in:
  assumes "pk_payload q = [clamp w 1 127]" "th_opcode (pk_transport q) = 2" "th_flags (pk_transport q) = 0"
    and c: "c = circuit_new i d node_a node_b oa"
  shows "hear q now_ms (idle_peer (c\<lparr>ck_state := Connecting, ck_connect_user := u, ck_control_timer_armed := True,
      ck_control_deadline := t\<rparr>)) =
    (idle_peer (c\<lparr>ck_state := Connected, ck_connect_user := u, ck_control_deadline := t,
       ck_remote_index := th_tx_sequence (pk_transport q), ck_remote_id := th_rx_sequence (pk_transport q),
       ck_window := min (co_window_size oa) (clamp w 1 127)\<rparr>), [])"
proof -
  have "from_nibble 2 = Some ConnectAcknowledge"
    using nibble_opcode [of ConnectAcknowledge] by simp
  then show ?thesis
    using assms accepted_clamp [of w]
    by (simp add: hear_def on_packet_def on_connect_acknowledge_def choke_def drain_eq idle_peer_def circuit_new_def
        pump_send_queue_def fire_def Let_def)
qed

lemma link_open_eq:
  assumes "callsign_wf user" "callsign_wf node_a"
    and w: "w = clamp (min (clamp (co_window_size oa) 1 127) (co_window_size ob)) 1 127"
  shows "link_open user now_ms ka node_a oa kb node_b ob =
    \<lparr>lk_a = idle_peer (opened_a user now_ms ka node_a oa kb node_b w),
     lk_b = idle_peer (opened_b ka node_a kb node_b ob w), lk_ab = [], lk_ba = []\<rparr>"
proof -
  have nz: "clamp (co_window_size oa) 1 127 \<noteq> 0"
    using clamp_range(1) [of "co_window_size oa"] by auto
  obtain q where q: "drain (connect user now_ms (circuit_new (fst ka) (snd ka) node_a node_b oa))
      (idle_peer (circuit_new (fst ka) (snd ka) node_a node_b oa)) =
      (idle_peer ((circuit_new (fst ka) (snd ka) node_a node_b oa)\<lparr>ck_state := Connecting, ck_connect_user := Some user,
         ck_control_timer_armed := True, ck_control_deadline := now_ms + co_retransmit_timeout_ms oa\<rparr>), [q])"
    "th_circuit_index (pk_transport q) = fst ka" "th_circuit_id (pk_transport q) = snd ka"
    "proposed_window q = clamp (co_window_size oa) 1 127"
    using call_out [OF assms(1,2) refl] by blast
  obtain r where r: "drain (accept_inbound (fst ka) (snd ka) (clamp (co_window_size oa) 1 127)
        (circuit_new (fst kb) (snd kb) node_b node_a ob)) (idle_peer (circuit_new (fst kb) (snd kb) node_b node_a ob)) =
      (idle_peer ((circuit_new (fst kb) (snd kb) node_b node_a ob)\<lparr>ck_remote_index := fst ka, ck_remote_id := snd ka,
         ck_window := w, ck_state := Connected\<rparr>), [r])"
    "pk_payload r = [w]" "th_opcode (pk_transport r) = 2" "th_flags (pk_transport r) = 0"
    "th_tx_sequence (pk_transport r) = fst kb" "th_rx_sequence (pk_transport r) = snd kb"
    using call_in [OF nz refl w] by blast
  have "hear r now_ms (idle_peer ((circuit_new (fst ka) (snd ka) node_a node_b oa)\<lparr>ck_state := Connecting,
      ck_connect_user := Some user, ck_control_timer_armed := True,
      ck_control_deadline := now_ms + co_retransmit_timeout_ms oa\<rparr>)) =
    (idle_peer (opened_a user now_ms ka node_a oa kb node_b w), [])"
    using answer_in [OF r(2) [unfolded w] r(3,4) refl] by (simp add: r opened_a_def w circuit_new_def)
  then show ?thesis
    by (simp add: link_open_def q r Let_def opened_b_def) (simp add: circuit_new_def)
qed

lemma link_open_inv:
  assumes "callsign_wf user" "callsign_wf node_a"
  shows "link_inv (link_open user now_ms ka node_a oa kb node_b ob)"
proof -
  define w where "w = clamp (min (clamp (co_window_size oa) 1 127) (co_window_size ob)) 1 127"
  have "unat w \<le> 127"
    by (simp add: w_def clamp_range)
  then have "unat (min (co_window_size oa) w) \<le> 127"
    by (simp add: min_def word_le_nat_alt)
  then have "positions (link_open user now_ms ka node_a oa kb node_b ob) 0 0 0 0 0 0"
    using \<open>unat w \<le> 127\<close>
    by (simp add: link_open_eq [OF assms w_def] positions_def speaks_def sends_def receives_def established_def
        fragments_of_def stream_def idle_peer_def opened_a_def opened_b_def circuit_new_def assemble_def)
  then show ?thesis
    by (rule link_invI) (simp_all add: link_open_eq [OF assms w_def] quiet_def idle_peer_def opened_a_def
        opened_b_def circuit_new_def)
qed

section \<open>Properties\<close>

definition sample_history :: "link_event list" where
  "sample_history = [AtA (Call (Submit [104, 105] 0)), AtB (Lose 0), AtA (Call (Timer 5000)), AtB (Arrive 5001),
     AtA (Arrive 5002)]"

definition sample_link :: link where
  "sample_link = link_open (sample [65]) 0 (1, 1) (sample [65]) CIRCUIT_DEFAULT (2, 7) (sample [66]) CIRCUIT_DEFAULT"

lemma sample_callsign_wf: "callsign_wf (sample [b])" if "is_base_byte b" for b
  using that by (auto simp: sample_def callsign_wf_def padded_def MAX_BASE_LEN_def intro!: exI [of _ "[b]"])

lemma sample_A: "callsign_wf (sample [65])"
  by (rule sample_callsign_wf) (simp add: is_base_byte_def is_ascii_uppercase_def)

lemma sample_link: "sample_link =
  \<lparr>lk_a = idle_peer (opened_a (sample [65]) 0 (1, 1) (sample [65]) CIRCUIT_DEFAULT (2, 7) (sample [66]) 4),
   lk_b = idle_peer (opened_b (1, 1) (sample [65]) (2, 7) (sample [66]) CIRCUIT_DEFAULT 4), lk_ab = [], lk_ba = []\<rparr>"
  unfolding sample_link_def
  by (subst link_open_eq [OF sample_A sample_A refl]) (simp add: CIRCUIT_DEFAULT_def clamp_def)

lemma sample_run:
  "ck_state (pr_circuit (lk_a (fold link_step sample_history sample_link))) = Connected \<and>
   ck_unacked (pr_circuit (lk_a (fold link_step sample_history sample_link))) = [] \<and>
   ck_send_queue (pr_circuit (lk_a (fold link_step sample_history sample_link))) = [] \<and>
   pr_sent (lk_a (fold link_step sample_history sample_link)) = [[104, 105]]"
  by (simp add: sample_history_def sample_link idle_peer_def opened_a_def opened_b_def circuit_new_def
      CIRCUIT_DEFAULT_def at_a_def call_peer_def hear_def drain_eq send_def fragments.simps pump_send_queue_def
      send_fragment_def send_information_def information_header_def emit_def flip_def Let_def
      MAX_PAYLOAD_def tick_def tick_information_def resend_def bump_def on_packet_def
      from_nibble_def OPCODE_MASK_def on_information_def on_information_acknowledge_def absorb_ack_def apply_peer_choke_def
      choke_def nak_def more_follows_def FLAG_CHOKE_def FLAG_NAK_def FLAG_MORE_FOLLOWS_def MAX_REASSEMBLY_BYTES_def
      deliver_def maybe_assert_choke_def fire_def send_information_acknowledge_def seq_acked_def)

text \<open>
  C7: the handshake agrees. A caller and a called end with windows in 1..127 come up connected, each
  holding the other's circuit key, with the smaller of the two windows at both ends, empty buffers,
  all sequence variables zero and nothing left on the channels; the caller's control timer is off.
\<close>

theorem handshake_agrees:
  assumes "callsign_wf user" "callsign_wf node_a"
    and "unat (co_window_size oa) \<in> {1..127}" "unat (co_window_size ob) \<in> {1..127}"
    and l_def: "l = link_open user now_ms ka node_a oa kb node_b ob"
  shows "(\<forall>c \<in> {pr_circuit (lk_a l), pr_circuit (lk_b l)}.
      ck_state c = Connected \<and> ck_window c = min (co_window_size oa) (co_window_size ob) \<and>
      ck_vs c = 0 \<and> ck_vr c = 0 \<and> ck_unacked c = [] \<and> ck_send_queue c = [] \<and> ck_reassembly c = [] \<and>
      \<not> ck_control_timer_armed c) \<and>
    (ck_remote_index (pr_circuit (lk_a l)), ck_remote_id (pr_circuit (lk_a l))) = kb \<and>
    (ck_remote_index (pr_circuit (lk_b l)), ck_remote_id (pr_circuit (lk_b l))) = ka \<and>
    lk_ab l = [] \<and> lk_ba l = []"
proof -
  have "clamp (co_window_size oa) 1 127 = co_window_size oa"
    "clamp (min (co_window_size oa) (co_window_size ob)) 1 127 = min (co_window_size oa) (co_window_size ob)"
    using assms(3,4) by (auto simp: clamp_def word_less_nat_alt min_def not_less)
  then show ?thesis
    unfolding l_def link_open_eq [OF assms(1,2) refl]
    by (simp add: idle_peer_def opened_a_def opened_b_def circuit_new_def)
qed

theorem handshake_agrees_witness: "ck_window (pr_circuit (lk_b sample_link)) = 4"
  using handshake_agrees [OF sample_A sample_A _ _ sample_link_def]
  by (simp add: CIRCUIT_DEFAULT_def)

text \<open>
  C1: the transport is reliable. After the handshake, whatever the two owners call, whatever the clocks
  read and whichever datagrams are lost, each end delivers a prefix of the messages the other end's
  circuit took from its owner: whole, in order, once each.
\<close>

theorem reliable_transfer:
  assumes "callsign_wf user" "callsign_wf node_a"
    and l_def: "l = fold link_step es (link_open user now_ms ka node_a oa kb node_b ob)"
  shows "prefix (pr_received (lk_b l)) (pr_sent (lk_a l)) \<and> prefix (pr_received (lk_a l)) (pr_sent (lk_b l))"
proof -
  have "link_inv l"
    unfolding l_def by (intro link.run_inv link_open_inv assms)
  from direction_delivers(1) [OF this] direction_delivers(1) [OF link_inv_flip [OF this]]
  show ?thesis
    by (simp add: flip_def)
qed

theorem reliable_transfer_witness:
  "pr_received (lk_b (fold link_step sample_history sample_link)) \<in> {[], [[104, 105]]}"
  using reliable_transfer [OF sample_A sample_A refl, of sample_history 0 "(1, 1)" CIRCUIT_DEFAULT "(2, 7)"
      "sample [66]" CIRCUIT_DEFAULT] sample_run
  by (auto simp: prefix_Cons simp flip: sample_link_def)

text \<open>
  C2: an acknowledgement is a delivery. In any history, when a connected end has nothing unsent and
  nothing unacknowledged, the other end has delivered every message that was sent.
\<close>

theorem acknowledged_is_delivered:
  assumes "callsign_wf user" "callsign_wf node_a"
    and l_def: "l = fold link_step es (link_open user now_ms ka node_a oa kb node_b ob)"
    and "ck_state (pr_circuit (lk_a l)) = Connected" "ck_unacked (pr_circuit (lk_a l)) = []"
      "ck_send_queue (pr_circuit (lk_a l)) = []"
  shows "pr_received (lk_b l) = pr_sent (lk_a l)"
proof (rule direction_delivers(2) [OF _ assms(4-6)])
  show "link_inv l"
    unfolding l_def by (intro link.run_inv link_open_inv assms)
qed

theorem acknowledged_is_delivered_witness:
  "pr_received (lk_b (fold link_step sample_history sample_link)) = [[104, 105]]"
  using acknowledged_is_delivered [OF sample_A sample_A refl, of sample_history 0 "(1, 1)" CIRCUIT_DEFAULT "(2, 7)"
      "sample [66]" CIRCUIT_DEFAULT] sample_run
  by (simp flip: sample_link_def)

end
