(* ===== verification/Netrom_Silence.thy ===== *)
theory Netrom_Silence
  imports Netrom_Circuit_Inv
begin

text \<open>
  What a circuit does when no answer comes: it repeats what it awaits an answer to on every overdue
  tick, and gives up after the configured number of retries. A connect request, a disconnect request
  and the frames in flight are treated alike through the notions of waiting, being due and tries.
\<close>

definition waiting :: "circuit \<Rightarrow> bool" where
  "waiting c \<longleftrightarrow> ck_state c \<in> {Connecting, Disconnecting} \<or> (ck_state c = Connected \<and> ck_unacked c \<noteq> [])"

definition due_at :: "circuit \<Rightarrow> u64" where
  "due_at c = (if ck_state c = Connected then ua_sent_at (hd (ck_unacked c)) + co_retransmit_timeout_ms (ck_options c)
     else ck_control_deadline c)"

definition tries :: "circuit \<Rightarrow> u8" where
  "tries c = (if ck_state c = Connected then ua_retries (hd (ck_unacked c)) else ck_control_retries c)"

fun overdue :: "u64 list \<Rightarrow> circuit \<Rightarrow> bool" where
  "overdue [] c \<longleftrightarrow> True"
| "overdue (t # ts) c \<longleftrightarrow> due_at c \<le> t \<and> overdue ts (tick t c)"

lemma not_connected_tick_information: "ck_state c \<noteq> Connected \<Longrightarrow> tick_information t c = c"
  by (simp add: tick_information_def split: list.split)

lemma u8_succ:
  fixes a b :: u8
  assumes "a < b"
  shows "saturating_add a 1 = a + 1" "unat (a + 1) = Suc (unat a)"
proof -
  have "unat a + 1 < 256"
    using assms unat_u8_le [of b] by (simp add: word_less_nat_alt)
  then show "saturating_add a 1 = a + 1" "unat (a + 1) = Suc (unat a)"
    by (simp_all add: saturating_add_def unat_word_ariths)
qed

lemma tick_retries:
  assumes "circuit_inv c" "waiting c" "due_at c \<le> t" "tries c < co_max_retries (ck_options c)"
  shows "waiting (tick t c) \<and> ck_state (tick t c) = ck_state c \<and> tries (tick t c) = tries c + 1 \<and>
    ck_events (tick t c) = ck_events c \<and> ck_outbox (tick t c) \<noteq> ck_outbox c"
proof (cases "ck_state c = Connected")
  case True
  then obtain u us where us: "ck_unacked c = u # us"
    using assms(2) by (cases "ck_unacked c") (auto simp: waiting_def)
  have "\<not> ck_control_timer_armed c"
    using True assms(1) by (simp add: inv_defs)
  then have "tick t c = (resend (u # us) c)\<lparr>ck_unacked := map (bump t) (u # us)\<rparr>"
    using assms(3,4) True us by (simp add: tick_def tick_information_def due_at_def tries_def not_less not_le)
  then show ?thesis
    using assms(4) True us u8_succ(1) [of "ua_retries u"]
    by (simp add: resend_eq waiting_def tries_def bump_def)
next
  case False
  then have st: "ck_state c \<in> {Connecting, Disconnecting}" "ck_control_timer_armed c"
    using assms(1,2) by (auto simp: waiting_def inv_defs)
  then show ?thesis
    using assms(3,4) by (auto simp: tick_def due_at_def tries_def not_le waiting_def Let_def arm_control_timer_def
        not_connected_tick_information send_connect_request_def send_defs)
qed

lemma tick_gives_up:
  assumes "circuit_inv c" "waiting c" "due_at c \<le> t" "\<not> tries c < co_max_retries (ck_options c)"
  shows "ck_state (tick t c) = Disconnected \<and> ck_events (tick t c) = ck_events c @ [Closed Timeout] \<and>
    ck_outbox (tick t c) = ck_outbox c"
proof (cases "ck_state c = Connected")
  case True
  then obtain u us where us: "ck_unacked c = u # us"
    using assms(2) by (cases "ck_unacked c") (auto simp: waiting_def)
  have "\<not> ck_control_timer_armed c"
    using True assms(1) by (simp add: inv_defs)
  then show ?thesis
    using assms(3,4) True us
    by (simp add: tick_def tick_information_def due_at_def tries_def not_less not_le close_def fire_def)
next
  case False
  then have "ck_state c \<noteq> Disconnected" "ck_control_timer_armed c"
    using assms(1,2) by (auto simp: waiting_def inv_defs)
  then show ?thesis
    using assms(3,4) False by (simp add: tick_def due_at_def tries_def not_less close_def fire_def)
qed

lemma tick_options: "ck_options (tick t c) = ck_options c"
  using circuit_step_options [of "Tick t" c] by simp

lemma fold_take_Suc: "k < length ts \<Longrightarrow> fold f (take (Suc k) ts) c = f (ts ! k) (fold f (take k ts) c)"
  by (simp add: take_Suc_conv_app_nth)

lemma retrying:
  assumes "circuit_inv c" "waiting c" "tries c = 0" "overdue ts c"
    and "k \<le> length ts" "k \<le> unat (co_max_retries (ck_options c))"
  shows "circuit_inv (fold tick (take k ts) c) \<and> waiting (fold tick (take k ts) c) \<and>
    unat (tries (fold tick (take k ts) c)) = k \<and> overdue (drop k ts) (fold tick (take k ts) c) \<and>
    ck_options (fold tick (take k ts) c) = ck_options c \<and> ck_state (fold tick (take k ts) c) = ck_state c \<and>
    ck_events (fold tick (take k ts) c) = ck_events c"
  using assms(5,6)
proof (induction k)
  case 0
  then show ?case
    using assms by simp
next
  case (Suc k)
  define d where "d = fold tick (take k ts) c"
  have d: "circuit_inv d" "waiting d" "unat (tries d) = k" "overdue (ts ! k # drop (Suc k) ts) d"
    "ck_options d = ck_options c" "ck_state d = ck_state c" "ck_events d = ck_events c"
    using Suc by (simp_all add: d_def Cons_nth_drop_Suc)
  have lt: "tries d < co_max_retries (ck_options d)"
    using d(3,5) Suc.prems by (simp add: word_less_nat_alt)
  have "circuit_inv (tick (ts ! k) d)" "unat (tries d + 1) = Suc k"
    using d tick_inv u8_succ(2) [OF lt] by simp_all
  then show ?case
    using Suc.prems(1) d tick_retries [OF d(1,2) _ lt, of "ts ! k"]
    by (simp add: fold_take_Suc tick_options flip: d_def)
qed

text \<open>
  C4: silence ends a circuit. A circuit that awaits an answer, to its connect request, to its disconnect
  request or to the frames in flight, and has not repeated it yet, stays up for as many overdue ticks as
  its retry limit, repeating the request on each, and the next overdue tick closes it with the
  timeout reported to its owner exactly once.
\<close>

theorem silence_closes:
  assumes "circuit_inv c" "waiting c" "tries c = 0" "overdue (ts @ [t]) c"
    and "length ts = unat (co_max_retries (ck_options c))"
  shows "(\<forall>k \<le> length ts. ck_state (fold tick (take k ts) c) = ck_state c \<and> ck_events (fold tick (take k ts) c) = ck_events c \<and>
      (k < length ts \<longrightarrow> ck_outbox (fold tick (take (Suc k) ts) c) \<noteq> ck_outbox (fold tick (take k ts) c))) \<and>
    ck_state (fold tick (ts @ [t]) c) = Disconnected \<and>
    ck_events (fold tick (ts @ [t]) c) = ck_events c @ [Closed Timeout]"
proof (intro conjI allI impI)
  fix k
  assume k: "k \<le> length ts"
  then have d: "circuit_inv (fold tick (take k ts) c)" "waiting (fold tick (take k ts) c)"
      "unat (tries (fold tick (take k ts) c)) = k" "overdue (drop k (ts @ [t])) (fold tick (take k ts) c)"
      "ck_options (fold tick (take k ts) c) = ck_options c"
    and e: "ck_state (fold tick (take k ts) c) = ck_state c" "ck_events (fold tick (take k ts) c) = ck_events c"
    using retrying [OF assms(1-4), of k] assms(5) by simp_all
  show "ck_state (fold tick (take k ts) c) = ck_state c" "ck_events (fold tick (take k ts) c) = ck_events c"
    by (fact e)+
  assume lt: "k < length ts"
  then have "tries (fold tick (take k ts) c) < co_max_retries (ck_options (fold tick (take k ts) c))"
    using d(3,5) assms(5) by (simp add: word_less_nat_alt)
  moreover have "due_at (fold tick (take k ts) c) \<le> ts ! k"
    using d(4) lt by (simp add: Cons_nth_drop_Suc [symmetric])
  ultimately show "ck_outbox (fold tick (take (Suc k) ts) c) \<noteq> ck_outbox (fold tick (take k ts) c)"
    using tick_retries [OF d(1,2)] lt by (simp add: fold_take_Suc)
next
  have d: "circuit_inv (fold tick ts c)" "waiting (fold tick ts c)"
      "unat (tries (fold tick ts c)) = length ts" "overdue [t] (fold tick ts c)"
      "ck_options (fold tick ts c) = ck_options c" "ck_events (fold tick ts c) = ck_events c"
    using retrying [OF assms(1-4), of "length ts"] assms(5) by simp_all
  then have "\<not> tries (fold tick ts c) < co_max_retries (ck_options (fold tick ts c))"
    using assms(5) by (simp add: word_less_nat_alt)
  from tick_gives_up [OF d(1,2) _ this, of t]
  show "ck_state (fold tick (ts @ [t]) c) = Disconnected"
    "ck_events (fold tick (ts @ [t]) c) = ck_events c @ [Closed Timeout]"
    using d(4,6) by simp_all
qed

definition sample_caller :: circuit where
  "sample_caller = connect (sample [65]) 0
     (circuit_new 1 1 (sample [65]) (sample [66]) (CIRCUIT_DEFAULT\<lparr>co_max_retries := 1\<rparr>))"

theorem silence_closes_witness:
  "ck_events (fold tick ([5000] @ [10000]) sample_caller) = [Closed Timeout]"
proof -
  have "circuit_inv sample_caller"
    unfolding sample_caller_def by (intro connect_inv circuit_new_inv) (simp add: options_ok_def CIRCUIT_DEFAULT_def)
  moreover have "waiting sample_caller" "tries sample_caller = 0" "ck_events sample_caller = []"
      "ck_options sample_caller = CIRCUIT_DEFAULT\<lparr>co_max_retries := 1\<rparr>"
    by (simp_all add: sample_caller_def waiting_def tries_def connect_def circuit_new_def arm_control_timer_def
        send_connect_request_def emit_def Let_def)
  moreover have "overdue ([5000] @ [10000]) sample_caller"
    by (simp add: sample_caller_def due_at_def connect_def circuit_new_def arm_control_timer_def CIRCUIT_DEFAULT_def
        send_connect_request_def emit_def tick_def tick_information_def Let_def close_def)
  ultimately show ?thesis
    using silence_closes [of sample_caller "[5000]" 10000] by (simp add: CIRCUIT_DEFAULT_def)
qed

end
