(* ===== verification/Netrom_Service.thy ===== *)
theory Netrom_Service
  imports Netrom_Views Ax25_Frame
begin

text \<open>
  The NET/ROM service of a node (\<open>netrom/mod.rs\<close>): the tap that reads every frame the node hears, passes
  NODES broadcasts to the routing table, and shows the table to the rest of the node.
\<close>

section \<open>State\<close>

definition PID_NETROM :: u8 where "PID_NETROM = 0xCF"
definition MAX_PORT_ID_LEN :: nat where "MAX_PORT_ID_LEN = 16"
definition MAX_DESTINATIONS :: nat where "MAX_DESTINATIONS = 128"
definition MAX_ROUTES_PER_DEST :: nat where "MAX_ROUTES_PER_DEST = 3"
definition MAX_NEIGHBOURS :: nat where "MAX_NEIGHBOURS = 32"

definition port_id_from_str :: "str \<Rightarrow> port_id" where
  "port_id_from_str s = take MAX_PORT_ID_LEN (utf8 s)"

definition node_table :: "routing_options \<Rightarrow> table" where
  "node_table options = table_new MAX_DESTINATIONS MAX_ROUTES_PER_DEST MAX_NEIGHBOURS options"

datatype observe_outcome =
  Disabled | NotUi | NotNetRom | NotNodesDestination | Unparseable | Ingested nat

record service =
  sv_enabled :: bool
  sv_table :: table

definition service_with_options :: "bool \<Rightarrow> routing_options \<Rightarrow> service" where
  "service_with_options enabled options = \<lparr>sv_enabled = enabled, sv_table = node_table options\<rparr>"

definition service_new :: service where
  "service_new = service_with_options True ROUTING_DEFAULT"

section \<open>Operations\<close>

definition is_nodes_destination :: "callsign \<Rightarrow> bool" where
  "is_nodes_destination dest \<longleftrightarrow> ssid dest = 0 \<and> base dest = [0x4E, 0x4F, 0x44, 0x45, 0x53]"

definition observe_frame :: "frame \<Rightarrow> callsign \<Rightarrow> port_id \<Rightarrow> u64 \<Rightarrow> service \<Rightarrow> service \<times> observe_outcome" where
  "observe_frame f my_call port now s =
     (if \<not> sv_enabled s then (s, Disabled)
      else if \<not> is_ui f then (s, NotUi)
      else if fr_pid f \<noteq> Some PID_NETROM then (s, NotNetRom)
      else if \<not> is_nodes_destination (ad_callsign (fr_destination f)) then (s, NotNodesDestination)
      else
        case nodes_parse (fr_info f) of
          None \<Rightarrow> (s, Unparseable)
        | Some broadcast \<Rightarrow>
            (s\<lparr>sv_table := ingest (ad_callsign (fr_source f)) my_call port broadcast now (sv_table s)\<rparr>,
             Ingested (entry_count broadcast)))"

definition ingest_broadcast :: "callsign \<Rightarrow> callsign \<Rightarrow> port_id \<Rightarrow> nodes_broadcast \<Rightarrow> u64 \<Rightarrow> service \<Rightarrow> service" where
  "ingest_broadcast originator my_call port broadcast now s =
     (if sv_enabled s then s\<lparr>sv_table := ingest originator my_call port broadcast now (sv_table s)\<rparr> else s)"

definition service_sweep :: "service \<Rightarrow> service \<times> nat" where
  "service_sweep s =
     (if sv_enabled s then (let (t, purged) = sweep (sv_table s) in (s\<lparr>sv_table := t\<rparr>, purged)) else (s, 0))"

definition service_ingest_rif :: "callsign \<Rightarrow> callsign \<Rightarrow> u32 \<Rightarrow> rif \<Rightarrow> u32 \<Rightarrow> service \<Rightarrow> service" where
  "service_ingest_rif received_from my_call sntt_ms f hop_limit s =
     (if sv_enabled s then s\<lparr>sv_table := ingest_rif received_from my_call sntt_ms f hop_limit (sv_table s)\<rparr> else s)"

definition service_build_rif :: "callsign \<Rightarrow> callsign \<Rightarrow> callsign list \<Rightarrow> service \<Rightarrow> rif" where
  "service_build_rif my_call to_target withdrawn s = build_rif my_call to_target withdrawn (sv_table s)"

definition service_drain_withdrawn :: "service \<Rightarrow> service \<times> callsign list" where
  "service_drain_withdrawn s =
     (let (t, ws) = drain_recently_withdrawn (sv_table s) in (s\<lparr>sv_table := t\<rparr>, ws))"

definition service_destination_count :: "service \<Rightarrow> nat" where
  "service_destination_count s = (if sv_enabled s then destination_count (sv_table s) else 0)"

definition service_neighbour_count :: "service \<Rightarrow> nat" where
  "service_neighbour_count s = (if sv_enabled s then neighbour_count (sv_table s) else 0)"

definition service_neighbours :: "service \<Rightarrow> neighbour_state list" where
  "service_neighbours s = (if sv_enabled s then neighbours (sv_table s) else [])"

definition service_destinations :: "service \<Rightarrow> destination_view list" where
  "service_destinations s = (if sv_enabled s then destinations (sv_table s) else [])"

definition service_routes :: "service \<Rightarrow> callsign \<Rightarrow> route_state list" where
  "service_routes s dest = (if sv_enabled s then kept_routes (sv_table s) dest else [])"

text \<open>\<open>route_lines\<close>: a line of text for each destination with a route; the text is its UTF-8 bytes.\<close>

definition number :: "nat \<Rightarrow> bytes" where
  "number n = utf8 (decimal n)"

definition shown_call :: "callsign \<Rightarrow> bytes" where
  "shown_call c = (case snd (write_display c (replicate 16 0)) of
     None \<Rightarrow> [] | Some n \<Rightarrow> take n (fst (write_display c (replicate 16 0))))"

definition route_line :: "destination_view \<Rightarrow> bytes option" where
  "route_line d =
     map_option (\<lambda>r.
       shown_call (dv_destination d) @
       (if alias_is_empty (dv_alias d) then [] else 0x3A # as_bytes (dv_alias d)) @
       [0x20, 0x76, 0x69, 0x61, 0x20] @ shown_call (rs_neighbour r) @
       [0x20, 0x71, 0x3D] @ number (unat (rs_quality r)) @
       [0x20, 0x6F, 0x62, 0x73, 0x3D] @ number (unat (rs_obsolescence r)) @
       (case rs_inp3 r of
          None \<Rightarrow> []
        | Some m \<Rightarrow> [0x20, 0x5B, 0x69, 0x6E, 0x70, 0x33, 0x20] @ number (unat (im_target_time_ms m)) @
            [0x6D, 0x73, 0x2F] @ number (unat (im_hop_count m)) @ [0x68, 0x5D])) (dv_best_route d)"

definition route_lines :: "service \<Rightarrow> bytes list" where
  "route_lines s = (if sv_enabled s then List.map_filter route_line (destinations (sv_table s)) else [])"


section \<open>The service as a history of its table\<close>

datatype service_call =
  Observed frame callsign port_id u64
| Broadcast callsign callsign port_id nodes_broadcast u64
| Sweep
| RifReceived callsign callsign u32 rif u32
| DrainWithdrawn

fun service_step :: "service_call \<Rightarrow> service \<Rightarrow> service" where
  "service_step (Observed f me port now) s = fst (observe_frame f me port now s)"
| "service_step (Broadcast originator me port b now) s = ingest_broadcast originator me port b now s"
| "service_step Sweep s = fst (service_sweep s)"
| "service_step (RifReceived nb me sntt f limit) s = service_ingest_rif nb me sntt f limit s"
| "service_step DrainWithdrawn s = fst (service_drain_withdrawn s)"

text \<open>The one kind of frame that is learned from, and what each call means for the table.\<close>

definition nodes_frame :: "frame \<Rightarrow> nodes_broadcast option" where
  "nodes_frame f = (if is_ui f \<and> fr_pid f = Some PID_NETROM \<and> is_nodes_destination (ad_callsign (fr_destination f))
     then nodes_parse (fr_info f) else None)"

fun table_events :: "service_call \<Rightarrow> table_event list" where
  "table_events (Observed f me port now) =
     (case nodes_frame f of None \<Rightarrow> [] | Some b \<Rightarrow> [Heard (ad_callsign (fr_source f)) me port b now])"
| "table_events (Broadcast originator me port b now) = [Heard originator me port b now]"
| "table_events Sweep = [Swept]"
| "table_events (RifReceived nb me sntt f limit) = [Timed nb me sntt f limit]"
| "table_events DrainWithdrawn = [WithdrawalsTaken]"

fun call_received :: "service_call \<Rightarrow> bool" where
  "call_received (Observed f me port now) \<longleftrightarrow> callsign_wf (ad_callsign (fr_source f))"
| "call_received (Broadcast originator me port b now) \<longleftrightarrow> callsign_wf originator \<and> (\<exists>i. nodes_parse i = Some b)"
| "call_received (RifReceived nb me sntt f limit) \<longleftrightarrow> callsign_wf nb \<and> (\<exists>i opts. rif_try_parse_with i opts = Some f)"
| "call_received call \<longleftrightarrow> True"

lemma observe_frame_eq:
  "observe_frame f me port now s =
     (if \<not> sv_enabled s then (s, Disabled)
      else case nodes_frame f of
        Some b \<Rightarrow> (s\<lparr>sv_table := ingest (ad_callsign (fr_source f)) me port b now (sv_table s)\<rparr>, Ingested (entry_count b))
      | None \<Rightarrow> (s, if \<not> is_ui f then NotUi else if fr_pid f \<noteq> Some PID_NETROM then NotNetRom
                   else if \<not> is_nodes_destination (ad_callsign (fr_destination f)) then NotNodesDestination
                   else Unparseable))"
  by (auto simp: observe_frame_def nodes_frame_def split: option.split)

lemma service_step_enabled [simp]: "sv_enabled (service_step c s) = sv_enabled s"
  by (cases c) (auto simp: observe_frame_eq ingest_broadcast_def service_sweep_def service_ingest_rif_def
      service_drain_withdrawn_def split: option.split prod.split)

lemma service_step_table:
  "sv_enabled s \<Longrightarrow> sv_table (service_step c s) = fold table_step (table_events c) (sv_table s)"
  by (cases c) (auto simp: observe_frame_eq ingest_broadcast_def service_sweep_def service_ingest_rif_def
      service_drain_withdrawn_def split: option.split prod.split)

lemma service_run_table:
  "sv_enabled s \<Longrightarrow> sv_table (fold service_step cs s) = fold table_step (concat (map table_events cs)) (sv_table s) \<and>
    sv_enabled (fold service_step cs s)"
  by (induction cs arbitrary: s) (simp_all add: service_step_table)

lemma disabled_step:
  "\<not> sv_enabled s \<Longrightarrow> rt_recently_withdrawn (sv_table s) = [] \<Longrightarrow> service_step c s = s"
  by (cases c) (auto simp: observe_frame_eq ingest_broadcast_def service_sweep_def service_ingest_rif_def
      service_drain_withdrawn_def drain_recently_withdrawn_def split: option.split prod.split)

lemma disabled_run:
  "\<not> sv_enabled s \<Longrightarrow> rt_recently_withdrawn (sv_table s) = [] \<Longrightarrow> fold service_step cs s = s"
  by (induction cs) (simp_all add: disabled_step)

lemma table_events_received: "call_received c \<Longrightarrow> list_all received (table_events c)"
proof (cases c)
  case (Observed f me port now)
  assume "call_received c"
  then show ?thesis
    by (auto simp: Observed nodes_frame_def nodes_parse_def split: option.split)
qed (auto simp: nodes_parse_def)

text \<open>
  C17: The service is its routing table under the tap. Over any calls with frames and fields that were
  decoded, an enabled service holds exactly the table of the broadcasts, measured times and sweeps among
  them, and a frame counts as a broadcast exactly if it is UI with the NET/ROM PID to \<open>NODES\<close> and parses;
  a disabled service holds the empty table. Hence no more destinations and neighbours than its capacity.
\<close>

theorem service_refines_table:
  assumes "list_all call_received cs" and s_def: "s = fold service_step cs (service_with_options enabled options)"
  shows "\<exists>es. list_all received es \<and> sv_table s = fold table_step es (node_table options) \<and>
    es = (if enabled then concat (map table_events cs) else []) \<and> sv_enabled s = enabled \<and>
    snd (observe_frame f me port now s) =
      (if \<not> enabled then Disabled else case nodes_frame f of
         Some b \<Rightarrow> Ingested (entry_count b)
       | None \<Rightarrow> (if \<not> is_ui f then NotUi else if fr_pid f \<noteq> Some PID_NETROM then NotNetRom
           else if \<not> is_nodes_destination (ad_callsign (fr_destination f)) then NotNodesDestination else Unparseable)) \<and>
    service_destination_count s \<le> 128 \<and> service_neighbour_count s \<le> 32 \<and>
    (\<not> enabled \<longrightarrow> service_destinations s = [] \<and> service_neighbours s = [] \<and> route_lines s = [])"
proof -
  let ?s0 = "service_with_options enabled options"
  let ?es = "if enabled then concat (map table_events cs) else []"
  have start: "sv_enabled ?s0 = enabled" "sv_table ?s0 = node_table options" "rt_recently_withdrawn (sv_table ?s0) = []"
    by (simp_all add: service_with_options_def node_table_def table_new_def)
  have s: "sv_table s = fold table_step ?es (node_table options)" "sv_enabled s = enabled"
    using service_run_table [of ?s0 cs] disabled_run [of ?s0 cs] start by (auto simp: s_def)
  have "list_all received ?es"
    using assms(1) by (induction cs) (auto simp: table_events_received)
  moreover have "length (rt_destinations (sv_table s)) = 128" "length (rt_neighbours (sv_table s)) = 32"
    using run_capacity [of ?es "node_table options"] unfolding s(1)
    by (simp_all add: node_table_def table_new_def MAX_DESTINATIONS_def MAX_NEIGHBOURS_def)
  then have "service_destination_count s \<le> 128" "service_neighbour_count s \<le> 32"
    using length_slot_items [of "rt_destinations (sv_table s)"] length_slot_items [of "rt_neighbours (sv_table s)"]
    by (simp_all add: service_destination_count_def service_neighbour_count_def destination_count_def neighbour_count_def)
  moreover have "\<not> enabled \<Longrightarrow> service_destinations s = [] \<and> service_neighbours s = [] \<and> route_lines s = []"
    using s(2) by (simp add: service_destinations_def service_neighbours_def route_lines_def)
  ultimately show ?thesis
    using s by (intro exI [of _ ?es]) (simp add: observe_frame_eq split: option.split)
qed


definition from_node :: "callsign \<Rightarrow> bytes \<Rightarrow> frame" where
  "from_node c info = \<lparr>fr_destination = \<lparr>ad_callsign = sample [0x4E, 0x4F, 0x44, 0x45, 0x53], ad_crh = True, ad_extension = False\<rparr>,
     fr_source = \<lparr>ad_callsign = c, ad_crh = False, ad_extension = True\<rparr>, fr_digipeaters = [], fr_control = CONTROL_UI,
     fr_pid = Some PID_NETROM, fr_info = info\<rparr>"

theorem service_refines_table_witness:
  "\<exists>es. list_all received es \<and>
    sv_table (fold service_step [Observed (from_node (sample [66]) []) (sample [65]) [] 0, Sweep] (service_with_options True ROUTING_DEFAULT)) =
      fold table_step es (node_table ROUTING_DEFAULT)"
proof -
  have "list_all call_received [Observed (from_node (sample [66]) []) (sample [65]) [] 0, Sweep]"
    using sample_wf [of "[66]"] by (simp add: from_node_def MAX_BASE_LEN_def is_base_byte_def ascii_defs)
  from service_refines_table [OF this refl] show ?thesis
    by blast
qed

section \<open>From one node to the next\<close>

lemma ingest_neighbours: "rt_neighbours (ingest originator me port b now t) =
    rt_neighbours (fst (ingest_neighbour originator port (nb_sender_alias b) now t))"
  by (simp add: ingest_def ingest_entries_fields split: prod.split)

lemma ingest_knows:
  assumes "table_inv t" "neighbour_entry t originator \<noteq> None \<or> slot_free (rt_neighbours t) \<noteq> None"
  shows "\<exists>n. neighbour_entry (ingest originator me port b now t) originator = Some n \<and>
    ns_alias n = nb_sender_alias b \<and> ns_port_id n = port \<and> ns_last_heard n = now"
proof -
  have d: "slots_distinct ns_neighbour (rt_neighbours t)"
    using assms(1) by (simp add: table_inv_def)
  obtain t1 pq where t1: "ingest_neighbour originator port (nb_sender_alias b) now t = (t1, pq)"
    by fastforce
  have d1: "slots_distinct ns_neighbour (rt_neighbours t1)"
    by (rule ingest_neighbour_distinct [OF t1 d])
  have "\<exists>n. Some n \<in> set (rt_neighbours t1) \<and> ns_neighbour n = originator \<and> ns_alias n = nb_sender_alias b \<and>
      ns_port_id n = port \<and> ns_last_heard n = now"
  proof (cases "neighbour_index t originator")
    case (Some i)
    then obtain n where "i < length (rt_neighbours t)" "rt_neighbours t ! i = Some n" "ns_neighbour n = originator"
      using slot_position_key [OF Some [unfolded neighbour_index_def] d] by blast
    then show ?thesis
      using t1 Some by (intro exI [of _ "n\<lparr>ns_alias := nb_sender_alias b, ns_port_id := port, ns_last_heard := now\<rparr>"])
        (auto simp: ingest_neighbour_def Let_def intro: set_update_memI)
  next
    case None
    then obtain i where "slot_free (rt_neighbours t) = Some i"
      using assms(2) by (auto simp: neighbour_entry_def)
    moreover from this have "i < length (rt_neighbours t)"
      using slot_free_Some by blast
    ultimately show ?thesis
      using t1 None by (intro exI [of _ "\<lparr>ns_neighbour = originator, ns_alias = nb_sender_alias b, ns_port_id = port,
          ns_path_quality = ro_default_neighbour_quality (rt_options t), ns_last_heard = now\<rparr>"])
        (auto simp: ingest_neighbour_def Let_def intro: set_update_memI)
  qed
  then obtain n where n: "Some n \<in> set (rt_neighbours t1)" "ns_neighbour n = originator" "ns_alias n = nb_sender_alias b"
    "ns_port_id n = port" "ns_last_heard n = now"
    by blast
  have eq: "rt_neighbours (ingest originator me port b now t) = rt_neighbours t1"
    by (simp add: ingest_neighbours t1)
  then have "neighbour_entry (ingest originator me port b now t) originator = Some n"
    using n d1 by (simp add: neighbour_entry_lookup slot_lookup_Some)
  then show ?thesis
    using n by blast
qed

lemma ingest_all_knows:
  assumes "table_inv t" "neighbour_entry t originator \<noteq> None \<or> slot_free (rt_neighbours t) \<noteq> None" "bs \<noteq> []"
    and "\<forall>b \<in> set bs. nb_sender_alias b = al"
  shows "\<exists>n. neighbour_entry (fold (\<lambda>b. ingest originator me port b now) bs t) originator = Some n \<and>
    ns_alias n = al \<and> ns_port_id n = port \<and> ns_last_heard n = now"
  using assms
proof (induction bs arbitrary: t)
  case (Cons b bs)
  obtain n where n: "neighbour_entry (ingest originator me port b now t) originator = Some n"
    "ns_alias n = al" "ns_port_id n = port" "ns_last_heard n = now"
    using ingest_knows [OF Cons.prems(1,2), of me port b now] Cons.prems(4) by auto
  show ?case
  proof (cases "bs = []")
    case True
    then show ?thesis
      using n by simp
  next
    case False
    then show ?thesis
      using Cons.IH [OF ingest_inv [OF Cons.prems(1)]] n(1) Cons.prems(4) by simp
  qed
qed simp

lemma observed_frames:
  assumes "map nodes_frame fs = map Some bs" "\<forall>f \<in> set fs. ad_callsign (fr_source f) = originator" "sv_enabled s"
  shows "fold service_step (map (\<lambda>f. Observed f me port now) fs) s =
      s\<lparr>sv_table := fold (\<lambda>b. ingest originator me port b now) bs (sv_table s)\<rparr>"
  using assms
proof (induction fs arbitrary: s bs)
  case (Cons f fs)
  then obtain b bs' where "bs = b # bs'" "nodes_frame f = Some b" "map nodes_frame fs = map Some bs'"
    by (cases bs) auto
  then show ?case
    using Cons by (simp add: observe_frame_eq)
qed simp




end
