(* ===== verification/Netrom_L3rtt.thy ===== *)
theory Netrom_L3rtt
  imports Netrom_Table
begin

text \<open>
  The link-time frame of INP3 (\<open>netrom/wire/inp3_l3rtt.rs\<close>): an ordinary datagram to \<open>L3RTT-0\<close> whose
  payload is a text of capability flags. The builder, the recogniser and the scan of the flags.
\<close>

section \<open>Data\<close>

definition L3RTT_BASE :: bytes where "L3RTT_BASE = [0x4C, 0x33, 0x52, 0x54, 0x54]"
definition L3RTT_SSID :: u8 where "L3RTT_SSID = 0"
definition L3RTT_OPCODE :: u8 where "L3RTT_OPCODE = 2"
definition DEFAULT_CAPABILITY_TEXT_WIDTH :: nat where "DEFAULT_CAPABILITY_TEXT_WIDTH = 8"

record l3rtt_frame =
  lf_network :: network_header
  lf_transport :: transport_header
  lf_inp3_capable :: bool
  lf_ip_accept :: "u8 option"
  lf_capability_text :: bytes

section \<open>Operations\<close>

definition capability_text :: "u8 option \<Rightarrow> nat \<Rightarrow> bytes" where
  "capability_text ip width =
     (let text = [0x24, 0x4E] @ (case ip of None \<Rightarrow> [] | Some v \<Rightarrow> [0x24, 0x49, 0x30 + v])
      in text @ replicate (width - length text) 0x20)"

definition l3rtt_build_with :: "callsign \<Rightarrow> u8 option \<Rightarrow> u8 \<Rightarrow> nat \<Rightarrow> l3rtt_frame option" where
  "l3rtt_build_with origin ip ttl width =
     (if (case ip of None \<Rightarrow> False | Some v \<Rightarrow> v > 9) then None
      else
        case callsign_new L3RTT_BASE L3RTT_SSID of
          None \<Rightarrow> None
        | Some destination \<Rightarrow>
            Some \<lparr>lf_network = \<lparr>nh_origin = origin, nh_destination = destination, nh_time_to_live = ttl\<rparr>,
                  lf_transport = \<lparr>th_circuit_index = 0, th_circuit_id = 0, th_tx_sequence = 0,
                    th_rx_sequence = 0, th_opcode = L3RTT_OPCODE, th_flags = 0\<rparr>,
                  lf_inp3_capable = True, lf_ip_accept = ip, lf_capability_text = capability_text ip width\<rparr>)"

definition l3rtt_build :: "callsign \<Rightarrow> u8 option \<Rightarrow> l3rtt_frame option" where
  "l3rtt_build origin ip = l3rtt_build_with origin ip DEFAULT_TIME_TO_LIVE DEFAULT_CAPABILITY_TEXT_WIDTH"

definition l3rtt_packet :: "l3rtt_frame \<Rightarrow> packet" where
  "l3rtt_packet f = \<lparr>pk_network = lf_network f, pk_transport = lf_transport f, pk_payload = lf_capability_text f\<rparr>"

definition l3rtt_to_bytes :: "l3rtt_frame \<Rightarrow> bytes panicking" where
  "l3rtt_to_bytes f =
     (case packet_encode (l3rtt_packet f) (replicate (PACKET_HEADER_LEN + length (lf_capability_text f)) 0) of
        None \<Rightarrow> None
      | Some (buf, r) \<Rightarrow> Some (take (case r of None \<Rightarrow> 0 | Some n \<Rightarrow> n) buf))"

definition is_l3rtt :: "packet \<Rightarrow> bool" where
  "is_l3rtt p \<longleftrightarrow> base (nh_destination (pk_network p)) = L3RTT_BASE \<and>
     th_opcode (pk_transport p) AND OPCODE_MASK = L3RTT_OPCODE"

text \<open>The loop of \<open>scan_capabilities\<close> over the text from index \<open>i\<close> on; a final \<open>$\<close> ends it.\<close>

fun scan_from :: "bytes \<Rightarrow> bool \<Rightarrow> u8 option \<Rightarrow> bool \<times> u8 option" where
  "scan_from [] capable ip = (capable, ip)"
| "scan_from (b # rest) capable ip =
     (if b \<noteq> 0x24 then scan_from rest capable ip
      else case rest of
        [] \<Rightarrow> (capable, ip)
      | kind # tail \<Rightarrow>
          if kind = 0x4E then scan_from rest True ip
          else if kind = 0x49 \<and> tail \<noteq> [] \<and> is_ascii_digit (hd tail) \<and> ip = None
          then scan_from rest capable (Some (hd tail - 0x30))
          else scan_from rest capable ip)"

definition scan_capabilities :: "bytes \<Rightarrow> bool \<times> u8 option" where
  "scan_capabilities text = scan_from text False None"

definition l3rtt_from_packet :: "packet \<Rightarrow> l3rtt_frame option" where
  "l3rtt_from_packet p =
     (if \<not> is_l3rtt p then None
      else
        let (capable, ip) = scan_capabilities (pk_payload p) in
        Some \<lparr>lf_network = pk_network p, lf_transport = pk_transport p, lf_inp3_capable = capable,
              lf_ip_accept = ip, lf_capability_text = pk_payload p\<rparr>)"

definition l3rtt_try_parse :: "bytes \<Rightarrow> l3rtt_frame option" where
  "l3rtt_try_parse info = (case packet_decode info of None \<Rightarrow> None | Some p \<Rightarrow> l3rtt_from_packet p)"

definition is_reflection_of :: "l3rtt_frame \<Rightarrow> callsign \<Rightarrow> bool" where
  "is_reflection_of f ours \<longleftrightarrow> nh_origin (lf_network f) = ours"

section \<open>The codec\<close>

lemma l3rtt_to_bytes_eq: "l3rtt_to_bytes f = Some (packet_octets (l3rtt_packet f))"
proof -
  let ?p = "l3rtt_packet f"
  have "length (packet_octets ?p) = PACKET_HEADER_LEN + length (lf_capability_text f)"
    by (simp add: packet_octets_def PACKET_HEADER_LEN_def l3rtt_packet_def)
  then show ?thesis
    using fillsD(1) [OF packet_encode_fills [of ?p],
        of "replicate (PACKET_HEADER_LEN + length (lf_capability_text f)) 0"]
    by (simp add: l3rtt_to_bytes_def l3rtt_packet_def overwrite_def)
qed

lemma packet_decode_octets: "packet_wf p \<Longrightarrow> packet_decode (packet_octets p) = Some p"
  using network.dec_enc [of "pk_network p" "transport_octets (pk_transport p) @ pk_payload p"]
  by (simp add: packet_decode_iff packet_wf_def packet_octets_def)

text \<open>A frame that the recogniser made is one of a packet, and it writes that packet back.\<close>

lemma l3rtt_from_packet_back: "l3rtt_from_packet p = Some f \<Longrightarrow> l3rtt_packet f = p"
  by (auto simp: l3rtt_from_packet_def l3rtt_packet_def split: if_splits prod.splits)

lemma scan_spaces [simp]: "scan_from (replicate n 0x20) c ip = (c, ip)"
  by (induction n) simp_all

lemma digit_byte:
  fixes v :: u8
  assumes "v \<le> 9"
  shows "is_ascii_digit (0x30 + v)" "0x30 + v \<noteq> 0x24"
proof -
  have "v \<in> set [0, 1, 2, 3, 4, 5, 6, 7, 8, 9]"
  proof -
    have "unat v \<le> 9"
      using assms by (simp add: word_le_nat_alt)
    then have "unat v \<in> {0, 1, 2, 3, 4, 5, 6, 7, 8, 9}"
      by auto
    then have "of_nat (unat v) \<in> (of_nat ` {0, 1, 2, 3, 4, 5, 6, 7, 8, 9} :: u8 set)"
      by (rule imageI)
    then show ?thesis
      by simp
  qed
  moreover have "list_all (\<lambda>v :: u8. is_ascii_digit (0x30 + v) \<and> 0x30 + v \<noteq> 0x24) [0, 1, 2, 3, 4, 5, 6, 7, 8, 9]"
    by code_simp
  ultimately show "is_ascii_digit (0x30 + v)" "0x30 + v \<noteq> 0x24"
    unfolding list_all_iff by blast+
qed

lemma scan_capability_text:
  assumes "\<And>v. ip = Some v \<Longrightarrow> v \<le> 9"
  shows "scan_capabilities (capability_text ip width) = (True, ip)"
proof (cases ip)
  case (Some v)
  then show ?thesis
    using digit_byte [OF assms [OF Some]]
    by (simp add: scan_capabilities_def capability_text_def)
next
  case None
  then show ?thesis
    by (cases width) (simp_all add: scan_capabilities_def capability_text_def split: list.split)
qed

lemma l3rtt_destination:
  "callsign_new L3RTT_BASE L3RTT_SSID = Some (sample L3RTT_BASE)"
  "callsign_wf (sample L3RTT_BASE)" "base (sample L3RTT_BASE) = L3RTT_BASE"
proof -
  show "callsign_new L3RTT_BASE L3RTT_SSID = Some (sample L3RTT_BASE)"
    by code_simp
  from callsign_new_Some [OF this]
  show "callsign_wf (sample L3RTT_BASE)" "base (sample L3RTT_BASE) = L3RTT_BASE"
    by simp_all
qed

lemma l3rtt_build_with_eq:
  "l3rtt_build_with origin ip ttl width =
     (if \<exists>v. ip = Some v \<and> 9 < v then None
      else Some \<lparr>lf_network = \<lparr>nh_origin = origin, nh_destination = sample L3RTT_BASE, nh_time_to_live = ttl\<rparr>,
                 lf_transport = \<lparr>th_circuit_index = 0, th_circuit_id = 0, th_tx_sequence = 0,
                   th_rx_sequence = 0, th_opcode = L3RTT_OPCODE, th_flags = 0\<rparr>,
                 lf_inp3_capable = True, lf_ip_accept = ip, lf_capability_text = capability_text ip width\<rparr>)"
  by (simp add: l3rtt_build_with_def l3rtt_destination split: option.splits)

lemma l3rtt_build_None: "l3rtt_build origin ip = None \<longleftrightarrow> (\<exists>v. ip = Some v \<and> 9 < v)"
  by (simp add: l3rtt_build_def l3rtt_build_with_eq)

lemma l3rtt_build_origin: "l3rtt_build origin ip = Some f \<Longrightarrow> is_reflection_of f origin"
  by (auto simp: l3rtt_build_def l3rtt_build_with_eq is_reflection_of_def split: if_splits)

lemma l3rtt_build_flags: "l3rtt_build origin ip = Some f \<Longrightarrow> lf_inp3_capable f \<and> lf_ip_accept f = ip"
  by (auto simp: l3rtt_build_def l3rtt_build_with_eq split: if_splits)

lemma built_is_recognised:
  assumes "l3rtt_build_with origin ip ttl width = Some f"
  shows "l3rtt_from_packet (l3rtt_packet f) = Some f"
proof -
  have ip: "v \<le> 9" if "ip = Some v" for v
    using assms that by (auto simp: l3rtt_build_with_eq not_less split: if_splits)
  have f: "f = \<lparr>lf_network = \<lparr>nh_origin = origin, nh_destination = sample L3RTT_BASE, nh_time_to_live = ttl\<rparr>,
      lf_transport = \<lparr>th_circuit_index = 0, th_circuit_id = 0, th_tx_sequence = 0,
        th_rx_sequence = 0, th_opcode = L3RTT_OPCODE, th_flags = 0\<rparr>,
      lf_inp3_capable = True, lf_ip_accept = ip, lf_capability_text = capability_text ip width\<rparr>"
    using assms by (auto simp: l3rtt_build_with_eq split: if_splits)
  have "L3RTT_OPCODE AND OPCODE_MASK = L3RTT_OPCODE"
    by code_simp
  then show ?thesis
    using scan_capability_text [OF ip]
    by (simp add: f l3rtt_from_packet_def l3rtt_packet_def is_l3rtt_def l3rtt_destination)
qed

lemma built_wf:
  assumes "l3rtt_build_with origin ip ttl width = Some f" "callsign_wf origin"
  shows "packet_wf (l3rtt_packet f)"
proof -
  have "L3RTT_OPCODE AND OPCODE_MASK = L3RTT_OPCODE"
    by code_simp
  then show ?thesis
    using assms l3rtt_destination(2)
    by (auto simp: l3rtt_build_with_eq packet_wf_def network_wf_def transport_wf_def l3rtt_packet_def split: if_splits)
qed

text \<open>
  A probe of an own callsign, with any TTL and text width, is built exactly when the advertised IP
  version is one digit; its bytes are 20 octets of headers and a text at least as wide as asked, and a
  receiver recognises them as the same frame, with the same flags. Of its origin it is a reflection.
\<close>

theorem l3rtt_roundtrip:
  assumes "callsign_wf origin"
  shows "case l3rtt_build_with origin ip ttl width of
      None \<Rightarrow> \<exists>v. ip = Some v \<and> 9 < v
    | Some f \<Rightarrow> (\<exists>bs. l3rtt_to_bytes f = Some bs \<and> l3rtt_try_parse bs = Some f \<and>
        length bs = 20 + max width (if ip = None then 2 else 5)) \<and>
        lf_inp3_capable f \<and> lf_ip_accept f = ip \<and> is_reflection_of f origin"
proof (cases "l3rtt_build_with origin ip ttl width")
  case None
  then show ?thesis
    by (simp add: l3rtt_build_with_eq split: if_splits)
next
  case (Some f)
  have "l3rtt_try_parse (packet_octets (l3rtt_packet f)) = Some f"
    using packet_decode_octets [OF built_wf [OF Some assms]] built_is_recognised [OF Some]
    by (simp add: l3rtt_try_parse_def)
  moreover have "lf_capability_text f = capability_text ip width" "lf_inp3_capable f" "lf_ip_accept f = ip"
    "is_reflection_of f origin"
    using Some by (auto simp: l3rtt_build_with_eq is_reflection_of_def split: if_splits)
  moreover have "length (capability_text ip width) = max width (if ip = None then 2 else 5)"
    by (auto simp: capability_text_def split: option.splits)
  ultimately show ?thesis
    using Some by (simp add: l3rtt_to_bytes_eq packet_octets_def l3rtt_packet_def NETWORK_HEADER_LEN_def
        TRANSPORT_HEADER_LEN_def SHIFTED_LENGTH_def ADDRESS_LEN_def)
qed

theorem l3rtt_roundtrip_witness:
  "case l3rtt_build_with (sample [0x4D, 0x30]) (Some 4) 25 8 of
      None \<Rightarrow> \<exists>v. Some 4 = Some v \<and> 9 < (v :: u8)
    | Some f \<Rightarrow> (\<exists>bs. l3rtt_to_bytes f = Some bs \<and> l3rtt_try_parse bs = Some f \<and>
        length bs = 20 + max 8 (if Some (4 :: u8) = None then 2 else 5)) \<and>
        lf_inp3_capable f \<and> lf_ip_accept f = Some 4 \<and> is_reflection_of f (sample [0x4D, 0x30])"
proof (rule l3rtt_roundtrip)
  show "callsign_wf (sample [0x4D, 0x30])"
    by (rule sample_wf) code_simp+
qed

end
