(* ===== verification/Netrom_Engine.thy ===== *)
theory Netrom_Engine
  imports Netrom_L3rtt Netrom_Sntt
begin

text \<open>
  Link timing of INP3: the options (\<open>netrom/wire/inp3_options.rs\<close>) and the engine
  (\<open>netrom/transport/inp3_engine.rs\<close>) that probes each neighbour, times the reflections, reflects the
  probes of its peers and signals a capable neighbour that has gone silent. A gain outside the range of
  the filter panics there, so processing a frame may panic.
\<close>

section \<open>Options\<close>

definition INP3_DEFAULT_CAPABILITY_TEXT_WIDTH :: u32 where "INP3_DEFAULT_CAPABILITY_TEXT_WIDTH = 8"

record inp3_options =
  io_l3_rtt_interval_ms :: u32
  io_l3_rtt_reset_window_ms :: u32
  io_sntt_gain_shift :: u8
  io_probe_unknown_capability :: bool
  io_advertise_ip_accept :: "u8 option"
  io_capability_text_width :: u32
  io_prefer_inp3_routes :: bool
  io_enabled :: bool
  io_hop_limit :: u8
  io_rif_interval_ms :: u32
  io_positive_debounce_ms :: u32
  io_worsen_threshold_ms :: u32

definition INP3_DEFAULT :: inp3_options where
  "INP3_DEFAULT = \<lparr>io_l3_rtt_interval_ms = 60000, io_l3_rtt_reset_window_ms = 180000, io_sntt_gain_shift = 3,
     io_probe_unknown_capability = True, io_advertise_ip_accept = None,
     io_capability_text_width = INP3_DEFAULT_CAPABILITY_TEXT_WIDTH, io_prefer_inp3_routes = False,
     io_enabled = False, io_hop_limit = 30, io_rif_interval_ms = 300000, io_positive_debounce_ms = 5000,
     io_worsen_threshold_ms = 1000\<rparr>"

text \<open>The messages of \<open>validate\<close>, by what they refuse.\<close>

datatype option_error =
  IntervalZero | WindowTooShort | GainShiftRange | IpNotADigit | HopLimitZero | RifIntervalZero
| DebounceZero | DebounceTooLong

definition inp3_validate :: "inp3_options \<Rightarrow> option_error + unit" where
  "inp3_validate o' =
     (if io_l3_rtt_interval_ms o' = 0 then Inl IntervalZero
      else if io_l3_rtt_reset_window_ms o' \<le> io_l3_rtt_interval_ms o' then Inl WindowTooShort
      else if io_sntt_gain_shift o' < 1 \<or> io_sntt_gain_shift o' > 8 then Inl GainShiftRange
      else if (case io_advertise_ip_accept o' of None \<Rightarrow> False | Some ip \<Rightarrow> ip > 9) then Inl IpNotADigit
      else if io_hop_limit o' < 1 then Inl HopLimitZero
      else if io_rif_interval_ms o' = 0 then Inl RifIntervalZero
      else if io_positive_debounce_ms o' = 0 then Inl DebounceZero
      else if io_positive_debounce_ms o' \<ge> io_rif_interval_ms o' then Inl DebounceTooLong
      else Inr ())"

section \<open>State\<close>

definition NEVER_PROBED :: u64 where "NEVER_PROBED = - 1"

record link_down =
  ld_neighbour :: callsign
  ld_silent_for_ms :: u64

record link_timing =
  lt_neighbour :: callsign
  lt_sntt_ms :: "u32 option"
  lt_inp3_capable :: bool
  lt_ip_accept :: "u8 option"
  lt_last_reflection_age_ms :: u64
  lt_awaiting_reflection :: bool

record link_state =
  ls_neighbour :: callsign
  ls_sntt_ms :: u32
  ls_last_l3rtt_sent_ms :: u64
  ls_last_reflection_ms :: u64
  ls_inp3_capable :: bool
  ls_ip_accept :: "u8 option"
  ls_awaiting_reflection :: bool

definition ls_initialised :: "link_state \<Rightarrow> bool" where
  "ls_initialised n \<longleftrightarrow> ls_sntt_ms n \<noteq> SNTT_UNSET"

record inp3_engine =
  ie_local_node :: callsign
  ie_options :: inp3_options
  ie_cadence_ms :: u64
  ie_reset_window_ms :: u64
  ie_neighbours :: "link_state list"
  ie_outbound :: "(callsign \<times> l3rtt_frame) list"
  ie_neighbour_down :: "link_down list"

section \<open>Operations\<close>

definition engine_new :: "callsign \<Rightarrow> inp3_options \<Rightarrow> inp3_engine" where
  "engine_new local_node opts =
     \<lparr>ie_local_node = local_node, ie_options = opts, ie_cadence_ms = ucast (io_l3_rtt_interval_ms opts),
      ie_reset_window_ms = ucast (io_l3_rtt_reset_window_ms opts), ie_neighbours = [], ie_outbound = [],
      ie_neighbour_down = []\<rparr>"

definition engine_set_local_node :: "callsign \<Rightarrow> inp3_engine \<Rightarrow> inp3_engine" where
  "engine_set_local_node node e = e\<lparr>ie_local_node := node\<rparr>"

definition fresh_link :: "callsign \<Rightarrow> u64 \<Rightarrow> link_state" where
  "fresh_link nb now = \<lparr>ls_neighbour = nb, ls_sntt_ms = SNTT_UNSET, ls_last_l3rtt_sent_ms = NEVER_PROBED,
     ls_last_reflection_ms = now, ls_inp3_capable = False, ls_ip_accept = None, ls_awaiting_reflection = False\<rparr>"

definition ensure_neighbour :: "callsign \<Rightarrow> u64 \<Rightarrow> inp3_engine \<Rightarrow> inp3_engine" where
  "ensure_neighbour nb now e =
     (if list_ex (\<lambda>n. ls_neighbour n = nb) (ie_neighbours e) then e
      else e\<lparr>ie_neighbours := ie_neighbours e @ [fresh_link nb now]\<rparr>)"

definition observe_neighbour :: "callsign \<Rightarrow> u64 \<Rightarrow> inp3_engine \<Rightarrow> inp3_engine" where
  "observe_neighbour nb now e = ensure_neighbour nb now e"

definition remove_neighbour :: "callsign \<Rightarrow> inp3_engine \<Rightarrow> inp3_engine" where
  "remove_neighbour nb e = e\<lparr>ie_neighbours := filter (\<lambda>n. ls_neighbour n \<noteq> nb) (ie_neighbours e)\<rparr>"

text \<open>\<open>tick\<close>: first the neighbours past the window leave, then those that stay may be probed.\<close>

definition silent_for :: "u64 \<Rightarrow> link_state \<Rightarrow> u64" where
  "silent_for now n = saturating_sub now (ls_last_reflection_ms n)"

definition expired :: "inp3_engine \<Rightarrow> u64 \<Rightarrow> link_state \<Rightarrow> bool" where
  "expired e now n \<longleftrightarrow> silent_for now n > ie_reset_window_ms e"

definition link_downs :: "inp3_engine \<Rightarrow> u64 \<Rightarrow> link_down list" where
  "link_downs e now = map (\<lambda>n. \<lparr>ld_neighbour = ls_neighbour n, ld_silent_for_ms = silent_for now n\<rparr>)
     (filter (\<lambda>n. expired e now n \<and> ls_inp3_capable n) (ie_neighbours e))"

definition probe_due :: "inp3_engine \<Rightarrow> u64 \<Rightarrow> link_state \<Rightarrow> bool" where
  "probe_due e now n \<longleftrightarrow>
     (ls_inp3_capable n \<or> io_probe_unknown_capability (ie_options e)) \<and> \<not> ls_awaiting_reflection n \<and>
     (ls_last_l3rtt_sent_ms n = NEVER_PROBED \<or>
      saturating_sub now (ls_last_l3rtt_sent_ms n) \<ge> ie_cadence_ms e)"

fun probe_links :: "inp3_engine \<Rightarrow> u64 \<Rightarrow> link_state list \<Rightarrow> link_state list \<times> (callsign \<times> l3rtt_frame) list" where
  "probe_links e now [] = ([], [])"
| "probe_links e now (n # ns) =
     (let (ns', ps) = probe_links e now ns in
      if probe_due e now n
      then (case l3rtt_build (ie_local_node e) (io_advertise_ip_accept (ie_options e)) of
              Some f \<Rightarrow> (n\<lparr>ls_last_l3rtt_sent_ms := now, ls_awaiting_reflection := True\<rparr> # ns', (ls_neighbour n, f) # ps)
            | None \<Rightarrow> (n # ns', ps))
      else (n # ns', ps))"

definition engine_tick :: "u64 \<Rightarrow> inp3_engine \<Rightarrow> inp3_engine" where
  "engine_tick now e =
     (let alive = filter (\<lambda>n. \<not> expired e now n) (ie_neighbours e);
          (ns, probes) = probe_links e now alive
      in e\<lparr>ie_neighbours := ns, ie_outbound := ie_outbound e @ probes,
           ie_neighbour_down := ie_neighbour_down e @ link_downs e now\<rparr>)"

text \<open>\<open>on_l3rtt\<close>: the flags of a frame, then a measurement or a reflection.\<close>

definition learn_flags :: "l3rtt_frame \<Rightarrow> link_state \<Rightarrow> link_state" where
  "learn_flags f n =
     (let n1 = (if lf_inp3_capable f then n\<lparr>ls_inp3_capable := True\<rparr> else n)
      in case lf_ip_accept f of None \<Rightarrow> n1 | Some ip \<Rightarrow> n1\<lparr>ls_ip_accept := Some ip\<rparr>)"

definition half_rtt :: "u64 \<Rightarrow> link_state \<Rightarrow> u32" where
  "half_rtt now n =
     (let half = saturating_sub now (ls_last_l3rtt_sent_ms n) div 2
      in if half > ucast SNTT_SAMPLE_MAX_MS then SNTT_SAMPLE_MAX_MS else ucast half)"

definition accept_reflection :: "u32 \<Rightarrow> u64 \<Rightarrow> link_state \<Rightarrow> link_state panicking" where
  "accept_reflection gain_shift now n =
     (case smooth (ls_sntt_ms n) (half_rtt now n) gain_shift of
        None \<Rightarrow> None
      | Some ms \<Rightarrow> Some (n\<lparr>ls_awaiting_reflection := False, ls_last_reflection_ms := now, ls_sntt_ms := ms\<rparr>))"

text \<open>\<open>find\<close> with a mutable borrow: the first entry of the neighbour is updated in place.\<close>

fun update_link :: "callsign \<Rightarrow> link_state \<Rightarrow> link_state list \<Rightarrow> link_state list" where
  "update_link nb n' [] = []"
| "update_link nb n' (n # ns) = (if ls_neighbour n = nb then n' # ns else n # update_link nb n' ns)"

definition link_of :: "inp3_engine \<Rightarrow> callsign \<Rightarrow> link_state option" where
  "link_of e nb = find (\<lambda>n. ls_neighbour n = nb) (ie_neighbours e)"

definition on_l3rtt :: "callsign \<Rightarrow> l3rtt_frame \<Rightarrow> u64 \<Rightarrow> inp3_engine \<Rightarrow> inp3_engine panicking" where
  "on_l3rtt nb f now e =
     (let e1 = ensure_neighbour nb now e in
      case link_of e1 nb of
        None \<Rightarrow> Some e1
      | Some n0 \<Rightarrow>
          let n = learn_flags f n0 in
          if is_reflection_of f (ie_local_node e) \<and> ls_awaiting_reflection n
          then (case accept_reflection (ucast (io_sntt_gain_shift (ie_options e))) now n of
                  None \<Rightarrow> None
                | Some n' \<Rightarrow> Some (e1\<lparr>ie_neighbours := update_link nb n' (ie_neighbours e1)\<rparr>))
          else Some (e1\<lparr>ie_neighbours := update_link nb n (ie_neighbours e1),
                        ie_outbound := ie_outbound e1 @ [(nb, f)]\<rparr>))"

definition on_l3rtt_packet :: "callsign \<Rightarrow> packet \<Rightarrow> u64 \<Rightarrow> inp3_engine \<Rightarrow> (inp3_engine \<times> bool) panicking" where
  "on_l3rtt_packet nb p now e =
     (case l3rtt_from_packet p of
        Some f \<Rightarrow> map_option (\<lambda>e'. (e', True)) (on_l3rtt nb f now e)
      | None \<Rightarrow> Some (e, False))"

definition take_outbound_l3rtt :: "inp3_engine \<Rightarrow> inp3_engine \<times> (callsign \<times> l3rtt_frame) list" where
  "take_outbound_l3rtt e = (e\<lparr>ie_outbound := []\<rparr>, ie_outbound e)"

definition take_neighbour_down :: "inp3_engine \<Rightarrow> inp3_engine \<times> link_down list" where
  "take_neighbour_down e = (e\<lparr>ie_neighbour_down := []\<rparr>, ie_neighbour_down e)"

definition timing_of :: "u64 \<Rightarrow> link_state \<Rightarrow> link_timing" where
  "timing_of now n =
     \<lparr>lt_neighbour = ls_neighbour n, lt_sntt_ms = (if ls_initialised n then Some (ls_sntt_ms n) else None),
      lt_inp3_capable = ls_inp3_capable n, lt_ip_accept = ls_ip_accept n,
      lt_last_reflection_age_ms = silent_for now n, lt_awaiting_reflection = ls_awaiting_reflection n\<rparr>"

definition engine_neighbours :: "u64 \<Rightarrow> inp3_engine \<Rightarrow> link_timing list" where
  "engine_neighbours now e =
     sort_key (\<lambda>t. callsign_key (lt_neighbour t)) (map (timing_of now) (ie_neighbours e))"

definition engine_sntt_ms :: "inp3_engine \<Rightarrow> callsign \<Rightarrow> u32 option" where
  "engine_sntt_ms e nb =
     (case link_of e nb of
        None \<Rightarrow> None
      | Some n \<Rightarrow> if ls_initialised n then Some (ls_sntt_ms n) else None)"

definition inp3_capable_neighbours :: "inp3_engine \<Rightarrow> callsign list" where
  "inp3_capable_neighbours e =
     sort_key callsign_key (map ls_neighbour (filter ls_inp3_capable (ie_neighbours e)))"

end
