(* ===== verification/Reactive.thy ===== *)
theory Reactive
  imports Prelude
begin

text \<open>
  A machine that answers each event with an output and may panic. The interface is an invariant under
  which no event panics; a client gets the runs of the machine: they return, they compose, and what
  holds of the history of a run is an induction over its steps.
\<close>

fun react :: "('e \<Rightarrow> 's \<Rightarrow> ('s \<times> 'o) panicking) \<Rightarrow> 'e list \<Rightarrow> 's \<Rightarrow> ('s \<times> 'o list) panicking" where
  "react step [] s = Some (s, [])"
| "react step (e # es) s =
     (case step e s of
        None \<Rightarrow> None
      | Some (s1, out) \<Rightarrow>
          (case react step es s1 of None \<Rightarrow> None | Some (s2, outs) \<Rightarrow> Some (s2, out # outs)))"

lemma react_Cons_Some:
  "react step (e # es) s = Some (s2, os) \<longleftrightarrow>
    (\<exists>s1 out outs. step e s = Some (s1, out) \<and> react step es s1 = Some (s2, outs) \<and> os = out # outs)"
  by (auto split: option.splits)

lemma react_append:
  "react step (es @ es') s =
     (case react step es s of
        None \<Rightarrow> None
      | Some (s1, outs) \<Rightarrow>
          (case react step es' s1 of None \<Rightarrow> None | Some (s2, outs') \<Rightarrow> Some (s2, outs @ outs')))"
  by (induction es arbitrary: s) (auto split: option.splits)

lemma react_snoc_Some:
  "react step (es @ [e]) s = Some (s2, os) \<longleftrightarrow>
    (\<exists>s1 outs out. react step es s = Some (s1, outs) \<and> step e s1 = Some (s2, out) \<and> os = outs @ [out])"
  by (auto simp: react_append split: option.splits)

lemma react_length: "react step es s = Some (s', outs) \<Longrightarrow> length outs = length es"
  by (induction es arbitrary: s outs) (auto split: option.splits)

lemma react_history:
  assumes "react step es s = Some (s', outs)" and "H [] [] s"
    and "\<And>es outs s e s' out. H es outs s \<Longrightarrow> step e s = Some (s', out) \<Longrightarrow> H (es @ [e]) (outs @ [out]) s'"
  shows "H es outs s'"
  using assms(1)
proof (induction es arbitrary: s' outs rule: rev_induct)
  case (snoc e es)
  then show ?case
    using assms(3) by (auto simp: react_snoc_Some)
qed (use assms(2) in simp)

locale reactive =
  fixes step :: "'e \<Rightarrow> 's \<Rightarrow> ('s \<times> 'o) panicking"
    and inv :: "'s \<Rightarrow> bool"
  assumes total: "inv s \<Longrightarrow> \<exists>s' out. step e s = Some (s', out) \<and> inv s'"
begin

lemma next_inv: "inv s \<Longrightarrow> step e s = Some (s', out) \<Longrightarrow> inv s'"
  using total [of s e] by auto

lemma run_total: "inv s \<Longrightarrow> \<exists>s' outs. react step es s = Some (s', outs) \<and> inv s'"
proof (induction es arbitrary: s)
  case (Cons e es)
  obtain s1 out where "step e s = Some (s1, out)" "inv s1"
    using total [OF Cons.prems] by blast
  then show ?case
    using Cons.IH [of s1] by auto
qed simp

lemma run_inv: "inv s \<Longrightarrow> react step es s = Some (s', outs) \<Longrightarrow> inv s'"
  using run_total [of s es] by auto

lemma run_history:
  assumes "react step es s = Some (s', outs)" "inv s" "H [] [] s"
    and "\<And>es outs s e s' out. inv s \<Longrightarrow> H es outs s \<Longrightarrow> step e s = Some (s', out) \<Longrightarrow> H (es @ [e]) (outs @ [out]) s'"
  shows "H es outs s'"
proof -
  have "inv s' \<and> H es outs s'"
    using assms by (rule_tac react_history [where H = "\<lambda>es outs s. inv s \<and> H es outs s"]) (auto intro: next_inv)
  then show ?thesis ..
qed

end

end
