(* ===== verification/Netrom_Engine_Props.thy ===== *)
theory Netrom_Engine_Props
  imports Netrom_Engine Reactive
begin

text \<open>
  The link-timing engine over whole runs: it never panics with validated options, keeps one entry for
  each neighbour and at most one probe in flight to it, and signals a neighbour down exactly when a
  capable one has not reflected a probe for longer than the window.
\<close>

section \<open>Events\<close>

text \<open>The operations of the engine; the host drains both queues after each of them.\<close>

datatype engine_event =
  Observe callsign u64
| Forget callsign
| EngineTick u64
| L3rtt callsign l3rtt_frame u64
| Rename callsign

fun engine_op :: "engine_event \<Rightarrow> inp3_engine \<Rightarrow> inp3_engine panicking" where
  "engine_op (Observe nb now) e = Some (observe_neighbour nb now e)"
| "engine_op (Forget nb) e = Some (remove_neighbour nb e)"
| "engine_op (EngineTick now) e = Some (engine_tick now e)"
| "engine_op (L3rtt nb f now) e = on_l3rtt nb f now e"
| "engine_op (Rename node) e = Some (engine_set_local_node node e)"

definition engine_step ::
  "engine_event \<Rightarrow> inp3_engine \<Rightarrow> (inp3_engine \<times> (callsign \<times> l3rtt_frame) list \<times> link_down list) panicking" where
  "engine_step ev e =
     (case engine_op ev e of
        None \<Rightarrow> None
      | Some e1 \<Rightarrow>
          let (e2, frames) = take_outbound_l3rtt e1; (e3, downs) = take_neighbour_down e2
          in Some (e3, frames, downs))"

section \<open>The invariant\<close>

definition link_ok :: "link_state \<Rightarrow> bool" where
  "link_ok n \<longleftrightarrow> ls_sntt_ms n = SNTT_UNSET \<or> unat (ls_sntt_ms n) \<le> 600000"

definition engine_inv :: "inp3_engine \<Rightarrow> bool" where
  "engine_inv e \<longleftrightarrow> inp3_validate (ie_options e) = Inr () \<and> distinct (map ls_neighbour (ie_neighbours e)) \<and>
     list_all link_ok (ie_neighbours e) \<and> ie_outbound e = [] \<and> ie_neighbour_down e = []"

lemma validate_gain:
  assumes "inp3_validate opts = Inr ()"
  shows "gain_shift_in_range (ucast (io_sntt_gain_shift opts))"
proof -
  have "1 \<le> unat (io_sntt_gain_shift opts)" "unat (io_sntt_gain_shift opts) \<le> 8"
    using assms by (auto simp: inp3_validate_def word_le_nat_alt not_less Suc_le_eq unat_gt_0 split: if_splits)
  then show ?thesis
    by (simp add: gain_range unsigned_ucast_eq take_bit_nat_eq_self)
qed

lemma smooth_total:
  assumes "gain_shift_in_range g" "cur = SNTT_UNSET \<or> unat cur \<le> 600000"
  shows "\<exists>ms. smooth cur s g = Some ms \<and> unat ms \<le> 600000"
proof (cases "cur = SNTT_UNSET")
  case True
  then show ?thesis
    using assms(1) clamp_sample_nat [of s]
    by (auto simp: smooth_def sntt_update_def sntt_fresh_def sntt_initialised_def)
next
  case False
  then have "unat cur \<le> 600000"
    using assms(2) by simp
  moreover from this obtain ms where "smooth cur s g = Some ms"
    "unat ms = blend (2 ^ unat g) (unat cur) (min (unat s) 600000)"
    using smooth_blend [of g cur s] assms(1) by (auto simp: gain_range)
  moreover have "blend (2 ^ unat g) (unat cur) (min (unat s) 600000) \<le> max (unat cur) (min (unat s) 600000)"
    using blend_between by simp
  ultimately show ?thesis
    by auto
qed

lemma accept_total:
  assumes "link_ok n" "gain_shift_in_range g"
  shows "\<exists>n'. accept_reflection g now n = Some n' \<and> link_ok n' \<and> ls_neighbour n' = ls_neighbour n \<and>
    \<not> ls_awaiting_reflection n' \<and> ls_last_reflection_ms n' = now \<and> ls_inp3_capable n' = ls_inp3_capable n \<and>
    ls_ip_accept n' = ls_ip_accept n"
  using smooth_total [OF assms(2), of "ls_sntt_ms n" "half_rtt now n"] assms(1)
  by (auto simp: accept_reflection_def link_ok_def)

lemma learn_flags_fields [simp]:
  "ls_neighbour (learn_flags f n) = ls_neighbour n" "ls_sntt_ms (learn_flags f n) = ls_sntt_ms n"
  "ls_last_l3rtt_sent_ms (learn_flags f n) = ls_last_l3rtt_sent_ms n"
  "ls_last_reflection_ms (learn_flags f n) = ls_last_reflection_ms n"
  "ls_awaiting_reflection (learn_flags f n) = ls_awaiting_reflection n"
  "ls_inp3_capable (learn_flags f n) \<longleftrightarrow> ls_inp3_capable n \<or> lf_inp3_capable f"
  "ls_ip_accept (learn_flags f n) = (case lf_ip_accept f of None \<Rightarrow> ls_ip_accept n | Some ip \<Rightarrow> Some ip)"
  by (auto simp: learn_flags_def Let_def split: option.splits)

lemma learn_flags_ok [simp]: "link_ok (learn_flags f n) = link_ok n"
  by (simp add: link_ok_def)

subsection \<open>Entries by neighbour\<close>

lemma link_of_Some:
  "distinct (map ls_neighbour (ie_neighbours e)) \<Longrightarrow>
    link_of e nb = Some n \<longleftrightarrow> n \<in> set (ie_neighbours e) \<and> ls_neighbour n = nb"
  by (auto simp: link_of_def find_Some_iff in_set_conv_nth distinct_conv_nth)

lemma link_of_None: "link_of e nb = None \<longleftrightarrow> nb \<notin> ls_neighbour ` set (ie_neighbours e)"
  by (auto simp: link_of_def find_None_iff)

lemma map_update_link: "ls_neighbour n' = nb \<Longrightarrow> map ls_neighbour (update_link nb n' ns) = map ls_neighbour ns"
  by (induction ns) auto

lemma find_update_link:
  "ls_neighbour n' = nb \<Longrightarrow> find (\<lambda>n. ls_neighbour n = x) (update_link nb n' ns) =
    (if x = nb \<and> find (\<lambda>n. ls_neighbour n = nb) ns \<noteq> None then Some n' else find (\<lambda>n. ls_neighbour n = x) ns)"
  by (induction ns) auto

lemma update_link_all: "list_all P ns \<Longrightarrow> P n' \<Longrightarrow> list_all P (update_link nb n' ns)"
  by (induction ns) auto

lemma ensure_fields [simp]:
  "ie_options (ensure_neighbour nb now e) = ie_options e"
  "ie_local_node (ensure_neighbour nb now e) = ie_local_node e"
  "ie_outbound (ensure_neighbour nb now e) = ie_outbound e"
  "ie_neighbour_down (ensure_neighbour nb now e) = ie_neighbour_down e"
  by (simp_all add: ensure_neighbour_def)

lemma link_of_ensure:
  "link_of (ensure_neighbour nb now e) x =
    (if x = nb \<and> link_of e nb = None then Some (fresh_link nb now) else link_of e x)"
proof -
  have "list_ex (\<lambda>n. ls_neighbour n = nb) (ie_neighbours e) \<longleftrightarrow> link_of e nb \<noteq> None"
    by (auto simp: link_of_None list_ex_iff)
  moreover have "find P (xs @ [a]) = (case find P xs of None \<Rightarrow> if P a then Some a else None | Some y \<Rightarrow> Some y)" for P a and xs :: "link_state list"
    by (induction xs) auto
  ultimately show ?thesis
    by (auto simp: ensure_neighbour_def link_of_def fresh_link_def split: option.splits)
qed

lemma ensure_inv: "engine_inv e \<Longrightarrow> engine_inv (ensure_neighbour nb now e)"
  by (auto simp: engine_inv_def ensure_neighbour_def link_ok_def fresh_link_def list_ex_iff)

subsection \<open>The tick\<close>

definition probe_frame :: "inp3_engine \<Rightarrow> l3rtt_frame option" where
  "probe_frame e = l3rtt_build (ie_local_node e) (io_advertise_ip_accept (ie_options e))"

definition probed :: "inp3_engine \<Rightarrow> u64 \<Rightarrow> link_state \<Rightarrow> link_state" where
  "probed e now n = (if probe_due e now n \<and> probe_frame e \<noteq> None
     then n\<lparr>ls_last_l3rtt_sent_ms := now, ls_awaiting_reflection := True\<rparr> else n)"

lemma probed_fields [simp]:
  "ls_neighbour (probed e now n) = ls_neighbour n" "ls_sntt_ms (probed e now n) = ls_sntt_ms n"
  "ls_last_reflection_ms (probed e now n) = ls_last_reflection_ms n"
  "ls_inp3_capable (probed e now n) = ls_inp3_capable n" "ls_ip_accept (probed e now n) = ls_ip_accept n"
  by (simp_all add: probed_def)

lemma probe_links_eq:
  "probe_links e now ns = (map (probed e now) ns,
     (case probe_frame e of
        None \<Rightarrow> []
      | Some f \<Rightarrow> map (\<lambda>n. (ls_neighbour n, f)) (filter (probe_due e now) ns)))"
  by (induction ns) (auto simp: probed_def probe_frame_def split: option.splits prod.splits)

lemma engine_tick_eq:
  "engine_tick now e = e\<lparr>ie_neighbours := map (probed e now) (filter (\<lambda>n. \<not> expired e now n) (ie_neighbours e)),
     ie_outbound := ie_outbound e @ (case probe_frame e of
        None \<Rightarrow> []
      | Some f \<Rightarrow> map (\<lambda>n. (ls_neighbour n, f))
          (filter (probe_due e now) (filter (\<lambda>n. \<not> expired e now n) (ie_neighbours e)))),
     ie_neighbour_down := ie_neighbour_down e @ link_downs e now\<rparr>"
  by (simp add: engine_tick_def Let_def probe_links_eq)

lemma engine_tick_inv:
  assumes "engine_inv e"
  shows "engine_inv (engine_tick now e\<lparr>ie_outbound := [], ie_neighbour_down := []\<rparr>)"
proof -
  have "map ls_neighbour (map (probed e now) ns) = map ls_neighbour ns" for ns
    by simp
  moreover have "distinct (map ls_neighbour (filter (\<lambda>n. \<not> expired e now n) (ie_neighbours e)))"
    using assms by (simp add: engine_inv_def distinct_map_filter)
  ultimately show ?thesis
    using assms by (auto simp: engine_inv_def engine_tick_eq list_all_iff link_ok_def comp_def)
qed

lemma on_l3rtt_total:
  assumes "engine_inv e"
  shows "\<exists>e'. on_l3rtt nb f now e = Some e' \<and> engine_inv (e'\<lparr>ie_outbound := [], ie_neighbour_down := []\<rparr>)"
proof -
  let ?e1 = "ensure_neighbour nb now e"
  have inv: "engine_inv ?e1"
    by (rule ensure_inv [OF assms])
  obtain n0 where n0: "link_of ?e1 nb = Some n0"
    by (cases "link_of e nb") (auto simp: link_of_ensure)
  then have "n0 \<in> set (ie_neighbours ?e1)" and nb: "ls_neighbour n0 = nb"
    using inv by (simp_all add: link_of_Some engine_inv_def)
  then have ok: "link_ok (learn_flags f n0)"
    using inv by (simp add: engine_inv_def list_all_iff)
  have upd: "engine_inv (?e1\<lparr>ie_neighbours := update_link nb n' (ie_neighbours ?e1), ie_outbound := [], ie_neighbour_down := []\<rparr>)"
    if "link_ok n'" "ls_neighbour n' = nb" for n'
    using inv that by (simp add: engine_inv_def map_update_link update_link_all)
  have gain: "gain_shift_in_range (ucast (io_sntt_gain_shift (ie_options e)))"
    using assms by (intro validate_gain) (simp add: engine_inv_def)
  show ?thesis
    using accept_total [OF ok gain, of now] upd ok nb by (auto simp: on_l3rtt_def Let_def n0)
qed

interpretation engine: reactive engine_step engine_inv
proof
  fix e ev
  assume inv: "engine_inv e"
  show "\<exists>e' out. engine_step ev e = Some (e', out) \<and> engine_inv e'"
  proof (cases ev)
    case (L3rtt nb f now)
    then show ?thesis
      using on_l3rtt_total [OF inv, of nb f now]
      by (auto simp: engine_step_def take_outbound_l3rtt_def take_neighbour_down_def)
  next
    case (Observe nb now)
    then show ?thesis
      using ensure_inv [OF inv, of nb now]
      by (auto simp: engine_step_def take_outbound_l3rtt_def take_neighbour_down_def observe_neighbour_def engine_inv_def)
  next
    case (Forget nb)
    then show ?thesis
      using inv
      by (auto simp: engine_step_def take_outbound_l3rtt_def take_neighbour_down_def remove_neighbour_def
          engine_inv_def distinct_map_filter list_all_iff)
  next
    case (EngineTick now)
    then show ?thesis
      using engine_tick_inv [OF inv, of now]
      by (simp add: engine_step_def take_outbound_l3rtt_def take_neighbour_down_def)
  next
    case (Rename node)
    then show ?thesis
      using inv
      by (simp add: engine_step_def take_outbound_l3rtt_def take_neighbour_down_def engine_set_local_node_def engine_inv_def)
  qed
qed

lemma engine_new_inv: "inp3_validate opts = Inr () \<Longrightarrow> engine_inv (engine_new me opts)"
  by (simp add: engine_inv_def engine_new_def)


section \<open>One neighbour\<close>

lemma link_of_tick:
  assumes "engine_inv e"
  shows "link_of (engine_tick now e) nb =
    (case link_of e nb of None \<Rightarrow> None | Some n \<Rightarrow> if expired e now n then None else Some (probed e now n))"
proof -
  have d: "distinct (map ls_neighbour (ie_neighbours (engine_tick now e)))"
    using engine_tick_inv [OF assms, of now] by (simp add: engine_inv_def)
  have de: "distinct (map ls_neighbour (ie_neighbours e))"
    using assms by (simp add: engine_inv_def)
  show ?thesis
  proof (cases "link_of e nb")
    case None
    then have "nb \<notin> ls_neighbour ` set (ie_neighbours (engine_tick now e))"
      by (auto simp: link_of_None engine_tick_eq)
    then show ?thesis
      using None by (simp add: link_of_None [THEN iffD2])
  next
    case (Some n)
    then have n: "n \<in> set (ie_neighbours e)" "ls_neighbour n = nb"
      using de by (simp_all add: link_of_Some)
    have uniq: "m = n" if "m \<in> set (ie_neighbours e)" "ls_neighbour m = nb" for m
      using de Some that by (metis link_of_Some option.inject)
    show ?thesis
    proof (cases "expired e now n")
      case True
      then have "nb \<notin> ls_neighbour ` set (ie_neighbours (engine_tick now e))"
        using uniq by (auto simp: engine_tick_eq)
      then show ?thesis
        using Some True by (simp add: link_of_None [THEN iffD2])
    next
      case False
      then have "link_of (engine_tick now e) nb = Some (probed e now n)"
        using n by (subst link_of_Some [OF d]) (auto simp: engine_tick_eq)
      then show ?thesis
        using Some False by simp
    qed
  qed
qed

text \<open>What a tick sends to one neighbour, and whether it signals it.\<close>

lemma tick_step:
  assumes "engine_inv e" "engine_step (EngineTick now) e = Some (e', frames, downs)"
  shows "link_of e' nb = (case link_of e nb of None \<Rightarrow> None | Some n \<Rightarrow> if expired e now n then None else Some (probed e now n))"
    and "(nb, f) \<in> set frames \<longleftrightarrow>
      (\<exists>n. link_of e nb = Some n \<and> \<not> expired e now n \<and> probe_due e now n \<and> probe_frame e = Some f)"
    and "downs = link_downs e now" and "ie_local_node e' = ie_local_node e"
    and "ie_options e' = ie_options e" and "ie_reset_window_ms e' = ie_reset_window_ms e"
proof -
  have e': "e' = engine_tick now e\<lparr>ie_outbound := [], ie_neighbour_down := []\<rparr>"
    and frames: "frames = ie_outbound (engine_tick now e)" and downs: "downs = ie_neighbour_down (engine_tick now e)"
    using assms(2) by (auto simp: engine_step_def take_outbound_l3rtt_def take_neighbour_down_def)
  show "link_of e' nb = (case link_of e nb of None \<Rightarrow> None | Some n \<Rightarrow> if expired e now n then None else Some (probed e now n))"
    using link_of_tick [OF assms(1), of now nb] by (simp add: e' link_of_def)
  have "distinct (map ls_neighbour (ie_neighbours e))"
    using assms(1) by (simp add: engine_inv_def)
  then show "(nb, f) \<in> set frames \<longleftrightarrow>
      (\<exists>n. link_of e nb = Some n \<and> \<not> expired e now n \<and> probe_due e now n \<and> probe_frame e = Some f)"
    using assms(1) by (auto simp: frames engine_tick_eq engine_inv_def link_of_Some split: option.splits)
  show "downs = link_downs e now"
    using assms(1) by (simp add: downs engine_tick_eq engine_inv_def)
qed (use assms(2) in \<open>auto simp: engine_step_def take_outbound_l3rtt_def take_neighbour_down_def engine_tick_eq\<close>)

lemma downs_of:
  assumes "engine_inv e"
  shows "filter (\<lambda>d. ld_neighbour d = nb) (link_downs e now) =
    (case link_of e nb of
       None \<Rightarrow> []
     | Some n \<Rightarrow> if expired e now n \<and> ls_inp3_capable n
               then [\<lparr>ld_neighbour = nb, ld_silent_for_ms = silent_for now n\<rparr>] else [])"
proof -
  have "distinct (map ls_neighbour ns) \<Longrightarrow>
      filter (\<lambda>d. ld_neighbour d = nb) (map (\<lambda>n. \<lparr>ld_neighbour = ls_neighbour n, ld_silent_for_ms = silent_for now n\<rparr>)
        (filter (\<lambda>n. expired e now n \<and> ls_inp3_capable n) ns)) =
      (case find (\<lambda>n. ls_neighbour n = nb) ns of
         None \<Rightarrow> []
       | Some n \<Rightarrow> if expired e now n \<and> ls_inp3_capable n
                 then [\<lparr>ld_neighbour = nb, ld_silent_for_ms = silent_for now n\<rparr>] else [])" for ns
  proof (induction ns)
    case (Cons n ns)
    have "find (\<lambda>n. ls_neighbour n = nb) ns = None" if "ls_neighbour n = nb"
      using Cons.prems that by (auto simp: find_None_iff dest: sym)
    then show ?case
      using Cons by auto
  qed simp
  then show ?thesis
    using assms by (simp add: link_downs_def link_of_def engine_inv_def)
qed

text \<open>A frame from a neighbour changes the entry of that neighbour only.\<close>

definition link_entry :: "inp3_engine \<Rightarrow> callsign \<Rightarrow> u64 \<Rightarrow> link_state" where
  "link_entry e nb now = (case link_of e nb of None \<Rightarrow> fresh_link nb now | Some n \<Rightarrow> n)"

definition put_link :: "callsign \<Rightarrow> link_state \<Rightarrow> inp3_engine \<Rightarrow> inp3_engine" where
  "put_link nb n e = e\<lparr>ie_neighbours := update_link nb n (ie_neighbours e), ie_outbound := [], ie_neighbour_down := []\<rparr>"

lemma put_link_fields [simp]:
  "ie_options (put_link nb n e) = ie_options e" "ie_local_node (put_link nb n e) = ie_local_node e"
  "ie_reset_window_ms (put_link nb n e) = ie_reset_window_ms e"
  by (simp_all add: put_link_def)

lemma ensure_window [simp]: "ie_reset_window_ms (ensure_neighbour nb now e) = ie_reset_window_ms e"
  by (simp add: ensure_neighbour_def)

lemma link_of_put:
  "ls_neighbour n = nb \<Longrightarrow> link_of (put_link nb n e) x =
    (if x = nb \<and> link_of e nb \<noteq> None then Some n else link_of e x)"
  by (simp add: put_link_def link_of_def find_update_link)

lemma entry_nb: "engine_inv e \<Longrightarrow> ls_neighbour (link_entry e nb now) = nb"
  by (auto simp: link_entry_def fresh_link_def engine_inv_def link_of_Some split: option.split)

lemma link_of_ensure_self: "link_of (ensure_neighbour nb now e) nb = Some (link_entry e nb now)"
  by (simp add: link_of_ensure link_entry_def split: option.split)

lemma frame_step_eq:
  assumes "engine_inv e"
  shows "engine_step (L3rtt nb f now) e =
    (let n = learn_flags f (link_entry e nb now); e1 = ensure_neighbour nb now e in
     if is_reflection_of f (ie_local_node e) \<and> ls_awaiting_reflection (link_entry e nb now)
     then map_option (\<lambda>n'. (put_link nb n' e1, [], []))
            (accept_reflection (ucast (io_sntt_gain_shift (ie_options e))) now n)
     else Some (put_link nb n e1, [(nb, f)], []))"
proof -
  have "ie_outbound e = []" "ie_neighbour_down e = []"
    using assms by (simp_all add: engine_inv_def)
  then show ?thesis
    by (simp add: engine_step_def on_l3rtt_def Let_def link_of_ensure_self take_outbound_l3rtt_def
        take_neighbour_down_def put_link_def split: option.split)
qed

lemma frame_step:
  assumes "engine_inv e" "engine_step (L3rtt nb f now) e = Some (e', frames, downs)"
  shows "x \<noteq> nb \<Longrightarrow> link_of e' x = link_of e x"
    and "\<not> (is_reflection_of f (ie_local_node e) \<and> ls_awaiting_reflection (link_entry e nb now)) \<Longrightarrow>
      link_of e' nb = Some (learn_flags f (link_entry e nb now)) \<and> frames = [(nb, f)]"
    and "is_reflection_of f (ie_local_node e) \<Longrightarrow> ls_awaiting_reflection (link_entry e nb now) \<Longrightarrow>
      accept_reflection (ucast (io_sntt_gain_shift (ie_options e))) now (learn_flags f (link_entry e nb now)) = link_of e' nb \<and>
      link_of e' nb \<noteq> None \<and> frames = []"
    and "downs = []" and "ie_local_node e' = ie_local_node e" and "ie_options e' = ie_options e"
    and "ie_reset_window_ms e' = ie_reset_window_ms e"
proof -
  let ?e1 = "ensure_neighbour nb now e"
  have nb: "ls_neighbour (learn_flags f (link_entry e nb now)) = nb"
    by (simp add: entry_nb [OF assms(1)])
  have acc: "ls_neighbour n' = nb" if "accept_reflection g now (learn_flags f (link_entry e nb now)) = Some n'" for g n'
    using that nb by (auto simp: accept_reflection_def split: option.splits)
  note eq = assms(2) [unfolded frame_step_eq [OF assms(1)] Let_def]
  have put: "link_of (put_link nb n' ?e1) x = (if x = nb then Some n' else link_of e x)" if "ls_neighbour n' = nb" for n' x
    using that by (simp add: link_of_put link_of_ensure_self) (simp add: link_of_ensure)
  show "x \<noteq> nb \<Longrightarrow> link_of e' x = link_of e x"
    using eq put nb acc by (auto split: if_splits)
  show "\<not> (is_reflection_of f (ie_local_node e) \<and> ls_awaiting_reflection (link_entry e nb now)) \<Longrightarrow>
      link_of e' nb = Some (learn_flags f (link_entry e nb now)) \<and> frames = [(nb, f)]"
    using eq put nb by auto
  show "is_reflection_of f (ie_local_node e) \<Longrightarrow> ls_awaiting_reflection (link_entry e nb now) \<Longrightarrow>
      accept_reflection (ucast (io_sntt_gain_shift (ie_options e))) now (learn_flags f (link_entry e nb now)) = link_of e' nb \<and>
      link_of e' nb \<noteq> None \<and> frames = []"
    using eq put acc by auto
  show "downs = []" "ie_local_node e' = ie_local_node e" "ie_options e' = ie_options e"
    "ie_reset_window_ms e' = ie_reset_window_ms e"
    using eq by (auto split: if_splits)
qed


section \<open>Properties\<close>

definition frame_of :: "callsign \<Rightarrow> l3rtt_frame" where
  "frame_of c = the (l3rtt_build c None)"

text \<open>Two nodes for the concrete instances.\<close>

definition near :: callsign where "near = sample [0x4E, 0x31]"
definition far :: callsign where "far = sample [0x4E, 0x32]"

definition sample_exchange :: "engine_event list" where
  "sample_exchange = [Observe far 0, EngineTick 1000, L3rtt far (frame_of near) 1400, L3rtt far (frame_of far) 2000,
     EngineTick 61000]"

definition sample_engine :: inp3_engine where
  "sample_engine = fst (the (react engine_step sample_exchange (engine_new near INP3_DEFAULT)))"

definition sample_silence :: "inp3_engine \<times> ((callsign \<times> l3rtt_frame) list \<times> link_down list) list" where
  "sample_silence = the (react engine_step (sample_exchange @ [EngineTick 190000]) (engine_new near INP3_DEFAULT))"

definition sample_link :: link_state where
  "sample_link = the (link_of sample_engine far)"

lemma default_valid: "inp3_validate INP3_DEFAULT = Inr ()"
  by code_simp


text \<open>
  C20: With options that pass \<open>validate\<close>, no sequence of operations makes the engine panic. At the end each
  neighbour has one entry in the snapshot, in callsign order, every measured transport time is at most
  the clamp of 600 seconds, and whoever is listed as capable is in the snapshot with its flag set.
\<close>

theorem engine_is_total:
  assumes "inp3_validate opts = Inr ()"
  shows "\<exists>e outs. react engine_step es (engine_new me opts) = Some (e, outs) \<and>
    (let shown = engine_neighbours now e in
       distinct (map lt_neighbour shown) \<and> sorted (map (callsign_key \<circ> lt_neighbour) shown) \<and>
       (\<forall>t. t \<in> set shown \<longrightarrow> lt_sntt_ms t = engine_sntt_ms e (lt_neighbour t) \<and>
          (lt_neighbour t \<in> set (inp3_capable_neighbours e) \<longleftrightarrow> lt_inp3_capable t) \<and>
          (\<forall>ms. lt_sntt_ms t = Some ms \<longrightarrow> unat ms \<le> 600000)))"
proof -
  obtain e outs where run: "react engine_step es (engine_new me opts) = Some (e, outs)" and inv: "engine_inv e"
    using engine.run_total [OF engine_new_inv [OF assms]] by blast
  let ?shown = "engine_neighbours now e"
  have d: "distinct (map ls_neighbour (ie_neighbours e))"
    using inv by (simp add: engine_inv_def)
  have "mset (map lt_neighbour ?shown) = mset (map ls_neighbour (ie_neighbours e))"
    by (simp add: engine_neighbours_def timing_of_def image_mset.compositionality comp_def)
  then have "distinct (map lt_neighbour ?shown)"
    using d by (metis mset_eq_imp_distinct_iff)
  moreover have "sorted (map (callsign_key \<circ> lt_neighbour) ?shown)"
    by (simp add: engine_neighbours_def comp_def)
  moreover have "lt_sntt_ms t = engine_sntt_ms e (lt_neighbour t)"
    "lt_neighbour t \<in> set (inp3_capable_neighbours e) \<longleftrightarrow> lt_inp3_capable t"
    "lt_sntt_ms t = Some ms \<Longrightarrow> unat ms \<le> 600000" if t: "t \<in> set ?shown" for t ms
  proof -
    obtain n where n: "n \<in> set (ie_neighbours e)" and t: "t = timing_of now n"
      using t by (auto simp: engine_neighbours_def)
    then have link: "link_of e (ls_neighbour n) = Some n"
      using d by (simp add: link_of_Some)
    then show "lt_sntt_ms t = engine_sntt_ms e (lt_neighbour t)"
      by (simp add: t timing_of_def engine_sntt_ms_def)
    have "m = n" if "m \<in> set (ie_neighbours e)" "ls_neighbour m = ls_neighbour n" for m
      using link that by (metis d link_of_Some option.inject)
    then show "lt_neighbour t \<in> set (inp3_capable_neighbours e) \<longleftrightarrow> lt_inp3_capable t"
      using n by (auto simp: t timing_of_def inp3_capable_neighbours_def)
    show "unat ms \<le> 600000" if "lt_sntt_ms t = Some ms"
      using that n inv by (auto simp: t timing_of_def engine_inv_def list_all_iff link_ok_def ls_initialised_def split: if_splits)
  qed
  ultimately show ?thesis
    unfolding Let_def using run by blast
qed

theorem engine_is_total_witness:
  "\<exists>e outs. react engine_step sample_exchange (engine_new near INP3_DEFAULT) = Some (e, outs) \<and>
    (let shown = engine_neighbours 62000 e in
       distinct (map lt_neighbour shown) \<and> sorted (map (callsign_key \<circ> lt_neighbour) shown) \<and>
       (\<forall>t. t \<in> set shown \<longrightarrow> lt_sntt_ms t = engine_sntt_ms e (lt_neighbour t) \<and>
          (lt_neighbour t \<in> set (inp3_capable_neighbours e) \<longleftrightarrow> lt_inp3_capable t) \<and>
          (\<forall>ms. lt_sntt_ms t = Some ms \<longrightarrow> unat ms \<le> 600000)))"
  by (rule engine_is_total [OF default_valid])


text \<open>The events that leave a probe to \<open>nb\<close> unanswered, with no tick past the window.\<close>

fun unanswered :: "callsign \<Rightarrow> u64 \<Rightarrow> u64 \<Rightarrow> callsign \<Rightarrow> engine_event \<Rightarrow> bool" where
  "unanswered me window heard nb (Observe x now) \<longleftrightarrow> True"
| "unanswered me window heard nb (Forget x) \<longleftrightarrow> x \<noteq> nb"
| "unanswered me window heard nb (EngineTick now) \<longleftrightarrow> saturating_sub now heard \<le> window"
| "unanswered me window heard nb (L3rtt x f now) \<longleftrightarrow> x \<noteq> nb \<or> \<not> is_reflection_of f me"
| "unanswered me window heard nb (Rename node) \<longleftrightarrow> False"

definition waiting :: "callsign \<Rightarrow> callsign \<Rightarrow> u64 \<Rightarrow> u64 \<Rightarrow> inp3_engine \<Rightarrow> bool" where
  "waiting nb me window heard e \<longleftrightarrow> ie_local_node e = me \<and> ie_reset_window_ms e = window \<and>
     (\<exists>n. link_of e nb = Some n \<and> ls_awaiting_reflection n \<and> ls_inp3_capable n \<and> ls_last_reflection_ms n = heard)"

lemma waiting_step:
  assumes "engine_inv e" "waiting nb me window heard e" "unanswered me window heard nb ev"
    "engine_step ev e = Some (e', frames, downs)"
  shows "waiting nb me window heard e'" and "nb \<notin> ld_neighbour ` set downs"
    and "ev = EngineTick now \<Longrightarrow> nb \<notin> fst ` set frames"
proof -
  obtain n where w: "ie_local_node e = me" "ie_reset_window_ms e = window" "link_of e nb = Some n"
    "ls_awaiting_reflection n" "ls_inp3_capable n" "ls_last_reflection_ms n = heard"
    using assms(2) by (auto simp: waiting_def)
  have downs: "nb \<notin> ld_neighbour ` set ds" if "filter (\<lambda>d. ld_neighbour d = nb) ds = []" for ds
    using that by (auto simp: filter_empty_conv)
  note simple = engine_step_def take_outbound_l3rtt_def take_neighbour_down_def
  have "waiting nb me window heard e' \<and> nb \<notin> ld_neighbour ` set downs \<and>
      (\<forall>now. ev = EngineTick now \<longrightarrow> nb \<notin> fst ` set frames)"
  proof (cases ev)
    case (Observe x now)
    have "link_of e' nb = Some n" "downs = ie_neighbour_down e" "ie_local_node e' = me" "ie_reset_window_ms e' = window"
      using assms(4) w link_of_ensure [of x now e nb]
      by (auto simp: Observe simple observe_neighbour_def link_of_def)
    then show ?thesis
      using w assms(1) by (simp add: waiting_def Observe engine_inv_def)
  next
    case (Forget x)
    have keep: "find (\<lambda>n. ls_neighbour n = nb) (filter (\<lambda>n. ls_neighbour n \<noteq> x) ns) = find (\<lambda>n. ls_neighbour n = nb) ns" for ns
      using assms(3) by (induction ns) (auto simp: Forget)
    have "link_of e' nb = Some n" "downs = ie_neighbour_down e" "ie_local_node e' = me" "ie_reset_window_ms e' = window"
      using assms(4) w(1,2) w(3) [unfolded link_of_def] by (auto simp: Forget simple remove_neighbour_def link_of_def keep)
    then show ?thesis
      using w assms(1) by (simp add: waiting_def Forget engine_inv_def)
  next
    case (EngineTick now)
    note t = tick_step [OF assms(1) assms(4) [unfolded EngineTick]]
    have live: "\<not> expired e now n" and idle: "\<not> probe_due e now n"
      using assms(3) w by (auto simp: EngineTick expired_def silent_for_def probe_due_def)
    then have "link_of e' nb = Some n"
      using w t(1) [of nb] by (simp add: probed_def)
    moreover have "filter (\<lambda>d. ld_neighbour d = nb) downs = []"
      using w live downs_of [OF assms(1), of nb now] by (simp add: t(3))
    moreover have "nb \<notin> fst ` set frames"
      using t(2) [of nb] w idle by auto
    ultimately show ?thesis
      using w t(4,6) downs by (simp add: waiting_def)
  next
    case (L3rtt x f now)
    note t = frame_step [OF assms(1) assms(4) [unfolded L3rtt]]
    have "link_of e' nb = Some (if x = nb then learn_flags f n else n)"
      using t(1) [of nb] t(2) w assms(3) by (auto simp: L3rtt link_entry_def)
    then show ?thesis
      using w t(4,5,7) by (auto simp: waiting_def L3rtt)
  qed (use assms(3) in simp)
  then show "waiting nb me window heard e'" "nb \<notin> ld_neighbour ` set downs"
    "ev = EngineTick now \<Longrightarrow> nb \<notin> fst ` set frames"
    by auto
qed

lemma waiting_run:
  assumes "engine_inv e" "waiting nb me window heard e" "list_all (unanswered me window heard nb) es"
    "react engine_step es e = Some (e', outs)"
  shows "waiting nb me window heard e'"
    and "list_all2 (\<lambda>ev (frames, downs). nb \<notin> ld_neighbour ` set downs \<and>
      (\<forall>now. ev = EngineTick now \<longrightarrow> nb \<notin> fst ` set frames)) es outs"
proof -
  have "waiting nb me window heard e' \<and> list_all2 (\<lambda>ev (frames, downs). nb \<notin> ld_neighbour ` set downs \<and>
      (\<forall>now. ev = EngineTick now \<longrightarrow> nb \<notin> fst ` set frames)) es outs"
    using assms
  proof (induction es arbitrary: e outs)
    case (Cons ev es)
    then obtain e1 frames downs outs' where st: "engine_step ev e = Some (e1, frames, downs)"
      and rest: "react engine_step es e1 = Some (e', outs')" "outs = (frames, downs) # outs'"
      using Cons.prems(4) [unfolded react_Cons_Some] by auto
    have ev: "unanswered me window heard nb ev" "list_all (unanswered me window heard nb) es"
      using Cons.prems by simp_all
    note s = waiting_step [OF Cons.prems(1,2) ev(1) st]
    show ?case
      using Cons.IH [OF engine.next_inv [OF Cons.prems(1) st] s(1) ev(2) rest(1)] s(2,3) rest(2) by auto
  qed simp
  then show "waiting nb me window heard e'"
    "list_all2 (\<lambda>ev (frames, downs). nb \<notin> ld_neighbour ` set downs \<and>
      (\<forall>now. ev = EngineTick now \<longrightarrow> nb \<notin> fst ` set frames)) es outs"
    by auto
qed

text \<open>
  C18: One probe in flight, and a silent link goes down. Once a probe to a capable neighbour is outstanding,
  then as long as no reflection of it comes back, whatever else happens, no tick within the window sends
  that neighbour a second probe or signals it down; the first tick past the window signals it down once,
  with the time of its silence, sends it nothing, and forgets it.
\<close>

theorem silent_link_goes_down:
  assumes "inp3_validate opts = Inr ()"
    and "react engine_step es0 (engine_new me opts) = Some (e, outs0)"
    and "link_of e nb = Some n" "ls_awaiting_reflection n" "ls_inp3_capable n"
    and "list_all (unanswered (ie_local_node e) (ie_reset_window_ms e) (ls_last_reflection_ms n) nb) es"
    and "saturating_sub late (ls_last_reflection_ms n) > ie_reset_window_ms e"
  shows "\<exists>e1 outs e2 frames downs.
    react engine_step es e = Some (e1, outs) \<and> engine_step (EngineTick late) e1 = Some (e2, frames, downs) \<and>
    list_all2 (\<lambda>ev (fs, ds). nb \<notin> ld_neighbour ` set ds \<and> (\<forall>now. ev = EngineTick now \<longrightarrow> nb \<notin> fst ` set fs)) es outs \<and>
    filter (\<lambda>d. ld_neighbour d = nb) downs =
      [\<lparr>ld_neighbour = nb, ld_silent_for_ms = saturating_sub late (ls_last_reflection_ms n)\<rparr>] \<and>
    nb \<notin> fst ` set frames \<and> link_of e2 nb = None"
proof -
  have inv: "engine_inv e"
    by (rule engine.run_inv [OF engine_new_inv [OF assms(1)] assms(2)])
  then obtain e1 outs where run: "react engine_step es e = Some (e1, outs)" and inv1: "engine_inv e1"
    using engine.run_total by blast
  have "waiting nb (ie_local_node e) (ie_reset_window_ms e) (ls_last_reflection_ms n) e"
    using assms(3-5) by (simp add: waiting_def)
  note w = waiting_run [OF inv this assms(6) run]
  obtain n1 where n1: "ie_reset_window_ms e1 = ie_reset_window_ms e" "link_of e1 nb = Some n1" "ls_inp3_capable n1"
    "ls_last_reflection_ms n1 = ls_last_reflection_ms n"
    using w(1) by (auto simp: waiting_def)
  then have exp: "expired e1 late n1"
    using assms(7) by (simp add: expired_def silent_for_def)
  obtain e2 frames downs where st: "engine_step (EngineTick late) e1 = Some (e2, frames, downs)"
    using engine.total [OF inv1, of "EngineTick late"] by auto
  note t = tick_step [OF inv1 st]
  have "link_of e2 nb = None" "nb \<notin> fst ` set frames"
    using n1 exp t(1) [of nb] t(2) [of nb] by auto
  moreover have "filter (\<lambda>d. ld_neighbour d = nb) downs =
      [\<lparr>ld_neighbour = nb, ld_silent_for_ms = saturating_sub late (ls_last_reflection_ms n)\<rparr>]"
    using n1 exp by (simp add: t(3) downs_of [OF inv1] silent_for_def)
  ultimately show ?thesis
    using run st w(2) by blast
qed


theorem silent_link_goes_down_witness:
  "\<exists>e1 outs e2 frames downs.
    react engine_step [L3rtt far (frame_of far) 70000, EngineTick 150000] sample_engine = Some (e1, outs) \<and>
    engine_step (EngineTick 190000) e1 = Some (e2, frames, downs) \<and>
    list_all2 (\<lambda>ev (fs, ds). far \<notin> ld_neighbour ` set ds \<and> (\<forall>now. ev = EngineTick now \<longrightarrow> far \<notin> fst ` set fs))
      [L3rtt far (frame_of far) 70000, EngineTick 150000] outs \<and>
    filter (\<lambda>d. ld_neighbour d = far) downs =
      [\<lparr>ld_neighbour = far, ld_silent_for_ms = saturating_sub 190000 (ls_last_reflection_ms sample_link)\<rparr>] \<and>
    far \<notin> fst ` set frames \<and> link_of e2 far = None"
proof (rule silent_link_goes_down [OF default_valid])
  show "react engine_step sample_exchange (engine_new near INP3_DEFAULT) =
      Some (sample_engine, snd (the (react engine_step sample_exchange (engine_new near INP3_DEFAULT))))"
    by code_simp
  show "link_of sample_engine far = Some sample_link" "ls_awaiting_reflection sample_link" "ls_inp3_capable sample_link"
    "list_all (unanswered (ie_local_node sample_engine) (ie_reset_window_ms sample_engine)
       (ls_last_reflection_ms sample_link) far) [L3rtt far (frame_of far) 70000, EngineTick 150000]"
    "ie_reset_window_ms sample_engine < saturating_sub 190000 (ls_last_reflection_ms sample_link)"
    by code_simp+
qed


text \<open>
  A neighbour that has never sent a frame with the \<open>$N\<close> flag is never signalled down and never listed
  as capable, over all histories; and whoever is signalled has been silent for longer than the window.
\<close>

theorem down_only_after_flag:
  assumes "inp3_validate opts = Inr ()"
    and "react engine_step es (engine_new me opts) = Some (e, outs)"
    and "d \<in> set (concat (map snd outs))"
  shows "(\<exists>f now. L3rtt (ld_neighbour d) f now \<in> set es \<and> lf_inp3_capable f) \<and>
    ld_silent_for_ms d > ucast (io_l3_rtt_reset_window_ms opts)"
proof -
  let ?flagged = "\<lambda>es nb. \<exists>f now. L3rtt nb f now \<in> set es \<and> lf_inp3_capable f"
  let ?w = "ucast (io_l3_rtt_reset_window_ms opts) :: u64"
  let ?H = "\<lambda>es (outs :: ((callsign \<times> l3rtt_frame) list \<times> link_down list) list) e. ie_reset_window_ms e = ?w \<and>
    (\<forall>nb n. link_of e nb = Some n \<longrightarrow> ls_inp3_capable n \<longrightarrow> ?flagged es nb) \<and>
    (\<forall>d \<in> set (concat (map snd outs)). ?flagged es (ld_neighbour d) \<and> ld_silent_for_ms d > ?w)"
  have "?H es outs e"
  proof (rule engine.run_history [OF assms(2) engine_new_inv [OF assms(1)]])
    show "?H [] [] (engine_new me opts)"
      by (simp add: engine_new_def link_of_def)
  next
    fix es outs e ev e' out
    assume inv: "engine_inv e" and H: "?H es outs e" and st: "engine_step ev e = Some (e', out)"
    obtain frames downs where out: "out = (frames, downs)"
      by (cases out)
    note st = st [unfolded out]
    note simple = engine_step_def take_outbound_l3rtt_def take_neighbour_down_def
    have mono: "?flagged es nb \<Longrightarrow> ?flagged (es @ [ev]) nb" for nb
      by auto
    let ?J = "ie_reset_window_ms e' = ?w \<and>
        (\<forall>nb n. link_of e' nb = Some n \<longrightarrow> ls_inp3_capable n \<longrightarrow> ?flagged (es @ [ev]) nb) \<and>
        (\<forall>d \<in> set downs. ?flagged es (ld_neighbour d) \<and> ld_silent_for_ms d > ?w)"
    have still: ?J if old: "\<And>nb n. link_of e' nb = Some n \<Longrightarrow> ls_inp3_capable n \<Longrightarrow> \<exists>m. link_of e nb = Some m \<and> ls_inp3_capable m"
      and rest: "\<And>d. d \<in> set downs \<Longrightarrow> ?flagged es (ld_neighbour d) \<and> ld_silent_for_ms d > ?w"
        "ie_reset_window_ms e' = ?w"
    proof (intro conjI allI impI ballI)
      fix nb n
      assume "link_of e' nb = Some n" "ls_inp3_capable n"
      then obtain m where "link_of e nb = Some m" "ls_inp3_capable m"
        using old by blast
      then show "?flagged (es @ [ev]) nb"
        using H by (intro mono) blast
    qed (use rest in blast)+
    have ?J
    proof (cases ev)
      case (Observe x now)
      have "link_of e' nb = link_of (ensure_neighbour x now e) nb" for nb
        using st by (auto simp: Observe simple observe_neighbour_def link_of_def)
      then have "link_of e' nb = Some n \<Longrightarrow> ls_inp3_capable n \<Longrightarrow> link_of e nb = Some n" for nb n
        by (auto simp: link_of_ensure fresh_link_def split: if_splits)
      moreover have "downs = []" "ie_reset_window_ms e' = ?w"
        using st H inv by (auto simp: Observe simple observe_neighbour_def engine_inv_def)
      ultimately show ?thesis
        by (rule_tac still) simp_all
    next
      case (Forget x)
      have kept: "find (\<lambda>n. ls_neighbour n = nb) (filter (\<lambda>n. ls_neighbour n \<noteq> x) ns) = Some n \<Longrightarrow>
          nb \<noteq> x \<and> find (\<lambda>n. ls_neighbour n = nb) ns = Some n" for ns nb n
        by (induction ns) (auto split: if_splits)
      have "link_of e' nb = Some n \<Longrightarrow> link_of e nb = Some n" for nb n
        using st by (auto simp: Forget simple remove_neighbour_def link_of_def dest: kept)
      moreover have "downs = []" "ie_reset_window_ms e' = ?w"
        using st H inv by (auto simp: Forget simple remove_neighbour_def engine_inv_def)
      ultimately show ?thesis
        by (rule_tac still) simp_all
    next
      case (EngineTick now)
      note t = tick_step [OF inv st [unfolded EngineTick]]
      have "link_of e' nb = Some n \<Longrightarrow> ls_inp3_capable n \<Longrightarrow> \<exists>m. link_of e nb = Some m \<and> ls_inp3_capable m" for nb n
        using t(1) [of nb] by (auto split: option.splits if_splits)
      moreover have "?flagged es (ld_neighbour d)" "ld_silent_for_ms d > ?w" if mem: "d \<in> set downs" for d
      proof -
        obtain n where n: "n \<in> set (ie_neighbours e)" "expired e now n" "ls_inp3_capable n"
          and d: "d = \<lparr>ld_neighbour = ls_neighbour n, ld_silent_for_ms = silent_for now n\<rparr>"
          using mem by (auto simp: t(3) link_downs_def)
        then have "link_of e (ls_neighbour n) = Some n"
          using inv by (simp add: engine_inv_def link_of_Some)
        then show "?flagged es (ld_neighbour d)" "ld_silent_for_ms d > ?w"
          using H n by (auto simp: d expired_def)
      qed
      ultimately show ?thesis
        using H t(6) by (intro still) auto
    next
      case (L3rtt x f now)
      note t = frame_step [OF inv st [unfolded L3rtt]]
      have "ls_inp3_capable n \<Longrightarrow> ?flagged (es @ [ev]) x" if "link_of e' x = Some n" for n
      proof -
        assume "ls_inp3_capable n"
        moreover have "ls_inp3_capable n \<longleftrightarrow> ls_inp3_capable (link_entry e x now) \<or> lf_inp3_capable f"
          using that t(2,3) by (cases "is_reflection_of f (ie_local_node e) \<and> ls_awaiting_reflection (link_entry e x now)")
            (auto simp: accept_reflection_def split: option.splits)
        moreover have "?flagged (es @ [ev]) x" if "ls_inp3_capable (link_entry e x now)"
          using H that by (intro mono) (auto simp: link_entry_def fresh_link_def split: option.splits)
        moreover have "?flagged (es @ [ev]) x" if "lf_inp3_capable f"
          using that by (auto simp: L3rtt)
        ultimately show ?thesis
          by blast
      qed
      moreover have "?flagged (es @ [ev]) nb" if "nb \<noteq> x" "link_of e' nb = Some n" "ls_inp3_capable n" for nb n
        using that t(1) [of nb] H by (intro mono) auto
      ultimately have "?flagged (es @ [ev]) nb" if "link_of e' nb = Some n" "ls_inp3_capable n" for nb n
        using that by (cases "nb = x") simp_all
      then show ?thesis
        using H t(4,7) by simp
    next
      case (Rename node)
      have "link_of e' = link_of e" "downs = []" "ie_reset_window_ms e' = ?w"
        using st H inv by (auto simp: Rename simple engine_set_local_node_def link_of_def engine_inv_def fun_eq_iff)
      then show ?thesis
        by (rule_tac still) simp_all
    qed
    moreover have "?flagged (es @ [ev]) (ld_neighbour d) \<and> ld_silent_for_ms d > ?w"
      if "d \<in> set (concat (map snd (outs @ [out])))" for d
    proof (intro conjI mono)
      show "?flagged es (ld_neighbour d)" "ld_silent_for_ms d > ?w"
        using that H \<open>?J\<close> by (auto simp: out)
    qed
    ultimately show "?H (es @ [ev]) (outs @ [out]) e'"
      by blast
  qed
  then show ?thesis
    using assms(3) by blast
qed

theorem down_only_after_flag_witness:
  "(\<exists>f now. L3rtt far f now \<in> set (sample_exchange @ [EngineTick 190000]) \<and> lf_inp3_capable f) \<and>
    188600 > (ucast (io_l3_rtt_reset_window_ms INP3_DEFAULT) :: u64)"
proof -
  have run: "react engine_step (sample_exchange @ [EngineTick 190000]) (engine_new near INP3_DEFAULT) =
      Some (fst sample_silence, snd sample_silence)"
    by code_simp
  have down: "\<lparr>ld_neighbour = far, ld_silent_for_ms = 188600\<rparr> \<in> set (concat (map snd (snd sample_silence)))"
    by code_simp
  from down_only_after_flag [OF default_valid run down] show ?thesis
    by simp
qed

text \<open>
  C19: One exchange. When a tick probes a neighbour and the neighbour sends the frame back unchanged, half
  the time between the two, clamped, is the sample that the filter takes, the neighbour is heard and no
  longer awaited. The flags that are learned from the frame are those of our own probe: the neighbour is
  capable from then on, and it is said to accept the IP version that we advertise, if we advertise one.
\<close>

theorem probe_and_echo:
  assumes "inp3_validate opts = Inr ()"
    and "react engine_step es (engine_new me opts) = Some (e, outs)"
    and "engine_step (EngineTick sent) e = Some (e1, frames, downs)" "(nb, f) \<in> set frames"
  shows "\<exists>n e2 n2 ms. link_of e nb = Some n \<and>
    engine_step (L3rtt nb f back) e1 = Some (e2, [], []) \<and> link_of e2 nb = Some n2 \<and>
    smooth (ls_sntt_ms n)
      (let half = saturating_sub back sent div 2
       in if half > ucast SNTT_SAMPLE_MAX_MS then SNTT_SAMPLE_MAX_MS else ucast half)
      (ucast (io_sntt_gain_shift (ie_options e))) = Some ms \<and>
    engine_sntt_ms e2 nb = Some ms \<and> \<not> ls_awaiting_reflection n2 \<and> ls_last_reflection_ms n2 = back \<and>
    ls_inp3_capable n2 \<and>
    ls_ip_accept n2 = (case io_advertise_ip_accept (ie_options e) of None \<Rightarrow> ls_ip_accept n | Some ip \<Rightarrow> Some ip)"
proof -
  have inv: "engine_inv e"
    by (rule engine.run_inv [OF engine_new_inv [OF assms(1)] assms(2)])
  note t = tick_step [OF inv assms(3)]
  obtain n where n: "link_of e nb = Some n" "\<not> expired e sent n" "probe_due e sent n" "probe_frame e = Some f"
    using t(2) assms(4) by blast
  have inv1: "engine_inv e1"
    by (rule engine.next_inv [OF inv assms(3)])
  let ?n1 = "n\<lparr>ls_last_l3rtt_sent_ms := sent, ls_awaiting_reflection := True\<rparr>"
  have n1: "link_of e1 nb = Some ?n1"
    using t(1) [of nb] n by (simp add: probed_def)
  have f: "is_reflection_of f (ie_local_node e1)" "lf_inp3_capable f" "lf_ip_accept f = io_advertise_ip_accept (ie_options e)"
    using n(4) t(4) l3rtt_build_origin l3rtt_build_flags by (auto simp: probe_frame_def)
  obtain e2 fs ds where st: "engine_step (L3rtt nb f back) e1 = Some (e2, fs, ds)"
    using engine.total [OF inv1, of "L3rtt nb f back"] by auto
  note s = frame_step [OF inv1 st]
  have entry: "link_entry e1 nb back = ?n1"
    by (simp add: link_entry_def n1)
  obtain n2 where n2: "link_of e2 nb = Some n2" "fs = []"
    "accept_reflection (ucast (io_sntt_gain_shift (ie_options e))) back (learn_flags f ?n1) = Some n2"
    using s(3) f(1) by (auto simp: entry t(5))
  then obtain ms where ms: "smooth (ls_sntt_ms n) (half_rtt back (learn_flags f ?n1))
      (ucast (io_sntt_gain_shift (ie_options e))) = Some ms"
    and n2_eq: "n2 = (learn_flags f ?n1)\<lparr>ls_awaiting_reflection := False, ls_last_reflection_ms := back, ls_sntt_ms := ms\<rparr>"
    by (auto simp: accept_reflection_def split: option.splits)
  have "ls_initialised n2"
  proof -
    have "gain_shift_in_range (ucast (io_sntt_gain_shift (ie_options e)))" "link_ok n"
      using inv n(1) validate_gain by (auto simp: engine_inv_def link_of_Some list_all_iff)
    then have "unat ms \<le> 600000"
      using smooth_total ms by (metis link_ok_def option.inject)
    then show ?thesis
      using unat_UNSET by (auto simp: ls_initialised_def n2_eq)
  qed
  then have "engine_sntt_ms e2 nb = Some ms"
    by (simp add: engine_sntt_ms_def n2(1)) (simp add: n2_eq)
  moreover have "half_rtt back (learn_flags f ?n1) =
      (let half = saturating_sub back sent div 2
       in if half > ucast SNTT_SAMPLE_MAX_MS then SNTT_SAMPLE_MAX_MS else ucast half)"
    by (simp add: half_rtt_def)
  moreover have "\<not> ls_awaiting_reflection n2" "ls_last_reflection_ms n2 = back" "ls_inp3_capable n2"
    "ls_ip_accept n2 = (case io_advertise_ip_accept (ie_options e) of None \<Rightarrow> ls_ip_accept n | Some ip \<Rightarrow> Some ip)"
    using f(2,3) by (auto simp: n2_eq split: option.split)
  ultimately show ?thesis
    using n(1) st n2(1,2) s(4) ms by auto
qed

theorem probe_and_echo_witness:
  "\<exists>n e2 n2 ms. link_of (engine_new near INP3_DEFAULT\<lparr>ie_neighbours := [fresh_link far 0]\<rparr>) far = Some n \<and>
    engine_step (L3rtt far (frame_of near) 1400)
      (fst (the (engine_step (EngineTick 1000) (engine_new near INP3_DEFAULT\<lparr>ie_neighbours := [fresh_link far 0]\<rparr>)))) = Some (e2, [], []) \<and>
    link_of e2 far = Some n2 \<and>
    smooth (ls_sntt_ms n)
      (let half = saturating_sub 1400 1000 div 2
       in if half > ucast SNTT_SAMPLE_MAX_MS then SNTT_SAMPLE_MAX_MS else ucast (half :: u64))
      (ucast (io_sntt_gain_shift (ie_options (engine_new near INP3_DEFAULT\<lparr>ie_neighbours := [fresh_link far 0]\<rparr>)))) = Some ms \<and>
    engine_sntt_ms e2 far = Some ms \<and> \<not> ls_awaiting_reflection n2 \<and> ls_last_reflection_ms n2 = 1400 \<and>
    ls_inp3_capable n2 \<and>
    ls_ip_accept n2 = (case io_advertise_ip_accept (ie_options (engine_new near INP3_DEFAULT\<lparr>ie_neighbours := [fresh_link far 0]\<rparr>)) of
      None \<Rightarrow> ls_ip_accept n | Some ip \<Rightarrow> Some ip)"
proof (rule probe_and_echo [OF default_valid])
  show "react engine_step [Observe far 0] (engine_new near INP3_DEFAULT) =
      Some (engine_new near INP3_DEFAULT\<lparr>ie_neighbours := [fresh_link far 0]\<rparr>, [([], [])])"
    by code_simp
  show "engine_step (EngineTick 1000) (engine_new near INP3_DEFAULT\<lparr>ie_neighbours := [fresh_link far 0]\<rparr>) =
      Some (fst (the (engine_step (EngineTick 1000) (engine_new near INP3_DEFAULT\<lparr>ie_neighbours := [fresh_link far 0]\<rparr>))),
        [(far, frame_of near)], [])"
    by code_simp
  show "(far, frame_of near) \<in> set [(far, frame_of near)]"
    by simp
qed


end
