(* ===== verification/Netrom_Scheduler.thy ===== *)
theory Netrom_Scheduler
  imports Netrom_Table Reactive
begin

text \<open>
  When to send an INP3 routing frame, and to whom (\<open>netrom/transport/inp3_update_scheduler.rs\<close>): the
  changes of destinations are marked, and a tick turns them into one intent for each target neighbour, at
  once for a loss, after a debounce for an improvement, and on the baseline interval in any case.
\<close>

section \<open>State\<close>

datatype update_class = Positive | Negative

datatype advertise_reason = Triggered | Periodic

record advertise_intent =
  ai_neighbour :: callsign
  ai_reason :: advertise_reason

record scheduler_status =
  st_negative_dirty :: nat
  st_positive_dirty :: nat
  st_target_neighbours :: nat

definition NEVER_MARKED :: u64 where "NEVER_MARKED = - 1"

record scheduler =
  us_rif_interval_ms :: u64
  us_positive_debounce_ms :: u64
  us_dirty :: "(callsign \<times> update_class) list"
  us_target_neighbours :: "callsign list"
  us_earliest_positive_mark_ms :: u64
  us_last_periodic_ms :: u64
  us_outbox :: "advertise_intent list"

definition scheduler_new :: "u64 \<Rightarrow> u64 \<Rightarrow> scheduler" where
  "scheduler_new rif_interval_ms positive_debounce_ms =
     \<lparr>us_rif_interval_ms = rif_interval_ms, us_positive_debounce_ms = positive_debounce_ms, us_dirty = [],
      us_target_neighbours = [], us_earliest_positive_mark_ms = NEVER_MARKED, us_last_periodic_ms = 0,
      us_outbox = []\<rparr>"

section \<open>Operations\<close>

text \<open>The neighbours in the order of their first occurrence.\<close>

fun keep_first :: "callsign list \<Rightarrow> callsign list \<Rightarrow> callsign list" where
  "keep_first snapshot [] = snapshot"
| "keep_first snapshot (c # cs) = keep_first (if c \<in> set snapshot then snapshot else snapshot @ [c]) cs"

definition set_target_neighbours :: "callsign list \<Rightarrow> scheduler \<Rightarrow> scheduler" where
  "set_target_neighbours capable s = s\<lparr>us_target_neighbours := sort_key callsign_key (keep_first [] capable)\<rparr>"

fun upgrade :: "callsign \<Rightarrow> update_class \<Rightarrow> (callsign \<times> update_class) list \<Rightarrow> (callsign \<times> update_class) list" where
  "upgrade d cls [] = []"
| "upgrade d cls ((d', c) # ds) =
     (if d' = d then (d', if c = Positive \<and> cls = Negative then Negative else c) # ds
      else (d', c) # upgrade d cls ds)"

definition mark :: "callsign \<Rightarrow> update_class \<Rightarrow> u64 \<Rightarrow> scheduler \<Rightarrow> scheduler" where
  "mark d cls now s =
     (if list_ex (\<lambda>(d', c). d' = d) (us_dirty s) then s\<lparr>us_dirty := upgrade d cls (us_dirty s)\<rparr>
      else
        let s1 = s\<lparr>us_dirty := us_dirty s @ [(d, cls)]\<rparr>
        in if cls = Positive \<and> us_earliest_positive_mark_ms s = NEVER_MARKED
           then s1\<lparr>us_earliest_positive_mark_ms := now\<rparr> else s1)"

definition mark_dirty :: "callsign \<Rightarrow> update_class \<Rightarrow> u64 \<Rightarrow> scheduler \<Rightarrow> scheduler" where
  "mark_dirty d cls now s = mark d cls now s"

definition mark_withdrawn :: "callsign \<Rightarrow> u64 \<Rightarrow> scheduler \<Rightarrow> scheduler" where
  "mark_withdrawn d now s = mark d Negative now s"

definition periodic_due :: "u64 \<Rightarrow> scheduler \<Rightarrow> bool" where
  "periodic_due now s \<longleftrightarrow> saturating_sub now (us_last_periodic_ms s) \<ge> us_rif_interval_ms s"

definition negative_due :: "scheduler \<Rightarrow> bool" where
  "negative_due s \<longleftrightarrow> list_ex (\<lambda>(d, c). c = Negative) (us_dirty s)"

definition positive_due :: "u64 \<Rightarrow> scheduler \<Rightarrow> bool" where
  "positive_due now s \<longleftrightarrow> us_earliest_positive_mark_ms s \<noteq> NEVER_MARKED \<and>
     saturating_sub now (us_earliest_positive_mark_ms s) \<ge> us_positive_debounce_ms s"

definition fan_out_reason :: "u64 \<Rightarrow> scheduler \<Rightarrow> advertise_reason option" where
  "fan_out_reason now s =
     (if periodic_due now s then Some Periodic
      else if negative_due s \<or> positive_due now s then Some Triggered else None)"

definition scheduler_tick :: "u64 \<Rightarrow> scheduler \<Rightarrow> scheduler" where
  "scheduler_tick now s =
     (case fan_out_reason now s of
        None \<Rightarrow> s
      | Some reason \<Rightarrow>
          let s1 = s\<lparr>us_outbox := us_outbox s @
                map (\<lambda>nb. \<lparr>ai_neighbour = nb, ai_reason = reason\<rparr>) (us_target_neighbours s),
              us_dirty := [], us_earliest_positive_mark_ms := NEVER_MARKED\<rparr>
          in if periodic_due now s then s1\<lparr>us_last_periodic_ms := now\<rparr> else s1)"

definition take_advertise_intents :: "scheduler \<Rightarrow> scheduler \<times> advertise_intent list" where
  "take_advertise_intents s = (s\<lparr>us_outbox := []\<rparr>, us_outbox s)"

definition scheduler_status :: "scheduler \<Rightarrow> scheduler_status" where
  "scheduler_status s =
     \<lparr>st_negative_dirty = length (filter (\<lambda>(d, c). c = Negative) (us_dirty s)),
      st_positive_dirty = length (filter (\<lambda>(d, c). c = Positive) (us_dirty s)),
      st_target_neighbours = length (us_target_neighbours s)\<rparr>"

section \<open>Runs\<close>

datatype scheduler_event =
  Targets "callsign list"
| Mark callsign update_class u64
| Withdraw callsign u64
| SchedulerTick u64

fun scheduler_op :: "scheduler_event \<Rightarrow> scheduler \<Rightarrow> scheduler" where
  "scheduler_op (Targets ts) s = set_target_neighbours ts s"
| "scheduler_op (Mark d cls now) s = mark_dirty d cls now s"
| "scheduler_op (Withdraw d now) s = mark_withdrawn d now s"
| "scheduler_op (SchedulerTick now) s = scheduler_tick now s"

text \<open>The host takes the intents after each operation.\<close>

definition scheduler_step :: "scheduler_event \<Rightarrow> scheduler \<Rightarrow> (scheduler \<times> advertise_intent list) panicking" where
  "scheduler_step ev s = Some (take_advertise_intents (scheduler_op ev s))"

text \<open>
  Each destination is pending in one class; while a positive one is pending the debounce is anchored,
  unless its mark carried the sentinel as its time, which no clock reaches.
\<close>

fun clocked :: "scheduler_event \<Rightarrow> bool" where
  "clocked (Mark d cls now) \<longleftrightarrow> now \<noteq> NEVER_MARKED"
| "clocked ev \<longleftrightarrow> True"

definition scheduler_inv :: "scheduler \<Rightarrow> bool" where
  "scheduler_inv s \<longleftrightarrow> distinct (map fst (us_dirty s)) \<and> distinct (us_target_neighbours s) \<and>
     sorted (map callsign_key (us_target_neighbours s)) \<and> us_outbox s = []"

lemma keep_first_eq: "distinct snapshot \<Longrightarrow> distinct (keep_first snapshot cs) \<and> set (keep_first snapshot cs) = set snapshot \<union> set cs"
  by (induction cs arbitrary: snapshot) auto

lemma map_fst_upgrade [simp]: "map fst (upgrade d cls ds) = map fst ds"
  by (induction d cls ds rule: upgrade.induct) auto

lemma mark_fields [simp]:
  "us_rif_interval_ms (mark d cls now s) = us_rif_interval_ms s"
  "us_positive_debounce_ms (mark d cls now s) = us_positive_debounce_ms s"
  "us_target_neighbours (mark d cls now s) = us_target_neighbours s"
  "us_last_periodic_ms (mark d cls now s) = us_last_periodic_ms s"
  "us_outbox (mark d cls now s) = us_outbox s"
  by (simp_all add: mark_def Let_def)

lemma fst_dirty_mark: "fst ` set (us_dirty (mark d cls now s)) = insert d (fst ` set (us_dirty s))"
proof -
  have "fst ` set (upgrade d cls (us_dirty s)) = fst ` set (us_dirty s)"
    by (metis list.set_map map_fst_upgrade)
  then show ?thesis
    by (auto simp: mark_def Let_def list_ex_iff split: prod.splits intro: rev_image_eqI)
qed

lemma dirty_mark_inv: "scheduler_inv s \<Longrightarrow> scheduler_inv (mark d cls now s)"
  by (auto simp: scheduler_inv_def mark_def Let_def list_ex_iff)

lemma set_target_inv: "scheduler_inv s \<Longrightarrow> scheduler_inv (set_target_neighbours ts s)"
  using keep_first_eq [of "[]" ts] by (auto simp: scheduler_inv_def set_target_neighbours_def)

lemma tick_outbox:
  "snd (take_advertise_intents (scheduler_tick now s)) = us_outbox s @ (case fan_out_reason now s of
     None \<Rightarrow> []
   | Some reason \<Rightarrow> map (\<lambda>nb. \<lparr>ai_neighbour = nb, ai_reason = reason\<rparr>) (us_target_neighbours s))"
  by (simp add: take_advertise_intents_def scheduler_tick_def Let_def split: option.split)

lemma scheduler_tick_inv: "scheduler_inv s \<Longrightarrow> scheduler_inv (fst (take_advertise_intents (scheduler_tick now s)))"
  by (auto simp: scheduler_inv_def take_advertise_intents_def scheduler_tick_def Let_def split: option.split)

interpretation scheduling: reactive scheduler_step scheduler_inv
proof
  fix s ev
  assume inv: "scheduler_inv s"
  have "scheduler_inv (fst (take_advertise_intents (scheduler_op ev s)))"
  proof (cases ev)
    case (SchedulerTick now)
    then show ?thesis
      using scheduler_tick_inv [OF inv] by simp
  next
    case (Targets ts)
    then show ?thesis
      using set_target_inv [OF inv, of ts] by (simp add: take_advertise_intents_def scheduler_inv_def)
  next
    case (Mark d cls now)
    then show ?thesis
      using dirty_mark_inv [OF inv, of d cls now] by (simp add: take_advertise_intents_def scheduler_inv_def mark_dirty_def)
  next
    case (Withdraw d now)
    then show ?thesis
      using dirty_mark_inv [OF inv, of d Negative now]
      by (simp add: take_advertise_intents_def scheduler_inv_def mark_withdrawn_def)
  qed
  then show "\<exists>s' out. scheduler_step ev s = Some (s', out) \<and> scheduler_inv s'"
    by (cases "take_advertise_intents (scheduler_op ev s)") (simp add: scheduler_step_def)
qed

lemma scheduler_new_inv: "scheduler_inv (scheduler_new r p)"
  by (simp add: scheduler_new_def scheduler_inv_def)


section \<open>What a run owes to a mark\<close>

text \<open>The debounce runs from the time of some mark, and never while nothing is pending.\<close>

fun marked_by :: "u64 \<Rightarrow> scheduler_event \<Rightarrow> bool" where
  "marked_by m (Mark d cls now) \<longleftrightarrow> now \<noteq> NEVER_MARKED \<and> now \<le> m"
| "marked_by m ev \<longleftrightarrow> True"

definition anchored :: "u64 \<Rightarrow> scheduler \<Rightarrow> bool" where
  "anchored m s \<longleftrightarrow>
     ((\<exists>d. (d, Positive) \<in> set (us_dirty s)) \<longrightarrow> us_earliest_positive_mark_ms s \<noteq> NEVER_MARKED) \<and>
     (us_earliest_positive_mark_ms s \<noteq> NEVER_MARKED \<longrightarrow> us_earliest_positive_mark_ms s \<le> m \<and> us_dirty s \<noteq> [])"

lemma upgrade_Positive: "(d', Positive) \<in> set (upgrade d cls ds) \<Longrightarrow> (d', Positive) \<in> set ds"
  by (induction d cls ds rule: upgrade.induct) (auto split: if_splits)

lemma upgrade_Nil [simp]: "upgrade d cls ds = [] \<longleftrightarrow> ds = []"
  by (induction d cls ds rule: upgrade.induct) auto

lemma mark_anchored:
  assumes "anchored m s" "cls = Positive \<Longrightarrow> now \<noteq> NEVER_MARKED \<and> now \<le> m"
  shows "anchored m (mark d cls now s)"
  using assms by (cases cls) (auto simp: anchored_def mark_def Let_def dest: upgrade_Positive)

lemma op_anchored:
  assumes "anchored m s" "marked_by m ev"
  shows "anchored m (scheduler_op ev s)"
proof (cases ev)
  case (SchedulerTick now)
  then show ?thesis
    using assms by (auto simp: anchored_def scheduler_tick_def Let_def split: option.split)
next
  case (Targets ts)
  then show ?thesis
    using assms(1) by (simp add: set_target_neighbours_def anchored_def)
next
  case (Mark d cls now)
  then show ?thesis
    using assms by (simp add: mark_dirty_def mark_anchored)
next
  case (Withdraw d now)
  then show ?thesis
    using mark_anchored [OF assms(1), of Negative] by (simp add: mark_withdrawn_def)
qed

lemma take_anchored [simp]: "anchored m (fst (take_advertise_intents s)) = anchored m s"
  by (simp add: anchored_def take_advertise_intents_def)

lemma run_anchored:
  assumes "react scheduler_step es s = Some (s', outs)" "anchored m s" "list_all (marked_by m) es"
  shows "anchored m s'"
  using assms
proof (induction es arbitrary: s outs)
  case (Cons ev es)
  let ?s1 = "fst (take_advertise_intents (scheduler_op ev s))"
  obtain outs' where "react scheduler_step es ?s1 = Some (s', outs')"
    using Cons.prems(1) [unfolded react_Cons_Some] by (auto simp: scheduler_step_def)
  moreover have "anchored m ?s1" "list_all (marked_by m) es"
    using Cons.prems(2,3) by (simp_all add: op_anchored)
  ultimately show ?case
    by (rule Cons.IH)
qed simp

text \<open>A destination whose mark at \<open>m\<close> is still pending.\<close>

definition pending :: "callsign \<Rightarrow> u64 \<Rightarrow> scheduler \<Rightarrow> bool" where
  "pending d m s \<longleftrightarrow> (d, Negative) \<in> set (us_dirty s) \<or>
     ((d, Positive) \<in> set (us_dirty s) \<and> us_earliest_positive_mark_ms s \<noteq> NEVER_MARKED \<and>
      us_earliest_positive_mark_ms s \<le> m)"

lemma set_upgrade:
  assumes "(x, c) \<in> set ds"
  shows "(x, c) \<in> set (upgrade d cls ds) \<or> (x, Negative) \<in> set (upgrade d cls ds)"
  using assms by (induction d cls ds rule: upgrade.induct) auto

lemma upgrade_Negative:
  assumes "d \<in> fst ` set ds" "distinct (map fst ds)"
  shows "(d, Negative) \<in> set (upgrade d Negative ds)"
  using assms
proof (induction d "Negative" ds rule: upgrade.induct)
  case (2 d d' c ds)
  then show ?case
    by (cases c) auto
qed simp

lemma mark_pending_self:
  assumes "scheduler_inv s" "anchored m s" "cls = Positive \<Longrightarrow> m \<noteq> NEVER_MARKED"
  shows "pending d m (mark d cls m s)"
    and "cls = Negative \<Longrightarrow> (d, Negative) \<in> set (us_dirty (mark d cls m s))"
proof -
  have known: "list_ex (\<lambda>(d', c). d' = d) (us_dirty s) \<longleftrightarrow> d \<in> fst ` set (us_dirty s)"
    by (force simp: list_ex_iff)
  show neg: "cls = Negative \<Longrightarrow> (d, Negative) \<in> set (us_dirty (mark d cls m s))"
    using assms(1) upgrade_Negative [of d "us_dirty s"] by (auto simp: mark_def Let_def known scheduler_inv_def)
  show "pending d m (mark d cls m s)"
  proof (cases "cls = Positive \<and> d \<in> fst ` set (us_dirty s)")
    case True
    then obtain c where "(d, c) \<in> set (us_dirty s)"
      by auto
    then have "pending d m s"
      using assms(2) by (cases c) (auto simp: pending_def anchored_def)
    then show ?thesis
      using True known by (auto simp: pending_def mark_def dest: set_upgrade)
  next
    case False
    then show ?thesis
      using neg assms(2,3) by (cases cls) (auto simp: pending_def mark_def Let_def known anchored_def)
  qed
qed

lemma op_pending:
  assumes "pending d m s" "\<And>now. ev = SchedulerTick now \<Longrightarrow> fan_out_reason now s = None"
  shows "pending d m (scheduler_op ev s)"
    and "(d, Negative) \<in> set (us_dirty s) \<Longrightarrow> (d, Negative) \<in> set (us_dirty (scheduler_op ev s))"
proof -
  have marked: "pending d m (mark x cls now s)" for x cls now
  proof (cases "list_ex (\<lambda>(d', c). d' = x) (us_dirty s)")
    case True
    then show ?thesis
      using assms(1) set_upgrade [of d _ "us_dirty s" x cls] by (auto simp: pending_def mark_def)
  next
    case False
    then show ?thesis
      using assms(1) by (auto simp: pending_def mark_def Let_def)
  qed
  have neg: "(d, Negative) \<in> set (us_dirty s) \<Longrightarrow> (d, Negative) \<in> set (us_dirty (mark x cls now s))" for x cls now
    using set_upgrade [of d Negative "us_dirty s" x cls] by (auto simp: mark_def Let_def)
  show "pending d m (scheduler_op ev s)"
    using assms marked
    by (cases ev) (auto simp: mark_dirty_def mark_withdrawn_def scheduler_tick_def set_target_neighbours_def pending_def)
  show "(d, Negative) \<in> set (us_dirty s) \<Longrightarrow> (d, Negative) \<in> set (us_dirty (scheduler_op ev s))"
    using assms neg by (cases ev) (auto simp: mark_dirty_def mark_withdrawn_def scheduler_tick_def set_target_neighbours_def)
qed

lemma take_dirty [simp]:
  "us_dirty (fst (take_advertise_intents s)) = us_dirty s" "pending d m (fst (take_advertise_intents s)) = pending d m s"
  "us_positive_debounce_ms (fst (take_advertise_intents s)) = us_positive_debounce_ms s"
  by (simp_all add: take_advertise_intents_def pending_def)

lemma op_debounce [simp]: "us_positive_debounce_ms (scheduler_op ev s) = us_positive_debounce_ms s"
  by (cases ev) (simp_all add: mark_dirty_def mark_withdrawn_def set_target_neighbours_def scheduler_tick_def
      Let_def split: option.split)

lemma run_debounce:
  assumes "react scheduler_step es s = Some (s', outs)"
  shows "us_positive_debounce_ms s' = us_positive_debounce_ms s"
proof (rule react_history [OF assms, where H = "\<lambda>_ _ s'. us_positive_debounce_ms s' = us_positive_debounce_ms s"])
  fix s1 e s2 out
  assume "us_positive_debounce_ms s1 = us_positive_debounce_ms s" "scheduler_step e s1 = Some (s2, out)"
  moreover from this have "s2 = fst (take_advertise_intents (scheduler_op e s1))"
    by (simp add: scheduler_step_def)
  ultimately show "us_positive_debounce_ms s2 = us_positive_debounce_ms s"
    by simp
qed simp

lemma tick_clears:
  "fan_out_reason t s \<noteq> None \<Longrightarrow> us_dirty (scheduler_tick t s) = [] \<and>
    us_earliest_positive_mark_ms (scheduler_tick t s) = NEVER_MARKED"
  by (auto simp: scheduler_tick_def Let_def)

lemma pending_fires:
  assumes "pending d m s"
    and "(d, Negative) \<in> set (us_dirty s) \<or> unat m + unat (us_positive_debounce_ms s) \<le> unat t"
  shows "fan_out_reason t s \<noteq> None"
proof (cases "(d, Negative) \<in> set (us_dirty s)")
  case True
  then have "negative_due s"
    by (auto simp: negative_due_def list_ex_iff)
  then show ?thesis
    by (simp add: fan_out_reason_def)
next
  case False
  then have "us_earliest_positive_mark_ms s \<noteq> NEVER_MARKED" "us_earliest_positive_mark_ms s \<le> m"
    "unat m + unat (us_positive_debounce_ms s) \<le> unat t"
    using assms by (auto simp: pending_def)
  then have "positive_due t s"
    by (auto simp: positive_due_def word_le_nat_alt unat_saturating_sub)
  then show ?thesis
    by (simp add: fan_out_reason_def)
qed

lemma served:
  assumes "scheduler_inv s" "pending d m s"
    and "(d, Negative) \<in> set (us_dirty s) \<or> unat m + unat (us_positive_debounce_ms s) \<le> unat t"
  shows "\<exists>es1 now es2 s1 outs1 reason. es @ [SchedulerTick t] = es1 @ SchedulerTick now # es2 \<and>
    react scheduler_step es1 s = Some (s1, outs1) \<and> fan_out_reason now s1 = Some reason"
  using assms
proof (induction es arbitrary: s)
  case Nil
  then obtain reason where "fan_out_reason t s = Some reason"
    using pending_fires by blast
  moreover have "react scheduler_step [] s = Some (s, [])"
    by simp
  ultimately show ?case
    by (metis append_Nil)
next
  case (Cons ev es)
  show ?case
  proof (cases "\<exists>now reason. ev = SchedulerTick now \<and> fan_out_reason now s = Some reason")
    case True
    moreover have "react scheduler_step [] s = Some (s, [])"
      by simp
    ultimately show ?thesis
      by (metis append_Cons append_Nil)
  next
    case False
    then have idle: "\<And>now. ev = SchedulerTick now \<Longrightarrow> fan_out_reason now s = None"
      by (metis option.exhaust)
    let ?s1 = "fst (take_advertise_intents (scheduler_op ev s))"
    obtain out where st: "scheduler_step ev s = Some (?s1, out)"
      by (simp add: scheduler_step_def) (metis prod.collapse)
    note op = op_pending [OF Cons.prems(2) idle]
    have "pending d m ?s1" and "(d, Negative) \<in> set (us_dirty ?s1) \<or> unat m + unat (us_positive_debounce_ms ?s1) \<le> unat t"
      using op Cons.prems(3) by auto
    from Cons.IH [OF scheduling.next_inv [OF Cons.prems(1) st] this]
    obtain es1 now es2 s1 outs1 reason where "es @ [SchedulerTick t] = es1 @ SchedulerTick now # es2"
      "react scheduler_step es1 ?s1 = Some (s1, outs1)" "fan_out_reason now s1 = Some reason"
      by blast
    then have "(ev # es) @ [SchedulerTick t] = (ev # es1) @ SchedulerTick now # es2"
      "react scheduler_step (ev # es1) s = Some (s1, out # outs1)" "fan_out_reason now s1 = Some reason"
      using st by simp_all
    then show ?thesis
      by blast
  qed
qed


section \<open>Properties\<close>

text \<open>
  C21: Every change is advertised. In any history whose marks are stamped by a clock up to \<open>m\<close>, a destination
  that is marked at \<open>m\<close>, then anything, and then a tick: if the change is a loss, or the tick comes the debounce
  after \<open>m\<close>, then that tick or one before it sends an intent to each neighbour that is then a target, once
  and in callsign order, and nothing is pending after it.
\<close>

theorem change_is_advertised:
  assumes "react scheduler_step es0 (scheduler_new rif_interval debounce) = Some (s, outs0)"
    and "list_all (marked_by m) es0" "m \<noteq> NEVER_MARKED"
    and "cls = Negative \<or> unat m + unat debounce \<le> unat t"
  shows "\<exists>es1 now es2 s1 outs1 s2 reason. es @ [SchedulerTick t] = es1 @ SchedulerTick now # es2 \<and>
    react scheduler_step (Mark d cls m # es1) s = Some (s1, outs1) \<and>
    scheduler_step (SchedulerTick now) s1 =
      Some (s2, map (\<lambda>nb. \<lparr>ai_neighbour = nb, ai_reason = reason\<rparr>) (us_target_neighbours s1)) \<and>
    distinct (us_target_neighbours s1) \<and> sorted (map callsign_key (us_target_neighbours s1)) \<and>
    st_negative_dirty (scheduler_status s2) = 0 \<and> st_positive_dirty (scheduler_status s2) = 0"
proof -
  let ?s = "fst (take_advertise_intents (mark d cls m s))"
  have inv: "scheduler_inv s"
    by (rule scheduling.run_inv [OF scheduler_new_inv assms(1)])
  have "anchored m (scheduler_new rif_interval debounce)"
    by (simp add: anchored_def scheduler_new_def)
  then have anch: "anchored m s"
    using run_anchored assms(1,2) by blast
  have deb: "us_positive_debounce_ms s = debounce"
    using run_debounce [OF assms(1)] by (simp add: scheduler_new_def)
  have st: "scheduler_step (Mark d cls m) s = Some (?s, [])"
    using inv by (simp add: scheduler_step_def mark_dirty_def take_advertise_intents_def scheduler_inv_def)
  have inv1: "scheduler_inv ?s"
    by (rule scheduling.next_inv [OF inv st])
  have "pending d m ?s" "(d, Negative) \<in> set (us_dirty ?s) \<or> unat m + unat (us_positive_debounce_ms ?s) \<le> unat t"
    using mark_pending_self [OF inv anch] assms(3,4) deb by auto
  from served [OF inv1 this, of es] obtain es1 now es2 s1 outs1 reason where
    split: "es @ [SchedulerTick t] = es1 @ SchedulerTick now # es2" and run: "react scheduler_step es1 ?s = Some (s1, outs1)"
    and fire: "fan_out_reason now s1 = Some reason"
    by blast
  have inv2: "scheduler_inv s1"
    by (rule scheduling.run_inv [OF inv1 run])
  let ?s2 = "fst (take_advertise_intents (scheduler_tick now s1))"
  have "scheduler_step (SchedulerTick now) s1 =
      Some (?s2, map (\<lambda>nb. \<lparr>ai_neighbour = nb, ai_reason = reason\<rparr>) (us_target_neighbours s1))"
    using tick_outbox [of now s1] fire inv2
    by (cases "take_advertise_intents (scheduler_tick now s1)") (simp add: scheduler_step_def scheduler_inv_def)
  moreover have "us_dirty ?s2 = []"
    using fire tick_clears by simp
  ultimately show ?thesis
    using split run st inv2 by (intro exI [of _ es1] exI [of _ now] exI [of _ es2] exI [of _ s1]
        exI [of _ "[] # outs1"] exI [of _ ?s2] exI [of _ reason])
      (simp add: scheduler_inv_def scheduler_status_def)
qed

text \<open>
  Improvements are batched. After a fan-out at \<open>t1\<close>, as long as all marks are improvements at \<open>t1\<close> or
  later, a tick that sends anything as triggered comes at least the debounce after \<open>t1\<close>.
\<close>

fun improvement :: "u64 \<Rightarrow> scheduler_event \<Rightarrow> bool" where
  "improvement t1 (Mark d cls now) \<longleftrightarrow> cls = Positive \<and> t1 \<le> now"
| "improvement t1 (Withdraw d now) \<longleftrightarrow> False"
| "improvement t1 ev \<longleftrightarrow> True"

definition batching :: "u64 \<Rightarrow> scheduler \<Rightarrow> bool" where
  "batching t1 s \<longleftrightarrow> \<not> negative_due s \<and>
     (us_earliest_positive_mark_ms s \<noteq> NEVER_MARKED \<longrightarrow> t1 \<le> us_earliest_positive_mark_ms s)"

lemma upgrade_improves: "\<not> list_ex (\<lambda>(d, c). c = Negative) ds \<Longrightarrow> \<not> list_ex (\<lambda>(d, c). c = Negative) (upgrade d Positive ds)"
  by (induction d Positive ds rule: upgrade.induct) auto

lemma op_batching:
  assumes "batching t1 s" "improvement t1 ev"
  shows "batching t1 (scheduler_op ev s)"
proof (cases ev)
  case (Mark d cls now)
  then show ?thesis
    using assms upgrade_improves [of "us_dirty s"]
    by (auto simp: batching_def negative_due_def mark_dirty_def mark_def Let_def)
next
  case (SchedulerTick now)
  then show ?thesis
    using assms by (auto simp: batching_def negative_due_def scheduler_tick_def Let_def split: option.split)
qed (use assms in \<open>simp_all add: batching_def negative_due_def set_target_neighbours_def\<close>)

theorem improvements_are_batched:
  assumes "react scheduler_step es0 (scheduler_new rif_interval debounce) = Some (s0, outs0)"
    and "fan_out_reason t1 s0 \<noteq> None"
    and "react scheduler_step (SchedulerTick t1 # es) s0 = Some (s, outs)" "list_all (improvement t1) es"
    and "0 < debounce"
    and "scheduler_step (SchedulerTick t2) s = Some (s', out)" "\<lparr>ai_neighbour = nb, ai_reason = Triggered\<rparr> \<in> set out"
  shows "unat t1 + unat debounce \<le> unat t2"
proof -
  let ?s1 = "fst (take_advertise_intents (scheduler_tick t1 s0))"
  have inv: "scheduler_inv s0"
    by (rule scheduling.run_inv [OF scheduler_new_inv assms(1)])
  obtain outs' where run: "react scheduler_step es ?s1 = Some (s, outs')"
    using assms(3) [unfolded react_Cons_Some] by (auto simp: scheduler_step_def)
  have "batching t1 ?s1"
    using tick_clears [OF assms(2)] by (simp add: batching_def negative_due_def take_advertise_intents_def)
  then have b: "batching t1 s"
    using run assms(4)
  proof (induction es arbitrary: outs' s rule: rev_induct)
    case (snoc ev es)
    from snoc.prems(2) [unfolded react_snoc_Some] obtain s1 outs1 where
      "react scheduler_step es ?s1 = Some (s1, outs1)" and s: "s = fst (take_advertise_intents (scheduler_op ev s1))"
      by (auto simp: scheduler_step_def dest: arg_cong [where f = fst])
    then have "batching t1 s1"
      using snoc by simp
    then show ?case
      using op_batching [of t1 s1 ev] snoc.prems(3)
      by (simp add: s) (simp add: batching_def negative_due_def take_advertise_intents_def)
  qed simp
  have deb: "us_positive_debounce_ms s = debounce"
    using run_debounce [OF assms(1)] run_debounce [OF assms(3)] by (simp add: scheduler_new_def)
  have "us_outbox s = []"
    using scheduling.run_inv [OF inv assms(3)] by (simp add: scheduler_inv_def)
  moreover have "out = snd (take_advertise_intents (scheduler_tick t2 s))"
    using assms(6) by (auto simp: scheduler_step_def dest: arg_cong [where f = snd])
  ultimately have "fan_out_reason t2 s = Some Triggered"
    using assms(7) by (auto simp: tick_outbox split: option.splits)
  then have "positive_due t2 s"
    using b by (auto simp: fan_out_reason_def batching_def split: if_splits)
  then show ?thesis
    using b deb assms(5) by (auto simp: positive_due_def batching_def word_le_nat_alt word_less_nat_alt unat_saturating_sub)
qed

text \<open>A run of three marks in one window.\<close>

definition call_a :: callsign where "call_a = sample [0x41]"
definition call_b :: callsign where "call_b = sample [0x42]"

theorem change_is_advertised_witness:
  "\<exists>es1 now es2 s1 outs1 s2 reason.
    [Mark call_b Positive 300, SchedulerTick 2000] @ [SchedulerTick 5200] = es1 @ SchedulerTick now # es2 \<and>
    react scheduler_step (Mark call_a Positive 200 # es1)
      (fst (the (react scheduler_step [Targets [call_b, call_a, call_b], Mark call_b Positive 100, SchedulerTick 150] (scheduler_new 300000 5000)))) = Some (s1, outs1) \<and>
    scheduler_step (SchedulerTick now) s1 =
      Some (s2, map (\<lambda>nb. \<lparr>ai_neighbour = nb, ai_reason = reason\<rparr>) (us_target_neighbours s1)) \<and>
    distinct (us_target_neighbours s1) \<and> sorted (map callsign_key (us_target_neighbours s1)) \<and>
    st_negative_dirty (scheduler_status s2) = 0 \<and> st_positive_dirty (scheduler_status s2) = 0"
proof (rule change_is_advertised)
  show "react scheduler_step [Targets [call_b, call_a, call_b], Mark call_b Positive 100, SchedulerTick 150] (scheduler_new 300000 5000) =
    Some (fst (the (react scheduler_step [Targets [call_b, call_a, call_b], Mark call_b Positive 100, SchedulerTick 150] (scheduler_new 300000 5000))),
      [[], [], []])"
    by code_simp
  show "list_all (marked_by 200) [Targets [call_b, call_a, call_b], Mark call_b Positive 100, SchedulerTick 150]"
    "(200 :: u64) \<noteq> NEVER_MARKED"
    "Positive = Negative \<or> unat (200 :: u64) + unat (5000 :: u64) \<le> unat (5200 :: u64)"
    by code_simp+
qed

definition marked_once :: scheduler where
  "marked_once = fst (the (react scheduler_step [Targets [call_a], Withdraw call_b 100] (scheduler_new 300000 5000)))"

definition batched_once :: scheduler where
  "batched_once = fst (the (react scheduler_step [SchedulerTick 150, Mark call_b Positive 300] marked_once))"

theorem improvements_are_batched_witness: "unat (150 :: u64) + unat (5000 :: u64) \<le> unat (5400 :: u64)"
proof (rule improvements_are_batched)
  show "react scheduler_step [Targets [call_a], Withdraw call_b 100] (scheduler_new 300000 5000) = Some (marked_once, [[], []])"
    by code_simp
  show "fan_out_reason 150 marked_once \<noteq> None"
    by code_simp
  show "react scheduler_step [SchedulerTick 150, Mark call_b Positive 300] marked_once =
      Some (batched_once, [[\<lparr>ai_neighbour = call_a, ai_reason = Triggered\<rparr>], []])"
    by code_simp
  show "list_all (improvement 150) [Mark call_b Positive 300]" "0 < (5000 :: u64)"
    by code_simp+
  show "scheduler_step (SchedulerTick 5400) batched_once =
      Some (fst (the (scheduler_step (SchedulerTick 5400) batched_once)), [\<lparr>ai_neighbour = call_a, ai_reason = Triggered\<rparr>])"
    by code_simp
  show "\<lparr>ai_neighbour = call_a, ai_reason = Triggered\<rparr> \<in> set [\<lparr>ai_neighbour = call_a, ai_reason = Triggered\<rparr>]"
    by simp
qed

end
