(* ===== verification/Sdl_Context.thy ===== *)
theory Sdl_Context
  imports Prelude "HOL-Library.AList"
begin

text \<open>
  The state of one AX.25 connection (\<open>sdl/context.rs\<close>) and the switches that select the corrections
  of the SDL figures (\<open>sdl/quirks.rs\<close>). A \<open>BTreeMap<u8, Payload>\<close> is an association list with
  distinct keys (its order is never observed), a \<open>BTreeSet<u8>\<close> a set of octets, the
  \<open>VecDeque\<close> a list with its front first.

  The firmware is built with \<open>overflow-checks = true\<close>, a host build is not; the flag \<open>checked\<close> of the
  operations that subtract or count says which build is meant: with it an overflow is a panic, without it
  the arithmetic wraps.
\<close>

section \<open>Corrections of the figures\<close>

record quirks =
  qk_srej_command_ignored :: bool
  qk_karn_srt_sampling :: bool
  qk_srej_targets_gap :: bool
  qk_dl_flow_off_enters_busy :: bool
  qk_mod128_connect_routes_to_v22 :: bool
  qk_frmr_fallback_reestablishes_v20 :: bool
  qk_dm_rejection_degrades_to_v20 :: bool
  qk_timer_recovery_drain_advances_vr :: bool
  qk_ack_progress_resets_rc :: bool
  qk_clamp_srej_window_to_half_modulus :: bool

definition quirks_default :: quirks where
  "quirks_default =
     \<lparr>qk_srej_command_ignored = True, qk_karn_srt_sampling = True, qk_srej_targets_gap = True,
      qk_dl_flow_off_enters_busy = True, qk_mod128_connect_routes_to_v22 = True,
      qk_frmr_fallback_reestablishes_v20 = True, qk_dm_rejection_degrades_to_v20 = True,
      qk_timer_recovery_drain_advances_vr = True, qk_ack_progress_resets_rc = True,
      qk_clamp_srej_window_to_half_modulus = True\<rparr>"

definition strictly_faithful :: quirks where
  "strictly_faithful =
     \<lparr>qk_srej_command_ignored = False, qk_karn_srt_sampling = False, qk_srej_targets_gap = False,
      qk_dl_flow_off_enters_busy = False, qk_mod128_connect_routes_to_v22 = False,
      qk_frmr_fallback_reestablishes_v20 = False, qk_dm_rejection_degrades_to_v20 = False,
      qk_timer_recovery_drain_advances_vr = False, qk_ack_progress_resets_rc = False,
      qk_clamp_srej_window_to_half_modulus = False\<rparr>"

section \<open>Session state\<close>

record payload =
  pl_data :: bytes
  pl_pid :: u8

definition payload_new :: "bytes \<Rightarrow> u8 \<Rightarrow> payload" where
  "payload_new data pid = \<lparr>pl_data = data, pl_pid = pid\<rparr>"

record session_context =
  sc_vs :: u8
  sc_va :: u8
  sc_vr :: u8
  sc_rc :: u32
  sc_own_receiver_busy :: bool
  sc_peer_receiver_busy :: bool
  sc_acknowledge_pending :: bool
  sc_reject_exception :: bool
  sc_selective_reject_exception :: bool
  sc_srej_exception_count :: u32
  sc_layer3_initiated :: bool
  sc_accept_incoming :: bool
  sc_x :: "u8 option"
  sc_t1_had_expired :: bool
  sc_t1_remaining_when_last_stopped_ms :: u32
  sc_n1 :: u32
  sc_n2 :: u32
  sc_k :: u32
  sc_is_extended :: bool
  sc_srej_enabled :: bool
  sc_segmenter_reassembler_enabled :: bool
  sc_half_duplex :: bool
  sc_implicit_reject :: bool
  sc_parameters_negotiated :: bool
  sc_t2_ms :: u32
  sc_srt_ms :: u32
  sc_t1v_ms :: u32
  sc_quirks :: quirks
  sc_i_frame_queue :: "payload list"
  sc_sent_i_frames :: "(u8 \<times> payload) list"
  sc_stored_received_i_frames :: "(u8 \<times> payload) list"
  sc_selectively_retransmitted_since_ack :: "u8 set"

definition session_context_default :: session_context where
  "session_context_default =
     \<lparr>sc_vs = 0, sc_va = 0, sc_vr = 0, sc_rc = 0, sc_own_receiver_busy = False,
      sc_peer_receiver_busy = False, sc_acknowledge_pending = False, sc_reject_exception = False,
      sc_selective_reject_exception = False, sc_srej_exception_count = 0, sc_layer3_initiated = False,
      sc_accept_incoming = True, sc_x = None, sc_t1_had_expired = False,
      sc_t1_remaining_when_last_stopped_ms = 0, sc_n1 = 256, sc_n2 = 10, sc_k = 4,
      sc_is_extended = False, sc_srej_enabled = False, sc_segmenter_reassembler_enabled = False,
      sc_half_duplex = True, sc_implicit_reject = True, sc_parameters_negotiated = False,
      sc_t2_ms = 3000, sc_srt_ms = 3000, sc_t1v_ms = 6000, sc_quirks = quirks_default,
      sc_i_frame_queue = [], sc_sent_i_frames = [], sc_stored_received_i_frames = [],
      sc_selectively_retransmitted_since_ack = {}\<rparr>"

section \<open>Sequence arithmetic\<close>

definition modulus :: "session_context \<Rightarrow> u16" where
  "modulus c = (if sc_is_extended c then 128 else 8)"

definition increment_seq :: "session_context \<Rightarrow> u8 \<Rightarrow> u8" where
  "increment_seq c v = (let m = modulus c in ucast (((ucast v :: u16) + 1) mod m))"

definition decrement_seq :: "session_context \<Rightarrow> u8 \<Rightarrow> u8" where
  "decrement_seq c v = (let m = modulus c in ucast (((ucast v :: u16) + m - 1) mod m))"

text \<open>
  \<open>((a as u16 + m) - b as u16) % m\<close>, the distance from \<open>b\<close> to \<open>a\<close> on the ring of \<open>m\<close> numbers. The
  subtraction underflows when \<open>b\<close> is beyond \<open>a + m\<close>.
\<close>

definition ring_distance :: "bool \<Rightarrow> u16 \<Rightarrow> u8 \<Rightarrow> u8 \<Rightarrow> u16 panicking" where
  "ring_distance checked m a b =
     (if checked \<and> unat a + unat m < unat b then None
      else Some (((ucast a + m) - ucast b) mod m))"

definition outstanding_count :: "bool \<Rightarrow> session_context \<Rightarrow> u16 panicking" where
  "outstanding_count checked c = ring_distance checked (modulus c) (sc_vs c) (sc_va c)"

definition is_outstanding :: "bool \<Rightarrow> session_context \<Rightarrow> u8 \<Rightarrow> bool panicking" where
  "is_outstanding checked c ns =
     (let m = modulus c in
      case ring_distance checked m (sc_vs c) (sc_va c) of None \<Rightarrow> None | Some span \<Rightarrow>
      case ring_distance checked m ns (sc_va c) of None \<Rightarrow> None | Some offset \<Rightarrow>
      Some (offset < span))"

definition effective_window :: "session_context \<Rightarrow> u32" where
  "effective_window c =
     (let cap = ucast (modulus c) - 1 in
      if qk_clamp_srej_window_to_half_modulus (sc_quirks c) \<and> sc_srej_enabled c
      then min (sc_k c) (ucast (modulus c) div 2)
      else min (sc_k c) cap)"

section \<open>Operations\<close>

text \<open>The keys that are no longer outstanding are collected, then removed.\<close>

fun stale_keys :: "bool \<Rightarrow> session_context \<Rightarrow> u8 list \<Rightarrow> u8 list panicking" where
  "stale_keys checked c [] = Some []"
| "stale_keys checked c (ns # nss) =
     (case is_outstanding checked c ns of None \<Rightarrow> None | Some out \<Rightarrow>
      case stale_keys checked c nss of None \<Rightarrow> None | Some ks \<Rightarrow>
      Some (if out then ks else ns # ks))"

definition prune_acknowledged_sent_i_frames :: "bool \<Rightarrow> session_context \<Rightarrow> session_context panicking" where
  "prune_acknowledged_sent_i_frames checked c =
     (case stale_keys checked c (map fst (sc_sent_i_frames c)) of None \<Rightarrow> None | Some ks \<Rightarrow>
      Some (c\<lparr>sc_sent_i_frames := fold AList.delete ks (sc_sent_i_frames c)\<rparr>))"

definition reset_state :: "session_context \<Rightarrow> session_context" where
  "reset_state c = c\<lparr>sc_vs := 0, sc_va := 0, sc_vr := 0, sc_rc := 0, sc_own_receiver_busy := False,
     sc_peer_receiver_busy := False, sc_acknowledge_pending := False, sc_reject_exception := False,
     sc_selective_reject_exception := False, sc_srej_exception_count := 0, sc_layer3_initiated := False,
     sc_x := None, sc_t1_had_expired := False, sc_t1_remaining_when_last_stopped_ms := 0,
     sc_i_frame_queue := [], sc_sent_i_frames := [], sc_stored_received_i_frames := [],
     sc_selectively_retransmitted_since_ack := {}\<rparr>"

section \<open>Facts\<close>

lemma ring_distance_unchecked [simp]: "ring_distance False m a b = Some (((ucast a + m) - ucast b) mod m)"
  by (simp add: ring_distance_def)

lemma outstanding_count_unchecked [simp]: "outstanding_count False c \<noteq> None"
  by (simp add: outstanding_count_def)

lemma is_outstanding_unchecked: "\<exists>r. is_outstanding False c ns = Some r"
  by (simp add: is_outstanding_def Let_def)

lemma stale_keys_unchecked: "\<exists>ks. stale_keys False c nss = Some ks"
proof (induction nss)
  case (Cons ns nss)
  then show ?case
    using is_outstanding_unchecked [of c ns] by auto
qed simp

lemma prune_unchecked: "\<exists>c'. prune_acknowledged_sent_i_frames False c = Some c'"
  using stale_keys_unchecked [of c "map fst (sc_sent_i_frames c)"]
  by (auto simp: prune_acknowledged_sent_i_frames_def)

lemma modulus_cases: "modulus c = 8 \<or> modulus c = 128"
  by (simp add: modulus_def)

lemma unat_mod_ring: "unat (w mod (m :: u16)) = unat w mod unat m"
  by (rule unat_mod)

text \<open>The distance on the ring, read in the natural numbers; the wrap of the unchecked build is harmless.\<close>

lemma unat_ring_distance:
  assumes "ring_distance checked m a b = Some d" and "m = 8 \<or> m = 128"
  shows "int (unat d) = (int (unat a) - int (unat b)) mod int (unat m)"
proof -
  have d: "d = ((ucast a + m) - ucast b) mod m"
    using assms(1) by (auto simp: ring_distance_def split: if_splits)
  have dvd: "uint m dvd 2 ^ 16" and pos: "0 < uint m"
    using assms(2) by auto
  have "uint d = uint ((ucast a + m) - ucast b :: u16) mod uint m"
    by (simp add: d uint_mod)
  also have "uint ((ucast a + m) - ucast b :: u16) = (uint a + uint m - uint b) mod 2 ^ 16"
    by (simp add: uint_word_ariths uint_up_ucast is_up mod_simps)
  also have "\<dots> mod uint m = (uint a + uint m - uint b) mod uint m"
    using dvd by (rule mod_mod_cancel)
  also have "\<dots> = (uint a - uint b) mod uint m"
    by (metis add.commute add_diff_eq mod_add_self1)
  finally show ?thesis
    by simp
qed

lemma effective_window_less: "unat (effective_window c) < unat (modulus c)"
proof -
  have "unat (min a b) \<le> unat b" for a b :: u32
    by (simp add: min_def word_le_nat_alt)
  from this [of "sc_k c" "ucast (modulus c) - 1"] this [of "sc_k c" "ucast (modulus c) div 2"]
  show ?thesis
    by (auto simp: effective_window_def modulus_def Let_def)
qed

end
