(* ===== verification/Sdl_Event.thy ===== *)
theory Sdl_Event
  imports Sdl_Context
begin

text \<open>
  The vocabulary of the link layer: the events fed to a session and their typed names
  (\<open>sdl/event.rs\<close>), the signals it emits (\<open>sdl/signal.rs\<close>), and the link timers with the integer
  arithmetic of the round-trip estimate (\<open>sdl/timer.rs\<close>). The sink that receives the signals is the
  list of what was emitted; the timer service is the host implementation of the source, one slot per
  timer holding the remaining milliseconds.
\<close>

section \<open>Events\<close>

record frame_info =
  fi_nr :: u8
  fi_ns :: u8
  fi_poll_final :: bool
  fi_is_command :: bool
  fi_info :: bytes
  fi_pid :: "u8 option"

definition fi_is_response :: "frame_info \<Rightarrow> bool" where
  "fi_is_response f \<longleftrightarrow> \<not> fi_is_command f"

datatype event =
  DlConnectRequest | DlDisconnectRequest | DlDataRequest u8 bytes | DlUnitDataRequest u8 bytes
  | DlFlowOffRequest | DlFlowOnRequest | IReceived frame_info | RrReceived frame_info
  | RnrReceived frame_info | RejReceived frame_info | SrejReceived frame_info
  | UiReceived frame_info | SabmReceived frame_info | SabmeReceived frame_info
  | DiscReceived frame_info | UaReceived frame_info | DmReceived frame_info
  | FrmrReceived frame_info | XidReceived frame_info | XidResponseReceived frame_info
  | TestReceived frame_info | IFramePopsOffQueue u8 bytes | AllOtherCommands frame_info
  | AllOtherPrimitivesFromLowerLayer | AllOtherPrimitivesFromUpperLayer | ControlFieldError
  | InfoNotPermittedInFrame | UOrSFrameLengthError | T1Expiry | T2Expiry | T3Expiry
  | LmSeizeConfirm

datatype sdl_event =
  Sdl_DLCONNECTRequest | Sdl_DLDISCONNECTRequest | Sdl_DLDATARequest | Sdl_DLUNITDATARequest
  | Sdl_DLFLOWOFFRequest | Sdl_DLFLOWONRequest | Sdl_IReceived | Sdl_RRReceived | Sdl_RNRReceived
  | Sdl_REJReceived | Sdl_SREJReceived | Sdl_UIReceived | Sdl_SABMReceived | Sdl_SABMEReceived
  | Sdl_DISCReceived | Sdl_UAReceived | Sdl_DMReceived | Sdl_FRMRReceived | Sdl_XIDReceived
  | Sdl_XIDResponseReceived | Sdl_TESTReceived | Sdl_IFramePopsOffQueue | Sdl_AllOtherCommands
  | Sdl_AllOtherPrimitivesFromLowerLayer | Sdl_AllOtherPrimitivesFromUpperLayer
  | Sdl_ControlFieldError | Sdl_InfoNotPermittedInFrame | Sdl_UOrSFrameLengthError | Sdl_T1Expiry
  | Sdl_T2Expiry | Sdl_T3Expiry | Sdl_LMSEIZEConfirm | Sdl_MDLNEGOTIATERequest | Sdl_TM201Expiry

fun to_sdl :: "event \<Rightarrow> sdl_event" where
  "to_sdl DlConnectRequest = Sdl_DLCONNECTRequest"
| "to_sdl DlDisconnectRequest = Sdl_DLDISCONNECTRequest"
| "to_sdl (DlDataRequest _ _) = Sdl_DLDATARequest"
| "to_sdl (DlUnitDataRequest _ _) = Sdl_DLUNITDATARequest"
| "to_sdl DlFlowOffRequest = Sdl_DLFLOWOFFRequest"
| "to_sdl DlFlowOnRequest = Sdl_DLFLOWONRequest"
| "to_sdl (IReceived _) = Sdl_IReceived"
| "to_sdl (RrReceived _) = Sdl_RRReceived"
| "to_sdl (RnrReceived _) = Sdl_RNRReceived"
| "to_sdl (RejReceived _) = Sdl_REJReceived"
| "to_sdl (SrejReceived _) = Sdl_SREJReceived"
| "to_sdl (UiReceived _) = Sdl_UIReceived"
| "to_sdl (SabmReceived _) = Sdl_SABMReceived"
| "to_sdl (SabmeReceived _) = Sdl_SABMEReceived"
| "to_sdl (DiscReceived _) = Sdl_DISCReceived"
| "to_sdl (UaReceived _) = Sdl_UAReceived"
| "to_sdl (DmReceived _) = Sdl_DMReceived"
| "to_sdl (FrmrReceived _) = Sdl_FRMRReceived"
| "to_sdl (XidReceived _) = Sdl_XIDReceived"
| "to_sdl (XidResponseReceived _) = Sdl_XIDResponseReceived"
| "to_sdl (TestReceived _) = Sdl_TESTReceived"
| "to_sdl (IFramePopsOffQueue _ _) = Sdl_IFramePopsOffQueue"
| "to_sdl (AllOtherCommands _) = Sdl_AllOtherCommands"
| "to_sdl AllOtherPrimitivesFromLowerLayer = Sdl_AllOtherPrimitivesFromLowerLayer"
| "to_sdl AllOtherPrimitivesFromUpperLayer = Sdl_AllOtherPrimitivesFromUpperLayer"
| "to_sdl ControlFieldError = Sdl_ControlFieldError"
| "to_sdl InfoNotPermittedInFrame = Sdl_InfoNotPermittedInFrame"
| "to_sdl UOrSFrameLengthError = Sdl_UOrSFrameLengthError"
| "to_sdl T1Expiry = Sdl_T1Expiry"
| "to_sdl T2Expiry = Sdl_T2Expiry"
| "to_sdl T3Expiry = Sdl_T3Expiry"
| "to_sdl LmSeizeConfirm = Sdl_LMSEIZEConfirm"

fun event_frame :: "event \<Rightarrow> frame_info option" where
  "event_frame (IReceived f) = Some f"
| "event_frame (RrReceived f) = Some f"
| "event_frame (RnrReceived f) = Some f"
| "event_frame (RejReceived f) = Some f"
| "event_frame (SrejReceived f) = Some f"
| "event_frame (UiReceived f) = Some f"
| "event_frame (SabmReceived f) = Some f"
| "event_frame (SabmeReceived f) = Some f"
| "event_frame (DiscReceived f) = Some f"
| "event_frame (UaReceived f) = Some f"
| "event_frame (DmReceived f) = Some f"
| "event_frame (FrmrReceived f) = Some f"
| "event_frame (XidReceived f) = Some f"
| "event_frame (XidResponseReceived f) = Some f"
| "event_frame (TestReceived f) = Some f"
| "event_frame (AllOtherCommands f) = Some f"
| "event_frame _ = None"

section \<open>Signals\<close>

datatype supervisory_kind = Rr | Rnr | Rej | Srej

datatype unnumbered_kind = Sabm | Sabme | Disc | Ua | Dm

datatype frame_spec =
  Supervisory supervisory_kind (fs_is_command: bool) (fs_nr: u8) (fs_pf: bool)
| Unnumbered unnumbered_kind bool bool (fs_expedited: bool)
| Ui bool bool u8 bytes
| Information (fs_p: bool) (fs_inr: u8) (fs_ns: u8) (fs_pid: u8) (fs_info: bytes)
| Xid bool bool bytes

datatype data_link_signal =
  ConnectIndication | ConnectConfirm | DisconnectIndication | DisconnectConfirm
| DataIndication u8 bytes | UnitDataIndication u8 bytes | ErrorIndication string

datatype link_multiplexer_signal = SeizeRequest | ReleaseRequest | DataRequest

datatype internal_signal = MdlNegotiateRequest | PushIFrameQueue bytes

text \<open>One call of a method of the sink.\<close>

datatype emission =
  SendFrame frame_spec | SendUpward data_link_signal | SendLinkMux link_multiplexer_signal
| SendInternal internal_signal

section \<open>Timers\<close>

datatype timer_id = T1 | T2 | T3 | Tm201

record timers =
  tm_t1 :: "u32 option"
  tm_t2 :: "u32 option"
  tm_t3 :: "u32 option"
  tm_tm201 :: "u32 option"

definition no_timers :: timers where
  "no_timers = \<lparr>tm_t1 = None, tm_t2 = None, tm_t3 = None, tm_tm201 = None\<rparr>"

fun timer_slot :: "timer_id \<Rightarrow> timers \<Rightarrow> u32 option" where
  "timer_slot T1 t = tm_t1 t"
| "timer_slot T2 t = tm_t2 t"
| "timer_slot T3 t = tm_t3 t"
| "timer_slot Tm201 t = tm_tm201 t"

fun set_slot :: "timer_id \<Rightarrow> u32 option \<Rightarrow> timers \<Rightarrow> timers" where
  "set_slot T1 v t = t\<lparr>tm_t1 := v\<rparr>"
| "set_slot T2 v t = t\<lparr>tm_t2 := v\<rparr>"
| "set_slot T3 v t = t\<lparr>tm_t3 := v\<rparr>"
| "set_slot Tm201 v t = t\<lparr>tm_tm201 := v\<rparr>"

definition arm :: "timer_id \<Rightarrow> u32 \<Rightarrow> timers \<Rightarrow> timers" where
  "arm i duration_ms t = set_slot i (Some duration_ms) t"

definition cancel :: "timer_id \<Rightarrow> timers \<Rightarrow> timers" where
  "cancel i t = set_slot i None t"

definition is_running :: "timer_id \<Rightarrow> timers \<Rightarrow> bool" where
  "is_running i t \<longleftrightarrow> timer_slot i t \<noteq> None"

definition time_remaining_ms :: "timer_id \<Rightarrow> timers \<Rightarrow> u32" where
  "time_remaining_ms i t = (case timer_slot i t of None \<Rightarrow> 0 | Some r \<Rightarrow> r)"

lemma slot_set_slot [simp]: "timer_slot i (set_slot j v t) = (if i = j then v else timer_slot i t)"
  by (cases i; cases j) simp_all

section \<open>Round-trip arithmetic\<close>

definition saturating_mul :: "u32 \<Rightarrow> u32 \<Rightarrow> u32" where
  "saturating_mul a b = (if uint a * uint b < 2 ^ 32 then a * b else - 1)"

lemma unat_saturating_mul [word_nat]: "unat (saturating_mul a b) = min (unat a * unat b) (2 ^ 32 - 1)"
proof -
  have "uint a * uint b < 2 ^ 32 \<longleftrightarrow> unat a * unat b < 2 ^ 32"
  proof -
    have "uint a * uint b = int (unat a * unat b)" "(2 ^ 32 :: int) = int (2 ^ 32)"
      by (simp_all only: of_nat_mult uint_nat of_nat_power of_nat_numeral)
    then show ?thesis
      by (simp only: of_nat_less_iff)
  qed
  then show ?thesis
    by (auto simp: saturating_mul_def unat_word_ariths unsigned_minus_1_eq_mask mask_eq_exp_minus_1)
qed

definition srt_iir_update :: "u32 \<Rightarrow> u32 \<Rightarrow> u32 \<Rightarrow> bool \<Rightarrow> u32" where
  "srt_iir_update srt_ms t1v_ms remaining_ms karn =
     (let sample = saturating_sub t1v_ms remaining_ms; clean_measurement = remaining_ms > 0 in
      if karn \<and> \<not> clean_measurement then srt_ms
      else saturating_add (saturating_mul srt_ms 7 div 8) (sample div 8))"

definition next_t1_rc_backoff_ms :: "u32 \<Rightarrow> u32 \<Rightarrow> u32" where
  "next_t1_rc_backoff_ms rc srt_ms = saturating_add (saturating_mul rc 250) (saturating_mul srt_ms 2)"

end
