(* ===== verification/Sdl_Guard.thy ===== *)
theory Sdl_Guard
  imports Sdl_Event
begin

text \<open>
  The typed tables of the generated crate, as far as the runtime reads them (their contents are a
  parameter of the model), and the evaluation of guards (\<open>sdl/guard.rs\<close>): a conjunction of possibly
  negated atoms over the session, the timers and the event that triggered the transition. An atom that
  compares sequence numbers may panic in a checked build.
\<close>

section \<open>Guard terms of the tables\<close>

datatype guard_atom =
  OwnReceiverBusy | PeerReceiverBusy | AckPending | RejectException | Layer3Initiated | SREJEnabled
| SrejectExceptionGt0 | OutOfSequenceFramesInReceiveBuffer | VrIFrameStored | AbleToEstablish | Mod128
| Mod8 | Version22 | VsEqVa | VsEqVaPlusK | VsEqX | T1Running | T1Expired | RCEq0 | RCEqN2 | RCEqNM201
| PEq1 | FEq1 | POrFEq1 | Command | Response | CommandAndPEq1 | ResponseAndFEq1
| FEq1AndFrameEqRROrFrameEqRNROrFrameEqI | NsEqVr | NsGtVrPlus1 | VrLtNsLtVrPlusK | VaLeNrLeVs | NrEqVa
| NrEqVs | VsEqNr | InfoFieldLengthLeN1AndContentIsOctetAligned

record guard_term =
  gt_atom :: guard_atom
  gt_negate :: bool

section \<open>Evaluation\<close>

definition own_receiver_busy :: "session_context \<Rightarrow> event \<Rightarrow> bool" where
  "own_receiver_busy c trigger =
     (if qk_dl_flow_off_enters_busy (sc_quirks c) \<and> trigger = DlFlowOffRequest
      then \<not> sc_own_receiver_busy c else sc_own_receiver_busy c)"

text \<open>\<open>frame.map(p).unwrap_or(false)\<close>, for a test that cannot and for one that can panic.\<close>

definition on_frame :: "event \<Rightarrow> (frame_info \<Rightarrow> bool) \<Rightarrow> bool panicking" where
  "on_frame trigger p = Some (case event_frame trigger of None \<Rightarrow> False | Some f \<Rightarrow> p f)"

definition on_ring :: "bool \<Rightarrow> event \<Rightarrow> u16 \<Rightarrow> (frame_info \<Rightarrow> u8) \<Rightarrow> u8 \<Rightarrow> (u16 \<Rightarrow> bool) \<Rightarrow> bool panicking" where
  "on_ring checked trigger m a b p =
     (case event_frame trigger of None \<Rightarrow> Some False
      | Some f \<Rightarrow> map_option p (ring_distance checked m (a f) b))"

definition window16 :: "session_context \<Rightarrow> u16" where
  "window16 c = ucast (effective_window c)"

definition is_i_rr_rnr :: "event \<Rightarrow> bool" where
  "is_i_rr_rnr trigger \<longleftrightarrow> to_sdl trigger \<in> {Sdl_IReceived, Sdl_RRReceived, Sdl_RNRReceived}"

fun eval_atom :: "bool \<Rightarrow> guard_atom \<Rightarrow> session_context \<Rightarrow> timers \<Rightarrow> event \<Rightarrow> bool panicking" where
  "eval_atom ck OwnReceiverBusy c t e = Some (own_receiver_busy c e)"
| "eval_atom ck PeerReceiverBusy c t e = Some (sc_peer_receiver_busy c)"
| "eval_atom ck AckPending c t e = Some (sc_acknowledge_pending c)"
| "eval_atom ck RejectException c t e = Some (sc_reject_exception c)"
| "eval_atom ck Layer3Initiated c t e = Some (sc_layer3_initiated c)"
| "eval_atom ck SREJEnabled c t e = Some (sc_srej_enabled c)"
| "eval_atom ck SrejectExceptionGt0 c t e = Some (sc_srej_exception_count c > 0)"
| "eval_atom ck OutOfSequenceFramesInReceiveBuffer c t e = Some (sc_stored_received_i_frames c \<noteq> [])"
| "eval_atom ck VrIFrameStored c t e = Some (map_of (sc_stored_received_i_frames c) (sc_vr c) \<noteq> None)"
| "eval_atom ck AbleToEstablish c t e = Some (sc_accept_incoming c)"
| "eval_atom ck Mod128 c t e = Some (sc_is_extended c)"
| "eval_atom ck Mod8 c t e = Some (\<not> sc_is_extended c)"
| "eval_atom ck Version22 c t e = Some (sc_is_extended c)"
| "eval_atom ck VsEqVa c t e = Some (sc_vs c = sc_va c)"
| "eval_atom ck VsEqVaPlusK c t e = map_option (\<lambda>n. n \<ge> window16 c) (outstanding_count ck c)"
| "eval_atom ck VsEqX c t e = Some (sc_x c = Some (sc_vs c))"
| "eval_atom ck T1Running c t e = Some (is_running T1 t)"
| "eval_atom ck T1Expired c t e = Some (sc_t1_had_expired c)"
| "eval_atom ck RCEq0 c t e = Some (sc_rc c = 0)"
| "eval_atom ck RCEqN2 c t e = Some (sc_rc c = sc_n2 c)"
| "eval_atom ck RCEqNM201 c t e = Some (sc_rc c = sc_n2 c)"
| "eval_atom ck PEq1 c t e = on_frame e fi_poll_final"
| "eval_atom ck FEq1 c t e = on_frame e fi_poll_final"
| "eval_atom ck POrFEq1 c t e = on_frame e fi_poll_final"
| "eval_atom ck Command c t e = on_frame e fi_is_command"
| "eval_atom ck Response c t e = on_frame e fi_is_response"
| "eval_atom ck CommandAndPEq1 c t e = on_frame e (\<lambda>f. fi_is_command f \<and> fi_poll_final f)"
| "eval_atom ck ResponseAndFEq1 c t e = on_frame e (\<lambda>f. fi_is_response f \<and> fi_poll_final f)"
| "eval_atom ck FEq1AndFrameEqRROrFrameEqRNROrFrameEqI c t e =
     on_frame e (\<lambda>f. is_i_rr_rnr e \<and> fi_poll_final f)"
| "eval_atom ck NsEqVr c t e = on_frame e (\<lambda>f. fi_ns f = sc_vr c)"
| "eval_atom ck NsGtVrPlus1 c t e = on_ring ck e (modulus c) fi_ns (sc_vr c) (\<lambda>d. d > 1)"
| "eval_atom ck VrLtNsLtVrPlusK c t e =
     on_ring ck e (modulus c) fi_ns (sc_vr c) (\<lambda>d. d > 0 \<and> d < window16 c)"
| "eval_atom ck VaLeNrLeVs c t e =
     (case event_frame e of None \<Rightarrow> Some False
      | Some f \<Rightarrow>
          (case ring_distance ck (modulus c) (sc_vs c) (sc_va c) of None \<Rightarrow> None
           | Some span \<Rightarrow> map_option (\<lambda>d. d \<le> span) (ring_distance ck (modulus c) (fi_nr f) (sc_va c))))"
| "eval_atom ck NrEqVa c t e = on_frame e (\<lambda>f. fi_nr f = sc_va c)"
| "eval_atom ck NrEqVs c t e = on_frame e (\<lambda>f. fi_nr f = sc_vs c)"
| "eval_atom ck VsEqNr c t e = on_frame e (\<lambda>f. fi_nr f = sc_vs c)"
| "eval_atom ck InfoFieldLengthLeN1AndContentIsOctetAligned c t e =
     on_frame e (\<lambda>f. (of_nat (length (fi_info f)) :: u32) \<le> sc_n1 c)"

definition eval_term :: "bool \<Rightarrow> guard_term \<Rightarrow> session_context \<Rightarrow> timers \<Rightarrow> event \<Rightarrow> bool panicking" where
  "eval_term ck g c t e = map_option (\<lambda>v. if gt_negate g then \<not> v else v) (eval_atom ck (gt_atom g) c t e)"

fun eval_guard :: "bool \<Rightarrow> guard_term list \<Rightarrow> session_context \<Rightarrow> timers \<Rightarrow> event \<Rightarrow> bool panicking" where
  "eval_guard ck [] c t e = Some True"
| "eval_guard ck (g # gs) c t e =
     (case eval_term ck g c t e of
        None \<Rightarrow> None
      | Some held \<Rightarrow> if \<not> held then Some False else eval_guard ck gs c t e)"

section \<open>Facts\<close>

text \<open>Without overflow checks no guard panics.\<close>

lemma eval_atom_unchecked [simp]: "eval_atom False a c t e \<noteq> None"
  by (cases a) (auto simp: on_frame_def on_ring_def outstanding_count_def split: option.split)

lemma eval_term_unchecked [simp]: "eval_term False g c t e \<noteq> None"
  by (simp only: eval_term_def option.map_disc_iff) simp

lemma eval_guard_unchecked [simp]: "eval_guard False gs c t e \<noteq> None"
  by (induction gs) (use eval_term_unchecked in \<open>auto split: option.split\<close>)

end
