(* ===== verification/Sdl_Tables.thy ===== *)
theory Sdl_Tables
  imports Sdl_Guard
begin

text \<open>
  The action verbs of the tables, grouped as the sections of the dispatcher group them, the rows of the
  tables as far as the runtime reads them, and the transition context (\<open>sdl/tx.rs\<close>). The tables
  themselves are data of a generated crate outside the repository: an environment holds them, with the
  build flag, and every operation of the runtime takes it as an argument.
\<close>

section \<open>Verbs\<close>

datatype flag_verb =
  SetOwnReceiverBusy | ClearOwnReceiverBusy | SetPeerReceiverBusy | ClearPeerReceiverBusy
| SetAcknowledgePending | ClearAcknowledgePending | SetLayer3Initiated | ClearLayer3Initiated

datatype timer_verb = StartT1 | StartT3 | StopT1 | StopT3

datatype s_frame_verb =
  RRCommand | RRCommandPEq0 | RR | RRResponse | RNRCommand | RNR | RNRResponse | RNRResponseFEq0 | REJ | SREJ

datatype u_frame_verb =
  UA | DM | DMResponseFEq0 | DMFEq1 | ExpeditedUA | ExpeditedDM | SABM | SABMPEqEq1 | SABME | SABMEPEq1
| DISCPEq1

datatype upper_verb =
  DLCONNECTIndication | DLCONNECTConfirm | DLDISCONNECTIndication | DLDISCONNECTConfirm
| DLDATAIndication | DLUNITDATAIndication

datatype error_verb =
  DLERRORIndicationCD | DLERRORIndicationD | DLERRORIndicationE | DLERRORIndicationF
| DLERRORIndicationG | DLERRORIndicationI | DLERRORIndicationK | DLERRORIndicationL
| DLERRORIndicationM | DLERRORIndicationN | DLERRORIndicationO | DLERRORIndicationT
| DLERRORIndicationU | DLERRORIndicationA | DLERRORIndicationJ | DLERRORIndicationQ
| DLERRORIndicationAdd

datatype mux_verb = LMSeizeRequest | LMReleaseRequest | LMDataRequest

datatype mdl_verb =
  XIDCommand | StartTM201 | StopTM201 | ApplyNegotiatedParameters | MDLNEGOTIATEConfirm
| MDLERRORIndicateB | MDLERRORIndicateC | MDLERRORIndicateD

datatype queue_verb =
  PushOnIFrameQueue | PushOnIFrameQueueNoteWordOrder | PushFrameOnQueue | PushIFrameOnIQueue
| PushOldIFrameNROnQueue | DiscardFrameQueue | DiscardQueue | DiscardIFrameQueue | DiscardIQueueEntries
| DiscardIFrame | DiscardContentsOfIFrame | DiscardPrimitive

datatype reject_verb =
  SetRejectException | ClearRejectException | ClearRejectCondition | ClearSrejectCondition
| IncrementSrejectException | SrejectAssignSrejectPlus1 | DecrementSrejectExceptionIf0

datatype store_verb = SaveContentsOfIFrame | RetrieveStoredVRIFrame

datatype param_verb =
  SetVersion20 | SetVersion22 | SetHalfDuplex | SetImplicitReject | SetSelectiveReject | ModuloAssign8
| ModuloAssign128 | N1Assign2048 | KAssign8 | KAssign32 | T2Assign3000 | N2Assign10
| SRTAssignInitialDefault | T1VAssign2TimesSRT | NextT1Assign2TimesSRT
| NextT1AssignRCTimes025PlusSRTTimes2 | SRTAssign7SRT8PlusT18RemainingTimeOnT1WhenLastStopped8

datatype call_verb =
  EstablishDataLink | ClearExceptionConditions | UICheck | SelectT1Value | CheckIFrameAcknowledged
| CheckNeedForResponse | TransmitEnquiry | TransmitEnquery | InvokeRetransmission | NRErrorRecovery
| NRRecovery | EnquiryResponseFEq0 | EnquiryResponseF1

datatype seq_verb =
  VSAssign0 | VSAssignVSPlus1 | VRAssign0 | VRAssignVRPlus1 | VRAssignVR1 | VAAssign0 | XAssignVS
| VSAssignNR | RCAssign0 | RCAssign1 | RCAssignRCPlus1 | VAAssignNR

datatype pending_verb =
  NRAssignVR | NSAssignVS | NRAssignNS | FAssign0 | PAssign0 | FAssign1 | PAssign1 | FAssignP

datatype verb =
  Flag flag_verb | Timer timer_verb | SFrame s_frame_verb | UFrame u_frame_verb | UICommand | ICommand
| Upper upper_verb | Error error_verb | Mux mux_verb | MDLNEGOTIATERequest | Mdl mdl_verb
| Queue queue_verb | Rejects reject_verb | Store store_verb | Param param_verb | Call call_verb
| Seq seq_verb | Pending pending_verb | Backtrack | PushOldIFrameOntoQueue

section \<open>Tables\<close>

record loop_range =
  lr_start :: nat
  lr_length :: nat
  lr_predicate :: guard_term
  lr_test_at_end :: bool

record transition =
  tr_from :: string
  tr_on :: sdl_event
  tr_guard :: "guard_term list"
  tr_actions :: "verb list"
  tr_loops :: "loop_range list"
  tr_next :: string

record subroutine_path =
  sp_guard :: "guard_term list"
  sp_actions :: "verb list"
  sp_loops :: "loop_range list"

record subroutine =
  sb_name :: string
  sb_paths :: "subroutine_path list"

datatype sdl_state =
  Disconnected | AwaitingConnection | AwaitingV22Connection | AwaitingRelease | Connected | TimerRecovery

record environment =
  ev_checked :: bool
  ev_page :: "sdl_state \<Rightarrow> transition list"
  ev_subroutines :: "subroutine list"

section \<open>The transition context\<close>

record pending_frame =
  pf_nr :: "u8 option"
  pf_ns :: "u8 option"
  pf_pf :: "bool option"

definition no_pending :: pending_frame where
  "no_pending = \<lparr>pf_nr = None, pf_ns = None, pf_pf = None\<rparr>"

record tx =
  tx_session :: session_context
  tx_timers :: timers
  tx_sink :: "emission list"
  tx_trigger :: event
  tx_pending :: pending_frame
  tx_retrieved_stored_frame :: "(u8 \<times> bytes) option"
  tx_retransmitted_inline :: bool

definition tx_new :: "session_context \<Rightarrow> timers \<Rightarrow> emission list \<Rightarrow> event \<Rightarrow> tx" where
  "tx_new session t sink trigger =
     \<lparr>tx_session = session, tx_timers = t, tx_sink = sink, tx_trigger = trigger, tx_pending = no_pending,
      tx_retrieved_stored_frame = None, tx_retransmitted_inline = False\<rparr>"

text \<open>The borrows of the dispatcher: a mutation of the session or of the timers, a call of the sink.\<close>

definition on_session :: "(session_context \<Rightarrow> session_context) \<Rightarrow> tx \<Rightarrow> tx" where
  "on_session f x = x\<lparr>tx_session := f (tx_session x)\<rparr>"

definition on_timers :: "(timers \<Rightarrow> timers) \<Rightarrow> tx \<Rightarrow> tx" where
  "on_timers f x = x\<lparr>tx_timers := f (tx_timers x)\<rparr>"

definition on_pending :: "(pending_frame \<Rightarrow> pending_frame) \<Rightarrow> tx \<Rightarrow> tx" where
  "on_pending f x = x\<lparr>tx_pending := f (tx_pending x)\<rparr>"

definition emit :: "emission \<Rightarrow> tx \<Rightarrow> tx" where
  "emit s x = x\<lparr>tx_sink := tx_sink x @ [s]\<rparr>"

definition unwrap_or :: "'a option \<Rightarrow> 'a \<Rightarrow> 'a" where
  "unwrap_or a d = (case a of None \<Rightarrow> d | Some v \<Rightarrow> v)"

lemma unwrap_or_simps [simp]: "unwrap_or None d = d" "unwrap_or (Some v) d = v"
  by (simp_all add: unwrap_or_def)

lemma tx_access [simp]:
  "tx_session (on_session f x) = f (tx_session x)" "tx_timers (on_session f x) = tx_timers x"
  "tx_sink (on_session f x) = tx_sink x" "tx_trigger (on_session f x) = tx_trigger x"
  "tx_pending (on_session f x) = tx_pending x"
  "tx_retrieved_stored_frame (on_session f x) = tx_retrieved_stored_frame x"
  "tx_retransmitted_inline (on_session f x) = tx_retransmitted_inline x"
  "tx_session (on_timers g x) = tx_session x" "tx_timers (on_timers g x) = g (tx_timers x)"
  "tx_sink (on_timers g x) = tx_sink x" "tx_trigger (on_timers g x) = tx_trigger x"
  "tx_pending (on_timers g x) = tx_pending x"
  "tx_retrieved_stored_frame (on_timers g x) = tx_retrieved_stored_frame x"
  "tx_session (on_pending h x) = tx_session x" "tx_timers (on_pending h x) = tx_timers x"
  "tx_sink (on_pending h x) = tx_sink x" "tx_trigger (on_pending h x) = tx_trigger x"
  "tx_pending (on_pending h x) = h (tx_pending x)"
  "tx_retrieved_stored_frame (on_pending h x) = tx_retrieved_stored_frame x"
  "tx_session (emit s x) = tx_session x" "tx_timers (emit s x) = tx_timers x"
  "tx_sink (emit s x) = tx_sink x @ [s]" "tx_trigger (emit s x) = tx_trigger x"
  "tx_pending (emit s x) = tx_pending x"
  "tx_retrieved_stored_frame (emit s x) = tx_retrieved_stored_frame x"
  by (simp_all add: on_session_def on_timers_def on_pending_def emit_def)

lemma tx_new_access [simp]:
  "tx_session (tx_new c t s e) = c" "tx_timers (tx_new c t s e) = t" "tx_sink (tx_new c t s e) = s"
  "tx_trigger (tx_new c t s e) = e" "tx_pending (tx_new c t s e) = no_pending"
  "tx_retrieved_stored_frame (tx_new c t s e) = None"
  by (simp_all add: tx_new_def)

end
