(* ===== verification/Sdl_Dispatch.thy ===== *)
theory Sdl_Dispatch
  imports Sdl_Tables
begin

text \<open>
  Action dispatch (\<open>sdl/dispatch.rs\<close>) and the subroutine walker (\<open>sdl/subroutine.rs\<close>). A verb either acts
  on the transition context or calls a subroutine, whose paths hold verbs again; the depth of the calls is
  bounded by a fuel. \<open>None\<close> is a call that does not return: it panics, it loops over an empty loop range, or
  its calls are nested deeper than the fuel.
\<close>

section \<open>Fields of the incoming frame\<close>

definition PID_NO_LAYER3 :: u8 where "PID_NO_LAYER3 = 0xF0"

abbreviation require_frame :: "tx \<Rightarrow> frame_info panicking" where
  "require_frame x \<equiv> event_frame (tx_trigger x)"

definition incoming_info :: "tx \<Rightarrow> (u8 \<times> bytes) panicking" where
  "incoming_info x = map_option (\<lambda>f. (unwrap_or (fi_pid f) PID_NO_LAYER3, fi_info f)) (require_frame x)"

section \<open>Emission of frames\<close>

definition send_s :: "supervisory_kind \<Rightarrow> bool \<Rightarrow> tx \<Rightarrow> tx" where
  "send_s kind is_cmd x =
     emit (SendFrame (Supervisory kind is_cmd (unwrap_or (pf_nr (tx_pending x)) (sc_vr (tx_session x)))
             (unwrap_or (pf_pf (tx_pending x)) False))) x"

definition send_u :: "unnumbered_kind \<Rightarrow> bool \<Rightarrow> bool option \<Rightarrow> bool \<Rightarrow> tx \<Rightarrow> tx" where
  "send_u kind is_cmd pf_override expedited x =
     emit (SendFrame (Unnumbered kind is_cmd
             (unwrap_or (case pf_override of Some b \<Rightarrow> Some b | None \<Rightarrow> pf_pf (tx_pending x)) False) expedited)) x"

definition send_ui :: "tx \<Rightarrow> tx panicking" where
  "send_ui x =
     (case tx_trigger x of
        DlUnitDataRequest pid info \<Rightarrow>
          Some (emit (SendFrame (Ui True (unwrap_or (pf_pf (tx_pending x)) False) pid info)) x)
      | _ \<Rightarrow> None)"

definition emit_i_frame :: "tx \<Rightarrow> tx panicking" where
  "emit_i_frame x =
     (case tx_trigger x of
        IFramePopsOffQueue pid info \<Rightarrow>
          (let ns = unwrap_or (pf_ns (tx_pending x)) (sc_vs (tx_session x));
               nr = unwrap_or (pf_nr (tx_pending x)) (sc_vr (tx_session x));
               p = unwrap_or (pf_pf (tx_pending x)) False in
           Some (on_session (\<lambda>c. c\<lparr>sc_sent_i_frames := AList.update ns (payload_new info pid) (sc_sent_i_frames c),
                     sc_selectively_retransmitted_since_ack := sc_selectively_retransmitted_since_ack c - {ns}\<rparr>)
                   (emit (SendFrame (Information p nr ns pid info)) x)))
      | _ \<Rightarrow> None)"

definition emit_stored :: "u8 \<Rightarrow> tx \<Rightarrow> tx" where
  "emit_stored ns x =
     (case map_of (sc_sent_i_frames (tx_session x)) ns of
        None \<Rightarrow> x
      | Some entry \<Rightarrow>
          (on_session (\<lambda>c. c\<lparr>sc_acknowledge_pending := False\<rparr>)
            (emit (SendFrame (Information False (sc_vr (tx_session x)) ns (pl_pid entry) (pl_data entry))) x))
            \<lparr>tx_retransmitted_inline := True\<rparr>)"

definition emit_old_i_frame :: "bool \<Rightarrow> u8 \<Rightarrow> bool \<Rightarrow> tx \<Rightarrow> tx panicking" where
  "emit_old_i_frame ck ns selective_replay x =
     (if \<not> selective_replay then Some (emit_stored ns x)
      else case is_outstanding ck (tx_session x) ns of
          None \<Rightarrow> None
        | Some out \<Rightarrow>
            if \<not> out then Some x
            else if ns \<in> sc_selectively_retransmitted_since_ack (tx_session x) then Some x
            else Some (emit_stored ns (on_session
                   (\<lambda>c. c\<lparr>sc_selectively_retransmitted_since_ack :=
                          insert ns (sc_selectively_retransmitted_since_ack c)\<rparr>) x)))"

definition push_old_i_frame_nr :: "bool \<Rightarrow> tx \<Rightarrow> tx panicking" where
  "push_old_i_frame_nr ck x =
     (case require_frame x of None \<Rightarrow> None | Some f \<Rightarrow> emit_old_i_frame ck (fi_nr f) True x)"

definition push_on_i_frame_queue :: "tx \<Rightarrow> tx panicking" where
  "push_on_i_frame_queue x =
     (case tx_trigger x of
        DlDataRequest pid data \<Rightarrow>
          Some (emit (SendInternal (PushIFrameQueue data))
            (on_session (\<lambda>c. c\<lparr>sc_i_frame_queue := sc_i_frame_queue c @ [payload_new data pid]\<rparr>) x))
      | _ \<Rightarrow> None)"

section \<open>Received frames\<close>

definition save_incoming_i_frame :: "tx \<Rightarrow> tx panicking" where
  "save_incoming_i_frame x =
     (case require_frame x of None \<Rightarrow> None | Some f \<Rightarrow>
      case fi_pid f of None \<Rightarrow> None | Some pid \<Rightarrow>
      Some (on_session (\<lambda>c. c\<lparr>sc_stored_received_i_frames :=
              AList.update (fi_ns f) (payload_new (fi_info f) pid) (sc_stored_received_i_frames c)\<rparr>) x))"

definition retrieve_stored_vr_i_frame :: "tx \<Rightarrow> tx" where
  "retrieve_stored_vr_i_frame x =
     (case map_of (sc_stored_received_i_frames (tx_session x)) (sc_vr (tx_session x)) of
        None \<Rightarrow> x
      | Some stored \<Rightarrow>
          (on_session (\<lambda>c. c\<lparr>sc_stored_received_i_frames :=
              AList.delete (sc_vr c) (sc_stored_received_i_frames c)\<rparr>) x)
            \<lparr>tx_retrieved_stored_frame := Some (pl_pid stored, pl_data stored)\<rparr>)"

definition build_data_indication :: "tx \<Rightarrow> tx panicking" where
  "build_data_indication x =
     (case tx_retrieved_stored_frame x of
        Some (pid, info) \<Rightarrow>
          Some (emit (SendUpward (DataIndication pid info)) (x\<lparr>tx_retrieved_stored_frame := None\<rparr>))
      | None \<Rightarrow>
          (case require_frame x of None \<Rightarrow> None | Some f \<Rightarrow>
           case fi_pid f of None \<Rightarrow> None | Some pid \<Rightarrow>
           Some (emit (SendUpward (DataIndication pid (fi_info f))) x)))"

section \<open>Version and counters\<close>

definition set_version_20 :: "session_context \<Rightarrow> session_context" where
  "set_version_20 c =
     (let c1 = (if sc_is_extended c then c\<lparr>sc_srej_enabled := False, sc_implicit_reject := True\<rparr> else c) in
      c1\<lparr>sc_is_extended := False\<rparr>)"

definition set_version_22 :: "session_context \<Rightarrow> session_context" where
  "set_version_22 c =
     (let c1 = c\<lparr>sc_is_extended := True\<rparr> in
      if \<not> sc_parameters_negotiated c1 then c1\<lparr>sc_implicit_reject := False, sc_srej_enabled := True\<rparr> else c1)"

definition T3_MS :: u32 where "T3_MS = 300000"
definition INITIAL_SRT_MS :: u32 where "INITIAL_SRT_MS = 3000"

text \<open>\<open>n += 1\<close> on a \<open>u32\<close>.\<close>

definition succ32 :: "bool \<Rightarrow> u32 \<Rightarrow> u32 panicking" where
  "succ32 checked n = (if checked \<and> n = - 1 then None else Some (n + 1))"

section \<open>The verbs, group by group\<close>

fun exec_flag :: "flag_verb \<Rightarrow> tx \<Rightarrow> tx" where
  "exec_flag SetOwnReceiverBusy x = on_session (\<lambda>c. c\<lparr>sc_own_receiver_busy := True\<rparr>) x"
| "exec_flag ClearOwnReceiverBusy x = on_session (\<lambda>c. c\<lparr>sc_own_receiver_busy := False\<rparr>) x"
| "exec_flag SetPeerReceiverBusy x = on_session (\<lambda>c. c\<lparr>sc_peer_receiver_busy := True\<rparr>) x"
| "exec_flag ClearPeerReceiverBusy x = on_session (\<lambda>c. c\<lparr>sc_peer_receiver_busy := False\<rparr>) x"
| "exec_flag SetAcknowledgePending x =
     (if \<not> tx_retransmitted_inline x then on_session (\<lambda>c. c\<lparr>sc_acknowledge_pending := True\<rparr>) x else x)"
| "exec_flag ClearAcknowledgePending x = on_session (\<lambda>c. c\<lparr>sc_acknowledge_pending := False\<rparr>) x"
| "exec_flag SetLayer3Initiated x = on_session (\<lambda>c. c\<lparr>sc_layer3_initiated := True\<rparr>) x"
| "exec_flag ClearLayer3Initiated x = on_session (\<lambda>c. c\<lparr>sc_layer3_initiated := False\<rparr>) x"

fun exec_timer :: "timer_verb \<Rightarrow> tx \<Rightarrow> tx" where
  "exec_timer StartT1 x = on_timers (arm T1 (sc_t1v_ms (tx_session x))) x"
| "exec_timer StartT3 x = on_timers (arm T3 T3_MS) x"
| "exec_timer StopT1 x =
     on_timers (cancel T1)
       (on_session (\<lambda>c. c\<lparr>sc_t1_remaining_when_last_stopped_ms := time_remaining_ms T1 (tx_timers x)\<rparr>) x)"
| "exec_timer StopT3 x = on_timers (cancel T3) x"

fun exec_s_frame :: "s_frame_verb \<Rightarrow> tx \<Rightarrow> tx" where
  "exec_s_frame RRCommand x = send_s Rr True x"
| "exec_s_frame RRCommandPEq0 x = send_s Rr True x"
| "exec_s_frame RR x = send_s Rr False x"
| "exec_s_frame RRResponse x = send_s Rr False x"
| "exec_s_frame RNRCommand x = send_s Rnr True x"
| "exec_s_frame RNR x = send_s Rnr False x"
| "exec_s_frame RNRResponse x = send_s Rnr False x"
| "exec_s_frame RNRResponseFEq0 x = send_s Rnr False x"
| "exec_s_frame REJ x = send_s Rej False x"
| "exec_s_frame SREJ x = send_s Srej False x"

fun exec_u_frame :: "u_frame_verb \<Rightarrow> tx \<Rightarrow> tx" where
  "exec_u_frame UA x = send_u Ua False None False x"
| "exec_u_frame DM x = send_u Dm False None False x"
| "exec_u_frame DMResponseFEq0 x = send_u Dm False None False x"
| "exec_u_frame DMFEq1 x = send_u Dm False (Some True) False x"
| "exec_u_frame ExpeditedUA x = send_u Ua False None True x"
| "exec_u_frame ExpeditedDM x = send_u Dm False None True x"
| "exec_u_frame SABM x = send_u Sabm True (Some True) False x"
| "exec_u_frame SABMPEqEq1 x = send_u Sabm True (Some True) False x"
| "exec_u_frame SABME x = send_u Sabme True (Some True) False x"
| "exec_u_frame SABMEPEq1 x = send_u Sabme True (Some True) False x"
| "exec_u_frame DISCPEq1 x = send_u Disc True (Some True) False x"

fun exec_upper :: "upper_verb \<Rightarrow> tx \<Rightarrow> tx panicking" where
  "exec_upper DLCONNECTIndication x = Some (emit (SendUpward ConnectIndication) x)"
| "exec_upper DLCONNECTConfirm x = Some (emit (SendUpward ConnectConfirm) x)"
| "exec_upper DLDISCONNECTIndication x =
     Some (emit (SendUpward DisconnectIndication) (on_session (\<lambda>c. c\<lparr>sc_parameters_negotiated := False\<rparr>) x))"
| "exec_upper DLDISCONNECTConfirm x =
     Some (emit (SendUpward DisconnectConfirm) (on_session (\<lambda>c. c\<lparr>sc_parameters_negotiated := False\<rparr>) x))"
| "exec_upper DLDATAIndication x = build_data_indication x"
| "exec_upper DLUNITDATAIndication x =
     map_option (\<lambda>(pid, info). emit (SendUpward (UnitDataIndication pid info)) x) (incoming_info x)"

fun error_code :: "error_verb \<Rightarrow> string" where
  "error_code DLERRORIndicationCD = ''C_D''"
| "error_code DLERRORIndicationD = ''D''"
| "error_code DLERRORIndicationE = ''E''"
| "error_code DLERRORIndicationF = ''F''"
| "error_code DLERRORIndicationG = ''G''"
| "error_code DLERRORIndicationI = ''I''"
| "error_code DLERRORIndicationK = ''K''"
| "error_code DLERRORIndicationL = ''L''"
| "error_code DLERRORIndicationM = ''M''"
| "error_code DLERRORIndicationN = ''N''"
| "error_code DLERRORIndicationO = ''O''"
| "error_code DLERRORIndicationT = ''T''"
| "error_code DLERRORIndicationU = ''U''"
| "error_code DLERRORIndicationA = ''A''"
| "error_code DLERRORIndicationJ = ''J''"
| "error_code DLERRORIndicationQ = ''Q''"
| "error_code DLERRORIndicationAdd = ''add''"

fun mux_signal :: "mux_verb \<Rightarrow> link_multiplexer_signal" where
  "mux_signal LMSeizeRequest = SeizeRequest"
| "mux_signal LMReleaseRequest = ReleaseRequest"
| "mux_signal LMDataRequest = DataRequest"

fun exec_queue :: "bool \<Rightarrow> queue_verb \<Rightarrow> tx \<Rightarrow> tx panicking" where
  "exec_queue ck PushOnIFrameQueue x = push_on_i_frame_queue x"
| "exec_queue ck PushOnIFrameQueueNoteWordOrder x = push_on_i_frame_queue x"
| "exec_queue ck PushFrameOnQueue x = push_on_i_frame_queue x"
| "exec_queue ck PushIFrameOnIQueue x = push_on_i_frame_queue x"
| "exec_queue ck PushOldIFrameNROnQueue x = push_old_i_frame_nr ck x"
| "exec_queue ck DiscardFrameQueue x = Some (on_session (\<lambda>c. c\<lparr>sc_i_frame_queue := []\<rparr>) x)"
| "exec_queue ck DiscardQueue x = Some (on_session (\<lambda>c. c\<lparr>sc_i_frame_queue := []\<rparr>) x)"
| "exec_queue ck DiscardIFrameQueue x = Some (on_session (\<lambda>c. c\<lparr>sc_i_frame_queue := []\<rparr>) x)"
| "exec_queue ck DiscardIQueueEntries x = Some (on_session (\<lambda>c. c\<lparr>sc_i_frame_queue := []\<rparr>) x)"
| "exec_queue ck DiscardIFrame x = Some x"
| "exec_queue ck DiscardContentsOfIFrame x = Some x"
| "exec_queue ck DiscardPrimitive x = Some x"

definition increment_sreject :: "bool \<Rightarrow> tx \<Rightarrow> tx panicking" where
  "increment_sreject ck x =
     map_option (\<lambda>n. on_session (\<lambda>c. c\<lparr>sc_srej_exception_count := n, sc_selective_reject_exception := True\<rparr>) x)
       (succ32 ck (sc_srej_exception_count (tx_session x)))"

definition decrement_sreject :: "session_context \<Rightarrow> session_context" where
  "decrement_sreject c =
     (if sc_srej_exception_count c > 0 then
        let c1 = c\<lparr>sc_srej_exception_count := sc_srej_exception_count c - 1\<rparr> in
        if sc_srej_exception_count c1 = 0 then c1\<lparr>sc_selective_reject_exception := False\<rparr> else c1
      else c)"

fun exec_reject :: "bool \<Rightarrow> reject_verb \<Rightarrow> tx \<Rightarrow> tx panicking" where
  "exec_reject ck SetRejectException x = Some (on_session (\<lambda>c. c\<lparr>sc_reject_exception := True\<rparr>) x)"
| "exec_reject ck ClearRejectException x = Some (on_session (\<lambda>c. c\<lparr>sc_reject_exception := False\<rparr>) x)"
| "exec_reject ck ClearRejectCondition x = Some (on_session (\<lambda>c. c\<lparr>sc_reject_exception := False\<rparr>) x)"
| "exec_reject ck ClearSrejectCondition x =
     Some (on_session (\<lambda>c. c\<lparr>sc_selective_reject_exception := False, sc_srej_exception_count := 0\<rparr>) x)"
| "exec_reject ck IncrementSrejectException x = increment_sreject ck x"
| "exec_reject ck SrejectAssignSrejectPlus1 x = increment_sreject ck x"
| "exec_reject ck DecrementSrejectExceptionIf0 x = Some (on_session decrement_sreject x)"

fun exec_store :: "store_verb \<Rightarrow> tx \<Rightarrow> tx panicking" where
  "exec_store SaveContentsOfIFrame x = save_incoming_i_frame x"
| "exec_store RetrieveStoredVRIFrame x = Some (retrieve_stored_vr_i_frame x)"

fun exec_param :: "param_verb \<Rightarrow> session_context \<Rightarrow> session_context" where
  "exec_param SetVersion20 c = set_version_20 c"
| "exec_param SetVersion22 c = set_version_22 c"
| "exec_param SetHalfDuplex c = c\<lparr>sc_half_duplex := True\<rparr>"
| "exec_param SetImplicitReject c = c\<lparr>sc_implicit_reject := True, sc_srej_enabled := False\<rparr>"
| "exec_param SetSelectiveReject c = c\<lparr>sc_implicit_reject := False, sc_srej_enabled := True\<rparr>"
| "exec_param ModuloAssign8 c = c\<lparr>sc_is_extended := False\<rparr>"
| "exec_param ModuloAssign128 c = c\<lparr>sc_is_extended := True\<rparr>"
| "exec_param N1Assign2048 c = c\<lparr>sc_n1 := 2048\<rparr>"
| "exec_param KAssign8 c = c\<lparr>sc_k := 8\<rparr>"
| "exec_param KAssign32 c = c\<lparr>sc_k := 32\<rparr>"
| "exec_param T2Assign3000 c = c\<lparr>sc_t2_ms := 3000\<rparr>"
| "exec_param N2Assign10 c = c\<lparr>sc_n2 := 10\<rparr>"
| "exec_param SRTAssignInitialDefault c = c\<lparr>sc_srt_ms := INITIAL_SRT_MS\<rparr>"
| "exec_param T1VAssign2TimesSRT c = c\<lparr>sc_t1v_ms := saturating_mul (sc_srt_ms c) 2\<rparr>"
| "exec_param NextT1Assign2TimesSRT c = c\<lparr>sc_t1v_ms := saturating_mul (sc_srt_ms c) 2\<rparr>"
| "exec_param NextT1AssignRCTimes025PlusSRTTimes2 c =
     c\<lparr>sc_t1v_ms := next_t1_rc_backoff_ms (sc_rc c) (sc_srt_ms c), sc_t1_had_expired := False\<rparr>"
| "exec_param SRTAssign7SRT8PlusT18RemainingTimeOnT1WhenLastStopped8 c =
     c\<lparr>sc_srt_ms := srt_iir_update (sc_srt_ms c) (sc_t1v_ms c) (sc_t1_remaining_when_last_stopped_ms c)
                     (qk_karn_srt_sampling (sc_quirks c)),
       sc_t1_had_expired := False, sc_t1_remaining_when_last_stopped_ms := 0\<rparr>"

definition assign_va :: "bool \<Rightarrow> u8 \<Rightarrow> session_context \<Rightarrow> session_context panicking" where
  "assign_va ck nr c =
     (let c1 = c\<lparr>sc_va := nr\<rparr> in
      if sc_va c1 \<noteq> sc_va c
      then prune_acknowledged_sent_i_frames ck (c1\<lparr>sc_selectively_retransmitted_since_ack := {}\<rparr>)
      else Some c1)"

fun exec_seq :: "bool \<Rightarrow> seq_verb \<Rightarrow> tx \<Rightarrow> tx panicking" where
  "exec_seq ck VSAssign0 x = Some (on_session (\<lambda>c. c\<lparr>sc_vs := 0\<rparr>) x)"
| "exec_seq ck VSAssignVSPlus1 x = Some (on_session (\<lambda>c. c\<lparr>sc_vs := increment_seq c (sc_vs c)\<rparr>) x)"
| "exec_seq ck VRAssign0 x = Some (on_session (\<lambda>c. c\<lparr>sc_vr := 0\<rparr>) x)"
| "exec_seq ck VRAssignVRPlus1 x = Some (on_session (\<lambda>c. c\<lparr>sc_vr := increment_seq c (sc_vr c)\<rparr>) x)"
| "exec_seq ck VRAssignVR1 x = Some (on_session (\<lambda>c. c\<lparr>sc_vr := decrement_seq c (sc_vr c)\<rparr>) x)"
| "exec_seq ck VAAssign0 x = Some (on_session (\<lambda>c. c\<lparr>sc_va := 0\<rparr>) x)"
| "exec_seq ck XAssignVS x = Some (on_session (\<lambda>c. c\<lparr>sc_x := Some (sc_vs c)\<rparr>) x)"
| "exec_seq ck VSAssignNR x =
     map_option (\<lambda>f. on_session (\<lambda>c. c\<lparr>sc_vs := fi_nr f\<rparr>) x) (require_frame x)"
| "exec_seq ck RCAssign0 x = Some (on_session (\<lambda>c. c\<lparr>sc_rc := 0\<rparr>) x)"
| "exec_seq ck RCAssign1 x = Some (on_session (\<lambda>c. c\<lparr>sc_rc := 1\<rparr>) x)"
| "exec_seq ck RCAssignRCPlus1 x =
     map_option (\<lambda>n. on_session (\<lambda>c. c\<lparr>sc_rc := n\<rparr>) x) (succ32 ck (sc_rc (tx_session x)))"
| "exec_seq ck VAAssignNR x =
     (case require_frame x of None \<Rightarrow> None | Some f \<Rightarrow>
      map_option (\<lambda>c'. on_session (\<lambda>_. c') x) (assign_va ck (fi_nr f) (tx_session x)))"

fun exec_pending :: "pending_verb \<Rightarrow> tx \<Rightarrow> tx panicking" where
  "exec_pending NRAssignVR x = Some (on_pending (\<lambda>p. p\<lparr>pf_nr := Some (sc_vr (tx_session x))\<rparr>) x)"
| "exec_pending NSAssignVS x = Some (on_pending (\<lambda>p. p\<lparr>pf_ns := Some (sc_vs (tx_session x))\<rparr>) x)"
| "exec_pending NRAssignNS x =
     map_option (\<lambda>f. on_pending (\<lambda>p. p\<lparr>pf_nr := Some (fi_ns f)\<rparr>) x) (require_frame x)"
| "exec_pending FAssign0 x = Some (on_pending (\<lambda>p. p\<lparr>pf_pf := Some False\<rparr>) x)"
| "exec_pending PAssign0 x = Some (on_pending (\<lambda>p. p\<lparr>pf_pf := Some False\<rparr>) x)"
| "exec_pending FAssign1 x = Some (on_pending (\<lambda>p. p\<lparr>pf_pf := Some True\<rparr>) x)"
| "exec_pending PAssign1 x = Some (on_pending (\<lambda>p. p\<lparr>pf_pf := Some True\<rparr>) x)"
| "exec_pending FAssignP x =
     map_option (\<lambda>f. on_pending (\<lambda>p. p\<lparr>pf_pf := Some (fi_poll_final f)\<rparr>) x) (require_frame x)"

text \<open>The verbs of the management machine are inert here, the calls are dispatched below.\<close>

fun execute_plain :: "bool \<Rightarrow> verb \<Rightarrow> tx \<Rightarrow> tx panicking" where
  "execute_plain ck (Flag v) x = Some (exec_flag v x)"
| "execute_plain ck (Timer v) x = Some (exec_timer v x)"
| "execute_plain ck (SFrame v) x = Some (exec_s_frame v x)"
| "execute_plain ck (UFrame v) x = Some (exec_u_frame v x)"
| "execute_plain ck UICommand x = send_ui x"
| "execute_plain ck ICommand x = emit_i_frame x"
| "execute_plain ck (Upper v) x = exec_upper v x"
| "execute_plain ck (Error v) x = Some (emit (SendUpward (ErrorIndication (error_code v))) x)"
| "execute_plain ck (Mux v) x = Some (emit (SendLinkMux (mux_signal v)) x)"
| "execute_plain ck MDLNEGOTIATERequest x = Some (emit (SendInternal MdlNegotiateRequest) x)"
| "execute_plain ck (Mdl v) x = Some x"
| "execute_plain ck (Queue v) x = exec_queue ck v x"
| "execute_plain ck (Rejects v) x = exec_reject ck v x"
| "execute_plain ck (Store v) x = exec_store v x"
| "execute_plain ck (Param v) x = Some (on_session (exec_param v) x)"
| "execute_plain ck (Call v) x = Some x"
| "execute_plain ck (Seq v) x = exec_seq ck v x"
| "execute_plain ck (Pending v) x = exec_pending v x"
| "execute_plain ck Backtrack x = Some x"
| "execute_plain ck PushOldIFrameOntoQueue x = emit_old_i_frame ck (sc_vs (tx_session x)) False x"

end
