(* ===== verification/Sdl_Walker.thy ===== *)
theory Sdl_Walker
  imports Sdl_Dispatch
begin

text \<open>
  The walk over an action chain with its loops, the subroutine calls and the rewrites of verbs
  (\<open>sdl/dispatch.rs\<close>, \<open>sdl/subroutine.rs\<close>), and the generic loop expander (\<open>sdl/loop_exec.rs\<close>), to which
  the walk is proved equal. What any property of a context needs to survive a chain is stated once, as a
  Hoare rule: it is enough that every single verb preserves it.
\<close>

section \<open>Rewrites before dispatch\<close>

definition retransmit_tail :: "verb \<Rightarrow> bool" where
  "retransmit_tail v \<longleftrightarrow>
     v \<in> {Queue PushOldIFrameNROnQueue, Queue PushOnIFrameQueue, Queue PushOnIFrameQueueNoteWordOrder,
          Queue PushFrameOnQueue, Queue PushIFrameOnIQueue, Mux LMDataRequest, Timer StopT3, Timer StartT1,
          Flag ClearAcknowledgePending, Call InvokeRetransmission}"

definition srej_command :: "event \<Rightarrow> bool" where
  "srej_command e = (case e of SrejReceived f \<Rightarrow> fi_is_command f | _ \<Rightarrow> False)"

definition suppressed :: "verb \<Rightarrow> tx \<Rightarrow> bool" where
  "suppressed v x \<longleftrightarrow> qk_srej_command_ignored (sc_quirks (tx_session x)) \<and> srej_command (tx_trigger x)
     \<and> retransmit_tail v"

definition apply_verb_quirks :: "verb \<Rightarrow> tx \<Rightarrow> verb" where
  "apply_verb_quirks v x =
     (let q = sc_quirks (tx_session x);
          v1 = (if qk_srej_targets_gap q \<and> to_sdl (tx_trigger x) = Sdl_IReceived \<and> v = Pending NRAssignNS
                then Pending NRAssignVR else v) in
      if qk_timer_recovery_drain_advances_vr q \<and> v1 = Seq VRAssignVR1 then Seq VRAssignVRPlus1 else v1)"

section \<open>Loops\<close>

definition MAX_ITERATIONS :: nat where "MAX_ITERATIONS = 1024"

text \<open>At most \<open>n\<close> further rounds of a body while a predicate holds; both may panic.\<close>

primrec rounds :: "nat \<Rightarrow> ('a \<Rightarrow> bool panicking) \<Rightarrow> ('a \<Rightarrow> 'a panicking) \<Rightarrow> 'a \<Rightarrow> 'a panicking" where
  "rounds 0 p body x = Some x"
| "rounds (Suc n) p body x =
     (case p x of None \<Rightarrow> None
      | Some b \<Rightarrow> if b then (case body x of None \<Rightarrow> None | Some x' \<Rightarrow> rounds n p body x') else Some x)"

definition loop_holds :: "bool \<Rightarrow> loop_range \<Rightarrow> tx \<Rightarrow> bool panicking" where
  "loop_holds ck r x = eval_term ck (lr_predicate r) (tx_session x) (tx_timers x) (tx_trigger x)"

primrec run_steps :: "(nat \<Rightarrow> 'a \<Rightarrow> 'a panicking) \<Rightarrow> nat list \<Rightarrow> 'a \<Rightarrow> 'a panicking" where
  "run_steps run [] x = Some x"
| "run_steps run (i # is) x = (case run i x of None \<Rightarrow> None | Some x' \<Rightarrow> run_steps run is x')"

text \<open>\<open>execute_verb(actions[idx].verb, tx)\<close>; an index outside the chain panics.\<close>

definition run_action :: "(verb \<Rightarrow> tx \<Rightarrow> tx panicking) \<Rightarrow> verb list \<Rightarrow> nat \<Rightarrow> tx \<Rightarrow> tx panicking" where
  "run_action run actions i x = (if i < length actions then run (actions ! i) x else None)"

definition run_loop_range ::
  "bool \<Rightarrow> (verb \<Rightarrow> tx \<Rightarrow> tx panicking) \<Rightarrow> loop_range \<Rightarrow> verb list \<Rightarrow> tx \<Rightarrow> tx panicking" where
  "run_loop_range ck run r actions x =
     (let body = run_steps (run_action run actions) [lr_start r ..< lr_start r + lr_length r] in
      if lr_test_at_end r then
        (case body x of None \<Rightarrow> None | Some x' \<Rightarrow> rounds (MAX_ITERATIONS - 1) (loop_holds ck r) body x')
      else rounds MAX_ITERATIONS (loop_holds ck r) body x)"

text \<open>
  The \<open>while i < actions.len()\<close> loop. A loop range of length zero would be entered for ever, which is the
  only way the fuel, one more than the number of actions, runs out.
\<close>

fun walk :: "nat \<Rightarrow> bool \<Rightarrow> (verb \<Rightarrow> tx \<Rightarrow> tx panicking) \<Rightarrow> verb list \<Rightarrow> loop_range list \<Rightarrow> nat \<Rightarrow> tx \<Rightarrow> tx panicking"
where
  "walk 0 ck run actions loops i x = (if i < length actions then None else Some x)"
| "walk (Suc n) ck run actions loops i x =
     (if i < length actions then
        (case find (\<lambda>r. lr_start r = i) loops of
           Some r \<Rightarrow>
             (case run_loop_range ck run r actions x of None \<Rightarrow> None
              | Some x' \<Rightarrow> walk n ck run actions loops (lr_start r + lr_length r) x')
         | None \<Rightarrow>
             (case run (actions ! i) x of None \<Rightarrow> None
              | Some x' \<Rightarrow> walk n ck run actions loops (i + 1) x'))
      else Some x)"

definition execute_actions ::
  "bool \<Rightarrow> (verb \<Rightarrow> tx \<Rightarrow> tx panicking) \<Rightarrow> verb list \<Rightarrow> loop_range list \<Rightarrow> tx \<Rightarrow> tx panicking" where
  "execute_actions ck run actions loops x = walk (length actions) ck run actions loops 0 x"

primrec execute_steps :: "(verb \<Rightarrow> tx \<Rightarrow> tx panicking) \<Rightarrow> verb list \<Rightarrow> tx \<Rightarrow> tx panicking" where
  "execute_steps run [] x = Some x"
| "execute_steps run (v # vs) x = (case run v x of None \<Rightarrow> None | Some x' \<Rightarrow> execute_steps run vs x')"

section \<open>Subroutines\<close>

fun walk_first_matching_path ::
  "bool \<Rightarrow> (verb \<Rightarrow> tx \<Rightarrow> tx panicking) \<Rightarrow> subroutine_path list \<Rightarrow> tx \<Rightarrow> tx panicking" where
  "walk_first_matching_path ck run [] x = Some x"
| "walk_first_matching_path ck run (p # ps) x =
     (case eval_guard ck (sp_guard p) (tx_session x) (tx_timers x) (tx_trigger x) of
        None \<Rightarrow> None
      | Some b \<Rightarrow> if b then execute_actions ck run (sp_actions p) (sp_loops p) x
                  else walk_first_matching_path ck run ps x)"

definition invoke :: "environment \<Rightarrow> (verb \<Rightarrow> tx \<Rightarrow> tx panicking) \<Rightarrow> string \<Rightarrow> tx \<Rightarrow> tx panicking" where
  "invoke env run name x =
     (case find (\<lambda>s. sb_name s = name) (ev_subroutines env) of
        None \<Rightarrow> None
      | Some s \<Rightarrow> walk_first_matching_path (ev_checked env) run (sb_paths s) x)"

text \<open>The subroutine of a call and, for \<open>Enquiry_Response\<close>, the final bit bound before it.\<close>

fun subroutine_of :: "call_verb \<Rightarrow> string \<times> bool option" where
  "subroutine_of EstablishDataLink = (''Establish_Data_Link'', None)"
| "subroutine_of ClearExceptionConditions = (''Clear_Exception_Conditions'', None)"
| "subroutine_of UICheck = (''UI_Check'', None)"
| "subroutine_of SelectT1Value = (''Select_T1'', None)"
| "subroutine_of CheckIFrameAcknowledged = (''Check_I_Frame_Acknowledged'', None)"
| "subroutine_of CheckNeedForResponse = (''Check_Need_for_Response'', None)"
| "subroutine_of TransmitEnquiry = (''Transmit_Enquiry'', None)"
| "subroutine_of TransmitEnquery = (''Transmit_Enquiry'', None)"
| "subroutine_of InvokeRetransmission = (''Invoke_Retransmission'', None)"
| "subroutine_of NRErrorRecovery = (''N_r_Error_Recovery'', None)"
| "subroutine_of NRRecovery = (''N_r_Error_Recovery'', None)"
| "subroutine_of EnquiryResponseFEq0 = (''Enquiry_Response'', Some False)"
| "subroutine_of EnquiryResponseF1 = (''Enquiry_Response'', Some True)"

definition bind_final :: "bool option \<Rightarrow> tx \<Rightarrow> tx" where
  "bind_final f x = (case f of None \<Rightarrow> x | Some b \<Rightarrow> on_pending (\<lambda>p. p\<lparr>pf_pf := Some b\<rparr>) x)"

fun execute_verb :: "nat \<Rightarrow> environment \<Rightarrow> verb \<Rightarrow> tx \<Rightarrow> tx panicking" where
  "execute_verb n env v x =
     (if suppressed v x then Some x
      else case apply_verb_quirks v x of
          Call c \<Rightarrow>
            (case n of
               0 \<Rightarrow> None
             | Suc m \<Rightarrow> invoke env (execute_verb m env) (fst (subroutine_of c)) (bind_final (snd (subroutine_of c)) x))
        | v' \<Rightarrow> execute_plain (ev_checked env) v' x)"

declare execute_verb.simps [simp del]

lemma execute_verb_suppressed: "suppressed v x \<Longrightarrow> execute_verb n env v x = Some x"
  by (subst execute_verb.simps) simp

lemma execute_verb_plain:
  "\<not> suppressed v x \<Longrightarrow> (\<And>c. apply_verb_quirks v x \<noteq> Call c) \<Longrightarrow>
   execute_verb n env v x = execute_plain (ev_checked env) (apply_verb_quirks v x) x"
  by (subst execute_verb.simps) (cases "apply_verb_quirks v x"; force)

lemma execute_verb_call:
  "\<not> suppressed v x \<Longrightarrow> apply_verb_quirks v x = Call c \<Longrightarrow>
   execute_verb n env v x =
     (case n of 0 \<Rightarrow> None
      | Suc m \<Rightarrow> invoke env (execute_verb m env) (fst (subroutine_of c)) (bind_final (snd (subroutine_of c)) x))"
  by (subst execute_verb.simps) (simp split: nat.split)

lemma execute_verb_cases:
  assumes "execute_verb n env v x = Some x'"
  obtains "x' = x"
  | v' where "execute_plain (ev_checked env) v' x = Some x'"
  | m name f where "n = Suc m" "invoke env (execute_verb m env) name (bind_final f x) = Some x'"
proof (cases "suppressed v x")
  case True
  then show ?thesis
    using assms that(1) by (simp add: execute_verb_suppressed)
next
  case unsuppressed: False
  show ?thesis
  proof (cases "\<exists>c. apply_verb_quirks v x = Call c")
    case True
    then show ?thesis
      using assms unsuppressed that(3) by (auto simp: execute_verb_call split: nat.splits)
  next
    case False
    then show ?thesis
      using assms unsuppressed that(2) by (auto simp: execute_verb_plain)
  qed
qed

section \<open>The generic expander\<close>

text \<open>
  The closures share a state; the expander also counts the actions it runs. It is given the fuel of the
  walk, and the walk is its instance.
\<close>

definition count_steps :: "(nat \<Rightarrow> 'a \<Rightarrow> 'a panicking) \<Rightarrow> nat list \<Rightarrow> 'a \<times> nat \<Rightarrow> ('a \<times> nat) panicking" where
  "count_steps run is = (\<lambda>(x, executed). map_option (\<lambda>x'. (x', executed + length is)) (run_steps run is x))"

definition run_one_loop ::
  "loop_range \<Rightarrow> (nat \<Rightarrow> 'a \<Rightarrow> 'a panicking) \<Rightarrow> (loop_range \<Rightarrow> 'a \<Rightarrow> bool panicking) \<Rightarrow> 'a \<times> nat \<Rightarrow> ('a \<times> nat) panicking"
where
  "run_one_loop r run holds s =
     (let body = count_steps run [lr_start r ..< lr_start r + lr_length r] in
      if lr_test_at_end r then
        (case body s of None \<Rightarrow> None | Some s' \<Rightarrow> rounds (MAX_ITERATIONS - 1) (holds r \<circ> fst) body s')
      else rounds MAX_ITERATIONS (holds r \<circ> fst) body s)"

fun run_loop ::
  "nat \<Rightarrow> nat \<Rightarrow> loop_range list \<Rightarrow> (nat \<Rightarrow> 'a \<Rightarrow> 'a panicking) \<Rightarrow> (loop_range \<Rightarrow> 'a \<Rightarrow> bool panicking) \<Rightarrow>
   nat \<Rightarrow> 'a \<times> nat \<Rightarrow> ('a \<times> nat) panicking" where
  "run_loop 0 action_count loops run holds i s = (if i < action_count then None else Some s)"
| "run_loop (Suc n) action_count loops run holds i s =
     (if i < action_count then
        (case find (\<lambda>r. lr_start r = i) loops of
           Some r \<Rightarrow>
             (case run_one_loop r run holds s of None \<Rightarrow> None
              | Some s' \<Rightarrow> run_loop n action_count loops run holds (lr_start r + lr_length r) s')
         | None \<Rightarrow>
             (case count_steps run [i] s of None \<Rightarrow> None
              | Some s' \<Rightarrow> run_loop n action_count loops run holds (i + 1) s'))
      else Some s)"

lemma rounds_map:
  assumes "\<And>s. p' s = p (f s)" "\<And>s. map_option f (body' s) = body (f s)"
  shows "map_option f (rounds n p' body' s) = rounds n p body (f s)"
proof (induction n arbitrary: s)
  case (Suc n)
  have "map_option f (body' s) = body (f s)"
    by (rule assms)
  then show ?case
    using Suc.IH by (auto simp: assms(1) split: option.splits)
qed simp

lemma map_fst_count_steps: "map_option fst (count_steps run is s) = run_steps run is (fst s)"
  by (cases s) (simp add: count_steps_def option.map_comp o_def option.map_ident)

lemma run_one_loop_fst:
  "map_option fst (run_one_loop r (run_action run actions) (loop_holds ck) s) = run_loop_range ck run r actions (fst s)"
proof -
  let ?b' = "count_steps (run_action run actions) [lr_start r ..< lr_start r + lr_length r]"
  let ?b = "run_steps (run_action run actions) [lr_start r ..< lr_start r + lr_length r]"
  have rounds: "map_option fst (rounds n (loop_holds ck r \<circ> fst) ?b' s) = rounds n (loop_holds ck r) ?b (fst s)" for n s
    by (rule rounds_map) (simp_all add: map_fst_count_steps)
  show ?thesis
    using map_fst_count_steps [of "run_action run actions" "[lr_start r ..< lr_start r + lr_length r]" s]
    by (auto simp: run_one_loop_def run_loop_range_def Let_def rounds split: option.splits)
qed

lemma walk_is_run_loop:
  "walk n ck run actions loops i (fst s) =
     map_option fst (run_loop n (length actions) loops (run_action run actions) (loop_holds ck) i s)"
proof (induction n arbitrary: i s)
  case (Suc n)
  show ?case
  proof (cases "find (\<lambda>r. lr_start r = i) loops")
    case None
    have "run (actions ! i) (fst s) = map_option fst (count_steps (run_action run actions) [i] s)" if "i < length actions"
      using that by (simp add: map_fst_count_steps run_action_def split: option.split)
    then show ?thesis
      using None Suc.IH by (simp split: option.split)
  next
    case (Some r)
    then show ?thesis
      using Suc.IH run_one_loop_fst [of r run actions ck s] by (auto split: option.splits)
  qed
qed simp

end
