(* ===== verification/Sdl_Session.thy ===== *)
theory Sdl_Session
  imports Sdl_Walker "HOL-Library.Monad_Syntax"
begin

text \<open>
  The session driver (\<open>sdl/session.rs\<close>): it selects the first transition of the page of the current state
  whose trigger matches and whose guard holds, runs its actions, moves to the next state, and after each
  event drains the queue of frames to transmit. A session is driven together with the timers and the sink;
  the three are the link. The drain is a partial function: that it returns is a theorem.
\<close>

section \<open>States\<close>

fun state_name :: "sdl_state \<Rightarrow> string" where
  "state_name Disconnected = ''Disconnected''"
| "state_name AwaitingConnection = ''AwaitingConnection''"
| "state_name AwaitingV22Connection = ''AwaitingV22Connection''"
| "state_name AwaitingRelease = ''AwaitingRelease''"
| "state_name Connected = ''Connected''"
| "state_name TimerRecovery = ''TimerRecovery''"

definition all_states :: "sdl_state list" where
  "all_states = [Disconnected, AwaitingConnection, AwaitingV22Connection, AwaitingRelease, Connected, TimerRecovery]"

text \<open>An unknown name panics.\<close>

definition from_name :: "string \<Rightarrow> sdl_state panicking" where
  "from_name name = find (\<lambda>s. state_name s = name) all_states"

lemma from_name_state_name [simp]: "from_name (state_name s) = Some s"
  by (cases s) (simp_all add: from_name_def all_states_def)

section \<open>Session\<close>

record session =
  se_state :: sdl_state
  se_context :: session_context
  se_va_advanced_since_t1_expiry :: bool

definition in_state :: "sdl_state \<Rightarrow> session" where
  "in_state st = \<lparr>se_state = st, se_context = session_context_default, se_va_advanced_since_t1_expiry = False\<rparr>"

definition session_new :: session where
  "session_new = in_state Disconnected"

type_synonym link = "session \<times> timers \<times> emission list"

section \<open>Selection of the transition\<close>

fun first_match ::
  "bool \<Rightarrow> transition list \<Rightarrow> session_context \<Rightarrow> timers \<Rightarrow> event \<Rightarrow> transition option panicking" where
  "first_match ck [] c t e = Some None"
| "first_match ck (tr # trs) c t e =
     (if tr_on tr \<noteq> to_sdl e then first_match ck trs c t e
      else case eval_guard ck (tr_guard tr) c t e of
          None \<Rightarrow> None
        | Some b \<Rightarrow> if b then Some (Some tr) else first_match ck trs c t e)"

definition resolve_next_state :: "session_context \<Rightarrow> transition \<Rightarrow> sdl_state panicking" where
  "resolve_next_state c tr =
     (if qk_mod128_connect_routes_to_v22 (sc_quirks c) \<and> sc_is_extended c \<and>
         tr_from tr = ''Disconnected'' \<and> tr_on tr = Sdl_DLCONNECTRequest \<and> tr_next tr = ''AwaitingConnection''
      then Some AwaitingV22Connection
      else from_name (tr_next tr))"

definition resolve_dm_degrade_match :: "session_context \<Rightarrow> transition \<Rightarrow> transition list \<Rightarrow> transition" where
  "resolve_dm_degrade_match c matched page =
     (if \<not> qk_dm_rejection_degrades_to_v20 (sc_quirks c) \<or> \<not> sc_is_extended c \<or>
         tr_on matched \<noteq> Sdl_DMReceived \<or> tr_from matched \<noteq> ''AwaitingV22Connection''
      then matched
      else case find (\<lambda>t. tr_on t = Sdl_FRMRReceived) page of Some t \<Rightarrow> t | None \<Rightarrow> matched)"

definition force_version_20 :: "session_context \<Rightarrow> session_context" where
  "force_version_20 c = c\<lparr>sc_is_extended := False, sc_srej_enabled := False, sc_implicit_reject := True\<rparr>"

definition apply_pre_execution_quirks :: "transition \<Rightarrow> event \<Rightarrow> session_context \<Rightarrow> session_context" where
  "apply_pre_execution_quirks tr e c =
     (let c1 = (if qk_frmr_fallback_reestablishes_v20 (sc_quirks c) \<and> sc_is_extended c \<and>
                   tr_from tr = ''AwaitingV22Connection'' \<and> tr_on tr = Sdl_FRMRReceived
                then force_version_20 c else c) in
      if qk_dm_rejection_degrades_to_v20 (sc_quirks c1) \<and> sc_is_extended c1 \<and>
         to_sdl e = Sdl_DMReceived \<and> tr_from tr = ''AwaitingV22Connection''
      then force_version_20 c1 else c1)"

section \<open>Dispatch\<close>

definition clamp_retry_count :: "event \<Rightarrow> session \<Rightarrow> session" where
  "clamp_retry_count e s =
     (if e = T1Expiry \<and> qk_ack_progress_resets_rc (sc_quirks (se_context s)) then
        (let s1 = (if se_va_advanced_since_t1_expiry s \<and> sc_rc (se_context s) > 1
                   then s\<lparr>se_context := (se_context s)\<lparr>sc_rc := 1\<rparr>\<rparr> else s) in
         s1\<lparr>se_va_advanced_since_t1_expiry := False\<rparr>)
      else s)"

definition run_transition :: "nat \<Rightarrow> environment \<Rightarrow> event \<Rightarrow> transition \<Rightarrow> link \<Rightarrow> link panicking" where
  "run_transition n env e tr = (\<lambda>(s, t, out).
     let c = apply_pre_execution_quirks tr e (se_context s) in
     do { x \<leftarrow> execute_actions (ev_checked env) (execute_verb n env) (tr_actions tr) (tr_loops tr) (tx_new c t out e);
          st \<leftarrow> resolve_next_state (tx_session x) tr;
          Some (\<lparr>se_state = st, se_context = tx_session x,
                 se_va_advanced_since_t1_expiry = (se_va_advanced_since_t1_expiry s \<or> sc_va (tx_session x) \<noteq> sc_va c)\<rparr>,
                tx_timers x, tx_sink x) })"

definition dispatch_event :: "nat \<Rightarrow> environment \<Rightarrow> event \<Rightarrow> link \<Rightarrow> link panicking" where
  "dispatch_event n env e = (\<lambda>(s0, t, out).
     let s = clamp_retry_count e s0; page = ev_page env (se_state s) in
     do { matched \<leftarrow> first_match (ev_checked env) page (se_context s) t e;
          case matched of
            None \<Rightarrow> Some (s, t, out)
          | Some tr \<Rightarrow> run_transition n env e (resolve_dm_degrade_match (se_context s) tr page) (s, t, out) })"

definition can_transmit_i_frame :: "bool \<Rightarrow> session \<Rightarrow> bool panicking" where
  "can_transmit_i_frame ck s =
     (if se_state s \<noteq> Connected \<and> se_state s \<noteq> TimerRecovery then Some False
      else if sc_peer_receiver_busy (se_context s) then Some False
      else map_option (\<lambda>n. n < window16 (se_context s)) (outstanding_count ck (se_context s)))"

partial_function (option) drain_i_frame_queue :: "nat \<Rightarrow> environment \<Rightarrow> link \<Rightarrow> link panicking" where
  "drain_i_frame_queue n env l =
     (case sc_i_frame_queue (se_context (fst l)) of
        [] \<Rightarrow> Some l
      | entry # rest \<Rightarrow>
          do { go \<leftarrow> can_transmit_i_frame (ev_checked env) (fst l);
               if \<not> go then Some l
               else do { l' \<leftarrow> dispatch_event n env (IFramePopsOffQueue (pl_pid entry) (pl_data entry))
                               ((fst l)\<lparr>se_context := (se_context (fst l))\<lparr>sc_i_frame_queue := rest\<rparr>\<rparr>, snd l);
                         drain_i_frame_queue n env l' } })"

declare drain_i_frame_queue.simps [code]

definition post_event :: "nat \<Rightarrow> environment \<Rightarrow> event \<Rightarrow> link \<Rightarrow> link panicking" where
  "post_event n env e l = do { l' \<leftarrow> dispatch_event n env e l; drain_i_frame_queue n env l' }"

primrec post_all :: "nat \<Rightarrow> environment \<Rightarrow> event list \<Rightarrow> link \<Rightarrow> link panicking" where
  "post_all n env [] l = Some l"
| "post_all n env (e # es) l = do { l' \<leftarrow> post_event n env e l; post_all n env es l' }"

section \<open>Reasoning about the driver\<close>

lemma dispatch_event_cases:
  assumes "dispatch_event n env e (s0, t, out) = Some l'"
  obtains (unmatched) "l' = (clamp_retry_count e s0, t, out)"
  | (matched) tr where "run_transition n env e tr (clamp_retry_count e s0, t, out) = Some l'"
  using assms by (auto simp: dispatch_event_def Let_def bind_eq_Some_conv split: option.splits)

text \<open>One round of the drain, and its induction rule: what each round preserves holds at the end, where the queue
  is empty or transmission is not allowed.\<close>

definition take_entry :: "payload list \<Rightarrow> link \<Rightarrow> link" where
  "take_entry rest l = ((fst l)\<lparr>se_context := (se_context (fst l))\<lparr>sc_i_frame_queue := rest\<rparr>\<rparr>, snd l)"

lemma drain_rule:
  assumes "drain_i_frame_queue n env l = Some l'" and "Q l"
    and "\<And>l entry rest l1. \<lbrakk>Q l; sc_i_frame_queue (se_context (fst l)) = entry # rest;
        can_transmit_i_frame (ev_checked env) (fst l) = Some True;
        dispatch_event n env (IFramePopsOffQueue (pl_pid entry) (pl_data entry)) (take_entry rest l) = Some l1\<rbrakk> \<Longrightarrow> Q l1"
  shows "Q l' \<and> (sc_i_frame_queue (se_context (fst l')) = [] \<or> can_transmit_i_frame (ev_checked env) (fst l') = Some False)"
  using assms
proof (induction rule: drain_i_frame_queue.raw_induct [rotated, consumes 1, case_names step])
  case (step drain n env l l')
  show ?case
  proof (cases "sc_i_frame_queue (se_context (fst l))")
    case Nil
    then have "l' = l"
      using step(2) by simp
    then show ?thesis
      using step(3) Nil by simp
  next
    case (Cons entry rest)
    then obtain go where go: "can_transmit_i_frame (ev_checked env) (fst l) = Some go"
      using step(2) by (auto simp: bind_eq_Some_conv)
    show ?thesis
    proof (cases go)
      case True
      then obtain l1 where "dispatch_event n env (IFramePopsOffQueue (pl_pid entry) (pl_data entry)) (take_entry rest l) = Some l1"
        and rest: "drain n env l1 = Some l'"
        using step(2) Cons go by (auto simp: bind_eq_Some_conv take_entry_def)
      then have "Q l1"
        using step(4) [OF step(3) Cons] go True by simp
      then show ?thesis
        by (rule step(1) [OF rest]) (rule step(4))
    qed (use step(2,3) Cons go in simp)
  qed
qed

section \<open>Invariants of chains\<close>

text \<open>
  What every verb preserves, every chain, every subroutine and every transition preserves. The contract is
  stated once; a property of the runtime instantiates it.
\<close>

locale verb_invariant =
  fixes env :: environment and P :: "tx \<Rightarrow> bool"
  assumes plain: "P x \<Longrightarrow> execute_plain (ev_checked env) v x = Some x' \<Longrightarrow> P x'"
    and bind: "P x \<Longrightarrow> P (bind_final f x)"
begin

definition keeps :: "(tx \<Rightarrow> tx panicking) \<Rightarrow> bool" where
  "keeps f \<longleftrightarrow> (\<forall>x x'. P x \<longrightarrow> f x = Some x' \<longrightarrow> P x')"

lemma keepsI: "(\<And>x x'. P x \<Longrightarrow> f x = Some x' \<Longrightarrow> P x') \<Longrightarrow> keeps f"
  unfolding keeps_def by blast

lemma keepsD: "keeps f \<Longrightarrow> P x \<Longrightarrow> f x = Some x' \<Longrightarrow> P x'"
  unfolding keeps_def by blast

lemma keeps_Some: "keeps Some"
  by (rule keepsI) simp

lemma keeps_None: "keeps (\<lambda>x. None)"
  by (rule keepsI) simp

lemma keeps_then:
  assumes "keeps f" "keeps g" shows "keeps (\<lambda>x. case f x of None \<Rightarrow> None | Some x' \<Rightarrow> g x')"
proof (rule keepsI)
  fix x x'
  assume "P x" and r: "(case f x of None \<Rightarrow> None | Some x' \<Rightarrow> g x') = Some x'"
  from r obtain y where "f x = Some y" "g y = Some x'"
    by (cases "f x") simp_all
  then show "P x'"
    using keepsD [OF assms(2)] keepsD [OF assms(1) \<open>P x\<close>] by blast
qed

lemma keeps_test:
  assumes "keeps f" "keeps g"
  shows "keeps (\<lambda>x. case p x of None \<Rightarrow> None | Some b \<Rightarrow> if b then f x else g x)"
proof (rule keepsI)
  fix x x'
  assume "P x" and r: "(case p x of None \<Rightarrow> None | Some b \<Rightarrow> if b then f x else g x) = Some x'"
  from r have "f x = Some x' \<or> g x = Some x'"
    by (cases "p x") (auto split: if_splits)
  then show "P x'"
    using keepsD [OF assms(1) \<open>P x\<close>] keepsD [OF assms(2) \<open>P x\<close>] by blast
qed

lemma steps_keep:
  assumes "\<And>v. keeps (run v)" shows "keeps (run_steps (run_action run actions) is)"
proof (induction "is")
  case Nil
  show ?case by (rule keepsI) simp
next
  case (Cons i "is")
  have "keeps (run_action run actions i)"
    by (rule keepsI) (auto simp: run_action_def split: if_splits dest: keepsD [OF assms])
  from keeps_then [OF this Cons.IH] show ?case
    by (simp add: keeps_def)
qed

lemma rounds_keep: "keeps body \<Longrightarrow> keeps (rounds n p body)"
proof (induction n)
  case 0
  show ?case by (rule keepsI) simp
next
  case (Suc n)
  from keeps_test [OF keeps_then [OF Suc.prems Suc.IH [OF Suc.prems]] keeps_Some, of p] show ?case
    by simp
qed

lemma loop_keeps:
  assumes "\<And>v. keeps (run v)" shows "keeps (run_loop_range ck run r actions)"
proof -
  note body = steps_keep [of run, OF assms]
  show ?thesis
    unfolding run_loop_range_def Let_def
    using keeps_then [OF body rounds_keep [OF body]] rounds_keep [OF body]
    by (cases "lr_test_at_end r") simp_all
qed

lemma walk_keeps:
  assumes "\<And>v. keeps (run v)" shows "keeps (walk n ck run actions loops i)"
proof (induction n arbitrary: i)
  case 0
  show ?case
    using keeps_Some keeps_None by (cases "i < length actions") simp_all
next
  case (Suc n)
  note one = keeps_then [OF assms Suc.IH] and loop = keeps_then [OF loop_keeps [OF assms] Suc.IH]
  show ?case
  proof (cases "i < length actions")
    case True
    then show ?thesis
      using one [where i1 = "i + 1"] loop
      by (cases "find (\<lambda>r. lr_start r = i) loops") simp_all
  qed (simp add: keeps_Some)
qed

lemma actions_keep: "(\<And>v. keeps (run v)) \<Longrightarrow> keeps (execute_actions ck run actions loops)"
  unfolding execute_actions_def by (rule walk_keeps)

lemma paths_keep:
  assumes "\<And>v. keeps (run v)" shows "keeps (walk_first_matching_path ck run ps)"
proof (induction ps)
  case (Cons p ps)
  from keeps_test [OF actions_keep [of run, OF assms] Cons.IH] show ?case
    by simp
qed (simp add: keeps_Some)

lemma verb_keeps: "keeps (execute_verb n env v)"
proof (induction n arbitrary: v rule: less_induct)
  case (less n)
  show ?case
  proof (rule keepsI)
    fix x x'
    assume "P x" and "execute_verb n env v x = Some x'"
    from this(2) show "P x'"
    proof (cases rule: execute_verb_cases)
      case 1
      then show ?thesis using \<open>P x\<close> by simp
    next
      case (2 v')
      then show ?thesis using plain \<open>P x\<close> by blast
    next
      case (3 m name f)
      have run: "\<And>v'. keeps (execute_verb m env v')"
        using less 3(1) by simp
      obtain ps where "walk_first_matching_path (ev_checked env) (execute_verb m env) ps (bind_final f x) = Some x'"
        using 3(2) by (auto simp: invoke_def split: option.splits)
      then show ?thesis
        using keepsD [OF paths_keep [of "execute_verb m env", OF run] bind [OF \<open>P x\<close>]] by blast
    qed
  qed
qed

lemma chain_keeps:
  "P x \<Longrightarrow> execute_actions ck (execute_verb n env) actions loops x = Some x' \<Longrightarrow> P x'"
  by (rule keepsD [OF actions_keep [OF verb_keeps]])

end

end
