(* ===== verification/Sdl_Safety.thy ===== *)
theory Sdl_Safety
  imports Sdl_Session
begin

text \<open>
  What holds of a session for every table: data is never invented, a retransmission is an exact copy, and
  the numbers on the wire fit a seven-bit field. Each is an invariant of the transition context that every
  single verb preserves; the locale \<open>link_invariant\<close> carries it through chains, transitions, the drain and
  runs.
\<close>

section \<open>From verbs to runs\<close>

text \<open>
  \<open>A\<close> says which events are allowed, \<open>I\<close> is the invariant of the link, \<open>J\<close> what holds of the scratch of a
  transition in addition.
\<close>

locale link_invariant =
  fixes env :: environment
    and A :: "event \<Rightarrow> bool"
    and I :: "session_context \<Rightarrow> emission list \<Rightarrow> bool"
    and J :: "tx \<Rightarrow> bool"
  assumes verb: "\<lbrakk>A (tx_trigger x); I (tx_session x) (tx_sink x); J x; execute_plain (ev_checked env) v x = Some x'\<rbrakk>
      \<Longrightarrow> I (tx_session x') (tx_sink x') \<and> J x' \<and> tx_trigger x' = tx_trigger x"
    and final: "J x \<Longrightarrow> J (bind_final f x)"
    and start: "A e \<Longrightarrow> I c out \<Longrightarrow> J (tx_new c t out e)"
    and force: "I c out \<Longrightarrow> I (force_version_20 c) out"
    and clamp: "I c out \<Longrightarrow> I (c\<lparr>sc_rc := 1\<rparr>) out"
    and pop: "\<lbrakk>I c out; sc_i_frame_queue c = entry # rest\<rbrakk>
      \<Longrightarrow> I (c\<lparr>sc_i_frame_queue := rest\<rparr>) out \<and> A (IFramePopsOffQueue (pl_pid entry) (pl_data entry))"
begin

definition inv :: "link \<Rightarrow> bool" where
  "inv = (\<lambda>(s, t, out). I (se_context s) out)"

lemma bind_final_access:
  "tx_session (bind_final f x) = tx_session x" "tx_sink (bind_final f x) = tx_sink x"
  "tx_trigger (bind_final f x) = tx_trigger x"
  by (simp_all add: bind_final_def split: option.split)

sublocale chain: verb_invariant env "\<lambda>x. A (tx_trigger x) \<and> I (tx_session x) (tx_sink x) \<and> J x"
proof unfold_locales
  fix x v x'
  assume "A (tx_trigger x) \<and> I (tx_session x) (tx_sink x) \<and> J x" "execute_plain (ev_checked env) v x = Some x'"
  then show "A (tx_trigger x') \<and> I (tx_session x') (tx_sink x') \<and> J x'"
    using verb [of x v x'] by simp
qed (simp add: final bind_final_access)

lemma prepare_inv: "I c out \<Longrightarrow> I (apply_pre_execution_quirks tr e c) out"
  by (simp add: apply_pre_execution_quirks_def Let_def force)

lemma transition_inv:
  assumes "A e" "inv l" "run_transition n env e tr l = Some l'"
  shows "inv l'"
proof -
  obtain s t out where l: "l = (s, t, out)"
    by (cases l) auto
  let ?c = "apply_pre_execution_quirks tr e (se_context s)"
  have I: "I ?c out"
    using assms(2) prepare_inv by (simp add: l inv_def)
  obtain x where "execute_actions (ev_checked env) (execute_verb n env) (tr_actions tr) (tr_loops tr) (tx_new ?c t out e) = Some x"
    and l': "inv l' \<longleftrightarrow> I (tx_session x) (tx_sink x)"
    using assms(3) by (auto simp: l run_transition_def Let_def inv_def bind_eq_Some_conv)
  then show ?thesis
    using chain.chain_keeps [of "tx_new ?c t out e" _ n _ _ x] assms(1) I start [OF assms(1) I] by simp
qed

lemma dispatch_inv:
  assumes "A e" "inv l" "dispatch_event n env e l = Some l'"
  shows "inv l'"
proof -
  obtain s0 t out where l: "l = (s0, t, out)"
    by (cases l) auto
  have c: "inv (clamp_retry_count e s0, t, out)"
    using assms(2) clamp by (simp add: l inv_def clamp_retry_count_def Let_def)
  from assms(3) [unfolded l] show ?thesis
    by (cases rule: dispatch_event_cases) (use c transition_inv [OF assms(1) c] in auto)
qed

lemma drains_inv: "inv l \<Longrightarrow> drain_i_frame_queue n env l = Some l' \<Longrightarrow> inv l'"
proof (drule drain_rule [where Q = inv], assumption)
  fix l entry rest l1
  assume "inv l" "sc_i_frame_queue (se_context (fst l)) = entry # rest"
    and d: "dispatch_event n env (IFramePopsOffQueue (pl_pid entry) (pl_data entry)) (take_entry rest l) = Some l1"
  then have "inv (take_entry rest l)" "A (IFramePopsOffQueue (pl_pid entry) (pl_data entry))"
    using pop by (auto simp: inv_def take_entry_def split: prod.splits)
  then show "inv l1"
    using dispatch_inv d by blast
qed simp

lemma post_inv: "A e \<Longrightarrow> inv l \<Longrightarrow> post_event n env e l = Some l' \<Longrightarrow> inv l'"
  by (auto simp: post_event_def bind_eq_Some_conv intro: drains_inv dispatch_inv)

lemma run_keeps: "(\<And>e. e \<in> set es \<Longrightarrow> A e) \<Longrightarrow> inv l \<Longrightarrow> post_all n env es l = Some l' \<Longrightarrow> inv l'"
proof (induction es arbitrary: l)
  case (Cons e es)
  then obtain l1 where "post_event n env e l = Some l1" "post_all n env es l1 = Some l'"
    by (auto simp: bind_eq_Some_conv)
  then show ?case
    using Cons.IH [of l1] Cons.prems(1,2) post_inv by (meson list.set_intros)
qed simp

end

section \<open>Data is never invented\<close>

text \<open>
  With \<open>S\<close> the payloads handed in for transmission and \<open>R\<close> those of the frames received: what is queued or
  kept for retransmission is in \<open>S\<close>, what is stored out of sequence in \<open>R\<close>, and so is what has been emitted.
\<close>

definition submitted :: "event \<Rightarrow> (u8 \<times> bytes) set" where
  "submitted e = (case e of DlDataRequest pid data \<Rightarrow> {(pid, data)} | IFramePopsOffQueue pid data \<Rightarrow> {(pid, data)} | _ \<Rightarrow> {})"

definition received :: "event \<Rightarrow> (u8 \<times> bytes) set" where
  "received e = {(pid, info). \<exists>f. event_frame e = Some f \<and> fi_pid f = Some pid \<and> fi_info f = info}"

definition pairs :: "payload set \<Rightarrow> (u8 \<times> bytes) set" where
  "pairs ps = (\<lambda>p. (pl_pid p, pl_data p)) ` ps"

definition genuine :: "(u8 \<times> bytes) set \<Rightarrow> (u8 \<times> bytes) set \<Rightarrow> emission \<Rightarrow> bool" where
  "genuine S R m = (case m of
       SendFrame (Information p nr ns pid info) \<Rightarrow> (pid, info) \<in> S
     | SendUpward (DataIndication pid info) \<Rightarrow> (pid, info) \<in> R
     | _ \<Rightarrow> True)"

definition provenance :: "(u8 \<times> bytes) set \<Rightarrow> (u8 \<times> bytes) set \<Rightarrow> session_context \<Rightarrow> emission list \<Rightarrow> bool" where
  "provenance S R c out \<longleftrightarrow>
     pairs (set (sc_i_frame_queue c)) \<subseteq> S \<and> pairs (ran (map_of (sc_sent_i_frames c))) \<subseteq> S \<and>
     pairs (ran (map_of (sc_stored_received_i_frames c))) \<subseteq> R \<and> (\<forall>m \<in> set out. genuine S R m)"

definition known :: "(u8 \<times> bytes) set \<Rightarrow> (u8 \<times> bytes) set \<Rightarrow> event \<Rightarrow> bool" where
  "known S R e \<longleftrightarrow> submitted e \<subseteq> S \<and> received e \<subseteq> R"

lemma pairs_payload_new [simp]: "pairs (insert (payload_new d p) X) = insert (p, d) (pairs X)"
  by (simp add: pairs_def payload_new_def)

lemma pairs_mono: "X \<subseteq> Y \<Longrightarrow> pairs X \<subseteq> pairs Y"
  by (auto simp: pairs_def)

lemma ran_update_subset: "ran (map_of (AList.update k v al)) \<subseteq> insert v (ran (map_of al))"
  by (auto simp: update_conv' ran_def)

lemma ran_delete_subset: "ran (map_of (AList.delete k al)) \<subseteq> ran (map_of al)"
  by (auto simp: delete_conv' ran_def split: if_splits)

lemma map_of_fold_delete: "map_of (fold AList.delete ks al) k = Some v \<Longrightarrow> map_of al k = Some v"
proof (induction ks arbitrary: al)
  case (Cons a ks)
  then have "map_of (AList.delete a al) k = Some v"
    by simp
  then show ?case
    by (simp add: delete_conv' split: if_splits)
qed simp

lemma prune_context:
  assumes "prune_acknowledged_sent_i_frames ck c = Some c'"
  obtains ks where "c' = c\<lparr>sc_sent_i_frames := fold AList.delete ks (sc_sent_i_frames c)\<rparr>"
  using assms by (auto simp: prune_acknowledged_sent_i_frames_def split: option.splits)

lemma assign_va_context:
  assumes "assign_va ck nr c = Some c'"
  obtains al ss where "c' = c\<lparr>sc_va := nr, sc_sent_i_frames := al, sc_selectively_retransmitted_since_ack := ss\<rparr>"
    and "\<And>k v. map_of al k = Some v \<Longrightarrow> map_of (sc_sent_i_frames c) k = Some v"
proof (cases "nr = sc_va c")
  case True
  then show ?thesis
    using assms that [of "sc_selectively_retransmitted_since_ack c" "sc_sent_i_frames c"]
    by (simp add: assign_va_def)
next
  case False
  then have "prune_acknowledged_sent_i_frames ck
      (c\<lparr>sc_va := nr, sc_selectively_retransmitted_since_ack := {}\<rparr>) = Some c'"
    using assms by (simp add: assign_va_def Let_def)
  then obtain ks where "c' = c\<lparr>sc_va := nr, sc_selectively_retransmitted_since_ack := {},
      sc_sent_i_frames := fold AList.delete ks (sc_sent_i_frames c)\<rparr>"
    by (rule prune_context) simp
  then have "c' = c\<lparr>sc_va := nr, sc_sent_i_frames := fold AList.delete ks (sc_sent_i_frames c),
      sc_selectively_retransmitted_since_ack := {}\<rparr>"
    by simp
  then show ?thesis
    by (rule that) (rule map_of_fold_delete)
qed

lemma trigger_kept: "execute_plain ck v x = Some x' \<Longrightarrow> tx_trigger x' = tx_trigger x"
proof (cases v)
  case (Flag w)
  then show "execute_plain ck v x = Some x' \<Longrightarrow> ?thesis" by (cases w) auto
next
  case (Timer w)
  then show "execute_plain ck v x = Some x' \<Longrightarrow> ?thesis" by (cases w) auto
next
  case (SFrame w)
  then show "execute_plain ck v x = Some x' \<Longrightarrow> ?thesis" by (cases w) (auto simp: send_s_def)
next
  case (UFrame w)
  then show "execute_plain ck v x = Some x' \<Longrightarrow> ?thesis" by (cases w) (auto simp: send_u_def)
next
  case (Upper w)
  then show "execute_plain ck v x = Some x' \<Longrightarrow> ?thesis"
    by (cases w) (auto simp: build_data_indication_def incoming_info_def split: option.splits)
next
  case (Queue w)
  then show "execute_plain ck v x = Some x' \<Longrightarrow> ?thesis"
    by (cases w) (auto simp: push_on_i_frame_queue_def push_old_i_frame_nr_def emit_old_i_frame_def emit_stored_def
        split: event.splits option.splits if_splits)
next
  case (Rejects w)
  then show "execute_plain ck v x = Some x' \<Longrightarrow> ?thesis" by (cases w) (auto simp: increment_sreject_def)
next
  case (Store w)
  then show "execute_plain ck v x = Some x' \<Longrightarrow> ?thesis"
    by (cases w) (auto simp: save_incoming_i_frame_def retrieve_stored_vr_i_frame_def split: option.splits)
next
  case (Seq w)
  then show "execute_plain ck v x = Some x' \<Longrightarrow> ?thesis" by (cases w) (auto split: option.splits)
next
  case (Pending w)
  then show "execute_plain ck v x = Some x' \<Longrightarrow> ?thesis" by (cases w) auto
qed (auto simp: send_ui_def emit_i_frame_def emit_old_i_frame_def emit_stored_def Let_def
      split: event.splits option.splits if_splits)

text \<open>
  What a verb can do to the data of a link: the queue, the two stores, the staged frame and the frames
  with data on the sink. Every invariant about data is checked against these cases only.
\<close>

definition carries_data :: "emission \<Rightarrow> bool" where
  "carries_data m \<longleftrightarrow>
     (case m of SendFrame (Information _ _ _ _ _) \<Rightarrow> True | SendUpward (DataIndication _ _) \<Rightarrow> True | _ \<Rightarrow> False)"

inductive data_step :: "tx \<Rightarrow> tx \<Rightarrow> bool" where
  quiet: "\<lbrakk>sc_i_frame_queue (tx_session x') = q; q = sc_i_frame_queue (tx_session x) \<or> q = [];
      \<And>k v. map_of (sc_sent_i_frames (tx_session x')) k = Some v \<Longrightarrow> map_of (sc_sent_i_frames (tx_session x)) k = Some v;
      sc_stored_received_i_frames (tx_session x') = sc_stored_received_i_frames (tx_session x);
      tx_retrieved_stored_frame x' = tx_retrieved_stored_frame x;
      tx_sink x' = tx_sink x @ ms; \<forall>m \<in> set ms. \<not> carries_data m\<rbrakk> \<Longrightarrow> data_step x x'"
| send_new: "\<lbrakk>tx_trigger x = IFramePopsOffQueue pid info;
      sc_i_frame_queue (tx_session x') = sc_i_frame_queue (tx_session x);
      sc_sent_i_frames (tx_session x') = AList.update ns (payload_new info pid) (sc_sent_i_frames (tx_session x));
      sc_stored_received_i_frames (tx_session x') = sc_stored_received_i_frames (tx_session x);
      tx_retrieved_stored_frame x' = tx_retrieved_stored_frame x;
      tx_sink x' = tx_sink x @ [SendFrame (Information p nr ns pid info)]\<rbrakk> \<Longrightarrow> data_step x x'"
| send_old: "\<lbrakk>map_of (sc_sent_i_frames (tx_session x)) ns = Some entry;
      sc_i_frame_queue (tx_session x') = sc_i_frame_queue (tx_session x);
      sc_sent_i_frames (tx_session x') = sc_sent_i_frames (tx_session x);
      sc_stored_received_i_frames (tx_session x') = sc_stored_received_i_frames (tx_session x);
      tx_retrieved_stored_frame x' = tx_retrieved_stored_frame x;
      tx_sink x' = tx_sink x @ [SendFrame (Information p nr ns (pl_pid entry) (pl_data entry))]\<rbrakk> \<Longrightarrow> data_step x x'"
| enqueue: "\<lbrakk>tx_trigger x = DlDataRequest pid info;
      sc_i_frame_queue (tx_session x') = sc_i_frame_queue (tx_session x) @ [payload_new info pid];
      sc_sent_i_frames (tx_session x') = sc_sent_i_frames (tx_session x);
      sc_stored_received_i_frames (tx_session x') = sc_stored_received_i_frames (tx_session x);
      tx_retrieved_stored_frame x' = tx_retrieved_stored_frame x;
      tx_sink x' = tx_sink x @ [SendInternal (PushIFrameQueue info)]\<rbrakk> \<Longrightarrow> data_step x x'"
| save: "\<lbrakk>event_frame (tx_trigger x) = Some f; fi_pid f = Some pid;
      sc_i_frame_queue (tx_session x') = sc_i_frame_queue (tx_session x);
      sc_sent_i_frames (tx_session x') = sc_sent_i_frames (tx_session x);
      sc_stored_received_i_frames (tx_session x') =
        AList.update (fi_ns f) (payload_new (fi_info f) pid) (sc_stored_received_i_frames (tx_session x));
      tx_retrieved_stored_frame x' = tx_retrieved_stored_frame x;
      tx_sink x' = tx_sink x\<rbrakk> \<Longrightarrow> data_step x x'"
| retrieve: "\<lbrakk>map_of (sc_stored_received_i_frames (tx_session x)) ns = Some entry;
      sc_i_frame_queue (tx_session x') = sc_i_frame_queue (tx_session x);
      sc_sent_i_frames (tx_session x') = sc_sent_i_frames (tx_session x);
      sc_stored_received_i_frames (tx_session x') = AList.delete ns (sc_stored_received_i_frames (tx_session x));
      tx_retrieved_stored_frame x' = Some (pl_pid entry, pl_data entry);
      tx_sink x' = tx_sink x\<rbrakk> \<Longrightarrow> data_step x x'"
| deliver_stored: "\<lbrakk>tx_retrieved_stored_frame x = Some (pid, info);
      sc_i_frame_queue (tx_session x') = sc_i_frame_queue (tx_session x);
      sc_sent_i_frames (tx_session x') = sc_sent_i_frames (tx_session x);
      sc_stored_received_i_frames (tx_session x') = sc_stored_received_i_frames (tx_session x);
      tx_retrieved_stored_frame x' = None;
      tx_sink x' = tx_sink x @ [SendUpward (DataIndication pid info)]\<rbrakk> \<Longrightarrow> data_step x x'"
| deliver: "\<lbrakk>event_frame (tx_trigger x) = Some f; fi_pid f = Some pid;
      sc_i_frame_queue (tx_session x') = sc_i_frame_queue (tx_session x);
      sc_sent_i_frames (tx_session x') = sc_sent_i_frames (tx_session x);
      sc_stored_received_i_frames (tx_session x') = sc_stored_received_i_frames (tx_session x);
      tx_retrieved_stored_frame x' = tx_retrieved_stored_frame x;
      tx_sink x' = tx_sink x @ [SendUpward (DataIndication pid (fi_info f))]\<rbrakk> \<Longrightarrow> data_step x x'"

text \<open>The common case: no data moves, at most one signal without data goes out.\<close>

lemma quietI:
  assumes "sc_i_frame_queue (tx_session x') = sc_i_frame_queue (tx_session x)"
    "sc_sent_i_frames (tx_session x') = sc_sent_i_frames (tx_session x)"
    "sc_stored_received_i_frames (tx_session x') = sc_stored_received_i_frames (tx_session x)"
    "tx_retrieved_stored_frame x' = tx_retrieved_stored_frame x"
    "tx_sink x' = tx_sink x \<or> (\<exists>m. tx_sink x' = tx_sink x @ [m] \<and> \<not> carries_data m)"
  shows "data_step x x'"
proof -
  obtain ms where "tx_sink x' = tx_sink x @ ms" "\<forall>m \<in> set ms. \<not> carries_data m"
    using assms(5) by (metis append_Nil2 empty_iff list.set(1) set_ConsD)
  then show ?thesis
    using assms by (intro quiet [of x' "sc_i_frame_queue (tx_session x)"]) simp_all
qed

lemma carries_data_simps [simp]:
  "\<not> carries_data (SendFrame (Supervisory k c nr pf))" "\<not> carries_data (SendFrame (Unnumbered u c pf e))"
  "\<not> carries_data (SendFrame (Ui c pf pid info))" "\<not> carries_data (SendFrame (Xid c pf info))"
  "\<not> carries_data (SendUpward ConnectIndication)" "\<not> carries_data (SendUpward ConnectConfirm)"
  "\<not> carries_data (SendUpward DisconnectIndication)" "\<not> carries_data (SendUpward DisconnectConfirm)"
  "\<not> carries_data (SendUpward (UnitDataIndication pid info))" "\<not> carries_data (SendUpward (ErrorIndication code))"
  "\<not> carries_data (SendLinkMux l)" "\<not> carries_data (SendInternal i)"
  by (simp_all add: carries_data_def)

lemma param_data:
  "sc_i_frame_queue (exec_param w c) = sc_i_frame_queue c"
  "sc_sent_i_frames (exec_param w c) = sc_sent_i_frames c"
  "sc_stored_received_i_frames (exec_param w c) = sc_stored_received_i_frames c"
  by (cases w; simp add: set_version_20_def set_version_22_def Let_def)+

lemma emit_stored_data: "data_step x (emit_stored ns x)"
proof (cases "map_of (sc_sent_i_frames (tx_session x)) ns")
  case None
  then show ?thesis by (intro quietI) (simp_all add: emit_stored_def)
next
  case (Some entry)
  then show ?thesis
    by (intro send_old [of x ns entry _ False "sc_vr (tx_session x)"]) (simp_all add: emit_stored_def)
qed

lemma data_refl: "data_step x x"
  by (intro quietI) simp_all

lemma emit_old_data:
  assumes "emit_old_i_frame ck ns r x = Some x'" shows "data_step x x'"
proof -
  let ?y = "on_session (\<lambda>c. c\<lparr>sc_selectively_retransmitted_since_ack :=
      insert ns (sc_selectively_retransmitted_since_ack c)\<rparr>) x"
  have "data_step x (emit_stored ns ?y)"
  proof (cases "map_of (sc_sent_i_frames (tx_session x)) ns")
    case None
    then show ?thesis by (intro quietI) (simp_all add: emit_stored_def)
  next
    case (Some entry)
    then show ?thesis
      by (intro send_old [of x ns entry _ False "sc_vr (tx_session x)"]) (simp_all add: emit_stored_def)
  qed
  then show ?thesis
    using assms data_refl [of x] emit_stored_data [of x ns]
    by (auto simp: emit_old_i_frame_def split: if_splits option.splits)
qed

lemma emit_new_data:
  assumes "emit_i_frame x = Some x'" shows "data_step x x'"
proof -
  obtain pid info where e: "tx_trigger x = IFramePopsOffQueue pid info"
    using assms by (auto simp: emit_i_frame_def split: event.splits)
  show ?thesis
    using assms by (intro send_new [OF e]) (auto simp: e emit_i_frame_def Let_def)
qed

lemma enqueue_data:
  assumes "push_on_i_frame_queue x = Some x'" shows "data_step x x'"
proof -
  obtain pid info where e: "tx_trigger x = DlDataRequest pid info"
    using assms by (auto simp: push_on_i_frame_queue_def split: event.splits)
  show ?thesis
    using assms by (intro enqueue [OF e]) (auto simp: e push_on_i_frame_queue_def)
qed

lemma save_data:
  assumes "save_incoming_i_frame x = Some x'" shows "data_step x x'"
proof -
  obtain f pid where f: "event_frame (tx_trigger x) = Some f" "fi_pid f = Some pid"
    using assms by (auto simp: save_incoming_i_frame_def split: option.splits)
  show ?thesis
    using assms by (intro save [OF f]) (auto simp: f save_incoming_i_frame_def)
qed

lemma retrieve_data: "data_step x (retrieve_stored_vr_i_frame x)"
proof (cases "map_of (sc_stored_received_i_frames (tx_session x)) (sc_vr (tx_session x))")
  case None
  then show ?thesis by (intro quietI) (simp_all add: retrieve_stored_vr_i_frame_def)
next
  case (Some entry)
  then show ?thesis
    by (intro retrieve [of x "sc_vr (tx_session x)" entry]) (simp_all add: retrieve_stored_vr_i_frame_def)
qed

lemma indication_data:
  assumes "build_data_indication x = Some x'" shows "data_step x x'"
proof (cases "tx_retrieved_stored_frame x")
  case (Some p)
  then obtain pid info where p: "tx_retrieved_stored_frame x = Some (pid, info)"
    by (cases p) simp
  then show ?thesis
    using assms by (intro deliver_stored [OF p]) (auto simp: build_data_indication_def)
next
  case None
  then obtain f pid where f: "event_frame (tx_trigger x) = Some f" "fi_pid f = Some pid"
    using assms by (auto simp: build_data_indication_def split: option.splits)
  then show ?thesis
    using assms None by (intro deliver [OF f]) (auto simp: build_data_indication_def)
qed

lemma assign_va_data:
  assumes "assign_va ck nr (tx_session x) = Some c'" shows "data_step x (on_session (\<lambda>_. c') x)"
  using assms
proof (rule assign_va_context)
  fix al ss
  assume c': "c' = (tx_session x)\<lparr>sc_va := nr, sc_sent_i_frames := al, sc_selectively_retransmitted_since_ack := ss\<rparr>"
    and "\<And>k v. map_of al k = Some v \<Longrightarrow> map_of (sc_sent_i_frames (tx_session x)) k = Some v"
  then show ?thesis
    by (intro quiet [of _ "sc_i_frame_queue (tx_session x)" x "[]"]) simp_all
qed

lemma flush_data: "data_step x (on_session (\<lambda>c. c\<lparr>sc_i_frame_queue := []\<rparr>) x)"
  by (rule quiet [of _ "[]" x "[]"]) simp_all

lemma plain_data_step:
  assumes "execute_plain ck v x = Some x'" shows "data_step x x'"
  using assms
proof (cases v)
  case (Flag w)
  then show ?thesis using assms by (cases w) (auto intro!: quietI)
next
  case (Timer w)
  then show ?thesis using assms by (cases w) (auto intro!: quietI)
next
  case (SFrame w)
  then show ?thesis using assms by (cases w) (auto simp: send_s_def intro!: quietI)
next
  case (UFrame w)
  then show ?thesis using assms by (cases w) (auto simp: send_u_def intro!: quietI)
next
  case (Upper w)
  then show ?thesis
    using assms indication_data by (cases w) (auto simp: incoming_info_def intro!: quietI)
next
  case (Queue w)
  then show ?thesis
    using assms enqueue_data emit_old_data flush_data data_refl
    by (cases w) (auto simp: push_old_i_frame_nr_def split: option.splits)
next
  case (Rejects w)
  then show ?thesis
    using assms by (cases w) (auto simp: increment_sreject_def decrement_sreject_def Let_def intro!: quietI)
next
  case (Store w)
  then show ?thesis using assms save_data retrieve_data by (cases w) auto
next
  case (Param w)
  then show ?thesis using assms by (auto simp: param_data intro!: quietI)
next
  case (Seq w)
  show ?thesis
  proof (cases "w = VAAssignNR")
    case True
    then show ?thesis
      using assms Seq assign_va_data by (auto split: option.splits)
  next
    case False
    then show ?thesis
      using assms Seq by (cases w) (auto intro!: quietI)
  qed
next
  case (Pending w)
  then show ?thesis using assms by (cases w) (auto intro!: quietI)
next
  case UICommand
  then show ?thesis using assms by (auto simp: send_ui_def intro!: quietI split: event.splits)
next
  case ICommand
  then show ?thesis using assms emit_new_data by simp
next
  case PushOldIFrameOntoQueue
  then show ?thesis using assms emit_old_data by simp
qed (auto intro!: quietI)

lemma bind_final_data: "data_step x (bind_final f x)"
  by (intro quietI) (simp_all add: bind_final_def split: option.split)

section \<open>Provenance is kept\<close>

definition staged_from :: "(u8 \<times> bytes) set \<Rightarrow> tx \<Rightarrow> bool" where
  "staged_from R x \<longleftrightarrow> (\<forall>p. tx_retrieved_stored_frame x = Some p \<longrightarrow> p \<in> R)"

lemma genuine_no_data: "\<not> carries_data m \<Longrightarrow> genuine S R m"
  by (auto simp: carries_data_def genuine_def split: emission.splits frame_spec.splits data_link_signal.splits)

lemma pairs_ran: "pairs (ran m) \<subseteq> S \<longleftrightarrow> (\<forall>k v. m k = Some v \<longrightarrow> (pl_pid v, pl_data v) \<in> S)"
  by (auto simp: pairs_def ran_def)

lemma provenance_step:
  assumes "data_step x x'" "known S R (tx_trigger x)" "provenance S R (tx_session x) (tx_sink x)" "staged_from R x"
  shows "provenance S R (tx_session x') (tx_sink x') \<and> staged_from R x'"
  using assms
proof (cases rule: data_step.cases)
  case (quiet q ms)
  have "pairs (ran (map_of (sc_sent_i_frames (tx_session x')))) \<subseteq> S"
    using quiet(3) assms(3) unfolding pairs_ran provenance_def by blast
  moreover have "pairs (set q) \<subseteq> S"
    using quiet(2) assms(3) by (auto simp: provenance_def pairs_def)
  ultimately show ?thesis
    using quiet assms(3,4) by (auto simp: provenance_def staged_from_def genuine_no_data)
next
  case (send_new pid info ns p nr)
  then have "(pid, info) \<in> S"
    using assms(2) by (simp add: known_def submitted_def)
  then show ?thesis
    using send_new assms
    by (auto simp: provenance_def staged_from_def pairs_ran update_conv' payload_new_def genuine_def)
next
  case (send_old ns entry p nr)
  then show ?thesis
    using assms by (auto simp: provenance_def staged_from_def pairs_ran genuine_def)
next
  case (enqueue pid info)
  then have "(pid, info) \<in> S"
    using assms(2) by (simp add: known_def submitted_def)
  then show ?thesis
    using enqueue assms by (auto simp: provenance_def staged_from_def genuine_def)
next
  case (save f pid)
  then have "(pid, fi_info f) \<in> R"
    using assms(2) by (auto simp: known_def received_def)
  then show ?thesis
    using save assms
    by (auto simp: provenance_def staged_from_def pairs_ran update_conv' payload_new_def)
next
  case (retrieve ns entry)
  then show ?thesis
    using assms by (auto simp: provenance_def staged_from_def pairs_ran delete_conv' split: if_splits)
next
  case (deliver_stored pid info)
  then show ?thesis
    using assms by (auto simp: provenance_def staged_from_def pairs_ran genuine_def)
next
  case (deliver f pid)
  then have "(pid, fi_info f) \<in> R"
    using assms(2) by (auto simp: known_def received_def)
  then show ?thesis
    using deliver assms by (auto simp: provenance_def staged_from_def genuine_def)
qed

interpretation origin: link_invariant env "known S R" "provenance S R" "staged_from R" for env S R
proof unfold_locales
  fix x v x'
  assume "known S R (tx_trigger x)" "provenance S R (tx_session x) (tx_sink x)" "staged_from R x"
    "execute_plain (ev_checked env) v x = Some x'"
  then show "provenance S R (tx_session x') (tx_sink x') \<and> staged_from R x' \<and> tx_trigger x' = tx_trigger x"
    using provenance_step plain_data_step trigger_kept by blast
next
  fix c out entry rest
  assume "provenance S R c out" "sc_i_frame_queue c = entry # rest"
  then show "provenance S R (c\<lparr>sc_i_frame_queue := rest\<rparr>) out
      \<and> known S R (IFramePopsOffQueue (pl_pid entry) (pl_data entry))"
    by (auto simp: provenance_def known_def submitted_def received_def pairs_def)
qed (auto simp: provenance_def staged_from_def force_version_20_def bind_final_def split: option.splits)

section \<open>Retransmissions are copies\<close>

definition record_sent :: "emission \<Rightarrow> (u8 \<rightharpoonup> payload) \<Rightarrow> (u8 \<rightharpoonup> payload)" where
  "record_sent e m = (case e of SendFrame (Information p nr ns pid info) \<Rightarrow> m(ns \<mapsto> payload_new info pid) | _ \<Rightarrow> m)"

text \<open>The payload of the last I frame that went out with each send number.\<close>

definition last_sent :: "emission list \<Rightarrow> u8 \<rightharpoonup> payload" where
  "last_sent out = fold record_sent out Map.empty"

definition store_is_last_sent :: "session_context \<Rightarrow> emission list \<Rightarrow> bool" where
  "store_is_last_sent c out \<longleftrightarrow> (\<forall>ns p. map_of (sc_sent_i_frames c) ns = Some p \<longrightarrow> last_sent out ns = Some p)"

lemma last_sent_snoc [simp]: "last_sent (out @ [m]) = record_sent m (last_sent out)"
  by (simp add: last_sent_def)

lemma last_sent_no_data: "\<forall>m \<in> set ms. \<not> carries_data m \<Longrightarrow> last_sent (out @ ms) = last_sent out"
proof (induction ms rule: rev_induct)
  case (snoc m ms)
  then have "record_sent m = id"
    by (auto simp: carries_data_def record_sent_def fun_eq_iff split: emission.splits frame_spec.splits)
  then show ?case
    using snoc last_sent_snoc [of "out @ ms" m] by simp
qed simp

lemma store_step:
  assumes "data_step x x'" "store_is_last_sent (tx_session x) (tx_sink x)"
  shows "store_is_last_sent (tx_session x') (tx_sink x')"
  using assms
proof (cases rule: data_step.cases)
  case (send_new pid info ns p nr)
  then show ?thesis
    using assms(2) by (simp add: store_is_last_sent_def update_conv' record_sent_def)
next
  case (send_old ns entry p nr)
  then have "last_sent (tx_sink x) ns = Some entry"
    using assms(2) by (simp add: store_is_last_sent_def)
  then show ?thesis
    using send_old assms(2) by (auto simp: store_is_last_sent_def record_sent_def payload_new_def)
qed (auto simp: store_is_last_sent_def last_sent_no_data record_sent_def)

interpretation copies: link_invariant env "\<lambda>_. True" store_is_last_sent "\<lambda>_. True" for env
proof unfold_locales
  fix x v x'
  assume "store_is_last_sent (tx_session x) (tx_sink x)" "execute_plain (ev_checked env) v x = Some x'"
  then show "store_is_last_sent (tx_session x') (tx_sink x') \<and> True \<and> tx_trigger x' = tx_trigger x"
    using store_step plain_data_step trigger_kept by blast
qed (auto simp: store_is_last_sent_def force_version_20_def)

end
