(* ===== verification/Sdl_Numbers.thy ===== *)
theory Sdl_Numbers
  imports Sdl_Safety
begin

text \<open>
  Bounds on the sequence numbers: when the frames handed to a session carry seven-bit numbers, so do the
  session's variables and every frame it emits, whatever the tables. The masks of the wire encoder are then
  the identity on an extended link.
\<close>

definition small :: "u8 \<Rightarrow> bool" where
  "small n \<longleftrightarrow> n < 128"

definition small_event :: "event \<Rightarrow> bool" where
  "small_event e \<longleftrightarrow> (case event_frame e of None \<Rightarrow> True | Some f \<Rightarrow> small (fi_nr f) \<and> small (fi_ns f))"

definition small_emission :: "emission \<Rightarrow> bool" where
  "small_emission m =
     (case m of
        SendFrame (Supervisory kind cmd nr pf) \<Rightarrow> small nr
      | SendFrame (Information p nr ns pid info) \<Rightarrow> small nr \<and> small ns
      | _ \<Rightarrow> True)"

definition small_link :: "session_context \<Rightarrow> emission list \<Rightarrow> bool" where
  "small_link c out \<longleftrightarrow> small (sc_vs c) \<and> small (sc_va c) \<and> small (sc_vr c) \<and> (\<forall>m \<in> set out. small_emission m)"

definition small_pending :: "tx \<Rightarrow> bool" where
  "small_pending x \<longleftrightarrow> pred_option small (pf_nr (tx_pending x)) \<and> pred_option small (pf_ns (tx_pending x))"

lemma small_0 [simp]: "small 0"
  by (simp add: small_def)

lemma small_ring: "small (ucast (w mod modulus c))"
proof -
  have m: "unat (modulus c) \<le> 128" "0 < unat (modulus c)"
    by (simp_all add: modulus_def)
  then have lt: "unat (w mod modulus c) < 128"
    using mod_less_divisor [OF m(2), of "unat w"] by (simp add: unat_mod_ring)
  then have "unat (ucast (w mod modulus c) :: u8) = unat (w mod modulus c)"
    by (simp add: unsigned_ucast_eq take_bit_nat_eq_self)
  then show ?thesis
    using lt by (simp add: small_def word_less_nat_alt)
qed

lemma small_step_seq [simp]: "small (increment_seq c v)" "small (decrement_seq c v)"
  by (simp_all add: increment_seq_def decrement_seq_def Let_def small_ring)

lemma small_unwrap: "pred_option small a \<Longrightarrow> small d \<Longrightarrow> small (unwrap_or a d)"
  by (cases a) simp_all

lemma small_simps [simp]:
  "small_emission (SendFrame (Unnumbered u cmd pf e))" "small_emission (SendFrame (Ui cmd pf pid info))"
  "small_emission (SendUpward s)" "small_emission (SendLinkMux l)" "small_emission (SendInternal i)"
  "small_emission (SendFrame (Supervisory kind cmd nr pf)) = small nr"
  "small_emission (SendFrame (Information p nr ns pid info)) = (small nr \<and> small ns)"
  by (simp_all add: small_emission_def)

lemma small_stored: "small_link (tx_session x) (tx_sink x) \<Longrightarrow> small ns \<Longrightarrow>
    small_link (tx_session (emit_stored ns x)) (tx_sink (emit_stored ns x)) \<and> tx_pending (emit_stored ns x) = tx_pending x"
  by (auto simp: emit_stored_def small_link_def split: option.splits)

lemma small_old:
  assumes "emit_old_i_frame ck ns r x = Some x'" "small_link (tx_session x) (tx_sink x)" "small ns"
  shows "small_link (tx_session x') (tx_sink x') \<and> tx_pending x' = tx_pending x"
proof -
  let ?y = "on_session (\<lambda>c. c\<lparr>sc_selectively_retransmitted_since_ack :=
      insert ns (sc_selectively_retransmitted_since_ack c)\<rparr>) x"
  have "small_link (tx_session ?y) (tx_sink ?y)"
    using assms(2) by (simp add: small_link_def)
  then have "small_link (tx_session (emit_stored ns ?y)) (tx_sink (emit_stored ns ?y)) \<and>
      tx_pending (emit_stored ns ?y) = tx_pending x"
    using small_stored [of ?y ns] assms(3) by simp
  then show ?thesis
    using assms small_stored [of x ns] by (auto simp: emit_old_i_frame_def split: if_splits option.splits)
qed

lemma param_numbers: "sc_vs (exec_param w c) = sc_vs c" "sc_va (exec_param w c) = sc_va c" "sc_vr (exec_param w c) = sc_vr c"
  by (cases w; simp add: set_version_20_def set_version_22_def Let_def)+

lemma plain_numbers:
  assumes "execute_plain ck v x = Some x'" "small_event (tx_trigger x)" "small_link (tx_session x) (tx_sink x)"
    "small_pending x"
  shows "small_link (tx_session x') (tx_sink x') \<and> small_pending x'"
  using assms
proof (cases v)
  case (Flag w)
  then show ?thesis using assms by (cases w) (auto simp: small_link_def small_pending_def split: if_splits)
next
  case (Timer w)
  then show ?thesis using assms by (cases w) (auto simp: small_link_def small_pending_def)
next
  case (SFrame w)
  then show ?thesis using assms by (cases w) (auto simp: send_s_def small_link_def small_pending_def small_unwrap)
next
  case (UFrame w)
  then show ?thesis using assms by (cases w) (auto simp: send_u_def small_link_def small_pending_def)
next
  case (Upper w)
  then show ?thesis
    using assms by (cases w) (auto simp: build_data_indication_def incoming_info_def small_link_def small_pending_def
        split: option.splits)
next
  case (Queue w)
  then show ?thesis
    using assms small_old
    by (cases w) (auto simp: push_on_i_frame_queue_def push_old_i_frame_nr_def small_link_def small_pending_def
        small_event_def split: event.splits option.splits)
next
  case (Rejects w)
  then show ?thesis
    using assms by (cases w) (auto simp: increment_sreject_def decrement_sreject_def small_link_def small_pending_def Let_def)
next
  case (Store w)
  then show ?thesis
    using assms by (cases w) (auto simp: save_incoming_i_frame_def retrieve_stored_vr_i_frame_def small_link_def
        small_pending_def split: option.splits)
next
  case (Param w)
  then show ?thesis using assms by (auto simp: param_numbers small_link_def small_pending_def)
next
  case (Seq w)
  show ?thesis
  proof (cases "w = VAAssignNR")
    case True
    then obtain f c' where f: "event_frame (tx_trigger x) = Some f"
        and c': "assign_va ck (fi_nr f) (tx_session x) = Some c'" "x' = on_session (\<lambda>_. c') x"
      using assms(1) Seq by (auto split: option.splits)
    from c'(1) obtain al ss where "c' = (tx_session x)\<lparr>sc_va := fi_nr f, sc_sent_i_frames := al,
        sc_selectively_retransmitted_since_ack := ss\<rparr>"
      by (rule assign_va_context)
    then show ?thesis
      using assms c'(2) f by (simp add: small_link_def small_pending_def small_event_def)
  next
    case False
    then show ?thesis
      using assms Seq by (cases w) (auto simp: small_link_def small_pending_def small_event_def)
  qed
next
  case (Pending w)
  then show ?thesis
    using assms by (cases w) (auto simp: small_link_def small_pending_def small_event_def)
next
  case ICommand
  then show ?thesis
    using assms by (auto simp: emit_i_frame_def Let_def small_link_def small_pending_def small_unwrap split: event.splits)
next
  case PushOldIFrameOntoQueue
  then show ?thesis using assms small_old [of ck "sc_vs (tx_session x)"] by (auto simp: small_link_def small_pending_def)
qed (auto simp: send_ui_def small_link_def small_pending_def split: event.splits)

interpretation numbers: link_invariant env small_event small_link small_pending for env
proof unfold_locales
  fix x v x'
  assume "small_event (tx_trigger x)" "small_link (tx_session x) (tx_sink x)" "small_pending x"
    "execute_plain (ev_checked env) v x = Some x'"
  then show "small_link (tx_session x') (tx_sink x') \<and> small_pending x' \<and> tx_trigger x' = tx_trigger x"
    using plain_numbers trigger_kept by blast
next
  fix c out entry rest
  assume "small_link c out" "sc_i_frame_queue c = entry # rest"
  then show "small_link (c\<lparr>sc_i_frame_queue := rest\<rparr>) out \<and> small_event (IFramePopsOffQueue (pl_pid entry) (pl_data entry))"
    by (simp add: small_link_def small_event_def)
qed (auto simp: small_link_def small_pending_def force_version_20_def bind_final_def no_pending_def split: option.splits)

section \<open>Exact copies after an empty queue\<close>

text \<open>Every I frame of \<open>new\<close>, sent after \<open>base\<close>, repeats the last frame that went out with its number.\<close>

definition is_copy :: "emission list \<Rightarrow> emission \<Rightarrow> bool" where
  "is_copy out m = (case m of SendFrame (Information p nr ns pid info) \<Rightarrow> last_sent out ns = Some (payload_new info pid) | _ \<Rightarrow> True)"

fun only_copies :: "emission list \<Rightarrow> emission list \<Rightarrow> bool" where
  "only_copies base [] = True"
| "only_copies base (m # ms) = (is_copy base m \<and> only_copies (base @ [m]) ms)"

lemma only_copies_append: "only_copies base (ms @ ms') \<longleftrightarrow> only_copies base ms \<and> only_copies (base @ ms) ms'"
  by (induction ms arbitrary: base) simp_all

lemma is_copy_no_data: "\<not> carries_data m \<Longrightarrow> is_copy out m"
  by (auto simp: carries_data_def is_copy_def split: emission.splits frame_spec.splits)

lemma only_copies_no_data: "\<forall>m \<in> set ms. \<not> carries_data m \<Longrightarrow> only_copies base ms"
  by (induction ms arbitrary: base) (simp_all add: is_copy_no_data)

definition copying :: "emission list \<Rightarrow> session_context \<Rightarrow> emission list \<Rightarrow> bool" where
  "copying base c out \<longleftrightarrow> store_is_last_sent c out \<and> sc_i_frame_queue c = [] \<and>
     (\<exists>new. out = base @ new \<and> only_copies base new)"

lemma copying_extend:
  assumes "copying base c out" "only_copies out ms" "store_is_last_sent c' (out @ ms)" "sc_i_frame_queue c' = []"
  shows "copying base c' (out @ ms)"
proof -
  obtain new where "out = base @ new" "only_copies base new"
    using assms(1) unfolding copying_def by blast
  then have "out @ ms = base @ (new @ ms)" "only_copies base (new @ ms)"
    using assms(2) by (simp_all add: only_copies_append)
  then show ?thesis
    using assms(3,4) unfolding copying_def by blast
qed

lemma copying_step:
  assumes "data_step x x'" "submitted (tx_trigger x) = {}" "copying base (tx_session x) (tx_sink x)"
  shows "copying base (tx_session x') (tx_sink x')"
proof -
  have store: "store_is_last_sent (tx_session x') (tx_sink x')"
    using store_step [OF assms(1)] assms(3) by (simp add: copying_def)
  have "\<exists>ms. tx_sink x' = tx_sink x @ ms \<and> only_copies (tx_sink x) ms \<and> sc_i_frame_queue (tx_session x') = []"
    using assms
  proof (cases rule: data_step.cases)
    case (quiet q ms)
    then show ?thesis
      using assms(3) only_copies_no_data by (auto simp: copying_def)
  next
    case (send_old ns entry p nr)
    then have "last_sent (tx_sink x) ns = Some entry"
      using assms(3) by (simp add: copying_def store_is_last_sent_def)
    then show ?thesis
      using send_old assms(3) by (auto simp: copying_def is_copy_def payload_new_def)
  qed (use assms(2,3) in \<open>auto simp: submitted_def copying_def is_copy_def\<close>)
  then show ?thesis
    using copying_extend [OF assms(3)] store by auto
qed

interpretation repeats: link_invariant env "\<lambda>e. submitted e = {}" "copying base" "\<lambda>_. True" for env base
proof unfold_locales
  fix x v x'
  assume "submitted (tx_trigger x) = {}" "copying base (tx_session x) (tx_sink x)" "execute_plain (ev_checked env) v x = Some x'"
  then show "copying base (tx_session x') (tx_sink x') \<and> True \<and> tx_trigger x' = tx_trigger x"
    using copying_step plain_data_step trigger_kept by blast
qed (auto simp: copying_def store_is_last_sent_def force_version_20_def)

end
