(* ===== verification/Sdl_Total.thy ===== *)
theory Sdl_Total
  imports Sdl_Safety
begin

text \<open>
  When the runtime returns. A static check of the tables looks at every row once: its verbs ask for nothing
  that the trigger of the row does not carry, its calls name subroutines that exist and are nested no deeper
  than a given depth, its loops are non-empty slices of the chain and its next state exists. Tables that pass
  the check never make an unchecked build panic, and the drain of the transmit queue ends.
\<close>

section \<open>The check\<close>

definition frame_triggers :: "sdl_event list" where
  "frame_triggers = [Sdl_IReceived, Sdl_RRReceived, Sdl_RNRReceived, Sdl_REJReceived, Sdl_SREJReceived,
     Sdl_UIReceived, Sdl_SABMReceived, Sdl_SABMEReceived, Sdl_DISCReceived, Sdl_UAReceived, Sdl_DMReceived,
     Sdl_FRMRReceived, Sdl_XIDReceived, Sdl_XIDResponseReceived, Sdl_TESTReceived, Sdl_AllOtherCommands]"

definition pid_triggers :: "sdl_event list" where
  "pid_triggers = [Sdl_IReceived, Sdl_UIReceived]"

fun fits :: "sdl_event \<Rightarrow> verb \<Rightarrow> bool" where
  "fits on UICommand = (on = Sdl_DLUNITDATARequest)"
| "fits on ICommand = (on = Sdl_IFramePopsOffQueue)"
| "fits on (Upper DLDATAIndication) = (on \<in> set pid_triggers)"
| "fits on (Upper DLUNITDATAIndication) = (on \<in> set frame_triggers)"
| "fits on (Queue PushOnIFrameQueue) = (on = Sdl_DLDATARequest)"
| "fits on (Queue PushOnIFrameQueueNoteWordOrder) = (on = Sdl_DLDATARequest)"
| "fits on (Queue PushFrameOnQueue) = (on = Sdl_DLDATARequest)"
| "fits on (Queue PushIFrameOnIQueue) = (on = Sdl_DLDATARequest)"
| "fits on (Queue PushOldIFrameNROnQueue) = (on \<in> set frame_triggers)"
| "fits on (Store SaveContentsOfIFrame) = (on \<in> set pid_triggers)"
| "fits on (Seq VSAssignNR) = (on \<in> set frame_triggers)"
| "fits on (Seq VAAssignNR) = (on \<in> set frame_triggers)"
| "fits on (Pending NRAssignNS) = (on \<in> set frame_triggers)"
| "fits on (Pending FAssignP) = (on \<in> set frame_triggers)"
| "fits on v = True"

definition loops_ok :: "nat \<Rightarrow> loop_range list \<Rightarrow> bool" where
  "loops_ok n loops = list_all (\<lambda>r. 0 < lr_length r \<and> lr_start r + lr_length r \<le> n) loops"

definition find_subroutine :: "environment \<Rightarrow> call_verb \<Rightarrow> subroutine option" where
  "find_subroutine env c = find (\<lambda>s. sb_name s = fst (subroutine_of c)) (ev_subroutines env)"

fun verb_ok :: "nat \<Rightarrow> environment \<Rightarrow> (verb \<Rightarrow> bool) \<Rightarrow> verb \<Rightarrow> bool" where
  "verb_ok n env ok (Call c) =
     (case n of 0 \<Rightarrow> False
      | Suc m \<Rightarrow>
          (case find_subroutine env c of None \<Rightarrow> False
           | Some s \<Rightarrow> list_all (\<lambda>p. loops_ok (length (sp_actions p)) (sp_loops p) \<and>
               list_all (verb_ok m env ok) (sp_actions p)) (sb_paths s)))"
| "verb_ok n env ok v = ok v"

definition chain_ok :: "nat \<Rightarrow> environment \<Rightarrow> (verb \<Rightarrow> bool) \<Rightarrow> verb list \<Rightarrow> loop_range list \<Rightarrow> bool" where
  "chain_ok n env ok actions loops \<longleftrightarrow> loops_ok (length actions) loops \<and> list_all (verb_ok n env ok) actions"

text \<open>
  The drain offers a frame only where it may be sent, so the rows for a popped frame that are guarded by a
  busy peer or a full window, or that belong to another state, are never taken.
\<close>

definition never_taken :: "sdl_state \<Rightarrow> transition \<Rightarrow> bool" where
  "never_taken st tr \<longleftrightarrow> tr_on tr = Sdl_IFramePopsOffQueue \<and>
     (st \<notin> {Connected, TimerRecovery} \<or>
      list_ex (\<lambda>g. \<not> gt_negate g \<and> gt_atom g \<in> {PeerReceiverBusy, VsEqVaPlusK}) (tr_guard tr))"

definition row_ok :: "nat \<Rightarrow> environment \<Rightarrow> transition \<Rightarrow> bool" where
  "row_ok n env tr \<longleftrightarrow> from_name (tr_next tr) \<noteq> None \<and> chain_ok n env (fits (tr_on tr)) (tr_actions tr) (tr_loops tr)"

definition tables_ok :: "nat \<Rightarrow> environment \<Rightarrow> bool" where
  "tables_ok n env = list_all (\<lambda>st. list_all (\<lambda>tr. never_taken st tr \<or> row_ok n env tr) (ev_page env st)) all_states"

text \<open>Events from outside: the popped frame is the drain's own, and I and UI frames carry a PID.\<close>

definition with_pid :: "event \<Rightarrow> bool" where
  "with_pid e = (case e of IReceived f \<Rightarrow> fi_pid f \<noteq> None | UiReceived f \<Rightarrow> fi_pid f \<noteq> None | _ \<Rightarrow> True)"

definition outside_event :: "event \<Rightarrow> bool" where
  "outside_event e \<longleftrightarrow> with_pid e \<and> to_sdl e \<noteq> Sdl_IFramePopsOffQueue"

section \<open>Chains return\<close>

locale verb_total =
  fixes env :: environment and ok :: "verb \<Rightarrow> bool" and P :: "tx \<Rightarrow> bool"
  assumes plain: "ok v \<Longrightarrow> P x \<Longrightarrow> \<exists>x'. execute_plain (ev_checked env) v x = Some x' \<and> P x'"
    and rewrite: "ok v \<Longrightarrow> ok (apply_verb_quirks v x)"
    and bind: "P x \<Longrightarrow> P (bind_final f x)"
    and guard: "P x \<Longrightarrow> eval_guard (ev_checked env) gs (tx_session x) (tx_timers x) (tx_trigger x) \<noteq> None"
begin

definition returns :: "(tx \<Rightarrow> tx panicking) \<Rightarrow> bool" where
  "returns f \<longleftrightarrow> (\<forall>x. P x \<longrightarrow> (\<exists>x'. f x = Some x' \<and> P x'))"

lemma returnsI: "(\<And>x. P x \<Longrightarrow> \<exists>x'. f x = Some x' \<and> P x') \<Longrightarrow> returns f"
  unfolding returns_def by blast

lemma returnsD: "returns f \<Longrightarrow> P x \<Longrightarrow> \<exists>x'. f x = Some x' \<and> P x'"
  unfolding returns_def by blast

lemma returns_Some: "returns Some"
  by (rule returnsI) simp

lemma returns_then:
  assumes "returns f" "returns g" shows "returns (\<lambda>x. case f x of None \<Rightarrow> None | Some x' \<Rightarrow> g x')"
proof (rule returnsI)
  fix x
  assume "P x"
  then obtain y where "f x = Some y" "P y"
    using returnsD [OF assms(1)] by blast
  then show "\<exists>x'. (case f x of None \<Rightarrow> None | Some x' \<Rightarrow> g x') = Some x' \<and> P x'"
    using returnsD [OF assms(2)] by simp
qed

lemma returns_test:
  assumes "\<And>x. P x \<Longrightarrow> p x \<noteq> None" "returns f" "returns g"
  shows "returns (\<lambda>x. case p x of None \<Rightarrow> None | Some b \<Rightarrow> if b then f x else g x)"
proof (rule returnsI)
  fix x
  assume x: "P x"
  obtain b where "p x = Some b"
    using assms(1) [OF x] by blast
  then show "\<exists>x'. (case p x of None \<Rightarrow> None | Some b \<Rightarrow> if b then f x else g x) = Some x' \<and> P x'"
    using returnsD [OF assms(2) x] returnsD [OF assms(3) x] by simp
qed

lemma term_returns: "P x \<Longrightarrow> eval_term (ev_checked env) g (tx_session x) (tx_timers x) (tx_trigger x) \<noteq> None"
  using guard [of x "[g]"] by (simp split: option.splits)

lemma steps_return:
  assumes "\<And>v. v \<in> set actions \<Longrightarrow> returns (run v)"
  shows "\<forall>i \<in> set is. i < length actions \<Longrightarrow> returns (run_steps (run_action run actions) is)"
proof (induction "is")
  case Nil
  show ?case by (rule returnsI) simp
next
  case (Cons i "is")
  have "returns (run_action run actions i)"
    using returnsD [OF assms [of "actions ! i"]] Cons.prems by (intro returnsI) (simp add: run_action_def)
  from returns_then [OF this Cons.IH] Cons.prems show ?case
    by (simp add: returns_def)
qed

lemma rounds_return:
  assumes "\<And>x. P x \<Longrightarrow> p x \<noteq> None" shows "returns body \<Longrightarrow> returns (rounds n p body)"
proof (induction n)
  case 0
  show ?case by (rule returnsI) simp
next
  case (Suc n)
  from returns_test [OF assms returns_then [OF Suc.prems Suc.IH [OF Suc.prems]] returns_Some] show ?case
    by (simp add: returns_def)
qed

lemma loop_returns:
  assumes "\<And>v. v \<in> set actions \<Longrightarrow> returns (run v)" "lr_start r + lr_length r \<le> length actions"
  shows "returns (run_loop_range (ev_checked env) run r actions)"
proof -
  have body: "returns (run_steps (run_action run actions) [lr_start r ..< lr_start r + lr_length r])"
    using assms(2) by (intro steps_return assms(1)) auto
  have holds: "P x \<Longrightarrow> loop_holds (ev_checked env) r x \<noteq> None" for x
    unfolding loop_holds_def by (rule term_returns)
  note rounds = rounds_return [of "loop_holds (ev_checked env) r", OF holds body]
  show ?thesis
    unfolding run_loop_range_def Let_def
    using returns_then [OF body rounds] rounds by (cases "lr_test_at_end r") simp_all
qed

lemma walk_returns:
  assumes "\<And>v. v \<in> set actions \<Longrightarrow> returns (run v)" "loops_ok (length actions) loops"
  shows "length actions \<le> i + n \<Longrightarrow> returns (walk n (ev_checked env) run actions loops i)"
proof (induction n arbitrary: i)
  case 0
  then show ?case
    by (intro returnsI) simp
next
  case (Suc n)
  show ?case
  proof (cases "i < length actions")
    case True
    show ?thesis
    proof (cases "find (\<lambda>r. lr_start r = i) loops")
      case None
      have "returns (run (actions ! i))" "returns (walk n (ev_checked env) run actions loops (i + 1))"
        using True Suc.prems by (auto intro: assms(1) Suc.IH)
      from returns_then [OF this] show ?thesis
        using True None by (simp add: returns_def)
    next
      case (Some r)
      then have r: "r \<in> set loops" "lr_start r = i"
        by (auto simp: find_Some_iff)
      then have "lr_start r + lr_length r \<le> length actions" "0 < lr_length r"
        using assms(2) by (auto simp: loops_ok_def list_all_iff)
      then have "returns (run_loop_range (ev_checked env) run r actions)"
          "returns (walk n (ev_checked env) run actions loops (lr_start r + lr_length r))"
        using Suc.prems r by (auto intro: loop_returns assms(1) Suc.IH)
      from returns_then [OF this] show ?thesis
        using True Some by (simp add: returns_def)
    qed
  next
    case False
    then show ?thesis
      by (intro returnsI) simp
  qed
qed

lemma actions_return:
  assumes "\<And>v. v \<in> set actions \<Longrightarrow> returns (run v)" "loops_ok (length actions) loops"
  shows "returns (execute_actions (ev_checked env) run actions loops)"
  unfolding execute_actions_def using walk_returns [OF assms] by simp

lemma paths_return:
  assumes "\<And>p. p \<in> set ps \<Longrightarrow> returns (execute_actions (ev_checked env) run (sp_actions p) (sp_loops p))"
  shows "returns (walk_first_matching_path (ev_checked env) run ps)"
  using assms
proof (induction ps)
  case Nil
  show ?case by (rule returnsI) simp
next
  case (Cons p ps)
  have "returns (\<lambda>x. case eval_guard (ev_checked env) (sp_guard p) (tx_session x) (tx_timers x) (tx_trigger x) of
      None \<Rightarrow> None | Some b \<Rightarrow> if b then execute_actions (ev_checked env) run (sp_actions p) (sp_loops p) x
                  else walk_first_matching_path (ev_checked env) run ps x)"
    using Cons by (intro returns_test guard) simp_all
  then show ?case
    by (simp add: returns_def)
qed

lemma quirks_call: "apply_verb_quirks v x = Call c \<longleftrightarrow> v = Call c"
  by (auto simp: apply_verb_quirks_def Let_def)

lemma verb_returns: "verb_ok n env ok v \<Longrightarrow> returns (execute_verb n env v)"
proof (induction n arbitrary: v rule: less_induct)
  case (less n)
  show ?case
  proof (rule returnsI)
    fix x
    assume x: "P x"
    show "\<exists>x'. execute_verb n env v x = Some x' \<and> P x'"
    proof (cases "suppressed v x")
      case True
      then show ?thesis
        using x by (simp add: execute_verb_suppressed)
    next
      case False
      show ?thesis
      proof (cases "\<exists>c. v = Call c")
        case True
        then obtain c where c: "v = Call c" by blast
        obtain m s where n: "n = Suc m" and s: "find_subroutine env c = Some s"
          and ps: "list_all (\<lambda>p. loops_ok (length (sp_actions p)) (sp_loops p) \<and>
               list_all (verb_ok m env ok) (sp_actions p)) (sb_paths s)"
          using less.prems by (auto simp: c split: nat.splits option.splits)
        have "returns (walk_first_matching_path (ev_checked env) (execute_verb m env) (sb_paths s))"
          using ps less.IH [of m] n by (intro paths_return actions_return) (auto simp: list_all_iff)
        then show ?thesis
          using returnsD [OF _ bind [OF x]] False s n
          by (simp add: c quirks_call execute_verb_call invoke_def find_subroutine_def)
      next
        case plain_verb: False
        then have "ok v"
          using less.prems by (cases v) simp_all
        then show ?thesis
          using plain [OF rewrite x] False plain_verb by (simp add: execute_verb_plain quirks_call)
      qed
    qed
  qed
qed

lemma chain_returns:
  "chain_ok n env ok actions loops \<Longrightarrow> returns (execute_actions (ev_checked env) (execute_verb n env) actions loops)"
  by (intro actions_return verb_returns) (auto simp: chain_ok_def list_all_iff)

end

section \<open>The check is sound\<close>

lemma frame_of_trigger: "to_sdl e \<in> set frame_triggers \<Longrightarrow> \<exists>f. event_frame e = Some f"
  by (cases e) (simp_all add: frame_triggers_def)

lemma pid_of_trigger: "to_sdl e \<in> set pid_triggers \<Longrightarrow> with_pid e \<Longrightarrow> \<exists>f pid. event_frame e = Some f \<and> fi_pid f = Some pid"
  by (cases e) (auto simp: pid_triggers_def with_pid_def)

lemma unit_data_trigger: "to_sdl e = Sdl_DLUNITDATARequest \<Longrightarrow> \<exists>pid info. e = DlUnitDataRequest pid info"
  by (cases e) simp_all

lemma data_trigger: "to_sdl e = Sdl_DLDATARequest \<Longrightarrow> \<exists>pid info. e = DlDataRequest pid info"
  by (cases e) simp_all

lemma pop_trigger: "to_sdl e = Sdl_IFramePopsOffQueue \<Longrightarrow> \<exists>pid info. e = IFramePopsOffQueue pid info"
  by (cases e) simp_all

lemma old_returns: "emit_old_i_frame False ns r x \<noteq> None"
  using is_outstanding_unchecked [of "tx_session x" ns] by (auto simp: emit_old_i_frame_def)

lemma assign_va_returns: "assign_va False nr c \<noteq> None"
  using prune_unchecked by (auto simp: assign_va_def Let_def)

lemma plain_returns:
  assumes "fits (to_sdl (tx_trigger x)) v" "with_pid (tx_trigger x)"
  shows "execute_plain False v x \<noteq> None"
  using assms
proof (cases v)
  case (Upper w)
  then show ?thesis
    using assms frame_of_trigger [of "tx_trigger x"] pid_of_trigger [of "tx_trigger x"]
    by (cases w) (auto simp: build_data_indication_def incoming_info_def split: option.splits)
next
  case (Queue w)
  then show ?thesis
    using assms frame_of_trigger [of "tx_trigger x"] data_trigger [of "tx_trigger x"] old_returns
    by (cases w) (auto simp: push_on_i_frame_queue_def push_old_i_frame_nr_def)
next
  case (Rejects w)
  then show ?thesis by (cases w) (auto simp: increment_sreject_def succ32_def)
next
  case (Store w)
  then show ?thesis
    using assms pid_of_trigger [of "tx_trigger x"] by (cases w) (auto simp: save_incoming_i_frame_def)
next
  case (Seq w)
  then show ?thesis
    using assms frame_of_trigger [of "tx_trigger x"] assign_va_returns by (cases w) (auto simp: succ32_def)
next
  case (Pending w)
  then show ?thesis
    using assms frame_of_trigger [of "tx_trigger x"] by (cases w) auto
next
  case UICommand
  then show ?thesis using assms unit_data_trigger [of "tx_trigger x"] by (auto simp: send_ui_def)
next
  case ICommand
  then show ?thesis using assms pop_trigger [of "tx_trigger x"] by (auto simp: emit_i_frame_def Let_def)
qed (auto simp: old_returns)

lemma fits_rewrite: "fits on v \<Longrightarrow> fits on (apply_verb_quirks v x)"
  by (auto simp: apply_verb_quirks_def Let_def)

interpretation checked: verb_total env "fits on" "\<lambda>x. \<not> ev_checked env \<and> to_sdl (tx_trigger x) = on' \<and> with_pid (tx_trigger x) \<and> (\<forall>v. fits on v \<longrightarrow> fits on' v)"
  for env on on'
proof unfold_locales
  fix v and x :: tx
  assume v: "fits on v" and x: "\<not> ev_checked env \<and> to_sdl (tx_trigger x) = on' \<and> with_pid (tx_trigger x) \<and> (\<forall>v. fits on v \<longrightarrow> fits on' v)"
  then obtain x' where "execute_plain False v x = Some x'"
    using plain_returns [of x v] by auto
  then show "\<exists>x'. execute_plain (ev_checked env) v x = Some x' \<and> (\<not> ev_checked env \<and> to_sdl (tx_trigger x') = on' \<and>
      with_pid (tx_trigger x') \<and> (\<forall>v. fits on v \<longrightarrow> fits on' v))"
    using x trigger_kept by auto
qed (auto simp: fits_rewrite bind_final_def split: option.splits)

section \<open>Events return\<close>

lemma first_match_row:
  "first_match ck trs c t e = Some (Some tr) \<Longrightarrow>
    tr \<in> set trs \<and> tr_on tr = to_sdl e \<and> eval_guard ck (tr_guard tr) c t e = Some True"
  by (induction trs) (auto split: if_splits option.splits)

lemma first_match_unchecked: "first_match False trs c t e \<noteq> None"
  using eval_guard_unchecked by (induction trs) (auto split: option.split)

lemma fits_FRMR: "fits Sdl_FRMRReceived v \<Longrightarrow> fits Sdl_DMReceived v"
  by (induction Sdl_FRMRReceived v rule: fits.induct) (simp_all add: frame_triggers_def pid_triggers_def)

text \<open>A row that passed the check runs to its end and reaches a state.\<close>

lemma row_returns:
  assumes "row_ok n env tr" "\<not> ev_checked env" "with_pid e"
    and "to_sdl e = tr_on tr \<or> to_sdl e = Sdl_DMReceived \<and> tr_on tr = Sdl_FRMRReceived"
  shows "run_transition n env e tr l \<noteq> None"
proof -
  obtain s t out where l: "l = (s, t, out)"
    by (cases l) auto
  let ?x = "tx_new (apply_pre_execution_quirks tr e (se_context s)) t out e"
  have "\<forall>v. fits (tr_on tr) v \<longrightarrow> fits (to_sdl e) v"
    using assms(4) fits_FRMR by auto
  then obtain x where "execute_actions (ev_checked env) (execute_verb n env) (tr_actions tr) (tr_loops tr) ?x = Some x"
    using checked.returnsD [OF checked.chain_returns [of n env "tr_on tr"], of "tr_actions tr" "tr_loops tr" ?x "to_sdl e"]
      assms(1-3) by (auto simp: row_ok_def)
  moreover have "resolve_next_state (tx_session x) tr \<noteq> None"
    using assms(1) by (simp add: row_ok_def resolve_next_state_def)
  ultimately show ?thesis
    by (auto simp: l run_transition_def Let_def)
qed

lemma degrade_row:
  obtains "resolve_dm_degrade_match c tr page = tr"
  | "tr_on tr = Sdl_DMReceived" "resolve_dm_degrade_match c tr page \<in> set page"
    "tr_on (resolve_dm_degrade_match c tr page) = Sdl_FRMRReceived"
proof (cases "resolve_dm_degrade_match c tr page = tr")
  case False
  then have "tr_on tr = Sdl_DMReceived" "find (\<lambda>t. tr_on t = Sdl_FRMRReceived) page = Some (resolve_dm_degrade_match c tr page)"
    by (auto simp: resolve_dm_degrade_match_def split: if_splits option.splits)
  then show ?thesis
    using that(2) by (auto simp: find_Some_iff)
qed (use that(1) in blast)

lemma all_states: "st \<in> set all_states"
  by (cases st) (simp_all add: all_states_def)

lemma tables_row:
  "tables_ok n env \<Longrightarrow> tr \<in> set (ev_page env st) \<Longrightarrow> \<not> never_taken st tr \<Longrightarrow> row_ok n env tr"
  using all_states by (auto simp: tables_ok_def list_all_iff)

lemma dispatch_returns:
  assumes "tables_ok n env" "\<not> ev_checked env" "with_pid e"
    and taken: "\<And>tr. \<lbrakk>tr_on tr = to_sdl e; eval_guard False (tr_guard tr) (se_context (clamp_retry_count e s)) t e = Some True\<rbrakk>
      \<Longrightarrow> \<not> never_taken (se_state (clamp_retry_count e s)) tr"
  shows "dispatch_event n env e (s, t, out) \<noteq> None"
proof -
  let ?s = "clamp_retry_count e s" and ?page = "ev_page env (se_state (clamp_retry_count e s))"
  obtain m where m: "first_match (ev_checked env) ?page (se_context ?s) t e = Some m"
    using first_match_unchecked [of ?page "se_context ?s" t e] assms(2) by auto
  show ?thesis
  proof (cases m)
    case None
    then show ?thesis
      using m by (simp add: dispatch_event_def Let_def)
  next
    case (Some tr)
    let ?tr = "resolve_dm_degrade_match (se_context ?s) tr ?page"
    have tr: "tr \<in> set ?page" "tr_on tr = to_sdl e" "eval_guard False (tr_guard tr) (se_context ?s) t e = Some True"
      using first_match_row [of "ev_checked env" ?page "se_context ?s" t e tr] m Some assms(2) by auto
    have "run_transition n env e ?tr (?s, t, out) \<noteq> None"
    proof (cases rule: degrade_row [of "se_context ?s" tr ?page])
      case 1
      then show ?thesis
        using row_returns tables_row [OF assms(1) tr(1) taken [OF tr(2,3)]] assms(2,3) tr(2) by simp
    next
      case 2
      then have "\<not> never_taken (se_state ?s) ?tr"
        by (simp add: never_taken_def)
      then show ?thesis
        using row_returns tables_row [OF assms(1) 2(2)] assms(2,3) tr(2) 2 by simp
    qed
    then show ?thesis
      using m Some by (simp add: dispatch_event_def Let_def)
  qed
qed

text \<open>A guard with a term that fails does not hold.\<close>

lemma guard_fails: "g \<in> set gs \<Longrightarrow> eval_term False g c t e = Some False \<Longrightarrow> eval_guard False gs c t e = Some False"
  by (induction gs) (auto split: option.splits)

lemma pop_is_taken:
  assumes "can_transmit_i_frame False s = Some True" "eval_guard False (tr_guard tr) (se_context s) t e = Some True"
  shows "\<not> never_taken (se_state s) tr"
proof
  assume "never_taken (se_state s) tr"
  moreover have st: "se_state s \<in> {Connected, TimerRecovery}" and busy: "\<not> sc_peer_receiver_busy (se_context s)"
    and full: "eval_atom False VsEqVaPlusK (se_context s) t e = Some False"
    using assms(1) by (auto simp: can_transmit_i_frame_def split: if_splits)
  ultimately obtain g where g: "g \<in> set (tr_guard tr)" "\<not> gt_negate g" "gt_atom g = PeerReceiverBusy \<or> gt_atom g = VsEqVaPlusK"
    by (auto simp: never_taken_def list_ex_iff)
  then have "eval_term False g (se_context s) t e = Some False"
    using busy full by (auto simp: eval_term_def)
  then show False
    using guard_fails [OF g(1)] assms(2) by simp
qed

section \<open>The drain ends\<close>

text \<open>No transition that a popped frame triggers puts anything on the queue.\<close>

definition queue_within :: "nat \<Rightarrow> session_context \<Rightarrow> emission list \<Rightarrow> bool" where
  "queue_within k c out \<longleftrightarrow> length (sc_i_frame_queue c) \<le> k"

definition no_new_data :: "event \<Rightarrow> bool" where
  "no_new_data e \<longleftrightarrow> to_sdl e \<noteq> Sdl_DLDATARequest"

lemma queue_step: "data_step x x' \<Longrightarrow> no_new_data (tx_trigger x) \<Longrightarrow> queue_within k (tx_session x) out
    \<Longrightarrow> queue_within k (tx_session x') out'"
  by (cases rule: data_step.cases) (auto simp: queue_within_def no_new_data_def)

interpretation shrinking: link_invariant env no_new_data "queue_within k" "\<lambda>_. True" for env k
proof unfold_locales
  fix x v x'
  assume "no_new_data (tx_trigger x)" "queue_within k (tx_session x) (tx_sink x)" "execute_plain (ev_checked env) v x = Some x'"
  then show "queue_within k (tx_session x') (tx_sink x') \<and> True \<and> tx_trigger x' = tx_trigger x"
    using queue_step plain_data_step trigger_kept by blast
qed (auto simp: queue_within_def force_version_20_def no_new_data_def)

lemma can_transmit_unchecked: "can_transmit_i_frame False s \<noteq> None"
  by (auto simp: can_transmit_i_frame_def outstanding_count_def)

lemma can_transmit_queue:
  "can_transmit_i_frame ck (s\<lparr>se_context := (se_context s)\<lparr>sc_i_frame_queue := q\<rparr>\<rparr>) = can_transmit_i_frame ck s"
  by (simp add: can_transmit_i_frame_def outstanding_count_def modulus_def window16_def effective_window_def)

lemma drain_returns:
  assumes "tables_ok n env" "\<not> ev_checked env"
  shows "drain_i_frame_queue n env l \<noteq> None"
proof (induction "length (sc_i_frame_queue (se_context (fst l)))" arbitrary: l rule: less_induct)
  case less
  show ?case
  proof (cases "sc_i_frame_queue (se_context (fst l))")
    case Nil
    then show ?thesis by (subst drain_i_frame_queue.simps) simp
  next
    case (Cons entry rest)
    obtain go where go: "can_transmit_i_frame (ev_checked env) (fst l) = Some go"
      using can_transmit_unchecked [of "fst l"] assms(2) by auto
    show ?thesis
    proof (cases go)
      case False
      then show ?thesis using Cons go by (subst drain_i_frame_queue.simps) simp
    next
      case True
      let ?e = "IFramePopsOffQueue (pl_pid entry) (pl_data entry)" and ?l = "take_entry rest l"
      obtain s t out where l: "?l = (s, t, out)"
        by (cases ?l) auto
      have clamp: "clamp_retry_count ?e s = s"
        by (simp add: clamp_retry_count_def)
      have "s = (fst l)\<lparr>se_context := (se_context (fst l))\<lparr>sc_i_frame_queue := rest\<rparr>\<rparr>"
        using l by (simp add: take_entry_def)
      then have may: "can_transmit_i_frame False s = Some True"
        using go True assms(2) by (simp add: can_transmit_queue)
      have "dispatch_event n env ?e (s, t, out) \<noteq> None"
      proof (intro dispatch_returns assms)
        show "with_pid ?e"
          by (simp add: with_pid_def)
      qed (simp only: clamp, rule pop_is_taken [OF may])
      then obtain l1 where l1: "dispatch_event n env ?e ?l = Some l1"
        using l by auto
      have "shrinking.inv (length rest) ?l"
        by (simp add: shrinking.inv_def take_entry_def queue_within_def split: prod.split)
      from shrinking.dispatch_inv [OF _ this l1] have "shrinking.inv (length rest) l1"
        by (simp add: no_new_data_def)
      then have "length (sc_i_frame_queue (se_context (fst l1))) \<le> length rest"
        by (auto simp: shrinking.inv_def queue_within_def split: prod.splits)
      then have "drain_i_frame_queue n env l1 \<noteq> None"
        using less Cons by simp
      then show ?thesis
        using Cons go True l1 by (subst drain_i_frame_queue.simps) (simp add: take_entry_def)
    qed
  qed
qed

lemma post_returns:
  assumes "tables_ok n env" "\<not> ev_checked env" "outside_event e"
  shows "post_event n env e l \<noteq> None"
proof -
  obtain s t out where l: "l = (s, t, out)"
    by (cases l) auto
  have "dispatch_event n env e l \<noteq> None"
    using assms(3) unfolding l by (intro dispatch_returns assms) (auto simp: outside_event_def never_taken_def)
  then show ?thesis
    using drain_returns [OF assms(1,2)] by (auto simp: post_event_def)
qed

end
