(* ===== verification/Sdl_Props.thy ===== *)
theory Sdl_Props
  imports Sdl_Numbers Sdl_Total
begin

text \<open>
  The properties of the data-link runtime, for tables given as a parameter. The witnesses run a small set of
  tables in the shape of the figures: connection from both sides, transfer with out-of-sequence storage,
  selective rejection, the retry of the enquiry, and the fall-back to version 2.0.
\<close>

section \<open>Sample tables\<close>

definition atom :: "guard_atom \<Rightarrow> guard_term" where
  "atom a = \<lparr>gt_atom = a, gt_negate = False\<rparr>"

definition row :: "string \<Rightarrow> sdl_event \<Rightarrow> guard_term list \<Rightarrow> verb list \<Rightarrow> loop_range list \<Rightarrow> string \<Rightarrow> transition" where
  "row fr on gs vs ls nx = \<lparr>tr_from = fr, tr_on = on, tr_guard = gs, tr_actions = vs, tr_loops = ls, tr_next = nx\<rparr>"

definition path :: "guard_term list \<Rightarrow> verb list \<Rightarrow> subroutine_path" where
  "path gs vs = \<lparr>sp_guard = gs, sp_actions = vs, sp_loops = []\<rparr>"

fun sample_page :: "sdl_state \<Rightarrow> transition list" where
  "sample_page Disconnected =
     [row ''Disconnected'' Sdl_DLCONNECTRequest []
        [Param SRTAssignInitialDefault, Param T1VAssign2TimesSRT, Call EstablishDataLink, Flag SetLayer3Initiated] []
        ''AwaitingConnection'',
      row ''Disconnected'' Sdl_SABMReceived [atom AbleToEstablish]
        [Pending FAssignP, UFrame UA, Call ClearExceptionConditions, Param SetVersion20, Seq VSAssign0, Seq VAAssign0,
         Seq VRAssign0, Upper DLCONNECTIndication, Timer StartT3] [] ''Connected'']"
| "sample_page AwaitingConnection =
     [row ''AwaitingConnection'' Sdl_UAReceived [atom FEq1]
        [Upper DLCONNECTConfirm, Timer StopT1, Timer StartT3, Seq VSAssign0, Seq VAAssign0, Seq VRAssign0] [] ''Connected'',
      row ''AwaitingConnection'' Sdl_IFramePopsOffQueue [] [Queue PushFrameOnQueue] [] ''AwaitingConnection'']"
| "sample_page AwaitingV22Connection =
     [row ''AwaitingV22Connection'' Sdl_DMReceived [atom FEq1] [Upper DLDISCONNECTIndication, Timer StopT1] [] ''Disconnected'',
      row ''AwaitingV22Connection'' Sdl_FRMRReceived []
        [Param SRTAssignInitialDefault, Param T1VAssign2TimesSRT, Call EstablishDataLink, Flag SetLayer3Initiated] []
        ''AwaitingConnection'']"
| "sample_page AwaitingRelease =
     [row ''AwaitingRelease'' Sdl_UAReceived [atom FEq1] [Upper DLDISCONNECTConfirm, Timer StopT1] [] ''Disconnected'']"
| "sample_page Connected =
     [row ''Connected'' Sdl_DLDATARequest [] [Queue PushOnIFrameQueue] [] ''Connected'',
      row ''Connected'' Sdl_IFramePopsOffQueue [atom PeerReceiverBusy] [Queue PushIFrameOnIQueue] [] ''Connected'',
      row ''Connected'' Sdl_IFramePopsOffQueue []
        [Pending NSAssignVS, Pending NRAssignVR, Pending PAssign0, ICommand, Seq VSAssignVSPlus1,
         Flag ClearAcknowledgePending] [] ''Connected'',
      row ''Connected'' Sdl_IReceived [atom NsEqVr]
        [Seq VRAssignVRPlus1, Upper DLDATAIndication, Store RetrieveStoredVRIFrame, Upper DLDATAIndication,
         Seq VRAssignVRPlus1, Flag SetAcknowledgePending]
        [\<lparr>lr_start = 2, lr_length = 3, lr_predicate = atom VrIFrameStored, lr_test_at_end = False\<rparr>] ''Connected'',
      row ''Connected'' Sdl_IReceived [] [Store SaveContentsOfIFrame, Pending NRAssignNS, Pending FAssign0, SFrame SREJ] []
        ''Connected'',
      row ''Connected'' Sdl_RRReceived [] [Seq VAAssignNR] [] ''Connected'',
      row ''Connected'' Sdl_SREJReceived [] [Seq VAAssignNR, Queue PushOldIFrameNROnQueue] [] ''Connected'',
      row ''Connected'' Sdl_T1Expiry [] [Seq RCAssign1, Call TransmitEnquiry] [] ''TimerRecovery'']"
| "sample_page TimerRecovery =
     [row ''TimerRecovery'' Sdl_T1Expiry [] [Seq RCAssignRCPlus1, Call TransmitEnquiry] [] ''TimerRecovery'']"

definition sample_subroutines :: "subroutine list" where
  "sample_subroutines =
     [\<lparr>sb_name = ''Establish_Data_Link'',
       sb_paths = [path [atom Mod128] [Call ClearExceptionConditions, Seq RCAssign0, UFrame SABME, Timer StopT3, Timer StartT1],
                   path [] [Call ClearExceptionConditions, Seq RCAssign0, UFrame SABM, Timer StopT3, Timer StartT1]]\<rparr>,
      \<lparr>sb_name = ''Clear_Exception_Conditions'',
       sb_paths = [path [] [Flag ClearPeerReceiverBusy, Rejects ClearRejectException, Flag ClearOwnReceiverBusy,
                            Flag ClearAcknowledgePending]]\<rparr>,
      \<lparr>sb_name = ''Transmit_Enquiry'',
       sb_paths = [path [] [Pending PAssign1, Pending NRAssignVR, SFrame RRCommand, Flag ClearAcknowledgePending, Timer StartT1]]\<rparr>]"

definition sample_env :: environment where
  "sample_env = \<lparr>ev_checked = False, ev_page = sample_page, ev_subroutines = sample_subroutines\<rparr>"

definition frame :: "bool \<Rightarrow> u8 \<Rightarrow> u8 \<Rightarrow> bool \<Rightarrow> bytes \<Rightarrow> u8 option \<Rightarrow> frame_info" where
  "frame cmd nr ns pf info pid =
     \<lparr>fi_nr = nr, fi_ns = ns, fi_poll_final = pf, fi_is_command = cmd, fi_info = info, fi_pid = pid\<rparr>"

text \<open>Two frames out, the second one lost and asked for again; two frames in, the first one late.\<close>

definition sample_out :: "event list" where
  "sample_out = [DlDataRequest 0xF0 [1], DlDataRequest 0xF0 [2]]"

definition sample_srej :: event where
  "sample_srej = SrejReceived (frame False 1 0 True [] None)"

definition sample_in :: "event list" where
  "sample_in = [IReceived (frame True 0 1 False [8] (Some 0xF0)), IReceived (frame True 0 0 False [7] (Some 0xF0))]"

definition sample_link :: link where
  "sample_link = (in_state Connected, no_timers, [])"

definition link_of :: "link panicking \<Rightarrow> link" where
  "link_of r = (case r of None \<Rightarrow> sample_link | Some l \<Rightarrow> l)"

lemma sample_tables_ok: "tables_ok 2 sample_env"
  by code_simp

section \<open>The runtime returns\<close>

lemma run_returns:
  assumes "tables_ok n env" "\<not> ev_checked env"
  shows "list_all outside_event es \<Longrightarrow> post_all n env es l \<noteq> None"
proof (induction es arbitrary: l)
  case (Cons e es)
  then show ?case
    using post_returns [OF assms, of e l] by auto
qed simp

section \<open>Data\<close>

lemma genuine_run:
  assumes "post_all n env es (in_state st, t, []) = Some (s', t', out)"
  shows "\<forall>m \<in> set out. genuine (\<Union>e \<in> set es. submitted e) (\<Union>e \<in> set es. received e) m"
proof -
  let ?S = "\<Union>e \<in> set es. submitted e" and ?R = "\<Union>e \<in> set es. received e"
  have "origin.inv ?S ?R (in_state st, t, [])"
    by (simp add: origin.inv_def provenance_def in_state_def session_context_default_def pairs_def)
  moreover have "known ?S ?R e" if "e \<in> set es" for e
    using that by (auto simp: known_def)
  ultimately have "origin.inv ?S ?R (s', t', out)"
    using origin.run_keeps [OF _ _ assms] by blast
  then show ?thesis
    by (simp add: origin.inv_def provenance_def)
qed


definition sample_events :: "event list" where
  "sample_events = sample_out @ [sample_srej] @ sample_in"

definition sample_result :: link where
  "sample_result = link_of (post_all 2 sample_env sample_events sample_link)"

lemma sample_events_run: "post_all 2 sample_env sample_events sample_link = Some sample_result"
proof -
  have "post_all 2 sample_env sample_events sample_link \<noteq> None"
    by code_simp
  then show ?thesis
    by (auto simp: sample_result_def link_of_def)
qed

lemma sample_projected: "post_all 2 sample_env sample_events (in_state Connected, no_timers, []) =
    Some (fst sample_result, fst (snd sample_result), snd (snd sample_result))"
  using sample_events_run by (simp add: sample_link_def)


lemma store_invariant:
  assumes "post_all n env es (in_state st, t, []) = Some (s, t1, out)"
  shows "store_is_last_sent (se_context s) out"
proof -
  have "copies.inv (in_state st, t, [])"
    by (simp add: copies.inv_def store_is_last_sent_def in_state_def session_context_default_def)
  then show ?thesis
    using copies.run_keeps [OF _ _ assms] by (simp add: copies.inv_def)
qed

text \<open>C24: With nothing queued and nothing handed in, a session only repeats itself: after any run, an event that brings
  no data sends I frames only as exact copies, PID and octets, of the last I frame that went out with the same send
  number.\<close>

theorem retransmissions_are_copies:
  assumes "post_all n env es (in_state st, t, []) = Some (s, t1, out)" "sc_i_frame_queue (se_context s) = []"
    and "submitted e = {}" "post_event n env e (s, t1, out) = Some (s', t2, out')"
  shows "\<exists>new. out' = out @ new \<and> only_copies out new"
proof -
  have "repeats.inv out (s, t1, out)"
    using store_invariant [OF assms(1)] assms(2) by (auto simp: repeats.inv_def copying_def intro: exI [of _ "[]"])
  then have "repeats.inv out (s', t2, out')"
    using repeats.post_inv assms(3,4) by blast
  then show ?thesis
    by (auto simp: repeats.inv_def copying_def)
qed

definition sample_sent :: link where
  "sample_sent = link_of (post_all 2 sample_env sample_out sample_link)"

definition sample_resent :: link where
  "sample_resent = link_of (post_event 2 sample_env sample_srej sample_sent)"

theorem retransmissions_are_copies_witness:
  "snd (snd sample_resent) = snd (snd sample_sent) @ [SendFrame (Information False 0 1 0xF0 [2])] \<and>
   (\<exists>new. snd (snd sample_resent) = snd (snd sample_sent) @ new \<and> only_copies (snd (snd sample_sent)) new)"
proof -
  obtain s t1 out where r: "sample_sent = (s, t1, out)"
    by (cases sample_sent) auto
  obtain s' t2 out' where r': "sample_resent = (s', t2, out')"
    by (cases sample_resent) auto
  have "post_all 2 sample_env sample_out sample_link \<noteq> None" "post_event 2 sample_env sample_srej sample_sent \<noteq> None"
    by code_simp+
  then have run: "post_all 2 sample_env sample_out sample_link = Some sample_sent"
    "post_event 2 sample_env sample_srej sample_sent = Some sample_resent"
    by (auto simp: sample_sent_def sample_resent_def link_of_def)
  have "sc_i_frame_queue (se_context (fst sample_sent)) = []" "submitted sample_srej = {}"
    and out: "snd (snd sample_resent) = snd (snd sample_sent) @ [SendFrame (Information False 0 1 0xF0 [2])]"
    by code_simp (simp add: sample_srej_def submitted_def, code_simp)
  with retransmissions_are_copies [of 2 sample_env sample_out Connected no_timers s t1 out sample_srej s' t2 out'] run
  show ?thesis
    by (simp add: sample_link_def r r')
qed

text \<open>C26: When the frames handed to a session carry seven-bit sequence numbers, then whatever the tables its three
  sequence variables stay below 128, and so do the numbers of every supervisory and information frame it sends.\<close>

theorem sequence_numbers_fit:
  assumes "post_all n env es (in_state st, t, []) = Some (s', t', out)" "list_all small_event es"
  shows "sc_vs (se_context s') < 128 \<and> sc_va (se_context s') < 128 \<and> sc_vr (se_context s') < 128 \<and>
    (\<forall>m \<in> set out. small_emission m)"
proof -
  have "numbers.inv (in_state st, t, [])"
    by (simp add: numbers.inv_def small_link_def in_state_def session_context_default_def)
  then have "numbers.inv (s', t', out)"
    using numbers.run_keeps [OF _ _ assms(1)] assms(2) by (auto simp: list_all_iff)
  then show ?thesis
    by (simp add: numbers.inv_def small_link_def small_def)
qed

theorem sequence_numbers_fit_witness:
  "sc_vs (se_context (fst sample_result)) = 2 \<and> sc_vs (se_context (fst sample_result)) < 128 \<and>
   list_all small_emission (snd (snd sample_result))"
proof -
  have "list_all small_event sample_events" and vs: "sc_vs (se_context (fst sample_result)) = 2"
    by code_simp+
  with sequence_numbers_fit [OF sample_projected] show ?thesis
    by (simp add: list_all_iff)
qed

section \<open>The walk, the drain and the fall-back\<close>





definition sample_dial :: session where
  "sample_dial = (in_state AwaitingV22Connection)\<lparr>se_context := session_context_default\<lparr>sc_is_extended := True, sc_srej_enabled := True\<rparr>\<rparr>"

definition sample_dm :: frame_info where
  "sample_dm = frame False 0 0 True [] None"

definition sample_refused :: link where
  "sample_refused = link_of (dispatch_event 2 sample_env (DmReceived sample_dm) (sample_dial, no_timers, []))"


end
