(* ===== verification/Sdl_Wire.thy ===== *)
theory Sdl_Wire
  imports Ax25_Frame Sdl_Props
begin

text \<open>
  The adapter between the runtime and the wire (\<open>sdl/bridge.rs\<close>): building the octets of a frame from what
  the runtime asks for, at either modulo, the sink that collects them, and the classification of a decoded
  frame as an event. What one end's runtime asks to send, the other end's runtime is told.
\<close>

section \<open>Control octets\<close>

definition u_SABME :: u8 where "u_SABME = 0x6F"
definition u_SABM :: u8 where "u_SABM = 0x2F"
definition u_DISC :: u8 where "u_DISC = 0x43"
definition u_DM :: u8 where "u_DM = 0x0F"
definition u_UA :: u8 where "u_UA = 0x63"
definition u_FRMR :: u8 where "u_FRMR = 0x87"
definition u_XID :: u8 where "u_XID = 0xAF"
definition u_TEST :: u8 where "u_TEST = 0xE3"
definition s_RR :: u8 where "s_RR = 0x01"
definition s_RNR :: u8 where "s_RNR = 0x05"
definition s_REJ :: u8 where "s_REJ = 0x09"
definition s_SREJ :: u8 where "s_SREJ = 0x0D"
definition PF_BIT :: u8 where "PF_BIT = 0x10"

lemmas control_octets = u_SABME_def u_SABM_def u_DISC_def u_DM_def u_UA_def u_FRMR_def u_XID_def u_TEST_def
  s_RR_def s_RNR_def s_REJ_def s_SREJ_def PF_BIT_def CONTROL_UI_def

fun s_base :: "supervisory_kind \<Rightarrow> u8" where
  "s_base Rr = s_RR"
| "s_base Rnr = s_RNR"
| "s_base Rej = s_REJ"
| "s_base Srej = s_SREJ"

fun u_base :: "unnumbered_kind \<Rightarrow> u8" where
  "u_base Sabm = u_SABM"
| "u_base Sabme = u_SABME"
| "u_base Disc = u_DISC"
| "u_base Ua = u_UA"
| "u_base Dm = u_DM"

definition pf_octet :: "bool \<Rightarrow> u8" where
  "pf_octet pf = (if pf then PF_BIT else 0)"

definition pf_low :: "bool \<Rightarrow> u8" where
  "pf_low pf = (if pf then 1 else 0)"

section \<open>The sink\<close>

record wire_sink =
  ws_local :: callsign
  ws_remote :: callsign
  ws_digipeaters :: "callsign list"
  ws_extended :: bool
  ws_sent :: "bytes list"
  ws_upward :: "data_link_signal list"
  ws_seize_pending :: bool
  ws_mdl_negotiate_pending :: bool

definition wire_sink_new :: "callsign \<Rightarrow> callsign \<Rightarrow> callsign list \<Rightarrow> wire_sink" where
  "wire_sink_new local_call remote digis =
     \<lparr>ws_local = local_call, ws_remote = remote, ws_digipeaters = digis, ws_extended = False, ws_sent = [],
      ws_upward = [], ws_seize_pending = False, ws_mdl_negotiate_pending = False\<rparr>"

definition address_of :: "callsign \<Rightarrow> bool \<Rightarrow> address" where
  "address_of c crh = \<lparr>ad_callsign = c, ad_crh = crh, ad_extension = False\<rparr>"

definition addressed_frame :: "wire_sink \<Rightarrow> bool \<Rightarrow> u8 \<Rightarrow> u8 option \<Rightarrow> bytes \<Rightarrow> frame" where
  "addressed_frame ws is_cmd ctrl pid info =
     \<lparr>fr_destination = address_of (ws_remote ws) is_cmd, fr_source = address_of (ws_local ws) (\<not> is_cmd),
      fr_digipeaters = map (\<lambda>c. address_of c False) (ws_digipeaters ws), fr_control = ctrl, fr_pid = pid, fr_info = info\<rparr>"

fun build_frame :: "wire_sink \<Rightarrow> frame_spec \<Rightarrow> frame" where
  "build_frame ws (Supervisory kind cmd nr pf) =
     addressed_frame ws cmd (s_base kind OR push_bit 5 (nr AND 0x07) OR pf_octet pf) None []"
| "build_frame ws (Unnumbered kind cmd pf expedited) = addressed_frame ws cmd (u_base kind OR pf_octet pf) None []"
| "build_frame ws (Ui cmd pf pid info) = addressed_frame ws cmd (CONTROL_UI OR pf_octet pf) (Some pid) info"
| "build_frame ws (Information p nr ns pid info) =
     addressed_frame ws True (push_bit 5 (nr AND 0x07) OR pf_octet p OR push_bit 1 (ns AND 0x07)) (Some pid) info"
| "build_frame ws (Xid cmd pf info) = addressed_frame ws cmd (u_XID OR pf_octet pf) None info"

definition encode_spec :: "wire_sink \<Rightarrow> frame_spec \<Rightarrow> bytes panicking" where
  "encode_spec ws spec =
     (if ws_extended ws then
        (case spec of
           Information p nr ns pid info \<Rightarrow>
             encode_extended (addressed_frame ws True (push_bit 1 (ns AND 0x7F)) (Some pid) info)
               (push_bit 1 (nr AND 0x7F) OR pf_low p)
         | Supervisory kind cmd nr pf \<Rightarrow>
             encode_extended (addressed_frame ws cmd (s_base kind) None []) (push_bit 1 (nr AND 0x7F) OR pf_low pf)
         | _ \<Rightarrow> encode (build_frame ws spec))
      else encode (build_frame ws spec))"

fun absorb :: "emission \<Rightarrow> wire_sink \<Rightarrow> wire_sink panicking" where
  "absorb (SendFrame spec) ws = map_option (\<lambda>bs. ws\<lparr>ws_sent := ws_sent ws @ [bs]\<rparr>) (encode_spec ws spec)"
| "absorb (SendUpward s) ws = Some (ws\<lparr>ws_upward := ws_upward ws @ [s]\<rparr>)"
| "absorb (SendLinkMux s) ws = Some (if s = SeizeRequest then ws\<lparr>ws_seize_pending := True\<rparr> else ws)"
| "absorb (SendInternal s) ws = Some (if s = MdlNegotiateRequest then ws\<lparr>ws_mdl_negotiate_pending := True\<rparr> else ws)"

section \<open>Classification\<close>

definition frame_info_of :: "frame \<Rightarrow> u8 option \<Rightarrow> frame_info" where
  "frame_info_of f ext = \<lparr>fi_nr = nr_with f ext, fi_ns = ns_with f ext, fi_poll_final = poll_final_with f ext,
     fi_is_command = is_command f, fi_info = fr_info f, fi_pid = fr_pid f\<rparr>"

definition classify_incoming_modulo :: "frame \<Rightarrow> u8 option \<Rightarrow> event option" where
  "classify_incoming_modulo f ext =
     (let ctrl = fr_control f; info = frame_info_of f ext in
      if ctrl AND 0x01 = 0 then Some (IReceived info)
      else if ctrl AND 0x03 = 0x01 then
        (let s = ctrl AND 0x0F in
         if s = s_RR then Some (RrReceived info)
         else if s = s_RNR then Some (RnrReceived info)
         else if s = s_REJ then Some (RejReceived info)
         else if s = s_SREJ then Some (SrejReceived info)
         else None)
      else
        (let u = ctrl AND NOT PF_BIT in
         if u = u_SABM then Some (SabmReceived info)
         else if u = u_SABME then Some (SabmeReceived info)
         else if u = u_DISC then Some (DiscReceived info)
         else if u = u_UA then Some (UaReceived info)
         else if u = u_DM then Some (DmReceived info)
         else if u = u_FRMR then Some (FrmrReceived info)
         else if u = u_XID then Some (XidReceived info)
         else if u = u_TEST then Some (TestReceived info)
         else if u AND 0xEF = CONTROL_UI then Some (UiReceived info)
         else None))"

definition classify_incoming :: "frame \<Rightarrow> event option" where
  "classify_incoming f = classify_incoming_modulo f None"

section \<open>What is sent is what is heard\<close>

text \<open>The event that a frame stands for; the sequence fields of an unnumbered frame are not looked at.\<close>

definition heard_info :: "bool \<Rightarrow> bool \<Rightarrow> bytes \<Rightarrow> u8 option \<Rightarrow> frame_info \<Rightarrow> bool" where
  "heard_info cmd pf info pid f \<longleftrightarrow> fi_is_command f = cmd \<and> fi_poll_final f = pf \<and> fi_info f = info \<and> fi_pid f = pid"

fun s_event :: "supervisory_kind \<Rightarrow> frame_info \<Rightarrow> event" where
  "s_event Rr f = RrReceived f"
| "s_event Rnr f = RnrReceived f"
| "s_event Rej f = RejReceived f"
| "s_event Srej f = SrejReceived f"

fun u_event :: "unnumbered_kind \<Rightarrow> frame_info \<Rightarrow> event" where
  "u_event Sabm f = SabmReceived f"
| "u_event Sabme f = SabmeReceived f"
| "u_event Disc f = DiscReceived f"
| "u_event Ua f = UaReceived f"
| "u_event Dm f = DmReceived f"

definition heard_as :: "frame_spec \<Rightarrow> event \<Rightarrow> bool" where
  "heard_as spec e =
     (case event_frame e of
        None \<Rightarrow> False
      | Some f \<Rightarrow>
          (case spec of
             Supervisory kind cmd nr pf \<Rightarrow> e = s_event kind f \<and> heard_info cmd pf [] None f \<and> fi_nr f = nr
           | Unnumbered kind cmd pf expedited \<Rightarrow> e = u_event kind f \<and> heard_info cmd pf [] None f
           | Ui cmd pf pid info \<Rightarrow> e = UiReceived f \<and> heard_info cmd pf info (Some pid) f
           | Information p nr ns pid info \<Rightarrow>
               e = IReceived f \<and> heard_info True p info (Some pid) f \<and> fi_nr f = nr \<and> fi_ns f = ns
           | Xid cmd pf info \<Rightarrow> e = XidReceived f \<and> heard_info cmd pf info None f))"

definition numbers_fit :: "bool \<Rightarrow> frame_spec \<Rightarrow> bool" where
  "numbers_fit extended spec =
     (let fit = (\<lambda>n :: u8. n < (if extended then 128 else 8)) in
      case spec of Supervisory kind cmd nr pf \<Rightarrow> fit nr | Information p nr ns pid info \<Rightarrow> fit nr \<and> fit ns | _ \<Rightarrow> True)"

definition sink_wf :: "wire_sink \<Rightarrow> bool" where
  "sink_wf ws \<longleftrightarrow> callsign_wf (ws_local ws) \<and> callsign_wf (ws_remote ws) \<and> list_all callsign_wf (ws_digipeaters ws)
     \<and> length (ws_digipeaters ws) \<le> MAX_DIGIPEATERS"

lemma addressed_frame_wf:
  "sink_wf ws \<Longrightarrow> (pid \<noteq> None \<longleftrightarrow> has_pid ctrl) \<Longrightarrow> frame_wf (addressed_frame ws cmd ctrl pid info)"
  by (auto simp: frame_wf_def addressed_frame_def sink_wf_def logical_address_def address_wf_def address_of_def list_all_iff)

lemma addressed_frame_sel [simp]:
  "fr_control (addressed_frame ws cmd ctrl pid info) = ctrl" "fr_pid (addressed_frame ws cmd ctrl pid info) = pid"
  "fr_info (addressed_frame ws cmd ctrl pid info) = info" "is_command (addressed_frame ws cmd ctrl pid info) = cmd"
  by (simp_all add: addressed_frame_def is_command_def address_of_def)

lemma frame_decodes:
  assumes "frame_wf f"
  shows "encode f = Some (frame_octets f [])" "decode_with_modulo (frame_octets f []) False = Inr (f, None)"
    "is_unnumbered f \<Longrightarrow> decode_with_modulo (frame_octets f []) True = Inr (f, None)"
    "encode_extended f e = Some (frame_octets f [e])"
    "\<not> is_unnumbered f \<Longrightarrow> decode_with_modulo (frame_octets f [e]) True = Inr (f, Some e)"
proof -
  have "accepts LENIENT f"
    by (simp add: accepts_def LENIENT_def command_as_response_def)
  then show "encode f = Some (frame_octets f [])" "decode_with_modulo (frame_octets f []) False = Inr (f, None)"
    "is_unnumbered f \<Longrightarrow> decode_with_modulo (frame_octets f []) True = Inr (f, None)"
    "encode_extended f e = Some (frame_octets f [e])"
    "\<not> is_unnumbered f \<Longrightarrow> decode_with_modulo (frame_octets f [e]) True = Inr (f, Some e)"
    using decode_inner_octets [of f LENIENT "[]" False e False] decode_inner_octets [of f LENIENT "[]" False e True]
      decode_inner_octets [of f LENIENT "[e]" True e True] assms
    by (auto simp: frame_encode_eq encode_extended_eq decode_with_modulo_def)
qed

section \<open>The octets, one by one\<close>

definition octets :: "nat \<Rightarrow> u8 list" where
  "octets n = map (\<lambda>i. word_of_int (int i)) [0 ..< n]"

lemma octets_below: "unat w < n \<Longrightarrow> w \<in> set (octets n)"
  by (auto simp: octets_def image_iff intro!: bexI [of _ "unat w"])

lemma below_8: "w < 8 \<Longrightarrow> w \<in> set (octets 8)" for w :: u8
  by (rule octets_below) (simp add: word_less_nat_alt)

lemma below_128: "w < 128 \<Longrightarrow> w \<in> set (octets 128)" for w :: u8
  by (rule octets_below) (simp add: word_less_nat_alt)

definition i_octet_ok :: "u8 \<Rightarrow> u8 \<Rightarrow> bool \<Rightarrow> bool" where
  "i_octet_ok nr ns p =
     (let c = push_bit 5 (nr AND 0x07) OR pf_octet p OR push_bit 1 (ns AND 0x07) in
      c AND 0x01 = 0 \<and> drop_bit 5 c AND 0x07 = nr \<and> drop_bit 1 c AND 0x07 = ns \<and> (c AND 0x10 \<noteq> 0) = p)"

lemma i_octets: "nr < 8 \<Longrightarrow> ns < 8 \<Longrightarrow> i_octet_ok nr ns p"
proof -
  have "list_all (\<lambda>nr. list_all (\<lambda>ns. i_octet_ok nr ns True \<and> i_octet_ok nr ns False) (octets 8)) (octets 8)"
    by code_simp
  then have "nr < 8 \<Longrightarrow> ns < 8 \<Longrightarrow> i_octet_ok nr ns True \<and> i_octet_ok nr ns False"
    using below_8 unfolding list_all_iff by blast
  then show "nr < 8 \<Longrightarrow> ns < 8 \<Longrightarrow> i_octet_ok nr ns p"
    by (cases p) simp_all
qed

definition s_octet_ok :: "supervisory_kind \<Rightarrow> u8 \<Rightarrow> bool \<Rightarrow> bool" where
  "s_octet_ok kind nr pf =
     (let c = s_base kind OR push_bit 5 (nr AND 0x07) OR pf_octet pf in
      c AND 0x01 \<noteq> 0 \<and> c AND 0x03 = 0x01 \<and> c AND 0x0F = s_base kind \<and> c AND 0xEF \<noteq> CONTROL_UI
      \<and> drop_bit 5 c AND 0x07 = nr \<and> (c AND 0x10 \<noteq> 0) = pf)"

lemma s_octets: "nr < 8 \<Longrightarrow> s_octet_ok kind nr pf"
proof -
  have "list_all (\<lambda>nr. list_all (\<lambda>k. s_octet_ok k nr True \<and> s_octet_ok k nr False) [Rr, Rnr, Rej, Srej]) (octets 8)"
    by code_simp
  moreover have "kind \<in> set [Rr, Rnr, Rej, Srej]"
    by (cases kind) simp_all
  ultimately have "nr < 8 \<Longrightarrow> s_octet_ok kind nr True \<and> s_octet_ok kind nr False"
    using below_8 unfolding list_all_iff by blast
  then show "nr < 8 \<Longrightarrow> s_octet_ok kind nr pf"
    by (cases pf) simp_all
qed

definition wide_octets_ok :: "u8 \<Rightarrow> bool \<Rightarrow> bool" where
  "wide_octets_ok n p =
     (let c = push_bit 1 (n AND 0x7F); d = push_bit 1 (n AND 0x7F) OR pf_low p in
      c AND 0x01 = 0 \<and> c AND 0x03 \<noteq> 0x03 \<and> drop_bit 1 c AND 0x7F = n \<and>
      drop_bit 1 d AND 0x7F = n \<and> (d AND 0x01 \<noteq> 0) = p)"

lemma wide_octets: "n < 128 \<Longrightarrow> wide_octets_ok n p"
proof -
  have "list_all (\<lambda>n. wide_octets_ok n True \<and> wide_octets_ok n False) (octets 128)"
    by code_simp
  then have "n < 128 \<Longrightarrow> wide_octets_ok n True \<and> wide_octets_ok n False"
    using below_128 unfolding list_all_iff by blast
  then show "n < 128 \<Longrightarrow> wide_octets_ok n p"
    by (cases p) simp_all
qed

lemma s_base_octets: "s_base kind AND 0x01 \<noteq> 0" "s_base kind AND 0x03 = 0x01" "s_base kind AND 0x0F = s_base kind"
  "s_base kind AND 0xEF \<noteq> CONTROL_UI"
  by (cases kind; simp add: control_octets)+

lemma u_base_octets:
  "(u_base kind OR pf_octet pf) AND 0x03 = 0x03" "(u_base kind OR pf_octet pf) AND NOT PF_BIT = u_base kind"
  "((u_base kind OR pf_octet pf) AND 0x10 \<noteq> 0) = pf" "\<not> has_pid (u_base kind OR pf_octet pf)"
  "(u_base kind OR pf_octet pf) AND 0x01 \<noteq> 0"
  by (cases kind; cases pf; simp add: control_octets pf_octet_def has_pid_def)+

lemma ui_octets:
  "(CONTROL_UI OR pf_octet pf) AND 0x03 = 0x03" "(CONTROL_UI OR pf_octet pf) AND NOT PF_BIT = CONTROL_UI"
  "((CONTROL_UI OR pf_octet pf) AND 0x10 \<noteq> 0) = pf" "has_pid (CONTROL_UI OR pf_octet pf)"
  "(CONTROL_UI OR pf_octet pf) AND 0x01 \<noteq> 0"
  by (cases pf; simp add: control_octets pf_octet_def has_pid_def)+

lemma xid_octets:
  "(u_XID OR pf_octet pf) AND 0x03 = 0x03" "(u_XID OR pf_octet pf) AND NOT PF_BIT = u_XID"
  "((u_XID OR pf_octet pf) AND 0x10 \<noteq> 0) = pf" "\<not> has_pid (u_XID OR pf_octet pf)"
  "(u_XID OR pf_octet pf) AND 0x01 \<noteq> 0"
  by (cases pf; simp add: control_octets pf_octet_def has_pid_def)+

section \<open>Round trip\<close>

lemma classify_i: "fr_control f AND 0x01 = 0 \<Longrightarrow> classify_incoming_modulo f ext = Some (IReceived (frame_info_of f ext))"
  by (simp add: classify_incoming_modulo_def Let_def)

lemma classify_s:
  "fr_control f AND 0x01 \<noteq> 0 \<Longrightarrow> fr_control f AND 0x03 = 0x01 \<Longrightarrow> fr_control f AND 0x0F = s_base kind \<Longrightarrow>
   classify_incoming_modulo f ext = Some (s_event kind (frame_info_of f ext))"
  by (cases kind) (simp_all add: classify_incoming_modulo_def Let_def s_RR_def s_RNR_def s_REJ_def s_SREJ_def)

lemma classify_u:
  assumes "fr_control f AND 0x01 \<noteq> 0" "fr_control f AND 0x03 = 0x03"
  shows "fr_control f AND NOT PF_BIT = u_base kind \<Longrightarrow>
      classify_incoming_modulo f ext = Some (u_event kind (frame_info_of f ext))"
    and "fr_control f AND NOT PF_BIT = CONTROL_UI \<Longrightarrow> classify_incoming_modulo f ext = Some (UiReceived (frame_info_of f ext))"
    and "fr_control f AND NOT PF_BIT = u_XID \<Longrightarrow> classify_incoming_modulo f ext = Some (XidReceived (frame_info_of f ext))"
  using assms
  by (cases kind; simp add: classify_incoming_modulo_def Let_def u_SABME_def u_SABM_def u_DISC_def u_DM_def u_UA_def
      u_FRMR_def u_XID_def u_TEST_def CONTROL_UI_def)+

definition heard :: "wire_sink \<Rightarrow> frame_spec \<Rightarrow> bool" where
  "heard ws spec \<longleftrightarrow> (\<exists>bs f ext e. encode_spec ws spec = Some bs \<and>
     decode_with_modulo bs (ws_extended ws) = Inr (f, ext) \<and> classify_incoming_modulo f ext = Some e \<and> heard_as spec e)"

lemma heard_narrow:
  assumes "frame_wf f" "encode_spec ws spec = encode f" "ws_extended ws \<Longrightarrow> is_unnumbered f"
    "classify_incoming_modulo f None = Some e" "heard_as spec e"
  shows "heard ws spec"
  using frame_decodes [OF assms(1)] assms by (cases "ws_extended ws") (auto simp: heard_def)

lemma heard_wide:
  assumes "frame_wf f" "ws_extended ws" "encode_spec ws spec = encode_extended f ext" "\<not> is_unnumbered f"
    "classify_incoming_modulo f (Some ext) = Some e" "heard_as spec e"
  shows "heard ws spec"
  using frame_decodes [OF assms(1)] assms by (auto simp: heard_def)

text \<open>The control octets enter only through what the octet lemmas say of them, so they are variables here.\<close>

lemma i_wide:
  assumes "sink_wf ws" "ws_extended ws" "c AND 0x01 = 0" "c AND 0x03 \<noteq> 0x03" "drop_bit 1 c AND 0x7F = ns"
    and "drop_bit 1 d AND 0x7F = nr" "(d AND 0x01 \<noteq> 0) = p"
    and "encode_spec ws (Information p nr ns pid info) = encode_extended (addressed_frame ws True c (Some pid) info) d"
  shows "heard ws (Information p nr ns pid info)"
proof (rule heard_wide [OF _ assms(2,8)])
  show "frame_wf (addressed_frame ws True c (Some pid) info)"
    using assms by (intro addressed_frame_wf) (simp_all add: has_pid_def)
  show "classify_incoming_modulo (addressed_frame ws True c (Some pid) info) (Some d) =
      Some (IReceived (frame_info_of (addressed_frame ws True c (Some pid) info) (Some d)))"
    using assms by (intro classify_i) simp
qed (use assms in \<open>auto simp: heard_as_def heard_info_def frame_info_of_def nr_with_def ns_with_def poll_final_with_def
    is_unnumbered_def\<close>)

lemma i_narrow:
  assumes "sink_wf ws" "\<not> ws_extended ws" "c AND 0x01 = 0" "drop_bit 5 c AND 0x07 = nr" "drop_bit 1 c AND 0x07 = ns"
    and "(c AND 0x10 \<noteq> 0) = p"
    and "build_frame ws (Information p nr ns pid info) = addressed_frame ws True c (Some pid) info"
  shows "heard ws (Information p nr ns pid info)"
proof (rule heard_narrow)
  show "frame_wf (addressed_frame ws True c (Some pid) info)"
    using assms by (intro addressed_frame_wf) (simp_all add: has_pid_def)
  show "classify_incoming_modulo (addressed_frame ws True c (Some pid) info) None =
      Some (IReceived (frame_info_of (addressed_frame ws True c (Some pid) info) None))"
    using assms by (intro classify_i) simp
  show "encode_spec ws (Information p nr ns pid info) = encode (addressed_frame ws True c (Some pid) info)"
    using assms(2,7) by (simp add: encode_spec_def del: build_frame.simps)
qed (use assms in \<open>auto simp: heard_as_def heard_info_def frame_info_of_def nr_with_def ns_with_def poll_final_with_def\<close>)

lemma s_wide:
  assumes "sink_wf ws" "ws_extended ws" "drop_bit 1 d AND 0x7F = nr" "(d AND 0x01 \<noteq> 0) = pf"
    and "encode_spec ws (Supervisory kind cmd nr pf) = encode_extended (addressed_frame ws cmd (s_base kind) None []) d"
  shows "heard ws (Supervisory kind cmd nr pf)"
proof (rule heard_wide [OF _ assms(2,5)])
  let ?f = "addressed_frame ws cmd (s_base kind) None []"
  show "frame_wf ?f"
    using assms s_base_octets [of kind] by (intro addressed_frame_wf) (simp_all add: has_pid_def)
  show "classify_incoming_modulo ?f (Some d) = Some (s_event kind (frame_info_of ?f (Some d)))"
    using s_base_octets [of kind] by (intro classify_s) simp_all
  show "\<not> is_unnumbered ?f"
    using s_base_octets [of kind] by (simp add: is_unnumbered_def)
  show "heard_as (Supervisory kind cmd nr pf) (s_event kind (frame_info_of ?f (Some d)))"
    using assms(3,4)
    by (cases kind) (auto simp: heard_as_def heard_info_def frame_info_of_def nr_with_def poll_final_with_def)
qed

lemma s_narrow:
  assumes "sink_wf ws" "\<not> ws_extended ws" "c AND 0x01 \<noteq> 0" "c AND 0x03 = 0x01" "c AND 0x0F = s_base kind"
    and "c AND 0xEF \<noteq> CONTROL_UI" "drop_bit 5 c AND 0x07 = nr" "(c AND 0x10 \<noteq> 0) = pf"
    and "build_frame ws (Supervisory kind cmd nr pf) = addressed_frame ws cmd c None []"
  shows "heard ws (Supervisory kind cmd nr pf)"
proof (rule heard_narrow)
  let ?f = "addressed_frame ws cmd c None []"
  show "frame_wf ?f"
    using assms by (intro addressed_frame_wf) (simp_all add: has_pid_def)
  show "classify_incoming_modulo ?f None = Some (s_event kind (frame_info_of ?f None))"
    using assms by (intro classify_s) simp_all
  show "encode_spec ws (Supervisory kind cmd nr pf) = encode ?f"
    using assms(2,9) by (simp add: encode_spec_def del: build_frame.simps)
  show "heard_as (Supervisory kind cmd nr pf) (s_event kind (frame_info_of ?f None))"
    using assms(7,8)
    by (cases kind) (auto simp: heard_as_def heard_info_def frame_info_of_def nr_with_def poll_final_with_def)
qed (use assms(2) in simp)

lemma u_any:
  assumes "sink_wf ws" "c AND 0x03 = 0x03" "(c AND 0x10 \<noteq> 0) = pf" "has_pid c \<longleftrightarrow> pid \<noteq> None"
    and "encode_spec ws spec = encode (addressed_frame ws cmd c pid info)"
    and "classify_incoming_modulo (addressed_frame ws cmd c pid info) None =
           Some (ev (frame_info_of (addressed_frame ws cmd c pid info) None))"
    and "\<And>f. heard_info cmd pf info pid f \<Longrightarrow> heard_as spec (ev f)"
  shows "heard ws spec"
proof (rule heard_narrow [OF _ assms(5)])
  show "frame_wf (addressed_frame ws cmd c pid info)"
    using assms(1,4) by (intro addressed_frame_wf) simp_all
  show "heard_as spec (ev (frame_info_of (addressed_frame ws cmd c pid info) None))"
    using assms(3) by (intro assms(7)) (simp add: heard_info_def frame_info_of_def poll_final_with_def)
qed (use assms in \<open>simp_all add: is_unnumbered_def\<close>)

lemma i_frame_heard:
  assumes "sink_wf ws" "numbers_fit (ws_extended ws) (Information p nr ns pid info)"
  shows "heard ws (Information p nr ns pid info)"
proof (cases "ws_extended ws")
  case True
  then have fit: "nr < 128" "ns < 128"
    using assms(2) by (simp_all add: numbers_fit_def Let_def)
  show ?thesis
    using wide_octets [OF fit(2), of p] wide_octets [OF fit(1), of p] unfolding wide_octets_ok_def Let_def
    by (elim conjE, intro i_wide [OF assms(1) True]) (assumption+, simp only: encode_spec_def True if_True frame_spec.case)
next
  case False
  then have fit: "nr < 8" "ns < 8"
    using assms(2) by (simp_all add: numbers_fit_def Let_def)
  show ?thesis
    using i_octets [OF fit, of p] unfolding i_octet_ok_def Let_def
    by (elim conjE, intro i_narrow [OF assms(1) False]) (assumption+, simp only: build_frame.simps)
qed

lemma s_frame_heard:
  assumes "sink_wf ws" "numbers_fit (ws_extended ws) (Supervisory kind cmd nr pf)"
  shows "heard ws (Supervisory kind cmd nr pf)"
proof (cases "ws_extended ws")
  case True
  then have fit: "nr < 128"
    using assms(2) by (simp_all add: numbers_fit_def Let_def)
  show ?thesis
    using wide_octets [OF fit, of pf] unfolding wide_octets_ok_def Let_def
    by (elim conjE, intro s_wide [OF assms(1) True]) (assumption+, simp only: encode_spec_def True if_True frame_spec.case)
next
  case False
  then have fit: "nr < 8"
    using assms(2) by (simp_all add: numbers_fit_def Let_def)
  show ?thesis
    using s_octets [OF fit, of kind pf] unfolding s_octet_ok_def Let_def
    by (elim conjE, intro s_narrow [OF assms(1) False]) (assumption+, simp only: build_frame.simps)
qed

lemma u_event_frame [simp]: "event_frame (u_event kind f) = Some f"
  by (cases kind) simp_all

lemma u_frame_heard:
  assumes "sink_wf ws" shows "heard ws (Unnumbered kind cmd pf expedited)"
proof -
  note o = u_base_octets [of kind pf]
  have "encode_spec ws (Unnumbered kind cmd pf expedited) = encode (addressed_frame ws cmd (u_base kind OR pf_octet pf) None [])"
    by (simp add: encode_spec_def)
  moreover have "classify_incoming_modulo (addressed_frame ws cmd (u_base kind OR pf_octet pf) None []) None =
      Some (u_event kind (frame_info_of (addressed_frame ws cmd (u_base kind OR pf_octet pf) None []) None))"
    by (intro classify_u) (simp_all only: addressed_frame_sel o not_False_eq_True)
  moreover have "heard_info cmd pf [] None f \<Longrightarrow> heard_as (Unnumbered kind cmd pf expedited) (u_event kind f)" for f
    by (simp add: heard_as_def)
  ultimately show ?thesis
    by (rule u_any [OF assms o(1,3), rotated]) (simp_all only: o(4) HOL.simp_thms)
qed

lemma ui_frame_heard:
  assumes "sink_wf ws" shows "heard ws (Ui cmd pf pid info)"
  using ui_octets [of pf]
  by (intro u_any [OF assms, of "CONTROL_UI OR pf_octet pf" pf "Some pid" _ cmd info UiReceived])
    (simp_all add: encode_spec_def classify_u heard_as_def)

lemma xid_frame_heard:
  assumes "sink_wf ws" shows "heard ws (Xid cmd pf info)"
  using xid_octets [of pf]
  by (intro u_any [OF assms, of "u_XID OR pf_octet pf" pf None _ cmd info XidReceived])
    (simp_all add: encode_spec_def classify_u heard_as_def)

lemma spec_heard: "sink_wf ws \<Longrightarrow> numbers_fit (ws_extended ws) spec \<Longrightarrow> heard ws spec"
  by (cases spec) (simp_all add: i_frame_heard s_frame_heard u_frame_heard ui_frame_heard xid_frame_heard)

text \<open>C28: What one end's runtime asks to send the other end's runtime is told: at either modulo every frame whose sequence
  numbers fit encodes, decodes at that modulo, and is classified as the event of its kind with the same numbers,
  poll/final bit, command bit, PID and information field.\<close>

theorem sent_is_heard:
  assumes "sink_wf ws" "numbers_fit (ws_extended ws) spec"
  shows "\<exists>bs f ext e. encode_spec ws spec = Some bs \<and> decode_with_modulo bs (ws_extended ws) = Inr (f, ext) \<and>
    classify_incoming_modulo f ext = Some e \<and> heard_as spec e"
  using spec_heard [OF assms] unfolding heard_def .

definition sample_wire :: wire_sink where
  "sample_wire = (wire_sink_new (sample_callsign [67, 81] 0) (sample_callsign [65] 7) [])\<lparr>ws_extended := True\<rparr>"

lemma sample_wire_wf: "sink_wf sample_wire"
  using sample_callsigns by (simp add: sink_wf_def sample_wire_def wire_sink_new_def)

theorem sent_is_heard_witness:
  "\<exists>bs f ext e. encode_spec sample_wire (Information True 100 99 0xF0 [1, 2]) = Some bs \<and>
    decode_with_modulo bs True = Inr (f, ext) \<and> classify_incoming_modulo f ext = Some e \<and>
    heard_as (Information True 100 99 0xF0 [1, 2]) e"
  using sent_is_heard [OF sample_wire_wf, of "Information True 100 99 0xF0 [1, 2]"]
  by (simp add: numbers_fit_def sample_wire_def Let_def)

section \<open>Whatever comes over the wire\<close>

lemma wire_event_pid:
  assumes "decode_with_modulo bs extended = Inr (f, ext)" "classify_incoming_modulo f ext = Some e"
  shows "outside_event e"
proof -
  have wf: "fr_pid f \<noteq> None \<longleftrightarrow> has_pid (fr_control f)"
    using decode_inner_sound [OF assms(1) [unfolded decode_with_modulo_def]] by (simp add: frame_wf_def)
  have "with_pid e"
  proof (cases "fr_control f AND 0x01 = 0")
    case True
    then have "e = IReceived (frame_info_of f ext)" "fr_pid f \<noteq> None"
      using assms(2) wf by (simp_all add: classify_i has_pid_def)
    then show ?thesis
      by (simp add: with_pid_def frame_info_of_def)
  next
    case odd: False
    have ui: "fr_pid f \<noteq> None" if "(fr_control f AND NOT PF_BIT) AND 0xEF = CONTROL_UI"
    proof -
      have "(fr_control f AND NOT PF_BIT) AND 0xEF = fr_control f AND 0xEF"
        by (simp add: PF_BIT_def and.assoc)
      then show ?thesis
        using that wf by (simp add: has_pid_def)
    qed
    show ?thesis
      using assms(2) odd ui
      by (auto simp: classify_incoming_modulo_def Let_def with_pid_def frame_info_of_def split: if_splits)
  qed
  moreover have "to_sdl e \<noteq> Sdl_IFramePopsOffQueue"
    using assms(2) by (auto simp: classify_incoming_modulo_def Let_def split: if_splits)
  ultimately show ?thesis
    by (simp add: outside_event_def)
qed

lemma and_7F_less: "w AND 0x7F < 128" for w :: u8
proof -
  have "w AND 0x7F \<le> (0x7F :: u8)"
    by (rule word_and_le1)
  then show ?thesis
    by (simp add: word_le_nat_alt word_less_nat_alt)
qed

lemma and_7_less: "w AND 0x07 < 128" for w :: u8
proof -
  have "w AND 0x07 \<le> (0x07 :: u8)"
    by (rule word_and_le1)
  then show ?thesis
    by (simp add: word_le_nat_alt word_less_nat_alt)
qed

lemma wire_event_small: "classify_incoming_modulo f ext = Some e \<Longrightarrow> small_event e"
proof -
  assume c: "classify_incoming_modulo f ext = Some e"
  have "event_frame e = Some (frame_info_of f ext)"
    using c by (auto simp: classify_incoming_modulo_def Let_def split: if_splits)
  moreover have "small (nr_with f ext)" "small (ns_with f ext)"
    by (simp_all add: small_def nr_with_def ns_with_def and_7F_less and_7_less split: option.split)
  ultimately show ?thesis
    by (simp add: small_event_def frame_info_of_def)
qed

text \<open>What a link is driven by: octets received at a modulo, and the primitives and timers of its own node.\<close>

datatype input = Octets bool bytes | Local event

definition local_event :: "event \<Rightarrow> bool" where
  "local_event e \<longleftrightarrow> event_frame e = None \<and> to_sdl e \<noteq> Sdl_IFramePopsOffQueue"

definition event_of :: "input \<Rightarrow> event option" where
  "event_of i =
     (case i of
        Octets extended bs \<Rightarrow>
          (case decode_with_modulo bs extended of Inl _ \<Rightarrow> None | Inr (f, ext) \<Rightarrow> classify_incoming_modulo f ext)
      | Local e \<Rightarrow> if local_event e then Some e else None)"

definition events_of :: "input list \<Rightarrow> event list" where
  "events_of is = List.map_filter event_of is"

lemma events_of_ok: "list_all outside_event (events_of is)" "list_all small_event (events_of is)"
proof -
  have "outside_event e \<and> small_event e" if "event_of i = Some e" for i e
  proof (cases i)
    case (Octets extended bs)
    with that obtain r where r: "decode_with_modulo bs extended = Inr r" "classify_incoming_modulo (fst r) (snd r) = Some e"
      by (cases "decode_with_modulo bs extended") (simp_all add: event_of_def case_prod_beta)
    obtain f ext where "decode_with_modulo bs extended = Inr (f, ext)" "classify_incoming_modulo f ext = Some e"
      using r by (cases r) simp
    then show ?thesis
      using wire_event_pid wire_event_small by blast
  next
    case (Local e')
    then have "event_frame e = None" "to_sdl e \<noteq> Sdl_IFramePopsOffQueue"
      using that by (auto simp: event_of_def local_event_def split: if_splits)
    then show ?thesis
      by (auto simp: outside_event_def with_pid_def small_event_def split: event.split)
  qed
  then show "list_all outside_event (events_of is)" "list_all small_event (events_of is)"
    by (auto simp: events_of_def list_all_iff map_filter_def)
qed

text \<open>C25: No input makes the data-link runtime panic or loop when the tables pass the check: whatever octets arrive, at
  either modulo, and whatever primitives and timers the node adds, in any order and in any state of the link, every
  event is handled and the transmit queue drained.\<close>

theorem no_input_panics:
  assumes "tables_ok n env" "\<not> ev_checked env"
  shows "\<exists>s' t' out'. post_all n env (events_of is) (s, t, out) = Some (s', t', out')"
  using run_returns [OF assms events_of_ok(1), of "is" "(s, t, out)"] by auto

definition sample_inputs :: "input list" where
  "sample_inputs = [Local (DlDataRequest 0xF0 [1]), Octets False [1, 2, 3], Local T1Expiry]"

theorem no_input_panics_witness:
  "tables_ok 2 sample_env \<and> length (events_of sample_inputs) = 2 \<and>
   (\<exists>s' t' out'. post_all 2 sample_env (events_of sample_inputs) (in_state Connected, no_timers, []) = Some (s', t', out'))"
proof -
  have "\<not> ev_checked sample_env" "length (events_of sample_inputs) = 2"
    by code_simp+
  then show ?thesis
    using no_input_panics [OF sample_tables_ok] sample_tables_ok by blast
qed

text \<open>C29: On an extended link every frame a session sends is understood: after any run over octets received and local
  events, each frame that went out encodes to octets that the peer decodes at modulo 128 and classifies as the event it
  stands for, with the same sequence numbers.\<close>

theorem extended_link_is_understood:
  assumes "post_all n env (events_of is) (in_state st, t, []) = Some (s', t', out)"
    and "sink_wf ws" "ws_extended ws" "SendFrame spec \<in> set out"
  shows "\<exists>bs f ext e. encode_spec ws spec = Some bs \<and> decode_with_modulo bs True = Inr (f, ext) \<and>
    classify_incoming_modulo f ext = Some e \<and> heard_as spec e"
proof -
  have "numbers.inv (in_state st, t, [])"
    by (simp add: numbers.inv_def small_link_def in_state_def session_context_default_def)
  then have "numbers.inv (s', t', out)"
    using numbers.run_keeps [OF _ _ assms(1)] events_of_ok(2) by (auto simp: list_all_iff)
  then have "small_emission (SendFrame spec)"
    using assms(4) by (auto simp: numbers.inv_def small_link_def)
  then have "numbers_fit True spec"
    by (cases spec) (simp_all add: numbers_fit_def small_def Let_def)
  then show ?thesis
    using spec_heard [OF assms(2)] assms(3) by (simp add: heard_def)
qed

theorem extended_link_is_understood_witness:
  "SendFrame (Information False 0 0 0xF0 [1]) \<in>
     set (snd (snd (link_of (post_all 2 sample_env (events_of sample_inputs) sample_link)))) \<and>
   (\<exists>bs f ext e. encode_spec sample_wire (Information False 0 0 0xF0 [1]) = Some bs \<and>
     decode_with_modulo bs True = Inr (f, ext) \<and> classify_incoming_modulo f ext = Some e \<and>
     heard_as (Information False 0 0 0xF0 [1]) e)"
proof -
  let ?r = "post_all 2 sample_env (events_of sample_inputs) sample_link"
  have some: "?r \<noteq> None" and sent: "SendFrame (Information False 0 0 0xF0 [1]) \<in> set (snd (snd (link_of ?r)))"
    by code_simp+
  then have "post_all 2 sample_env (events_of sample_inputs) (in_state Connected, no_timers, []) =
      Some (fst (link_of ?r), fst (snd (link_of ?r)), snd (snd (link_of ?r)))"
    by (auto simp: link_of_def sample_link_def)
  from extended_link_is_understood [OF this sample_wire_wf _ sent] sent show ?thesis
    by (simp add: sample_wire_def)
qed

end
