(* ===== verification/Spec2Isabelle.thy ===== *)
theory Spec2Isabelle
  imports Crc16 Kiss_Decoder Kiss_Encoder Kiss_Reconnect Kiss_Ackmode Ax25_Frame
    Netrom_Nodes Netrom_Inp3_Props Netrom_Connector Netrom_Transfer Netrom_Silence Netrom_Service
    Netrom_Engine_Props Netrom_Scheduler Sdl_Wire
begin

text \<open>
  A verification library for pico-node, an AX.25 and NET/ROM packet-radio node. It models the
  protocol core, the crate \<open>crates/ax25-node-core\<close>; paths below are relative to its \<open>src\<close>.

  \<^bold>\<open>The program and its parts.\<close> A node talks KISS to a radio modem (\<open>kiss/\<close>), exchanges AX.25 frames
  over it (\<open>ax25/\<close>), learns routes from the NODES broadcasts of its neighbours (\<open>netrom/wire\<close>,
  \<open>netrom/routing\<close>) and carries byte streams over virtual circuits whose datagrams travel along those
  routes (\<open>netrom/transport\<close>). Every part is sans-io: a call takes the state, an input and the time,
  and returns the new state and what is to be sent. The models have the same shape: a record per
  struct, a function per method from state to state and result.

  \<^item> \<open>Prelude\<close>, \<open>Text\<close>, \<open>Slots\<close>, \<open>Selection_Sort\<close>: what the standard library does to words, slices, text and
    \<open>[Option<T>; N]\<close> arrays, with the interfaces (locales) \<open>stream_machine\<close>, \<open>fixed_codec\<close>,
    \<open>exact_codec\<close>, \<open>state_machine\<close> and \<open>bounded_map\<close>; \<open>Reactive\<close> adds \<open>reactive\<close>, a machine that answers
    each event and may panic. The components interpret them, and their
    properties rest on the facts of the interpretations.
  \<^item> \<open>Crc16\<close> (\<open>crc.rs\<close>): the checksum against its polynomial reading, error detection, residue.
  \<^item> \<open>Kiss_Frame\<close>, \<open>Kiss_Encoder\<close>, \<open>Kiss_Decoder\<close> (\<open>kiss/frame.rs\<close>, \<open>encoder.rs\<close>, \<open>params.rs\<close>,
    \<open>decoder.rs\<close>): framing, round trip under any chunking, resynchronisation, bounds.
    \<open>Kiss_Reconnect\<close> (\<open>kiss/reconnect.rs\<close>): the backoff schedule. \<open>Kiss_Ackmode\<close> (\<open>kiss/ackmode.rs\<close>): tags,
    echoes and timeouts.
  \<^item> \<open>Ax25_Callsign\<close>, \<open>Ax25_Address\<close>, \<open>Ax25_Frame\<close> (\<open>ax25/callsign.rs\<close>, \<open>address.rs\<close>, \<open>frame.rs\<close>,
    \<open>parse_options.rs\<close>): printing, parsing and both directions of the frame codec at both moduli.
  \<^item> \<open>Netrom_Wire\<close>, \<open>Netrom_Nodes\<close> (\<open>netrom/wire/\<close>): headers, packets, connect fields, broadcasts.
  \<^item> \<open>Netrom_Table\<close>, \<open>Netrom_Routing\<close>, \<open>Netrom_Routing_Props\<close>, \<open>Netrom_Balance\<close> (\<open>netrom/routing/\<close>): the routing
    table, its invariant, and what learning, ageing, link failure and route selection do to the
    abstraction \<open>route_of\<close>. \<open>Netrom_Names\<close>: which callsigns and aliases can get into it.
  \<^item> \<open>Netrom_Rif\<close> (\<open>wire/inp3_rif.rs\<close>), \<open>Netrom_Sntt\<close> (\<open>routing/inp3_sntt.rs\<close>), \<open>Netrom_Inp3\<close>, \<open>Netrom_Inp3_Props\<close>
    (the INP3 half of \<open>routing/table.rs\<close>): routes by measured time, their frames, poison reverse and
    withdrawal. \<open>Netrom_L3rtt\<close>, \<open>Netrom_Engine\<close>, \<open>Netrom_Engine_Props\<close> (\<open>wire/inp3_l3rtt.rs\<close>, \<open>wire/inp3_options.rs\<close>,
    \<open>transport/inp3_engine.rs\<close>): the measuring of link times. \<open>Netrom_Scheduler\<close>
    (\<open>transport/inp3_update_scheduler.rs\<close>): when a change is advertised.
  \<^item> \<open>Netrom_Views\<close> (\<open>routing/table.rs\<close>, \<open>originator.rs\<close>): snapshots, the resolution of connect targets, and what
    is advertised. \<open>Netrom_Service\<close> (\<open>netrom/mod.rs\<close>): the frame tap in front of the table, and what one node
    learns of the broadcast of another.
  \<^item> \<open>Netrom_Circuit\<close>, \<open>Netrom_Circuit_Inv\<close>, \<open>Netrom_Silence\<close> (\<open>transport/circuit.rs\<close>, \<open>circuit_options.rs\<close>,
    \<open>circuit_state.rs\<close>): the circuit, its invariant, its retries. \<open>Netrom_Link\<close>, \<open>Netrom_Transfer\<close>: two
    circuits joined by channels, and reliable delivery.
  \<^item> \<open>Netrom_Manager\<close>, \<open>Netrom_Manager_Props\<close> (\<open>transport/circuit_manager.rs\<close>): the circuits of a node, their
    keys, the demultiplexing of datagrams and the draining of events.
  \<^item> \<open>Netrom_Forward\<close> (\<open>forwarding.rs\<close>, \<open>routing/mod.rs\<close>, \<open>routing/inp3_route_selector.rs\<close>): the next hop of a
    datagram. \<open>Netrom_Connector\<close> (\<open>connector.rs\<close>): circuits, forwarding and interlinks of a node together, and
    the datagram in transit from node to node.

  \<^bold>\<open>The data link\<close> (\<open>sdl/\<close>) interprets state tables that the external crate \<open>ax25sdl\<close> generates. The tables are a
  parameter of the model, the record \<open>environment\<close>: the page of each state, the named subroutines, and whether
  arithmetic is checked for overflow, as the firmware's build does.

  \<^item> \<open>Sdl_Context\<close> (\<open>context.rs\<close>, \<open>quirks.rs\<close>), \<open>Sdl_Event\<close> (\<open>event.rs\<close>, \<open>signal.rs\<close>, \<open>timer.rs\<close>), \<open>Sdl_Guard\<close> (\<open>guard.rs\<close>),
    \<open>Sdl_Tables\<close> (\<open>tx.rs\<close> and the shape of the tables): the data of a session, its events and emissions, and the guards.
  \<^item> \<open>Sdl_Dispatch\<close>, \<open>Sdl_Walker\<close> (\<open>dispatch.rs\<close>, \<open>subroutine.rs\<close>, \<open>loop_exec.rs\<close>): the verbs and the walk over the actions of
    a row, its loops and its subroutines. \<open>Sdl_Session\<close> (\<open>session.rs\<close>): the choice of a row, the fall-back to version 2.0 and
    the drain of the send queue. The calls of subroutines are nested at most as deep as a fuel argument; the
    drain is a \<open>partial_function\<close>, and \<open>None\<close> is a panic, a call nested deeper than that, or a drain that does not end.
  \<^item> \<open>Sdl_Safety\<close>: the locale \<open>link_invariant\<close>, by which a property that every verb keeps is kept by every event under any
    tables; it carries the theorems on provenance and on retransmission. \<open>Sdl_Numbers\<close>: bounds. \<open>Sdl_Total\<close>: an executable
    checker \<open>tables_ok\<close> of the tables, under which, without overflow checks, every event is handled and the
    fuel given to the checker is enough. \<open>Sdl_Props\<close>: the properties, on sample tables.
  \<^item> \<open>Sdl_Wire\<close> (\<open>bridge.rs\<close>): what a session sends and hears on the air.

  \<^bold>\<open>Conventions.\<close> A machine integer is a word of its width, and arithmetic wraps or saturates where
  the source says so; sums of \<open>u64\<close> times wrap as in a release build. \<open>usize\<close> lengths and indices are
  naturals. \<open>None\<close> of a type \<open>'a panicking\<close> is a panic. The loop of \<open>next_free_local_key\<close> runs 65536
  rounds: it visits every key once, which is why it finds a free one whenever fewer than 65536
  circuits exist (\<open>allocate_spec\<close>). The build without the \<open>netrom-compress\<close> feature is modelled.

  \<^bold>\<open>What the lemmas show.\<close> Each component has an invariant preserved by every operation
  (\<open>table_inv\<close>, \<open>circuit_inv\<close>, \<open>manager_inv\<close>, \<open>connector_inv\<close>, \<open>engine_inv\<close>, \<open>scheduler_inv\<close>, and the bounds of the KISS decoder and of the ACKMODE
  correlator), the behaviour of each operation on every branch, and where it has one a contract:
  \<open>bounded_map\<close> for slot arrays, sorting for the route order, a pair of message queues for a pair
  of circuits. The steps of \<open>circuit_step\<close> and \<open>manager_step\<close> are all calls that an owner can make; the
  channels of \<open>link_step\<close> lose datagrams but keep their order and do not duplicate them, which is
  what the transport header's eight-bit sequence numbers rely on.

  \<^bold>\<open>Not modelled.\<close> The data link's state tables, which come from the external crate \<open>ax25sdl\<close>. The session manager, XID,
  the console, the radio and modem accessories. The firmware crates drive hardware. \<open>transport/compression.rs\<close> and \<open>deflate.rs\<close> belong to a
  feature that is off by default.
\<close>

end
